(* ===== verification/Js_Prelude.thy ===== *)
theory Js_Prelude
  imports Complex_Main "HOL-Library.Char_ord" "HOL-Library.List_Lexorder"
begin

text \<open>
  What the components share: the JavaScript values the code stores, strings as lists of code
  units, the insertion-ordered \<open>Map\<close>, decimal numerals, and the named theorem collections.

  \<^item> A string is an Isabelle \<open>string\<close>. The code's strings are sequences of UTF-16 code units;
    the model covers the strings whose code units are below 128 (ASCII), where a code unit, a code
    point and a UTF-8 byte are the same thing. The order on strings (\<open>HOL-Library.List_Lexorder\<close>
    over \<open>HOL-Library.Char_ord\<close>) is the code unit order of the JavaScript operator \<open><\<close>.
  \<^item> A number is a \<open>rat\<close>, read as the decimal it prints as. The code does no rounding arithmetic on
    stored numbers; \<open>NaN\<close> and the infinities are not values of the model.
  \<^item> A \<open>Date\<close> is its millisecond count, an \<open>int\<close>.
  \<^item> A \<open>Map\<close> or a plain object is an association list in insertion order.
\<close>

named_theorems js_map \<open>how the operations of an ordered map act on each other\<close>
named_theorems js_str \<open>facts on JavaScript string operations\<close>

section \<open>Insertion-ordered maps\<close>

type_synonym ('k, 'v) jsmap = "('k \<times> 'v) list"

abbreviation jm_get :: "('k, 'v) jsmap \<Rightarrow> 'k \<Rightarrow> 'v option" where
  "jm_get m k \<equiv> map_of m k"

fun jm_set :: "('k, 'v) jsmap \<Rightarrow> 'k \<Rightarrow> 'v \<Rightarrow> ('k, 'v) jsmap" where
  "jm_set [] k v = [(k, v)]"
| "jm_set ((k', v') # m) k v = (if k' = k then (k, v) # m else (k', v') # jm_set m k v)"

definition jm_delete :: "('k, 'v) jsmap \<Rightarrow> 'k \<Rightarrow> ('k, 'v) jsmap" where
  "jm_delete m k = filter (\<lambda>e. fst e \<noteq> k) m"

definition jm_has :: "('k, 'v) jsmap \<Rightarrow> 'k \<Rightarrow> bool" where
  "jm_has m k = (k \<in> set (map fst m))"

abbreviation jm_keys :: "('k, 'v) jsmap \<Rightarrow> 'k list" where
  "jm_keys m \<equiv> map fst m"

lemma jm_get_set [simp, js_map]: "jm_get (jm_set m k v) k' = (if k' = k then Some v else jm_get m k')"
  by (induction m k v rule: jm_set.induct) auto

lemma jm_get_delete [simp, js_map]: "jm_get (jm_delete m k) k' = (if k' = k then None else jm_get m k')"
  by (induction m) (auto simp: jm_delete_def)

lemma jm_has_get [js_map]: "jm_has m k \<longleftrightarrow> jm_get m k \<noteq> None"
  by (auto simp: jm_has_def map_of_eq_None_iff)

lemma jm_keys_set [js_map]:
  "jm_keys (jm_set m k v) = (if k \<in> set (jm_keys m) then jm_keys m else jm_keys m @ [k])"
  by (induction m k v rule: jm_set.induct) auto

lemma jm_set_fresh [js_map]: "jm_get m k = None \<Longrightarrow> jm_set m k v = m @ [(k, v)]"
  by (induction m k v rule: jm_set.induct) (auto split: if_splits)

lemma jm_keys_delete [simp, js_map]: "jm_keys (jm_delete m k) = filter (\<lambda>k'. k' \<noteq> k) (jm_keys m)"
  by (induction m) (auto simp: jm_delete_def)

lemma jm_delete_absent [js_map]: "jm_get m k = None \<Longrightarrow> jm_delete m k = m"
  by (induction m) (auto simp: jm_delete_def split: if_splits)

lemma distinct_jm_set [intro]: "distinct (jm_keys m) \<Longrightarrow> distinct (jm_keys (jm_set m k v))"
  by (auto simp: jm_keys_set)

lemma distinct_jm_delete [intro]: "distinct (jm_keys m) \<Longrightarrow> distinct (jm_keys (jm_delete m k))"
  by simp

lemma set_jm_delete [simp]: "set (jm_delete m k) = {e \<in> set m. fst e \<noteq> k}"
  by (simp add: jm_delete_def)

lemma set_jm_set_subset: "set (jm_set m k v) \<subseteq> insert (k, v) (set m)"
  by (induction m k v rule: jm_set.induct) auto

lemma length_jm_delete: "distinct (jm_keys m) \<Longrightarrow> jm_get m k \<noteq> None \<Longrightarrow>
  Suc (length (jm_delete m k)) = length m"
proof (induction m)
  case Nil
  then show ?case by simp
next
  case (Cons e m)
  show ?case
  proof (cases "fst e = k")
    case True
    with Cons.prems have "jm_get m k = None"
      by (auto simp: map_of_eq_None_iff)
    then have "jm_delete m k = m" by (rule jm_delete_absent)
    with True show ?thesis by (simp add: jm_delete_def)
  next
    case False
    with Cons show ?thesis by (cases e) (auto simp: jm_delete_def)
  qed
qed

lemma length_jm_set: "length (jm_set m k v) = (if jm_get m k = None then Suc (length m) else length m)"
  by (induction m k v rule: jm_set.induct) auto

lemma map_of_rev_distinct: "distinct (jm_keys m) \<Longrightarrow> map_of (rev m) = map_of m"
  by (subst map_of_inject_set) (simp_all flip: rev_map)

text \<open>
  The contract of a keyed store, as the clients of a \<open>Map\<close> use it: a lookup sees the last
  write of its key, and a removal hides it.
\<close>

locale keyed_store =
  fixes lookup :: "'m \<Rightarrow> 'k \<Rightarrow> 'v option"
    and update :: "'m \<Rightarrow> 'k \<Rightarrow> 'v \<Rightarrow> 'm"
    and remove :: "'m \<Rightarrow> 'k \<Rightarrow> 'm"
  assumes lookup_update: "lookup (update m k v) k' = (if k' = k then Some v else lookup m k')"
    and lookup_remove: "lookup (remove m k) k' = (if k' = k then None else lookup m k')"
begin

lemma lookup_fold_update:
  "lookup (fold (\<lambda>(k, v) m. update m k v) kvs m) k' =
     (case map_of (rev kvs) k' of None \<Rightarrow> lookup m k' | Some v \<Rightarrow> Some v)"
  by (induction kvs arbitrary: m) (auto simp: lookup_update map_add_def split: option.splits)

lemma lookup_fold_remove:
  "lookup (fold (\<lambda>k m. remove m k) ks m) k' = (if k' \<in> set ks then None else lookup m k')"
  by (induction ks arbitrary: m) (auto simp: lookup_remove)

end

interpretation js: keyed_store jm_get jm_set jm_delete
  by unfold_locales auto

section \<open>Strings\<close>

definition is_digit :: "char \<Rightarrow> bool" where
  "is_digit c = (CHR ''0'' \<le> c \<and> c \<le> CHR ''9'')"

definition is_alpha :: "char \<Rightarrow> bool" where
  "is_alpha c = ((CHR ''a'' \<le> c \<and> c \<le> CHR ''z'') \<or> (CHR ''A'' \<le> c \<and> c \<le> CHR ''Z''))"

text \<open>White space as \<open>String.prototype.trim\<close> and the class \<open>\s\<close> see it on ASCII: 9 to 13 and 32.\<close>

definition is_space :: "char \<Rightarrow> bool" where
  "is_space c = (c = CHR '' '' \<or> (9 \<le> (of_char c :: nat) \<and> (of_char c :: nat) \<le> 13))"

definition trim_start :: "string \<Rightarrow> string" where
  "trim_start s = dropWhile is_space s"

definition trim_str :: "string \<Rightarrow> string" where
  "trim_str s = rev (dropWhile is_space (rev (dropWhile is_space s)))"

definition starts_with :: "string \<Rightarrow> string \<Rightarrow> bool" where
  "starts_with s p = (take (length p) s = p)"

definition ends_with :: "string \<Rightarrow> string \<Rightarrow> bool" where
  "ends_with s p = starts_with (rev s) (rev p)"

fun includes_str :: "string \<Rightarrow> string \<Rightarrow> bool" where
  "includes_str [] p = (p = [])"
| "includes_str (c # s) p = (starts_with (c # s) p \<or> includes_str s p)"

text \<open>\<open>s.indexOf(c)\<close> and \<open>s.lastIndexOf(c)\<close> for one character; \<open>None\<close> is \<open>-1\<close>.\<close>

fun index_of :: "string \<Rightarrow> char \<Rightarrow> nat option" where
  "index_of [] c = None"
| "index_of (x # s) c = (if x = c then Some 0 else map_option Suc (index_of s c))"

definition last_index_of :: "string \<Rightarrow> char \<Rightarrow> nat option" where
  "last_index_of s c = map_option (\<lambda>i. length s - Suc i) (index_of (rev s) c)"

definition substring :: "string \<Rightarrow> nat \<Rightarrow> nat \<Rightarrow> string" where
  "substring s i j = take (j - i) (drop i s)"

text \<open>\<open>s.split(c)\<close> for a one-character separator: never empty.\<close>

fun split_char :: "char \<Rightarrow> string \<Rightarrow> string list" where
  "split_char c [] = [[]]"
| "split_char c (x # s) =
     (if x = c then [] # split_char c s
      else case split_char c s of p # ps \<Rightarrow> (x # p) # ps | [] \<Rightarrow> [[x]])"

fun join_str :: "string \<Rightarrow> string list \<Rightarrow> string" where
  "join_str sep [] = []"
| "join_str sep [p] = p"
| "join_str sep (p # ps) = p @ sep @ join_str sep ps"

text \<open>\<open>toLowerCase\<close> and \<open>toUpperCase\<close> on ASCII.\<close>

definition lower_char :: "char \<Rightarrow> char" where
  "lower_char c = (if CHR ''A'' \<le> c \<and> c \<le> CHR ''Z'' then char_of (of_char c + (32 :: nat)) else c)"

definition upper_char :: "char \<Rightarrow> char" where
  "upper_char c = (if CHR ''a'' \<le> c \<and> c \<le> CHR ''z'' then char_of (of_char c - (32 :: nat)) else c)"

abbreviation lower_str :: "string \<Rightarrow> string" where
  "lower_str s \<equiv> map lower_char s"

abbreviation upper_str :: "string \<Rightarrow> string" where
  "upper_str s \<equiv> map upper_char s"

lemma starts_with_append [simp, js_str]: "starts_with (p @ s) p"
  by (simp add: starts_with_def)

lemma starts_with_conv [js_str]: "starts_with s p \<longleftrightarrow> (\<exists>r. s = p @ r)"
  by (metis append_take_drop_id starts_with_def append_eq_conv_conj)

lemma ends_with_conv [js_str]: "ends_with s p \<longleftrightarrow> (\<exists>r. s = r @ p)"
  unfolding ends_with_def starts_with_conv by (metis rev_append rev_rev_ident)

lemma includes_str_conv [js_str]: "includes_str s p \<longleftrightarrow> (\<exists>a b. s = a @ p @ b)"
proof (induction s)
  case Nil
  then show ?case by auto
next
  case (Cons c s)
  show ?case
  proof
    assume "includes_str (c # s) p"
    then consider (here) r where "c # s = p @ r" | (later) a b where "s = a @ p @ b"
      using Cons.IH by (auto simp: starts_with_conv)
    then show "\<exists>a b. c # s = a @ p @ b"
    proof cases
      case here
      then show ?thesis by (metis append_Nil)
    next
      case later
      then show ?thesis by (metis append_Cons)
    qed
  next
    assume "\<exists>a b. c # s = a @ p @ b"
    then obtain a b where ab: "c # s = a @ p @ b" by blast
    note IH = Cons.IH
    show "includes_str (c # s) p"
    proof (cases a)
      case Nil
      with ab have "starts_with (c # s) p" by simp
      then show ?thesis by simp
    next
      case (Cons d a')
      with ab have "s = a' @ p @ b" by simp
      then have "includes_str s p" using IH by blast
      then show ?thesis by simp
    qed
  qed
qed

lemma join_split_char [simp, js_str]: "join_str [c] (split_char c s) = s"
proof (induction s)
  case Nil
  then show ?case by simp
next
  case (Cons x s)
  have ne: "split_char c s \<noteq> []" by (cases s) (auto split: list.splits)
  then obtain p ps where ps: "split_char c s = p # ps" by (cases "split_char c s") auto
  show ?case using Cons ps by (cases ps) auto
qed

lemma split_char_ne [simp]: "split_char c s \<noteq> []"
  by (cases s) (auto split: list.splits)

lemma split_char_no_sep [js_str]: "c \<notin> set s \<Longrightarrow> split_char c s = [s]"
  by (induction s) auto

lemma split_char_append_sep [js_str]:
  "c \<notin> set a \<Longrightarrow> split_char c (a @ c # b) = a # split_char c b"
  by (induction a) auto

lemma split_char_join [js_str]:
  assumes "ps \<noteq> []" and "\<forall>p \<in> set ps. c \<notin> set p"
  shows "split_char c (join_str [c] ps) = ps"
  using assms
proof (induction "[c]" ps rule: join_str.induct)
  case 1
  then show ?case by simp
next
  case (2 p)
  then show ?case by (simp add: split_char_no_sep)
next
  case (3 p q ps)
  then show ?case by (simp add: split_char_append_sep)
qed

section \<open>Decimal numerals\<close>

definition digit_char :: "nat \<Rightarrow> char" where
  "digit_char d = char_of (48 + d)"

definition digit_value :: "char \<Rightarrow> nat" where
  "digit_value c = of_char c - 48"

fun nat_to_dec :: "nat \<Rightarrow> string" where
  "nat_to_dec n = (if n < 10 then [digit_char n] else nat_to_dec (n div 10) @ [digit_char (n mod 10)])"

declare nat_to_dec.simps [simp del]

definition int_to_dec :: "int \<Rightarrow> string" where
  "int_to_dec i = (if i < 0 then CHR ''-'' # nat_to_dec (nat (- i)) else nat_to_dec (nat i))"

definition dec_value :: "string \<Rightarrow> nat" where
  "dec_value s = foldl (\<lambda>a c. a * 10 + digit_value c) 0 s"

text \<open>
  \<open>parseInt(s, 10)\<close>: leading white space and a sign are skipped, then the longest run of digits is
  read; no digit at all is \<open>NaN\<close>, here \<open>None\<close>.
\<close>

definition parse_int :: "string \<Rightarrow> int option" where
  "parse_int s =
     (let t = trim_start s;
          neg = (t \<noteq> [] \<and> hd t = CHR ''-'');
          r = (if t \<noteq> [] \<and> (hd t = CHR ''-'' \<or> hd t = CHR ''+'') then tl t else t);
          ds = takeWhile is_digit r
      in if ds = [] then None else Some (if neg then - int (dec_value ds) else int (dec_value ds)))"

lemma digit_char_digit [simp]: "d < 10 \<Longrightarrow> is_digit (digit_char d)"
  by (simp add: is_digit_def digit_char_def less_eq_char_def)

lemma digit_value_char [simp]: "d < 10 \<Longrightarrow> digit_value (digit_char d) = d"
  by (simp add: digit_value_def digit_char_def)

lemma is_digit_not_space: "is_digit c \<Longrightarrow> \<not> is_space c"
  by (auto simp: is_digit_def is_space_def less_eq_char_def)

lemma is_digit_sign: "is_digit c \<Longrightarrow> c \<noteq> CHR ''-'' \<and> c \<noteq> CHR ''+''"
  by (auto simp: is_digit_def less_eq_char_def)

lemma nat_to_dec_digits: "\<forall>c \<in> set (nat_to_dec n). is_digit c"
proof (induction n rule: nat_to_dec.induct)
  case (1 n)
  then show ?case by (subst nat_to_dec.simps) auto
qed

lemma nat_to_dec_ne [simp]: "nat_to_dec n \<noteq> []"
  by (subst nat_to_dec.simps) simp

lemma dec_value_snoc: "dec_value (s @ [c]) = dec_value s * 10 + digit_value c"
  by (simp add: dec_value_def)

lemma dec_value_nat_to_dec [simp]: "dec_value (nat_to_dec n) = n"
proof (induction n rule: nat_to_dec.induct)
  case (1 n)
  show ?case
  proof (cases "n < 10")
    case True
    then show ?thesis by (subst nat_to_dec.simps) (simp add: dec_value_def)
  next
    case False
    with 1 show ?thesis by (subst nat_to_dec.simps) (simp add: dec_value_snoc)
  qed
qed

lemma takeWhile_digits: "\<forall>c \<in> set s. is_digit c \<Longrightarrow> takeWhile is_digit s = s"
  by (simp add: takeWhile_eq_all_conv)

lemma parse_int_digits:
  assumes "s \<noteq> []" and "\<forall>c \<in> set s. is_digit c"
  shows "parse_int s = Some (int (dec_value s))"
proof -
  obtain c r where s: "s = c # r" using assms(1) by (cases s) auto
  then have c: "is_digit c" using assms(2) by simp
  then have "trim_start s = s" using s is_digit_not_space by (simp add: trim_start_def)
  then show ?thesis
    using s c is_digit_sign [OF c] assms(2)
    by (simp add: parse_int_def Let_def takeWhile_digits)
qed

lemma parse_int_nat_to_dec [simp]: "parse_int (nat_to_dec n) = Some (int n)"
  by (simp add: parse_int_digits nat_to_dec_digits)

lemma nat_to_dec_length: "i < 10 ^ n \<Longrightarrow> 0 < n \<Longrightarrow> length (nat_to_dec i) \<le> n"
proof (induction i arbitrary: n rule: nat_to_dec.induct)
  case (1 i)
  show ?case
  proof (cases "i < 10")
    case False
    then obtain m where n: "n = Suc m" "0 < m" using 1(2,3) by (cases n; cases "n - 1") auto
    then have "i div 10 < 10 ^ m" using 1(2) by (simp add: less_mult_imp_div_less mult.commute)
    with 1(1) False n show ?thesis by (subst nat_to_dec.simps) simp
  qed (use 1(3) in \<open>subst nat_to_dec.simps; simp\<close>)
qed

end
