(* ===== verification/Js_Value.thy ===== *)
theory Js_Value
  imports Js_Prelude
begin

text \<open>
  The values the storage layer and the rule language handle dynamically, with the conversions of
  the language the code applies to them: truthiness, \<open>===\<close>, \<open>String(_)\<close>, \<open>JSON.stringify\<close> and
  \<open>Date.prototype.toISOString\<close>, and object spread.
\<close>

datatype jsval =
    JUndef
  | JNull
  | JBool bool
  | JNum rat
  | JStr string
  | JDate int
  | JArr "jsval list"
  | JObj "(string \<times> jsval) list"

type_synonym jsobj = "(string, jsval) jsmap"

text \<open>Reading a property that is absent gives \<open>undefined\<close>.\<close>

definition field_of :: "jsobj \<Rightarrow> string \<Rightarrow> jsval" where
  "field_of r f = (case jm_get r f of None \<Rightarrow> JUndef | Some v \<Rightarrow> v)"

text \<open>\<open>{ ...base, ...data }\<close>: a key already present keeps its place and takes the new value.\<close>

definition spread :: "jsobj \<Rightarrow> jsobj \<Rightarrow> jsobj" where
  "spread base data = fold (\<lambda>(k, v) m. jm_set m k v) data base"

fun truthy :: "jsval \<Rightarrow> bool" where
  "truthy JUndef = False"
| "truthy JNull = False"
| "truthy (JBool b) = b"
| "truthy (JNum n) = (n \<noteq> 0)"
| "truthy (JStr s) = (s \<noteq> [])"
| "truthy _ = True"

text \<open>
  \<open>===\<close>. Two objects (arrays and dates included) are equal only when they are the same reference;
  the comparisons of the code are with values built by the caller, never with the stored object
  itself, so they are unequal here.
\<close>

fun strict_eq :: "jsval \<Rightarrow> jsval \<Rightarrow> bool" where
  "strict_eq JUndef JUndef = True"
| "strict_eq JNull JNull = True"
| "strict_eq (JBool a) (JBool b) = (a = b)"
| "strict_eq (JNum a) (JNum b) = (a = b)"
| "strict_eq (JStr a) (JStr b) = (a = b)"
| "strict_eq _ _ = False"

section \<open>Numbers and dates as text\<close>

text \<open>
  The decimal a finite number prints as, for magnitudes from 1e-6 up to 1e21, where JavaScript uses
  no exponent: the integer part and, if there is one, the fraction. A fraction of a number of the
  model has at most 20 digits.
\<close>

fun fraction_digits :: "nat \<Rightarrow> rat \<Rightarrow> string" where
  "fraction_digits 0 r = []"
| "fraction_digits (Suc n) r =
     (if r = 0 then []
      else let d = \<lfloor>10 * r\<rfloor> in digit_char (nat d) # fraction_digits n (10 * r - of_int d))"

definition num_to_str :: "rat \<Rightarrow> string" where
  "num_to_str r =
     (let a = \<bar>r\<bar>; i = \<lfloor>a\<rfloor>; f = a - of_int i
      in (if r < 0 then ''-'' else []) @ nat_to_dec (nat i)
         @ (if f = 0 then [] else CHR ''.'' # fraction_digits 20 f))"

fun pad_zero :: "nat \<Rightarrow> string \<Rightarrow> string" where
  "pad_zero 0 s = s"
| "pad_zero (Suc n) s = (if length s < Suc n then CHR ''0'' # pad_zero n s else s)"

text \<open>
  The proleptic Gregorian date of a day number counted from 1970-01-01 (as ECMAScript's
  \<open>YearFromTime\<close>, \<open>MonthFromTime\<close> and \<open>DateFromTime\<close> give it), by eras of 400 years that start on
  the first of March.
\<close>

definition civil_of_days :: "int \<Rightarrow> int \<times> int \<times> int" where
  "civil_of_days z =
     (let z' = z + 719468; era = z' div 146097; doe = z' mod 146097;
          yoe = (doe - doe div 1460 + doe div 36524 - doe div 146096) div 365;
          doy = doe - (365 * yoe + yoe div 4 - yoe div 100);
          mp = (5 * doy + 2) div 153;
          d = doy - (153 * mp + 2) div 5 + 1;
          m = (if mp < 10 then mp + 3 else mp - 9);
          y = yoe + era * 400 + (if m \<le> 2 then 1 else 0)
      in (y, m, d))"

definition pad_int :: "nat \<Rightarrow> int \<Rightarrow> string" where
  "pad_int n i = pad_zero n (nat_to_dec (nat i))"

text \<open>\<open>new Date(ms).toISOString()\<close> for the years 0 to 9999.\<close>

definition iso_string :: "int \<Rightarrow> string" where
  "iso_string ms =
     (case civil_of_days (ms div 86400000) of (y, m, d) \<Rightarrow>
        let t = ms mod 86400000
        in pad_int 4 y @ ''-'' @ pad_int 2 m @ ''-'' @ pad_int 2 d @ ''T''
           @ pad_int 2 (t div 3600000) @ '':'' @ pad_int 2 (t div 60000 mod 60) @ '':''
           @ pad_int 2 (t div 1000 mod 60) @ ''.'' @ pad_int 3 (t mod 1000) @ ''Z'')"

section \<open>String(value) and JSON.stringify\<close>

text \<open>
  \<open>String(value)\<close>. A \<open>Date\<close> prints in the local time zone in an implementation-defined form; that
  text is the parameter \<open>date_str\<close>.
\<close>

fun js_string :: "(int \<Rightarrow> string) \<Rightarrow> jsval \<Rightarrow> string"
  and js_array_items :: "(int \<Rightarrow> string) \<Rightarrow> jsval list \<Rightarrow> string list" where
  "js_string ds JUndef = ''undefined''"
| "js_string ds JNull = ''null''"
| "js_string ds (JBool b) = (if b then ''true'' else ''false'')"
| "js_string ds (JNum n) = num_to_str n"
| "js_string ds (JStr s) = s"
| "js_string ds (JDate t) = ds t"
| "js_string ds (JArr vs) = join_str '','' (js_array_items ds vs)"
| "js_string ds (JObj m) = ''[object Object]''"
| "js_array_items ds [] = []"
| "js_array_items ds (v # vs) =
     (case v of JUndef \<Rightarrow> [] | JNull \<Rightarrow> [] | _ \<Rightarrow> js_string ds v) # js_array_items ds vs"

definition hex_digit :: "nat \<Rightarrow> char" where
  "hex_digit n = (if n < 10 then char_of (48 + n) else char_of (87 + n))"

definition json_escape_char :: "char \<Rightarrow> string" where
  "json_escape_char c =
     (let n = of_char c :: nat in
      if n = 34 then [char_of (92::nat), char_of (34::nat)]
      else if n = 92 then [char_of (92::nat), char_of (92::nat)]
      else if n = 8 then char_of (92::nat) # ''b''
      else if n = 9 then char_of (92::nat) # ''t''
      else if n = 10 then char_of (92::nat) # ''n''
      else if n = 12 then char_of (92::nat) # ''f''
      else if n = 13 then char_of (92::nat) # ''r''
      else if n < 32 then char_of (92::nat) # ''u00'' @ [hex_digit (n div 16), hex_digit (n mod 16)]
      else [c])"

definition json_quote :: "string \<Rightarrow> string" where
  "json_quote s = [char_of (34::nat)] @ concat (map json_escape_char s) @ [char_of (34::nat)]"

text \<open>\<open>JSON.stringify(value)\<close>; \<open>None\<close> is \<open>undefined\<close>, which an object leaves out and an array
  prints as \<open>null\<close>.\<close>

fun json_stringify :: "jsval \<Rightarrow> string option"
  and json_elements :: "jsval list \<Rightarrow> string list"
  and json_members :: "(string \<times> jsval) list \<Rightarrow> string list" where
  "json_stringify JUndef = None"
| "json_stringify JNull = Some ''null''"
| "json_stringify (JBool b) = Some (if b then ''true'' else ''false'')"
| "json_stringify (JNum n) = Some (num_to_str n)"
| "json_stringify (JStr s) = Some (json_quote s)"
| "json_stringify (JDate t) = Some (json_quote (iso_string t))"
| "json_stringify (JArr vs) = Some (''['' @ join_str '','' (json_elements vs) @ '']'')"
| "json_stringify (JObj m) = Some (''{'' @ join_str '','' (json_members m) @ ''}'')"
| "json_elements [] = []"
| "json_elements (v # vs) =
     (case json_stringify v of None \<Rightarrow> ''null'' | Some t \<Rightarrow> t) # json_elements vs"
| "json_members [] = []"
| "json_members ((k, v) # m) =
     (case json_stringify v of None \<Rightarrow> json_members m
      | Some t \<Rightarrow> (json_quote k @ '':'' @ t) # json_members m)"

section \<open>Object spread\<close>

lemma spread_empty [simp]: "spread base [] = base"
  by (simp add: spread_def)

lemma jm_get_spread:
  assumes "distinct (jm_keys data)"
  shows "jm_get (spread base data) k = (case jm_get data k of None \<Rightarrow> jm_get base k | Some v \<Rightarrow> Some v)"
proof -
  have "map_of (rev data) = map_of data"
    using assms by (rule map_of_rev_distinct)
  then show ?thesis
    by (simp add: spread_def js.lookup_fold_update)
qed

lemma field_of_spread:
  "distinct (jm_keys data) \<Longrightarrow>
     field_of (spread base data) k = (if jm_has data k then field_of data k else field_of base k)"
  by (auto simp: field_of_def jm_get_spread jm_has_get split: option.splits)

lemma distinct_spread [intro]: "distinct (jm_keys base) \<Longrightarrow> distinct (jm_keys (spread base data))"
  unfolding spread_def by (induction data arbitrary: base) auto

lemma strict_eq_str [simp]: "strict_eq v (JStr s) \<longleftrightarrow> v = JStr s"
  by (cases v) auto

lemma strict_eq_str_left [simp]: "strict_eq (JStr s) v \<longleftrightarrow> v = JStr s"
  by (cases v) auto

end
