(* ===== verification/Cache_Contract.thy ===== *)
theory Cache_Contract
  imports Js_Value
begin

text \<open>
  What the storage providers rely on of a cache (the interface \<open>CacheOperations\<close> of
  \<open>src/src/core/storage/types.ts\<close>): it may forget an entry at any time, but what it returns for a key
  is what was last stored under it. \<open>view\<close> is what the cache may still return. A client that writes
  through keeps the view inside its own store (\<open>backed\<close>), and then a hit is a correct answer.
\<close>

named_theorems cache_backed \<open>operations that keep a cache inside its backing store\<close>

locale lossy_cache =
  fixes view :: "'c \<Rightarrow> string \<Rightarrow> jsval option"
    and cget :: "int \<Rightarrow> string \<Rightarrow> 'c \<Rightarrow> jsval option \<times> 'c"
    and cset :: "int \<Rightarrow> string \<Rightarrow> jsval \<Rightarrow> int option \<Rightarrow> 'c \<Rightarrow> 'c"
    and cdelete :: "string \<Rightarrow> 'c \<Rightarrow> bool \<times> 'c"
    and chas :: "int \<Rightarrow> string \<Rightarrow> 'c \<Rightarrow> bool \<times> 'c"
    and cdelete_prefix :: "string \<Rightarrow> 'c \<Rightarrow> nat \<times> 'c"
  assumes get_view: "fst (cget now k c) = Some v \<Longrightarrow> view c k = Some v"
    and get_forgets: "view (snd (cget now k c)) \<subseteq>\<^sub>m view c"
    and set_view: "view (cset now k v ttl c) \<subseteq>\<^sub>m (view c)(k \<mapsto> v)"
    and delete_view: "view (snd (cdelete k c)) \<subseteq>\<^sub>m (view c)(k := None)"
    and has_view: "fst (chas now k c) \<Longrightarrow> view c k \<noteq> None"
    and has_forgets: "view (snd (chas now k c)) \<subseteq>\<^sub>m view c"
    and delete_prefix_view:
      "view (snd (cdelete_prefix p c)) \<subseteq>\<^sub>m (view c) |` {k. \<not> starts_with k p}"
begin

definition backed :: "'c \<Rightarrow> (string \<Rightarrow> jsval option) \<Rightarrow> bool" where
  "backed c s \<longleftrightarrow> view c \<subseteq>\<^sub>m s"

lemma backed_hit: "backed c s \<Longrightarrow> fst (cget now k c) = Some v \<Longrightarrow> s k = Some v"
  by (metis backed_def domI get_view map_le_def)

lemma backed_has: "backed c s \<Longrightarrow> fst (chas now k c) \<Longrightarrow> s k \<noteq> None"
  by (metis backed_def domIff has_view map_le_def)

lemma backed_get [cache_backed]: "backed c s \<Longrightarrow> backed (snd (cget now k c)) s"
  unfolding backed_def using get_forgets by (rule map_le_trans)

lemma backed_check [cache_backed]: "backed c s \<Longrightarrow> backed (snd (chas now k c)) s"
  unfolding backed_def using has_forgets by (rule map_le_trans)

lemma backed_set [cache_backed]: "backed c s \<Longrightarrow> backed (cset now k v ttl c) (s(k \<mapsto> v))"
  unfolding backed_def using set_view by (rule map_le_trans) (auto simp: map_le_def)

lemma backed_set_same [cache_backed]: "backed c s \<Longrightarrow> s k = Some v \<Longrightarrow> backed (cset now k v ttl c) s"
  using backed_set [of c s now k v ttl] by (simp add: fun_upd_idem)

lemma backed_delete [cache_backed]: "backed c s \<Longrightarrow> backed (snd (cdelete k c)) (s(k := None))"
  unfolding backed_def using delete_view by (rule map_le_trans) (auto simp: map_le_def)

lemma backed_delete_prefix [cache_backed]:
  "backed c s \<Longrightarrow> (\<And>k. \<not> starts_with k p \<Longrightarrow> s' k = s k) \<Longrightarrow> backed (snd (cdelete_prefix p c)) s'"
  unfolding backed_def using delete_prefix_view
  by (rule map_le_trans) (auto simp: map_le_def restrict_map_def dom_def split: if_splits)

lemma backed_mono: "backed c s \<Longrightarrow> s \<subseteq>\<^sub>m s' \<Longrightarrow> backed c s'"
  unfolding backed_def by (rule map_le_trans)

end

end
