(* ===== verification/Lru_Cache.thy ===== *)
theory Lru_Cache
  imports Cache_Contract "HOL-Library.Sublist"
begin

text \<open>
  The LRU cache with time to live of \<open>src/src/core/storage/cache/lru-cache.ts\<close>. Recency is the
  insertion order of the \<open>Map\<close>: its first key is the least recently used one. Each method is a
  function from the cache (and the reading of \<open>Date.now()\<close> where the method takes one) to its result
  and the cache after it. Durations are in seconds, instants in milliseconds.
\<close>

section \<open>State\<close>

record cache_entry =
  ce_value :: jsval
  ce_expires :: "int option"

record lru_config =
  lc_max_size :: int
  lc_default_ttl :: "int option"
  lc_max_memory_mb :: "int option"
  lc_cleanup_interval :: "int option"

record lru =
  lru_entries :: "(string, cache_entry) jsmap"
  lru_hits :: nat
  lru_misses :: nat
  lru_sets :: nat
  lru_deletes :: nat
  lru_evictions :: nat
  lru_timer :: bool
  lru_config :: lru_config

text \<open>\<open>cleanupInterval && cleanupInterval > 0\<close> starts the clean-up timer.\<close>

definition lru_new :: "lru_config \<Rightarrow> lru" where
  "lru_new cfg =
     \<lparr>lru_entries = [], lru_hits = 0, lru_misses = 0, lru_sets = 0, lru_deletes = 0,
      lru_evictions = 0,
      lru_timer = (case lc_cleanup_interval cfg of None \<Rightarrow> False | Some i \<Rightarrow> 0 < i),
      lru_config = cfg\<rparr>"

text \<open>\<open>entry.expiresAt && Date.now() > entry.expiresAt\<close>: an expiry of 0 is falsy and never passes.\<close>

definition expired :: "int \<Rightarrow> cache_entry \<Rightarrow> bool" where
  "expired now e = (case ce_expires e of None \<Rightarrow> False | Some t \<Rightarrow> t \<noteq> 0 \<and> now > t)"

section \<open>Size estimates\<close>

text \<open>
  \<open>JSON.stringify\<close> of a value of the model never throws, so the fallback of 100 is not reached; and
  every value has one of the listed types, so neither is the default of 50.
\<close>

definition estimate_value_size :: "jsval \<Rightarrow> nat" where
  "estimate_value_size v =
     (case v of
        JNull \<Rightarrow> 8
      | JUndef \<Rightarrow> 8
      | JStr s \<Rightarrow> length s * 2
      | JNum n \<Rightarrow> 8
      | JBool b \<Rightarrow> 4
      | _ \<Rightarrow> (case json_stringify v of None \<Rightarrow> 50 | Some t \<Rightarrow> length t * 2))"

fun memory_usage :: "(string, cache_entry) jsmap \<Rightarrow> nat" where
  "memory_usage [] = 0"
| "memory_usage ((k, e) # es) = length k * 2 + estimate_value_size (ce_value e) + 64 + memory_usage es"

section \<open>Operations\<close>

definition mark_recently_used :: "string \<Rightarrow> cache_entry \<Rightarrow> lru \<Rightarrow> lru" where
  "mark_recently_used k e c =
     c\<lparr>lru_entries := jm_set (jm_delete (lru_entries c) k) k e\<rparr>"

definition evict_lru :: "lru \<Rightarrow> lru" where
  "evict_lru c =
     (case lru_entries c of
        [] \<Rightarrow> c
      | (k, e) # es \<Rightarrow>
          c\<lparr>lru_entries := jm_delete (lru_entries c) k, lru_evictions := Suc (lru_evictions c)\<rparr>)"

lemma length_evict_lru: "lru_entries c \<noteq> [] \<Longrightarrow> length (lru_entries (evict_lru c)) < length (lru_entries c)"
  by (auto simp: evict_lru_def jm_delete_def le_imp_less_Suc split: list.splits)

text \<open>
  \<open>evictByMemory\<close>, called with \<open>maxMemoryMb\<close> set: the loop takes the least recently used entry out
  while the estimate is above the limit and an entry is left.
\<close>

function evict_by_memory :: "int \<Rightarrow> lru \<Rightarrow> lru" where
  "evict_by_memory max_bytes c =
     (if int (memory_usage (lru_entries c)) > max_bytes \<and> lru_entries c \<noteq> []
      then evict_by_memory max_bytes (evict_lru c) else c)"
  by pat_completeness auto
termination
  by (relation "measure (\<lambda>(b, c). length (lru_entries c))") (auto simp: length_evict_lru)

declare evict_by_memory.simps [simp del]

definition lru_get :: "int \<Rightarrow> string \<Rightarrow> lru \<Rightarrow> jsval option \<times> lru" where
  "lru_get now k c =
     (case jm_get (lru_entries c) k of
        None \<Rightarrow> (None, c\<lparr>lru_misses := Suc (lru_misses c)\<rparr>)
      | Some e \<Rightarrow>
          if expired now e
          then (None, c\<lparr>lru_entries := jm_delete (lru_entries c) k, lru_misses := Suc (lru_misses c)\<rparr>)
          else (let c' = mark_recently_used k e c
                in (Some (ce_value e), c'\<lparr>lru_hits := Suc (lru_hits c')\<rparr>)))"

text \<open>\<open>ttlSeconds ?? defaultTTL\<close>, then \<open>ttl ? now + ttl * 1000 : undefined\<close>: a ttl of 0 is none.\<close>

definition expiry_of :: "int \<Rightarrow> int option \<Rightarrow> lru \<Rightarrow> int option" where
  "expiry_of now ttl_seconds c =
     (let ttl = (case ttl_seconds of None \<Rightarrow> lc_default_ttl (lru_config c) | Some t \<Rightarrow> Some t)
      in case ttl of None \<Rightarrow> None | Some t \<Rightarrow> if t = 0 then None else Some (now + t * 1000))"

definition evict_over_memory :: "lru \<Rightarrow> lru" where
  "evict_over_memory c =
     (case lc_max_memory_mb (lru_config c) of
        None \<Rightarrow> c
      | Some mb \<Rightarrow>
          if mb \<noteq> 0 \<and> int (memory_usage (lru_entries c)) > mb * 1024 * 1024
          then evict_by_memory (mb * 1024 * 1024) c else c)"

definition evict_over_size :: "lru \<Rightarrow> lru" where
  "evict_over_size c =
     (if int (length (lru_entries c)) > lc_max_size (lru_config c) then evict_lru c else c)"

definition lru_set :: "int \<Rightarrow> string \<Rightarrow> jsval \<Rightarrow> int option \<Rightarrow> lru \<Rightarrow> lru" where
  "lru_set now k v ttl c =
     (let e = \<lparr>ce_value = v, ce_expires = expiry_of now ttl c\<rparr>;
          c' = (case jm_get (lru_entries c) k of
                  Some _ \<Rightarrow> mark_recently_used k e c
                | None \<Rightarrow>
                    evict_over_memory
                      (evict_over_size (c\<lparr>lru_entries := jm_set (lru_entries c) k e\<rparr>)))
      in c'\<lparr>lru_sets := Suc (lru_sets c')\<rparr>)"

definition lru_delete :: "string \<Rightarrow> lru \<Rightarrow> bool \<times> lru" where
  "lru_delete k c =
     (case jm_get (lru_entries c) k of
        None \<Rightarrow> (False, c)
      | Some e \<Rightarrow>
          (True, c\<lparr>lru_entries := jm_delete (lru_entries c) k, lru_deletes := Suc (lru_deletes c)\<rparr>))"

definition lru_has :: "int \<Rightarrow> string \<Rightarrow> lru \<Rightarrow> bool \<times> lru" where
  "lru_has now k c =
     (case jm_get (lru_entries c) k of
        None \<Rightarrow> (False, c)
      | Some e \<Rightarrow>
          if expired now e then (False, c\<lparr>lru_entries := jm_delete (lru_entries c) k\<rparr>) else (True, c))"

definition lru_clear :: "lru \<Rightarrow> lru" where
  "lru_clear c = c\<lparr>lru_entries := [], lru_sets := 0, lru_hits := 0, lru_misses := 0,
                   lru_deletes := 0, lru_evictions := 0\<rparr>"

text \<open>
  \<open>getStats\<close>. The hit rate is rounded to two decimals with \<open>Math.round\<close> (half up).
\<close>

record lru_stats =
  st_hits :: nat
  st_misses :: nat
  st_entries :: nat
  st_memory :: nat
  st_hit_rate :: rat

definition lru_get_stats :: "lru \<Rightarrow> lru_stats" where
  "lru_get_stats c =
     (let total = lru_hits c + lru_misses c;
          rate = (if total > 0 then (of_nat (lru_hits c) / of_nat total) * 100 else 0 :: rat)
      in \<lparr>st_hits = lru_hits c, st_misses = lru_misses c, st_entries = length (lru_entries c),
          st_memory = memory_usage (lru_entries c),
          st_hit_rate = of_int \<lfloor>rate * 100 + 1 / 2\<rfloor> / 100\<rparr>)"

definition lru_cleanup :: "int \<Rightarrow> lru \<Rightarrow> lru" where
  "lru_cleanup now c =
     (let expired_keys = map fst (filter (\<lambda>(k, e). expired now e) (lru_entries c))
      in c\<lparr>lru_entries := fold (\<lambda>k m. jm_delete m k) expired_keys (lru_entries c)\<rparr>)"

definition lru_destroy :: "lru \<Rightarrow> lru" where
  "lru_destroy c = c\<lparr>lru_timer := False, lru_entries := []\<rparr>"

definition lru_keys_by_prefix :: "string \<Rightarrow> lru \<Rightarrow> string list" where
  "lru_keys_by_prefix p c = filter (\<lambda>k. starts_with k p) (jm_keys (lru_entries c))"

fun delete_counting :: "string list \<Rightarrow> nat \<Rightarrow> lru \<Rightarrow> nat \<times> lru" where
  "delete_counting [] n c = (n, c)"
| "delete_counting (k # ks) n c =
     (case lru_delete k c of (deleted, c') \<Rightarrow> delete_counting ks (if deleted then Suc n else n) c')"

definition lru_delete_by_prefix :: "string \<Rightarrow> lru \<Rightarrow> nat \<times> lru" where
  "lru_delete_by_prefix p c = delete_counting (lru_keys_by_prefix p c) 0 c"

definition lru_get_keys :: "lru \<Rightarrow> string list" where
  "lru_get_keys c = jm_keys (lru_entries c)"

definition lru_size :: "lru \<Rightarrow> nat" where
  "lru_size c = length (lru_entries c)"

definition lru_is_full :: "lru \<Rightarrow> bool" where
  "lru_is_full c = (int (length (lru_entries c)) \<ge> lc_max_size (lru_config c))"

section \<open>What each operation does to the entries\<close>

lemma keys_mark [simp]:
  "jm_keys (lru_entries (mark_recently_used k e c)) =
     filter (\<lambda>k'. k' \<noteq> k) (jm_keys (lru_entries c)) @ [k]"
  by (simp add: mark_recently_used_def jm_keys_set)

lemma get_mark [simp]:
  "jm_get (lru_entries (mark_recently_used k e c)) k' =
     (if k' = k then Some e else jm_get (lru_entries c) k')"
  by (simp add: mark_recently_used_def)

lemma mark_config [simp]: "lru_config (mark_recently_used k e c) = lru_config c"
  by (simp add: mark_recently_used_def)

lemma evict_lru_config [simp]: "lru_config (evict_lru c) = lru_config c"
  by (simp add: evict_lru_def split: list.splits prod.splits)

lemma evict_lru_entries:
  "distinct (jm_keys (lru_entries c)) \<Longrightarrow> lru_entries (evict_lru c) = tl (lru_entries c)"
  by (force simp: evict_lru_def jm_delete_def intro!: filter_True split: list.splits)

lemma evict_lru_get: "jm_get (lru_entries (evict_lru c)) \<subseteq>\<^sub>m jm_get (lru_entries c)"
  by (auto simp: evict_lru_def map_le_def split: list.splits)

lemma evict_by_memory_config [simp]: "lru_config (evict_by_memory b c) = lru_config c"
proof (induction b c rule: evict_by_memory.induct)
  case (1 b c)
  then show ?case by (subst evict_by_memory.simps) simp
qed

lemma evict_by_memory_get: "jm_get (lru_entries (evict_by_memory b c)) \<subseteq>\<^sub>m jm_get (lru_entries c)"
proof (induction b c rule: evict_by_memory.induct)
  case (1 b c)
  then show ?case
    by (subst evict_by_memory.simps) (auto intro: map_le_trans evict_lru_get)
qed

lemma evict_by_memory_drop:
  "distinct (jm_keys (lru_entries c)) \<Longrightarrow>
     \<exists>n. lru_entries (evict_by_memory b c) = drop n (lru_entries c)"
proof (induction b c rule: evict_by_memory.induct)
  case (1 b c)
  show ?case
  proof (cases "int (memory_usage (lru_entries c)) > b \<and> lru_entries c \<noteq> []")
    case True
    have tl: "lru_entries (evict_lru c) = tl (lru_entries c)"
      using 1(2) by (rule evict_lru_entries)
    then have "distinct (jm_keys (lru_entries (evict_lru c)))"
      using 1(2) by (simp add: map_tl distinct_tl)
    with 1(1) [OF True] obtain n where "lru_entries (evict_by_memory b (evict_lru c)) = drop n (tl (lru_entries c))"
      unfolding tl by blast
    with True have "lru_entries (evict_by_memory b c) = drop (Suc n) (lru_entries c)"
      by (simp add: evict_by_memory.simps [of b c] drop_Suc)
    then show ?thesis ..
  next
    case False
    then have "lru_entries (evict_by_memory b c) = drop 0 (lru_entries c)"
      by (subst evict_by_memory.simps) auto
    then show ?thesis ..
  qed
qed

lemma evict_by_memory_bound:
  "0 \<le> b \<Longrightarrow> int (memory_usage (lru_entries (evict_by_memory b c))) \<le> b"
proof (induction b c rule: evict_by_memory.induct)
  case (1 b c)
  then show ?case
    by (subst evict_by_memory.simps) (auto simp: not_less)
qed

lemma evict_over_size_config [simp]: "lru_config (evict_over_size c) = lru_config c"
  by (simp add: evict_over_size_def)

lemma evict_over_memory_config [simp]: "lru_config (evict_over_memory c) = lru_config c"
  by (simp add: evict_over_memory_def split: option.splits)

lemma evict_over_size_get: "jm_get (lru_entries (evict_over_size c)) \<subseteq>\<^sub>m jm_get (lru_entries c)"
  by (simp add: evict_over_size_def evict_lru_get)

lemma evict_over_memory_get: "jm_get (lru_entries (evict_over_memory c)) \<subseteq>\<^sub>m jm_get (lru_entries c)"
  by (simp add: evict_over_memory_def evict_by_memory_get split: option.splits)

text \<open>
  On distinct keys both evictions take entries off the front, the least recently used end.
\<close>

lemma evict_over_memory_drop:
  "distinct (jm_keys (lru_entries c)) \<Longrightarrow> \<exists>n. lru_entries (evict_over_memory c) = drop n (lru_entries c)"
  using evict_by_memory_drop [of c]
  by (auto simp: evict_over_memory_def intro: exI [of _ "0 :: nat"] split: option.splits)

lemma evict_over_size_drop:
  "distinct (jm_keys (lru_entries c)) \<Longrightarrow>
     lru_entries (evict_over_size c) =
       (if int (length (lru_entries c)) > lc_max_size (lru_config c) then tl (lru_entries c) else lru_entries c)"
  by (simp add: evict_over_size_def evict_lru_entries)

lemma lru_set_fresh_entries:
  assumes "distinct (jm_keys (lru_entries c))" and "jm_get (lru_entries c) k = None"
  shows "\<exists>n. lru_entries (lru_set now k v ttl c) =
           drop n (lru_entries c @ [(k, \<lparr>ce_value = v, ce_expires = expiry_of now ttl c\<rparr>)]) \<and>
         (int (length (lru_entries c)) \<ge> lc_max_size (lru_config c) \<longrightarrow> 0 < n)"
proof -
  let ?e = "\<lparr>ce_value = v, ce_expires = expiry_of now ttl c\<rparr>"
  let ?c1 = "c\<lparr>lru_entries := lru_entries c @ [(k, ?e)]\<rparr>"
  have fresh: "jm_set (lru_entries c) k ?e = lru_entries c @ [(k, ?e)]"
    using assms(2) by (rule jm_set_fresh)
  have d1: "distinct (jm_keys (lru_entries ?c1))"
    using assms by (auto simp: map_of_eq_None_iff)
  define m where "m = (if int (length (lru_entries c)) \<ge> lc_max_size (lru_config c) then 1 else 0 :: nat)"
  have size: "lru_entries (evict_over_size ?c1) = drop m (lru_entries ?c1)"
    using evict_over_size_drop [OF d1] by (auto simp: m_def drop_Suc simp del: drop_append)
  then have "distinct (jm_keys (lru_entries (evict_over_size ?c1)))"
    using d1 by (simp add: distinct_drop flip: drop_map del: drop_append map_append)
  then obtain n where "lru_entries (evict_over_memory (evict_over_size ?c1)) =
      drop n (lru_entries (evict_over_size ?c1))"
    using evict_over_memory_drop by blast
  then have "lru_entries (lru_set now k v ttl c) = drop (n + m) (lru_entries c @ [(k, ?e)])"
    using assms(2) fresh size by (simp add: lru_set_def Let_def del: drop_append)
  moreover have "int (length (lru_entries c)) \<ge> lc_max_size (lru_config c) \<longrightarrow> 0 < n + m"
    by (simp add: m_def)
  ultimately show ?thesis by blast
qed

section \<open>The cache contract\<close>

definition lru_view :: "lru \<Rightarrow> string \<Rightarrow> jsval option" where
  "lru_view c k = map_option ce_value (jm_get (lru_entries c) k)"

lemma lru_view_mono:
  "jm_get (lru_entries c) \<subseteq>\<^sub>m jm_get (lru_entries d) \<Longrightarrow> lru_view c \<subseteq>\<^sub>m lru_view d"
  by (fastforce simp: lru_view_def map_le_def dom_def)

lemma lru_view_stats [simp]: "lru_view (c\<lparr>lru_sets := n\<rparr>) = lru_view c"
  by (simp add: fun_eq_iff lru_view_def)

lemma lru_get_entries:
  "jm_get (lru_entries (snd (lru_get now k c))) \<subseteq>\<^sub>m jm_get (lru_entries c)"
  by (auto simp: lru_get_def map_le_def Let_def split: option.splits)

lemma lru_get_view: "fst (lru_get now k c) = Some v \<Longrightarrow> lru_view c k = Some v"
  by (auto simp: lru_get_def lru_view_def Let_def split: option.splits if_splits)

lemma lru_set_view: "lru_view (lru_set now k v ttl c) \<subseteq>\<^sub>m (lru_view c)(k \<mapsto> v)"
proof (cases "jm_get (lru_entries c) k")
  case None
  let ?e = "\<lparr>ce_value = v, ce_expires = expiry_of now ttl c\<rparr>"
  let ?c1 = "c\<lparr>lru_entries := jm_set (lru_entries c) k ?e\<rparr>"
  have "lru_view (lru_set now k v ttl c) = lru_view (evict_over_memory (evict_over_size ?c1))"
    using None by (simp add: lru_set_def Let_def)
  moreover have "lru_view (evict_over_memory (evict_over_size ?c1)) \<subseteq>\<^sub>m lru_view ?c1"
    by (rule lru_view_mono) (rule map_le_trans [OF evict_over_memory_get evict_over_size_get])
  moreover have "lru_view ?c1 = (lru_view c)(k \<mapsto> v)"
    by (auto simp: fun_eq_iff lru_view_def)
  ultimately show ?thesis by simp
next
  case (Some e)
  then show ?thesis
    by (auto simp: lru_set_def lru_view_def map_le_def Let_def)
qed

lemma lru_delete_view: "lru_view (snd (lru_delete k c)) = (lru_view c)(k := None)"
  by (auto simp: fun_eq_iff lru_delete_def lru_view_def split: option.splits)

lemma lru_has_view: "fst (lru_has now k c) \<Longrightarrow> lru_view c k \<noteq> None"
  by (auto simp: lru_has_def lru_view_def split: option.splits)

lemma lru_has_entries: "jm_get (lru_entries (snd (lru_has now k c))) \<subseteq>\<^sub>m jm_get (lru_entries c)"
  by (auto simp: lru_has_def map_le_def split: option.splits)

lemma delete_counting_get:
  "jm_get (lru_entries (snd (delete_counting ks n c))) k' =
     (if k' \<in> set ks then None else jm_get (lru_entries c) k')"
proof (induction ks arbitrary: n c)
  case Nil
  then show ?case by simp
next
  case (Cons k ks)
  have "jm_get (lru_entries (snd (lru_delete k c))) k' = (if k' = k then None else jm_get (lru_entries c) k')"
    by (auto simp: lru_delete_def split: option.splits)
  with Cons show ?case by (auto split: prod.splits)
qed

lemma lru_delete_by_prefix_get:
  "jm_get (lru_entries (snd (lru_delete_by_prefix p c))) k' =
     (if starts_with k' p then None else jm_get (lru_entries c) k')"
  by (auto simp: lru_delete_by_prefix_def delete_counting_get lru_keys_by_prefix_def map_of_eq_None_iff)

interpretation lru_cache: lossy_cache lru_view lru_get lru_set lru_delete lru_has lru_delete_by_prefix
proof
  fix now k p v ttl and c :: lru
  show "fst (lru_get now k c) = Some v \<Longrightarrow> lru_view c k = Some v"
    by (rule lru_get_view)
  show "lru_view (snd (lru_get now k c)) \<subseteq>\<^sub>m lru_view c"
    by (rule lru_view_mono) (rule lru_get_entries)
  show "lru_view (lru_set now k v ttl c) \<subseteq>\<^sub>m (lru_view c)(k \<mapsto> v)"
    by (rule lru_set_view)
  show "lru_view (snd (lru_delete k c)) \<subseteq>\<^sub>m (lru_view c)(k := None)"
    by (simp add: lru_delete_view)
  show "fst (lru_has now k c) \<Longrightarrow> lru_view c k \<noteq> None"
    by (rule lru_has_view)
  show "lru_view (snd (lru_has now k c)) \<subseteq>\<^sub>m lru_view c"
    by (rule lru_view_mono) (rule lru_has_entries)
  show "lru_view (snd (lru_delete_by_prefix p c)) \<subseteq>\<^sub>m (lru_view c) |` {k. \<not> starts_with k p}"
    by (auto simp: lru_view_def map_le_def restrict_map_def lru_delete_by_prefix_get split: if_splits)
qed

section \<open>Runs of the cache\<close>

datatype lru_op =
    OpGet int string
  | OpSet int string jsval "int option"
  | OpDelete string
  | OpHas int string
  | OpClear
  | OpCleanup int
  | OpDestroy
  | OpDeleteByPrefix string

fun lru_apply :: "lru_op \<Rightarrow> lru \<Rightarrow> lru" where
  "lru_apply (OpGet now k) c = snd (lru_get now k c)"
| "lru_apply (OpSet now k v ttl) c = lru_set now k v ttl c"
| "lru_apply (OpDelete k) c = snd (lru_delete k c)"
| "lru_apply (OpHas now k) c = snd (lru_has now k c)"
| "lru_apply OpClear c = lru_clear c"
| "lru_apply (OpCleanup now) c = lru_cleanup now c"
| "lru_apply OpDestroy c = lru_destroy c"
| "lru_apply (OpDeleteByPrefix p) c = snd (lru_delete_by_prefix p c)"

text \<open>The key an operation uses: the one it stores, or the one it returns an entry for.\<close>

fun used_keys :: "lru_op \<Rightarrow> lru \<Rightarrow> string list" where
  "used_keys (OpGet now k) c = (if fst (lru_get now k c) = None then [] else [k])"
| "used_keys (OpSet now k v ttl) c = [k]"
| "used_keys _ c = []"

text \<open>\<open>lru_run cfg used c\<close>: some run from the new cache ends in \<open>c\<close>, having used the keys of \<open>used\<close> in
  that order.\<close>

inductive lru_run :: "lru_config \<Rightarrow> string list \<Rightarrow> lru \<Rightarrow> bool" where
  start: "lru_run cfg [] (lru_new cfg)"
| step: "lru_run cfg used c \<Longrightarrow> lru_run cfg (used @ used_keys op c) (lru_apply op c)"

inductive_cases lru_run_startE: "lru_run cfg [] c"

definition lru_inv :: "lru_config \<Rightarrow> string list \<Rightarrow> lru \<Rightarrow> bool" where
  "lru_inv cfg used c \<longleftrightarrow>
     lru_config c = cfg \<and>
     subseq (jm_keys (lru_entries c)) (remdups used) \<and>
     int (length (lru_entries c)) \<le> lc_max_size cfg"

lemma subseq_set: "subseq xs ys \<Longrightarrow> set xs \<subseteq> set ys"
  by (induction rule: list_emb.induct) auto

lemma subseq_distinct: "subseq xs ys \<Longrightarrow> distinct ys \<Longrightarrow> distinct xs"
  by (induction rule: list_emb.induct) (auto dest: list_emb_set)

lemma lru_inv_distinct: "lru_inv cfg used c \<Longrightarrow> distinct (jm_keys (lru_entries c))"
  unfolding lru_inv_def by (metis distinct_remdups subseq_distinct)

lemma remdups_snoc: "remdups (xs @ [k]) = filter (\<lambda>x. x \<noteq> k) (remdups xs) @ [k]"
  by (induction xs) auto

lemma delete_counting_keys:
  "jm_keys (lru_entries (snd (delete_counting ks n c))) =
     filter (\<lambda>k. k \<notin> set ks) (jm_keys (lru_entries c))"
proof (induction ks arbitrary: n c)
  case Nil
  then show ?case by simp
next
  case (Cons k ks)
  have "jm_keys (lru_entries (snd (lru_delete k c))) = filter (\<lambda>k'. k' \<noteq> k) (jm_keys (lru_entries c))"
    by (auto simp: lru_delete_def map_of_eq_None_iff intro!: filter_True [symmetric] split: option.splits)
  with Cons show ?case by (auto split: prod.splits intro: filter_cong)
qed

lemma delete_counting_config [simp]: "lru_config (snd (delete_counting ks n c)) = lru_config c"
  by (induction ks n c rule: delete_counting.induct)
     (auto simp: lru_delete_def split: prod.splits option.splits)

lemma jm_keys_fold_delete:
  "jm_keys (fold (\<lambda>k m. jm_delete m k) ks m) = filter (\<lambda>k. k \<notin> set ks) (jm_keys m)"
  by (induction ks arbitrary: m) (auto intro: filter_cong)

text \<open>Dropping entries without using a key keeps the invariant.\<close>

lemma lru_inv_shrink:
  assumes "lru_inv cfg used c" and "lru_config d = lru_config c"
    and "subseq (jm_keys (lru_entries d)) (jm_keys (lru_entries c))"
  shows "lru_inv cfg used d"
proof -
  have "length (lru_entries d) \<le> length (lru_entries c)"
    using list_emb_length [OF assms(3)] by simp
  then show ?thesis
    using assms by (auto simp: lru_inv_def intro: subseq_order.trans)
qed

text \<open>Using a key moves it to the end.\<close>

lemma subseq_use:
  assumes "subseq ks (remdups used)"
  shows "subseq (filter (\<lambda>k'. k' \<noteq> k) ks @ [k]) (remdups (used @ [k]))"
  unfolding remdups_snoc using assms by (auto intro: list_emb_append_mono subseq_filter)

lemma lru_inv_use:
  assumes "lru_inv cfg used c" and "lru_config d = lru_config c"
    and "subseq (jm_keys (lru_entries d)) (filter (\<lambda>k'. k' \<noteq> k) (jm_keys (lru_entries c)) @ [k])"
    and "int (length (lru_entries d)) \<le> lc_max_size cfg"
  shows "lru_inv cfg (used @ [k]) d"
  using assms subseq_order.trans [OF assms(3) subseq_use]
  by (auto simp: lru_inv_def)

lemma lru_inv_get:
  assumes "lru_inv cfg used c"
  shows "lru_inv cfg (used @ used_keys (OpGet now k) c) (snd (lru_get now k c))"
proof (cases "jm_get (lru_entries c) k")
  case None
  with assms show ?thesis by (simp add: lru_get_def lru_inv_def)
next
  case (Some e)
  show ?thesis
  proof (cases "expired now e")
    case True
    with Some have "lru_inv cfg used (snd (lru_get now k c))"
      by (intro lru_inv_shrink [OF assms]) (auto simp: lru_get_def)
    with Some True show ?thesis by (simp add: lru_get_def)
  next
    case False
    have len: "Suc (length (jm_delete (lru_entries c) k)) = length (lru_entries c)"
      using Some lru_inv_distinct [OF assms] by (intro length_jm_delete) auto
    have "lru_inv cfg (used @ [k]) (snd (lru_get now k c))"
      using Some False len assms
      by (intro lru_inv_use [OF assms])
         (auto simp: lru_get_def Let_def lru_inv_def mark_recently_used_def jm_keys_set length_jm_set)
    with Some False show ?thesis by (simp add: lru_get_def Let_def)
  qed
qed

lemma lru_inv_set:
  assumes inv: "lru_inv cfg used c" and max: "0 \<le> lc_max_size cfg"
  shows "lru_inv cfg (used @ [k]) (lru_set now k v ttl c)"
proof (cases "jm_get (lru_entries c) k")
  case (Some e)
  have len: "Suc (length (jm_delete (lru_entries c) k)) = length (lru_entries c)"
    using Some lru_inv_distinct [OF inv] by (intro length_jm_delete) auto
  show ?thesis
    using Some len inv
    by (intro lru_inv_use [OF inv])
       (auto simp: lru_set_def Let_def lru_inv_def mark_recently_used_def jm_keys_set length_jm_set)
next
  case None
  let ?e = "\<lparr>ce_value = v, ce_expires = expiry_of now ttl c\<rparr>"
  obtain n where n: "lru_entries (lru_set now k v ttl c) = drop n (lru_entries c @ [(k, ?e)])"
      "int (length (lru_entries c)) \<ge> lc_max_size (lru_config c) \<longrightarrow> 0 < n"
    using lru_set_fresh_entries [OF lru_inv_distinct [OF inv] None] by blast
  have keys: "jm_keys (lru_entries (lru_set now k v ttl c)) = drop n (jm_keys (lru_entries c) @ [k])"
    by (simp add: n(1) flip: drop_map del: drop_append)
  have notin: "filter (\<lambda>k'. k' \<noteq> k) (jm_keys (lru_entries c)) = jm_keys (lru_entries c)"
    using None by (auto simp: map_of_eq_None_iff intro!: filter_True)
  have cfg: "lru_config (lru_set now k v ttl c) = lru_config c"
    using None by (simp add: lru_set_def Let_def)
  have "int (length (lru_entries (lru_set now k v ttl c))) \<le> lc_max_size cfg"
    using inv max n(2) by (auto simp: n(1) lru_inv_def simp del: drop_append)
  then show ?thesis
    using inv cfg by (intro lru_inv_use [OF inv]) (auto simp: keys notin simp del: drop_append)
qed

lemma lru_inv_apply:
  assumes "lru_inv cfg used c" and "0 \<le> lc_max_size cfg"
  shows "lru_inv cfg (used @ used_keys op c) (lru_apply op c)"
proof (cases op)
  case (OpGet now k)
  with assms show ?thesis using lru_inv_get by simp
next
  case (OpSet now k v ttl)
  with assms show ?thesis by (simp add: lru_inv_set)
next
  case (OpDelete k)
  then show ?thesis
    by (auto simp: lru_delete_def intro!: lru_inv_shrink [OF assms(1)] split: option.splits)
next
  case (OpHas now k)
  then show ?thesis
    by (auto simp: lru_has_def intro!: lru_inv_shrink [OF assms(1)] split: option.splits)
next
  case OpClear
  then show ?thesis
    by (auto simp: lru_clear_def intro!: lru_inv_shrink [OF assms(1)])
next
  case (OpCleanup now)
  then show ?thesis
    by (auto simp: lru_cleanup_def Let_def jm_keys_fold_delete intro!: lru_inv_shrink [OF assms(1)])
next
  case OpDestroy
  then show ?thesis
    by (auto simp: lru_destroy_def intro!: lru_inv_shrink [OF assms(1)])
next
  case (OpDeleteByPrefix p)
  then show ?thesis
    by (auto simp: lru_delete_by_prefix_def delete_counting_keys intro!: lru_inv_shrink [OF assms(1)])
qed

lemma lru_run_inv: "lru_run cfg used c \<Longrightarrow> 0 \<le> lc_max_size cfg \<Longrightarrow> lru_inv cfg used c"
proof (induction rule: lru_run.induct)
  case (start cfg)
  then show ?case by (simp add: lru_inv_def lru_new_def)
next
  case (step cfg used c op)
  then show ?case by (simp add: lru_inv_apply)
qed

lemma subseq_remdups_order:
  "subseq (k # ks) (remdups xs) \<Longrightarrow> k' \<in> set ks \<Longrightarrow>
     \<exists>a b. xs = a @ k # b \<and> k \<notin> set b \<and> k' \<in> set b"
proof (induction xs)
  case Nil
  then show ?case by simp
next
  case (Cons x xs)
  consider (dup) "x \<in> set xs" | (here) "x \<notin> set xs" "x = k" | (later) "x \<notin> set xs" "x \<noteq> k"
    by blast
  then show ?case
  proof cases
    case dup
    with Cons obtain a b where "xs = a @ k # b" "k \<notin> set b" "k' \<in> set b" by auto
    then have "x # xs = (x # a) @ k # b" by simp
    with \<open>k \<notin> set b\<close> \<open>k' \<in> set b\<close> show ?thesis by blast
  next
    case here
    with Cons.prems have "subseq ks (remdups xs)" by simp
    with Cons.prems(2) have "k' \<in> set xs"
      using subseq_set by fastforce
    moreover have "x # xs = [] @ k # xs" using here by simp
    ultimately show ?thesis using here by blast
  next
    case later
    with Cons.prems have "subseq (k # ks) (remdups xs)"
      by (simp add: subseq_Cons2_neq)
    from Cons.IH [OF this Cons.prems(2)] obtain a b
      where "xs = a @ k # b" "k \<notin> set b" "k' \<in> set b" by (elim exE conjE)
    then have "x # xs = (x # a) @ k # b" by simp
    with \<open>k \<notin> set b\<close> \<open>k' \<in> set b\<close> show ?thesis by blast
  qed
qed

lemma lru_set_fresh_keys:
  assumes "distinct (jm_keys (lru_entries c))" and "jm_get (lru_entries c) k = None"
  shows "\<exists>n. jm_keys (lru_entries (lru_set now k v ttl c)) = drop n (jm_keys (lru_entries c) @ [k])"
proof -
  obtain n where "lru_entries (lru_set now k v ttl c) =
      drop n (lru_entries c @ [(k, \<lparr>ce_value = v, ce_expires = expiry_of now ttl c\<rparr>)])"
    using lru_set_fresh_entries [OF assms] by blast
  then have "jm_keys (lru_entries (lru_set now k v ttl c)) = drop n (jm_keys (lru_entries c) @ [k])"
    by (simp flip: drop_map del: drop_append)
  then show ?thesis ..
qed

lemma evict_over_memory_bound:
  assumes "lc_max_memory_mb (lru_config c) = Some mb" and "0 < mb"
  shows "int (memory_usage (lru_entries (evict_over_memory c))) \<le> mb * 1024 * 1024"
  using assms evict_by_memory_bound [of "mb * 1024 * 1024" c]
  by (auto simp: evict_over_memory_def)

lemma lru_set_no_memory_limit:
  assumes "distinct (jm_keys (lru_entries c))"
    and "1 \<le> lc_max_size (lru_config c)" and "int (length (lru_entries c)) \<le> lc_max_size (lru_config c)"
    and "lc_max_memory_mb (lru_config c) = None"
  shows "jm_get (lru_entries (lru_set now k v ttl c)) k =
           Some \<lparr>ce_value = v, ce_expires = expiry_of now ttl c\<rparr>"
proof (cases "jm_get (lru_entries c) k")
  case (Some e)
  then show ?thesis by (simp add: lru_set_def Let_def)
next
  case None
  let ?e = "\<lparr>ce_value = v, ce_expires = expiry_of now ttl c\<rparr>"
  let ?c1 = "c\<lparr>lru_entries := lru_entries c @ [(k, ?e)]\<rparr>"
  have d: "distinct (jm_keys (lru_entries ?c1))"
    using assms(1) None by (auto simp: map_of_eq_None_iff)
  have fresh: "jm_set (lru_entries c) k ?e = lru_entries c @ [(k, ?e)]"
    using None by (rule jm_set_fresh)
  have "k \<notin> set (jm_keys (tl (lru_entries c)))"
    using None by (cases "lru_entries c") (auto simp: map_of_eq_None_iff split: if_splits)
  moreover have "int (length (lru_entries ?c1)) > lc_max_size (lru_config ?c1) \<Longrightarrow> lru_entries c \<noteq> []"
    using assms(2) by auto
  ultimately have "jm_get (lru_entries (evict_over_size ?c1)) k = Some ?e"
    using evict_over_size_drop [OF d] None
    by (auto simp: map_add_def tl_append split: list.splits option.splits if_splits dest: map_of_SomeD)
  moreover have "evict_over_memory (evict_over_size ?c1) = evict_over_size ?c1"
    using assms(4) by (simp add: evict_over_memory_def)
  ultimately show ?thesis
    using None fresh by (simp add: lru_set_def Let_def)
qed

lemma fold_jm_delete_filter:
  "fold (\<lambda>k m. jm_delete m k) ks m = filter (\<lambda>e. fst e \<notin> set ks) m"
  by (induction ks arbitrary: m) (auto simp: jm_delete_def intro!: filter_cong)

lemma lru_cleanup_filter:
  assumes "distinct (jm_keys (lru_entries c))"
  shows "lru_entries (lru_cleanup now c) = filter (\<lambda>(k, e). \<not> expired now e) (lru_entries c)"
proof -
  have "fst x \<notin> set (map fst (filter (\<lambda>(k, e). expired now e) (lru_entries c))) \<longleftrightarrow>
        (case x of (k, e) \<Rightarrow> \<not> expired now e)" if "x \<in> set (lru_entries c)" for x
    using that assms by (auto simp: eq_key_imp_eq_value image_iff split: prod.splits)
      (metis eq_key_imp_eq_value prod.collapse fst_conv snd_conv)+
  then show ?thesis
    by (simp add: lru_cleanup_def Let_def fold_jm_delete_filter cong: filter_cong)
qed

section \<open>Properties\<close>

text \<open>C3: In every reachable state of the cache the keys are distinct and there are at most
  \<open>maxSize\<close> entries: whatever mixture of operations ran before, a \<open>set\<close> that would exceed the
  capacity evicts.\<close>

theorem lru_bounded:
  assumes "lru_run cfg used c" and "0 \<le> lc_max_size cfg"
  shows "distinct (jm_keys (lru_entries c)) \<and> int (length (lru_entries c)) \<le> lc_max_size cfg"
  using lru_run_inv [OF assms] lru_inv_distinct by (auto simp: lru_inv_def)

definition demo_config :: lru_config where
  "demo_config = \<lparr>lc_max_size = 2, lc_default_ttl = None, lc_max_memory_mb = Some 1,
                  lc_cleanup_interval = None\<rparr>"

definition demo_state :: lru where
  "demo_state = lru_set 0 ''b'' (JNum 2) None (lru_set 0 ''a'' (JNum 1) (Some 5) (lru_new demo_config))"

lemma demo_run: "lru_run demo_config [''a'', ''b''] demo_state"
  using lru_run.step [OF lru_run.step [OF lru_run.start, where op = "OpSet 0 ''a'' (JNum 1) (Some 5)"],
    where op = "OpSet 0 ''b'' (JNum 2) None", of demo_config]
  by (simp add: demo_state_def)

theorem lru_bounded_witness:
  "distinct (jm_keys (lru_entries demo_state)) \<and> int (length (lru_entries demo_state)) \<le> 2"
  using lru_bounded [OF demo_run] by (simp add: demo_config_def)

text \<open>C2: Eviction takes the least recently used entries. When storing a new key \<open>k\<close> drops \<open>victim\<close> and
  leaves \<open>kept\<close> (whether for the entry count or for the memory limit), then in the history of uses
  the last use of \<open>victim\<close> lies before a use of \<open>kept\<close>.\<close>

theorem lru_evicts_least_recent:
  assumes run: "lru_run cfg used c" and max: "0 \<le> lc_max_size cfg"
    and fresh: "k \<notin> set (jm_keys (lru_entries c))"
    and victim: "victim \<in> set (jm_keys (lru_entries c))"
    and gone: "victim \<notin> set (jm_keys (lru_entries (lru_set now k v ttl c)))"
    and kept: "kept \<in> set (jm_keys (lru_entries (lru_set now k v ttl c)))" and "kept \<noteq> k"
  shows "\<exists>earlier later. used = earlier @ victim # later \<and> victim \<notin> set later \<and> kept \<in> set later"
proof -
  note inv = lru_run_inv [OF run max]
  let ?ks = "jm_keys (lru_entries c)"
  obtain n where n: "jm_keys (lru_entries (lru_set now k v ttl c)) = drop n (?ks @ [k])"
    using lru_set_fresh_keys [OF lru_inv_distinct [OF inv], of k] fresh
    unfolding map_of_eq_None_iff image_set by blast
  have "kept \<in> set (drop n ?ks)"
    using kept \<open>kept \<noteq> k\<close> in_set_dropD by (fastforce simp: n split: if_splits)
  moreover have "victim \<notin> set (drop n ?ks)"
    using gone by (simp add: n)
  with victim have "victim \<in> set (take n ?ks)"
    by (metis Un_iff append_take_drop_id set_append)
  then obtain xs ys where "take n ?ks = xs @ victim # ys" by (meson split_list)
  then have ks: "?ks = xs @ victim # (ys @ drop n ?ks)"
    by (metis append_Cons append_assoc append_take_drop_id)
  have "subseq ?ks (remdups used)" using inv by (simp add: lru_inv_def)
  then have "subseq (victim # (ys @ drop n ?ks)) (remdups used)"
    by (subst (asm) ks) (rule subseq_order.trans [OF list_emb_append2 [OF subseq_order.refl]])
  ultimately show ?thesis
    by (intro subseq_remdups_order [of victim "ys @ drop n ?ks"]) auto
qed

theorem lru_evicts_least_recent_witness:
  "\<exists>earlier later. [''a'', ''b''] = earlier @ ''a'' # later \<and> ''a'' \<notin> set later \<and> ''b'' \<in> set later"
proof (rule lru_evicts_least_recent [OF demo_run, where k = "''c''" and kept = "''b''" and now = 1
      and v = JNull and ttl = None])
  show "0 \<le> lc_max_size demo_config" by (simp add: demo_config_def)
  show "''c'' \<notin> set (jm_keys (lru_entries demo_state))" by code_simp
  show "''a'' \<in> set (jm_keys (lru_entries demo_state))" by code_simp
  show "''a'' \<notin> set (jm_keys (lru_entries (lru_set 1 ''c'' JNull None demo_state)))" by code_simp
  show "''b'' \<in> set (jm_keys (lru_entries (lru_set 1 ''c'' JNull None demo_state)))" by code_simp
qed simp

text \<open>With a memory limit configured, storing a new key leaves the estimated memory use at or
  below the limit (in bytes), even if every other entry, or the new one, has to go.\<close>

theorem lru_set_memory_bound:
  assumes "lc_max_memory_mb (lru_config c) = Some mb" and "0 < mb"
    and "k \<notin> set (jm_keys (lru_entries c))"
  shows "int (memory_usage (lru_entries (lru_set now k v ttl c))) \<le> mb * 1024 * 1024"
proof -
  have "jm_get (lru_entries c) k = None" using assms(3) by (simp add: map_of_eq_None_iff)
  then show ?thesis
    using assms(1,2) by (auto simp: lru_set_def Let_def intro!: evict_over_memory_bound [THEN order_trans])
qed

theorem lru_set_memory_bound_witness:
  "int (memory_usage (lru_entries (lru_set 1 ''c'' JNull None demo_state))) \<le> 1 * 1024 * 1024"
proof (rule lru_set_memory_bound)
  show "lc_max_memory_mb (lru_config demo_state) = Some 1" by code_simp
  show "''c'' \<notin> set (jm_keys (lru_entries demo_state))" by code_simp
qed simp

text \<open>The memory limit is not enforced when \<open>set\<close> replaces the value of a key already present:
  one entry can then hold more than the whole limit.\<close>

theorem lru_update_ignores_memory_limit:
  "\<exists>c now k v. lru_run demo_config [k] c \<and> k \<in> set (jm_keys (lru_entries c)) \<and>
     int (memory_usage (lru_entries (lru_set now k v None c))) > 1 * 1024 * 1024"
proof -
  let ?c = "lru_set 0 ''a'' JNull None (lru_new demo_config)"
  let ?v = "JStr (replicate 600000 CHR ''x'')"
  have c: "lru_entries ?c = [(''a'', \<lparr>ce_value = JNull, ce_expires = None\<rparr>)]" by code_simp
  have d: "lru_config ?c = demo_config" by code_simp
  have run: "lru_run demo_config [''a''] ?c"
    using lru_run.step [OF lru_run.start, where op = "OpSet 0 ''a'' JNull None", of demo_config] by simp
  have "lru_entries (lru_set 0 ''a'' ?v None ?c) = [(''a'', \<lparr>ce_value = ?v, ce_expires = None\<rparr>)]"
    using c d unfolding lru_set_def [of 0 _ _ _ ?c]
    by (simp add: mark_recently_used_def jm_delete_def expiry_of_def demo_config_def)
  then have "memory_usage (lru_entries (lru_set 0 ''a'' ?v None ?c)) = 1200066"
    by (simp add: estimate_value_size_def)
  moreover have "''a'' \<in> set (jm_keys (lru_entries ?c))" using c by simp
  ultimately show ?thesis using run by (intro exI [of _ ?c] exI [of _ 0] exI [of _ "''a''"] exI [of _ ?v]) simp
qed

text \<open>A value read back. In a reachable state of a cache with room for one entry and no memory
  limit, \<open>set\<close> followed by \<open>get\<close> of the same key returns the stored value at every instant up to and
  including its expiry, and always if it has none.\<close>

theorem lru_get_after_set:
  assumes run: "lru_run cfg used c" and "1 \<le> lc_max_size cfg" and "lc_max_memory_mb cfg = None"
    and live: "\<not> expired now' \<lparr>ce_value = v, ce_expires = expiry_of now ttl c\<rparr>"
  shows "fst (lru_get now' k (lru_set now k v ttl c)) = Some v"
proof -
  have inv: "lru_inv cfg used c" using lru_run_inv [OF run] assms(2) by simp
  have "jm_get (lru_entries (lru_set now k v ttl c)) k =
      Some \<lparr>ce_value = v, ce_expires = expiry_of now ttl c\<rparr>"
    using inv assms(2,3) by (intro lru_set_no_memory_limit) (auto simp: lru_inv_distinct lru_inv_def)
  with live show ?thesis by (simp add: lru_get_def Let_def)
qed

definition unbounded_config :: lru_config where
  "unbounded_config = \<lparr>lc_max_size = 1, lc_default_ttl = Some 60, lc_max_memory_mb = None,
                       lc_cleanup_interval = Some 60\<rparr>"

theorem lru_get_after_set_witness:
  "fst (lru_get 61000 ''k'' (lru_set 1000 ''k'' (JBool True) None (lru_new unbounded_config))) = Some (JBool True)"
proof (rule lru_get_after_set [OF lru_run.start])
  show "\<not> expired 61000 \<lparr>ce_value = JBool True, ce_expires = expiry_of 1000 None (lru_new unbounded_config)\<rparr>"
    by code_simp
qed (simp_all add: unbounded_config_def)

text \<open>\<open>cleanup\<close> keeps exactly the entries that have not expired, in their order, in every
  reachable state.\<close>

theorem lru_cleanup_exact:
  assumes "lru_run cfg used c" and "0 \<le> lc_max_size cfg"
  shows "lru_entries (lru_cleanup now c) = filter (\<lambda>(k, e). \<not> expired now e) (lru_entries c)"
  using lru_cleanup_filter lru_inv_distinct lru_run_inv [OF assms] by blast

theorem lru_cleanup_exact_witness:
  "jm_keys (lru_entries (lru_cleanup 6000 demo_state)) = [''b'']"
proof -
  have "lru_entries (lru_cleanup 6000 demo_state) =
      filter (\<lambda>(k, e). \<not> expired 6000 e) (lru_entries demo_state)"
    by (rule lru_cleanup_exact [OF demo_run]) (simp add: demo_config_def)
  also have "jm_keys \<dots> = [''b'']" by code_simp
  finally show ?thesis .
qed

end
