(* ===== verification/Memory_Provider.thy ===== *)
theory Memory_Provider
  imports Lru_Cache
begin

text \<open>
  The in-memory storage provider of \<open>src/src/core/storage/providers/memory.ts\<close> with the query and
  error types of \<open>src/src/core/storage/types.ts\<close>: tables of records, an optional write-through
  \<open>LRUCache\<close>, and the transaction object. A method is a function from the provider to its result
  (\<open>Inl\<close> the thrown error) and the provider after it. The clock reading \<open>now\<close> and the ids of
  \<open>randomUUID\<close> are arguments; a method runs as one step, on one clock reading.
\<close>

section \<open>Types\<close>

datatype storage_error =
    ValidationError string
  | ConnectionError string
  | TransactionError string
  | NotFoundError string
  | ConflictError string

text \<open>
  Runtime functions whose result depends on the host's locale data or time zone, or whose full text
  grammar the storage layer does not otherwise need: \<open>localeCompare\<close>, the conversion of a string to
  a number (\<open>None\<close> is \<open>NaN\<close>), and a \<open>Date\<close> as text.
\<close>

record platform =
  pf_locale_compare :: "string \<Rightarrow> string \<Rightarrow> int"
  pf_to_number :: "string \<Rightarrow> rat option"
  pf_date_string :: "int \<Rightarrow> string"

datatype query_operator = QEq | QNe | QGt | QGte | QLt | QLte | QIn | QNin | QLike | QIlike

record query_condition =
  qc_field :: string
  qc_operator :: query_operator
  qc_value :: jsval

datatype logical_operator = LAnd | LOr

record query_filter =
  qf_conditions :: "query_condition list"
  qf_operator :: "logical_operator option"

datatype sort_direction = Asc | Desc

record sort_order =
  so_field :: string
  so_direction :: sort_direction

record pagination =
  pg_limit :: "int option"
  pg_offset :: "int option"

record query_options =
  qo_filter :: "query_filter option"
  qo_sort :: "sort_order list option"
  qo_pagination :: "pagination option"

record query_result =
  qr_data :: "jsobj list"
  qr_total :: nat
  qr_has_more :: bool
  qr_next_cursor :: "string option"

datatype column_type = CString | CNumber | CBoolean | CDate | CJson

record column_definition =
  cd_name :: string
  cd_type :: column_type
  cd_nullable :: bool
  cd_unique :: bool

record table_schema =
  ts_name :: string
  ts_columns :: "column_definition list"
  ts_timestamps :: bool

record mem_table =
  mt_schema :: table_schema
  mt_records :: "(string, jsobj) jsmap"

record provider =
  pv_tables :: "(string, mem_table) jsmap"
  pv_cache :: "lru option"

record cache_settings =
  cs_max_size :: "int option"
  cs_ttl_seconds :: "int option"
  cs_max_memory_mb :: "int option"

definition empty_query :: query_options where
  "empty_query = \<lparr>qo_filter = None, qo_sort = None, qo_pagination = None\<rparr>"

section \<open>Filters\<close>

definition compare_values :: "platform \<Rightarrow> jsval \<Rightarrow> jsval \<Rightarrow> rat" where
  "compare_values pf a b =
     (if a = JNull \<and> b = JNull then 0
      else if a = JNull then -1
      else if b = JNull then 1
      else if a = JUndef \<and> b = JUndef then 0
      else if a = JUndef then -1
      else if b = JUndef then 1
      else (case (a, b) of
              (JNum x, JNum y) \<Rightarrow> x - y
            | (JStr x, JStr y) \<Rightarrow> of_int (pf_locale_compare pf x y)
            | (JDate x, JDate y) \<Rightarrow> of_int (x - y)
            | _ \<Rightarrow> of_int (pf_locale_compare pf (js_string (pf_date_string pf) a)
                                              (js_string (pf_date_string pf) b))))"

text \<open>\<open>value.replace(/%/g, '')\<close>.\<close>

definition strip_percent :: "string \<Rightarrow> string" where
  "strip_percent s = filter (\<lambda>c. c \<noteq> CHR ''%'') s"

definition matches_condition :: "platform \<Rightarrow> jsobj \<Rightarrow> query_condition \<Rightarrow> bool" where
  "matches_condition pf r c =
     (let rv = field_of r (qc_field c); v = qc_value c
      in case qc_operator c of
           QEq \<Rightarrow> strict_eq rv v
         | QNe \<Rightarrow> \<not> strict_eq rv v
         | QGt \<Rightarrow> compare_values pf rv v > 0
         | QGte \<Rightarrow> compare_values pf rv v \<ge> 0
         | QLt \<Rightarrow> compare_values pf rv v < 0
         | QLte \<Rightarrow> compare_values pf rv v \<le> 0
         | QIn \<Rightarrow> (case v of JArr vs \<Rightarrow> list_ex (strict_eq rv) vs | _ \<Rightarrow> False)
         | QNin \<Rightarrow> (case v of JArr vs \<Rightarrow> \<not> list_ex (strict_eq rv) vs | _ \<Rightarrow> False)
         | QLike \<Rightarrow> (case (rv, v) of (JStr s, JStr t) \<Rightarrow> includes_str s (strip_percent t) | _ \<Rightarrow> False)
         | QIlike \<Rightarrow>
             (case (rv, v) of
                (JStr s, JStr t) \<Rightarrow> includes_str (lower_str s) (strip_percent (lower_str t))
              | _ \<Rightarrow> False))"

definition matches_filter :: "platform \<Rightarrow> query_filter \<Rightarrow> jsobj \<Rightarrow> bool" where
  "matches_filter pf f r =
     (case (case qf_operator f of None \<Rightarrow> LAnd | Some op \<Rightarrow> op) of
        LAnd \<Rightarrow> list_all (matches_condition pf r) (qf_conditions f)
      | LOr \<Rightarrow> list_ex (matches_condition pf r) (qf_conditions f))"

section \<open>Sorting and paging\<close>

text \<open>
  The relational operator on the types \<open>find\<close> compares directly (string, number, \<open>Date\<close>): two
  strings by code units, anything else as numbers, where \<open>NaN\<close> makes the comparison false.
\<close>

definition sort_comparable :: "jsval \<Rightarrow> bool" where
  "sort_comparable v = (case v of JStr _ \<Rightarrow> True | JNum _ \<Rightarrow> True | JDate _ \<Rightarrow> True | _ \<Rightarrow> False)"

definition numeric_value :: "platform \<Rightarrow> jsval \<Rightarrow> rat option" where
  "numeric_value pf v =
     (case v of JNum n \<Rightarrow> Some n | JDate t \<Rightarrow> Some (of_int t) | JStr s \<Rightarrow> pf_to_number pf s | _ \<Rightarrow> None)"

definition js_less :: "platform \<Rightarrow> jsval \<Rightarrow> jsval \<Rightarrow> bool" where
  "js_less pf a b =
     (case (a, b) of
        (JStr s, JStr t) \<Rightarrow> s < t
      | _ \<Rightarrow> (case (numeric_value pf a, numeric_value pf b) of
                (Some x, Some y) \<Rightarrow> x < y
              | _ \<Rightarrow> False))"

definition sort_comparison :: "platform \<Rightarrow> jsval \<Rightarrow> jsval \<Rightarrow> int" where
  "sort_comparison pf a b =
     (if sort_comparable a \<and> sort_comparable b
      then (if js_less pf a b then -1 else if js_less pf b a then 1 else 0)
      else (let s = js_string (pf_date_string pf) a; t = js_string (pf_date_string pf) b
            in if s < t then -1 else if t < s then 1 else 0))"

fun compare_records :: "platform \<Rightarrow> sort_order list \<Rightarrow> jsobj \<Rightarrow> jsobj \<Rightarrow> int" where
  "compare_records pf [] a b = 0"
| "compare_records pf (o1 # os) a b =
     (let c = sort_comparison pf (field_of a (so_field o1)) (field_of b (so_field o1))
      in if c \<noteq> 0 then (if so_direction o1 = Desc then - c else c) else compare_records pf os a b)"

text \<open>
  \<open>Array.prototype.sort\<close> is stable; for a comparator that is a total preorder the result is
  determined, and insertion computes it.
\<close>

fun insert_by :: "('a \<Rightarrow> 'a \<Rightarrow> int) \<Rightarrow> 'a \<Rightarrow> 'a list \<Rightarrow> 'a list" where
  "insert_by cmp x [] = [x]"
| "insert_by cmp x (y # ys) = (if cmp x y \<le> 0 then x # y # ys else y # insert_by cmp x ys)"

definition sort_by :: "('a \<Rightarrow> 'a \<Rightarrow> int) \<Rightarrow> 'a list \<Rightarrow> 'a list" where
  "sort_by cmp xs = foldr (insert_by cmp) xs []"

text \<open>\<open>xs.slice(from, to)\<close>: a negative bound counts from the end.\<close>

definition slice_bound :: "int \<Rightarrow> nat \<Rightarrow> nat" where
  "slice_bound i n = (if i < 0 then nat (int n + i) else min (nat i) n)"

definition js_slice :: "int \<Rightarrow> int \<Rightarrow> 'a list \<Rightarrow> 'a list" where
  "js_slice i j xs =
     (let a = slice_bound i (length xs); b = slice_bound j (length xs) in take (b - a) (drop a xs))"

section \<open>Reads\<close>

definition get_table :: "string \<Rightarrow> provider \<Rightarrow> storage_error + mem_table" where
  "get_table name p =
     (case jm_get (pv_tables p) name of
        None \<Rightarrow> Inl (NotFoundError (''Table '' @ [CHR 0x27] @ name @ [CHR 0x27] @ '' not found''))
      | Some t \<Rightarrow> Inr t)"

definition cache_key :: "string \<Rightarrow> string \<Rightarrow> string" where
  "cache_key table i = table @ '':'' @ i"

definition cache_record :: "int \<Rightarrow> string \<Rightarrow> jsobj \<Rightarrow> provider \<Rightarrow> provider" where
  "cache_record now key r p =
     p\<lparr>pv_cache := map_option (lru_set now key (JObj r) None) (pv_cache p)\<rparr>"

definition uncache :: "string \<Rightarrow> provider \<Rightarrow> provider" where
  "uncache key p = p\<lparr>pv_cache := map_option (\<lambda>c. snd (lru_delete key c)) (pv_cache p)\<rparr>"

definition find_by_id ::
  "int \<Rightarrow> string \<Rightarrow> string \<Rightarrow> provider \<Rightarrow> (storage_error + jsval option) \<times> provider" where
  "find_by_id now table i p =
     (let probe = (case pv_cache p of
                     None \<Rightarrow> (None, p)
                   | Some c \<Rightarrow> (case lru_get now (cache_key table i) c of
                                 (hit, c') \<Rightarrow> (hit, p\<lparr>pv_cache := Some c'\<rparr>)))
      in case probe of (hit, p1) \<Rightarrow>
        (if (case hit of None \<Rightarrow> False | Some v \<Rightarrow> truthy v) then (Inr hit, p1)
         else (case get_table table p1 of
                 Inl e \<Rightarrow> (Inl e, p1)
               | Inr t \<Rightarrow>
                   (case jm_get (mt_records t) i of
                      Some r \<Rightarrow> (Inr (Some (JObj r)), cache_record now (cache_key table i) r p1)
                    | None \<Rightarrow> (Inr None, p1)))))"

definition page_of :: "pagination option \<Rightarrow> jsobj list \<Rightarrow> query_result" where
  "page_of pg rs =
     (let total = length rs;
          offset = (case pg of None \<Rightarrow> 0 | Some q \<Rightarrow> (case pg_offset q of None \<Rightarrow> 0 | Some i \<Rightarrow> i));
          limit = (case pg of None \<Rightarrow> 0 | Some q \<Rightarrow> (case pg_limit q of None \<Rightarrow> 0 | Some i \<Rightarrow> i))
      in if limit = 0
         then \<lparr>qr_data = rs, qr_total = total, qr_has_more = False, qr_next_cursor = None\<rparr>
         else let more = offset + limit < int total
              in \<lparr>qr_data = js_slice offset (offset + limit) rs, qr_total = total, qr_has_more = more,
                  qr_next_cursor = (if more then Some (int_to_dec (offset + limit)) else None)\<rparr>)"

definition select_records :: "platform \<Rightarrow> query_options \<Rightarrow> mem_table \<Rightarrow> jsobj list" where
  "select_records pf opts t =
     (let rs = map snd (mt_records t);
          rs1 = (case qo_filter opts of None \<Rightarrow> rs | Some f \<Rightarrow> filter (matches_filter pf f) rs)
      in case qo_sort opts of
           None \<Rightarrow> rs1
         | Some os \<Rightarrow> (if os = [] then rs1 else sort_by (compare_records pf os) rs1))"

definition find_records ::
  "platform \<Rightarrow> string \<Rightarrow> query_options \<Rightarrow> provider \<Rightarrow> (storage_error + query_result) \<times> provider" where
  "find_records pf table opts p =
     (case get_table table p of
        Inl e \<Rightarrow> (Inl e, p)
      | Inr t \<Rightarrow> (Inr (page_of (qo_pagination opts) (select_records pf opts t)), p))"

definition find_first ::
  "platform \<Rightarrow> string \<Rightarrow> query_options \<Rightarrow> provider \<Rightarrow> (storage_error + jsobj option) \<times> provider" where
  "find_first pf table opts p =
     (let pg = (case qo_pagination opts of None \<Rightarrow> \<lparr>pg_limit = None, pg_offset = None\<rparr> | Some q \<Rightarrow> q)
      in case find_records pf table (opts\<lparr>qo_pagination := Some (pg\<lparr>pg_limit := Some 1\<rparr>)\<rparr>) p of
           (Inl e, p') \<Rightarrow> (Inl e, p')
         | (Inr q, p') \<Rightarrow> (Inr (case qr_data q of [] \<Rightarrow> None | r # _ \<Rightarrow> Some r), p'))"

definition record_exists ::
  "int \<Rightarrow> string \<Rightarrow> string \<Rightarrow> provider \<Rightarrow> (storage_error + bool) \<times> provider" where
  "record_exists now table i p =
     (let probe = (case pv_cache p of
                     None \<Rightarrow> (False, p)
                   | Some c \<Rightarrow> (case lru_has now (cache_key table i) c of
                                 (hit, c') \<Rightarrow> (hit, p\<lparr>pv_cache := Some c'\<rparr>)))
      in case probe of (hit, p1) \<Rightarrow>
        (if hit then (Inr True, p1)
         else (case get_table table p1 of
                 Inl e \<Rightarrow> (Inl e, p1)
               | Inr t \<Rightarrow> (Inr (jm_has (mt_records t) i), p1))))"

definition count_records ::
  "platform \<Rightarrow> string \<Rightarrow> query_filter option \<Rightarrow> provider \<Rightarrow> (storage_error + nat) \<times> provider" where
  "count_records pf table f p =
     (case get_table table p of
        Inl e \<Rightarrow> (Inl e, p)
      | Inr t \<Rightarrow>
          (Inr (case f of
                  None \<Rightarrow> length (mt_records t)
                | Some q \<Rightarrow> length (filter (matches_filter pf q) (map snd (mt_records t)))), p))"

section \<open>Writes\<close>

definition put_record :: "string \<Rightarrow> mem_table \<Rightarrow> string \<Rightarrow> jsobj \<Rightarrow> provider \<Rightarrow> provider" where
  "put_record table t i r p =
     p\<lparr>pv_tables := jm_set (pv_tables p) table (t\<lparr>mt_records := jm_set (mt_records t) i r\<rparr>)\<rparr>"

definition drop_record :: "string \<Rightarrow> mem_table \<Rightarrow> string \<Rightarrow> provider \<Rightarrow> provider" where
  "drop_record table t i p =
     p\<lparr>pv_tables := jm_set (pv_tables p) table (t\<lparr>mt_records := jm_delete (mt_records t) i\<rparr>)\<rparr>"

definition new_record :: "int \<Rightarrow> string \<Rightarrow> jsobj \<Rightarrow> jsobj" where
  "new_record now i data =
     spread [(''id'', JStr i), (''createdAt'', JDate now), (''updatedAt'', JDate now)] data"

definition create_record ::
  "int \<Rightarrow> string \<Rightarrow> string \<Rightarrow> jsobj \<Rightarrow> provider \<Rightarrow> (storage_error + jsobj) \<times> provider" where
  "create_record now i table data p =
     (case get_table table p of
        Inl e \<Rightarrow> (Inl e, p)
      | Inr t \<Rightarrow>
          (let r = new_record now i data
           in (Inr r, cache_record now (cache_key table i) r (put_record table t i r p))))"

text \<open>\<open>createMany\<close> with the ids its calls of \<open>randomUUID\<close> return, one per item.\<close>

fun create_loop :: "int \<Rightarrow> string \<Rightarrow> (string \<times> jsobj) list \<Rightarrow> jsobj list \<Rightarrow> provider \<Rightarrow>
    (storage_error + jsobj list) \<times> provider" where
  "create_loop now table [] acc p = (Inr (rev acc), p)"
| "create_loop now table ((i, data) # items) acc p =
     (case create_record now i table data p of
        (Inl e, p') \<Rightarrow> (Inl e, p')
      | (Inr r, p') \<Rightarrow> create_loop now table items (r # acc) p')"

definition create_many ::
  "int \<Rightarrow> string \<Rightarrow> (string \<times> jsobj) list \<Rightarrow> provider \<Rightarrow> (storage_error + jsobj list) \<times> provider" where
  "create_many now table items p =
     (case get_table table p of Inl e \<Rightarrow> (Inl e, p) | Inr t \<Rightarrow> create_loop now table items [] p)"

definition updated_record :: "int \<Rightarrow> jsobj \<Rightarrow> jsobj \<Rightarrow> jsobj" where
  "updated_record now r data = jm_set (spread r data) ''updatedAt'' (JDate now)"

definition update_by_id ::
  "int \<Rightarrow> string \<Rightarrow> string \<Rightarrow> jsobj \<Rightarrow> provider \<Rightarrow> (storage_error + jsobj option) \<times> provider" where
  "update_by_id now table i data p =
     (case get_table table p of
        Inl e \<Rightarrow> (Inl e, p)
      | Inr t \<Rightarrow>
          (case jm_get (mt_records t) i of
             None \<Rightarrow> (Inr None, p)
           | Some r \<Rightarrow>
               (let r' = updated_record now r data
                in (Inr (Some r'), cache_record now (cache_key table i) r' (put_record table t i r' p)))))"

text \<open>The loops of \<open>updateMany\<close> and \<open>deleteMany\<close> over the ids they visit, in insertion order.\<close>

fun update_loop :: "platform \<Rightarrow> int \<Rightarrow> string \<Rightarrow> query_filter \<Rightarrow> jsobj \<Rightarrow> (string \<times> jsobj) list \<Rightarrow> nat \<Rightarrow>
    provider \<Rightarrow> nat \<times> provider" where
  "update_loop pf now table f data [] n p = (n, p)"
| "update_loop pf now table f data ((i, r) # rs) n p =
     (if matches_filter pf f r
      then (case get_table table p of
              Inl e \<Rightarrow> (n, p)
            | Inr t \<Rightarrow>
                (let r' = updated_record now r data
                 in update_loop pf now table f data rs (Suc n)
                      (cache_record now (cache_key table i) r' (put_record table t i r' p))))
      else update_loop pf now table f data rs n p)"

definition update_many ::
  "platform \<Rightarrow> int \<Rightarrow> string \<Rightarrow> query_filter \<Rightarrow> jsobj \<Rightarrow> provider \<Rightarrow> (storage_error + nat) \<times> provider" where
  "update_many pf now table f data p =
     (case get_table table p of
        Inl e \<Rightarrow> (Inl e, p)
      | Inr t \<Rightarrow> (case update_loop pf now table f data (mt_records t) 0 p of (n, p') \<Rightarrow> (Inr n, p')))"

definition delete_by_id :: "string \<Rightarrow> string \<Rightarrow> provider \<Rightarrow> (storage_error + bool) \<times> provider" where
  "delete_by_id table i p =
     (case get_table table p of
        Inl e \<Rightarrow> (Inl e, p)
      | Inr t \<Rightarrow>
          (let deleted = jm_has (mt_records t) i; p1 = drop_record table t i p
           in (Inr deleted, if deleted then uncache (cache_key table i) p1 else p1)))"

fun delete_loop :: "string \<Rightarrow> string list \<Rightarrow> nat \<Rightarrow> provider \<Rightarrow> nat \<times> provider" where
  "delete_loop table [] n p = (n, p)"
| "delete_loop table (i # is) n p =
     (case get_table table p of
        Inl e \<Rightarrow> (n, p)
      | Inr t \<Rightarrow> delete_loop table is (Suc n) (uncache (cache_key table i) (drop_record table t i p)))"

definition delete_many ::
  "platform \<Rightarrow> string \<Rightarrow> query_filter \<Rightarrow> provider \<Rightarrow> (storage_error + nat) \<times> provider" where
  "delete_many pf table f p =
     (case get_table table p of
        Inl e \<Rightarrow> (Inl e, p)
      | Inr t \<Rightarrow>
          (let ids = map fst (filter (\<lambda>(i, r). matches_filter pf f r) (mt_records t))
           in case delete_loop table ids 0 p of (n, p') \<Rightarrow> (Inr n, p')))"

section \<open>Tables and life cycle\<close>

definition initialize_provider :: "cache_settings option \<Rightarrow> provider \<Rightarrow> provider" where
  "initialize_provider cfg p =
     (case cfg of
        None \<Rightarrow> p
      | Some cs \<Rightarrow>
          p\<lparr>pv_cache := Some (lru_new
              \<lparr>lc_max_size = (case cs_max_size cs of None \<Rightarrow> 1000 | Some n \<Rightarrow> n),
               lc_default_ttl = cs_ttl_seconds cs,
               lc_max_memory_mb = Some (case cs_max_memory_mb cs of None \<Rightarrow> 50 | Some n \<Rightarrow> n),
               lc_cleanup_interval = Some 60\<rparr>)\<rparr>)"

definition new_provider :: provider where
  "new_provider = \<lparr>pv_tables = [], pv_cache = None\<rparr>"

definition create_table :: "string \<Rightarrow> table_schema \<Rightarrow> provider \<Rightarrow> provider" where
  "create_table name schema p =
     (case jm_get (pv_tables p) name of
        Some t \<Rightarrow> p\<lparr>pv_tables := jm_set (pv_tables p) name (t\<lparr>mt_schema := schema\<rparr>)\<rparr>
      | None \<Rightarrow> p\<lparr>pv_tables := jm_set (pv_tables p) name \<lparr>mt_schema = schema, mt_records = []\<rparr>\<rparr>)"

definition drop_table :: "string \<Rightarrow> provider \<Rightarrow> provider" where
  "drop_table name p =
     (let deleted = jm_has (pv_tables p) name;
          p1 = p\<lparr>pv_tables := jm_delete (pv_tables p) name\<rparr>
      in if deleted
         then p1\<lparr>pv_cache := map_option (\<lambda>c. snd (lru_delete_by_prefix (name @ '':'') c)) (pv_cache p1)\<rparr>
         else p1)"

definition list_tables :: "provider \<Rightarrow> string list" where
  "list_tables p = jm_keys (pv_tables p)"

definition health_check :: "provider \<Rightarrow> bool" where
  "health_check p = True"

definition close_provider :: "provider \<Rightarrow> provider" where
  "close_provider p = p\<lparr>pv_tables := [], pv_cache := None\<rparr>"

section \<open>Transactions\<close>

record mem_tx =
  tx_active :: bool
  tx_rollback :: "(provider \<Rightarrow> provider) list"

definition begin_transaction :: "provider \<Rightarrow> mem_tx" where
  "begin_transaction p = \<lparr>tx_active = True, tx_rollback = []\<rparr>"

definition add_rollback_operation :: "(provider \<Rightarrow> provider) \<Rightarrow> mem_tx \<Rightarrow> mem_tx" where
  "add_rollback_operation f tx = tx\<lparr>tx_rollback := tx_rollback tx @ [f]\<rparr>"

definition tx_rollback_all :: "mem_tx \<Rightarrow> provider \<Rightarrow> mem_tx \<times> provider" where
  "tx_rollback_all tx p =
     (if \<not> tx_active tx then (tx, p)
      else (\<lparr>tx_active = False, tx_rollback = []\<rparr>, fold (\<lambda>f q. f q) (rev (tx_rollback tx)) p))"

definition tx_commit :: "mem_tx \<Rightarrow> (storage_error + unit) \<times> mem_tx" where
  "tx_commit tx =
     (if \<not> tx_active tx then (Inl (TransactionError ''Transaction is no longer active''), tx)
      else (Inr (), \<lparr>tx_active = False, tx_rollback = []\<rparr>))"

definition tx_execute ::
  "(provider \<Rightarrow> (storage_error + 'a) \<times> provider) \<Rightarrow> mem_tx \<Rightarrow> provider \<Rightarrow>
     (storage_error + 'a) \<times> mem_tx \<times> provider" where
  "tx_execute fn tx p =
     (if \<not> tx_active tx then (Inl (TransactionError ''Transaction is no longer active''), tx, p)
      else (case fn p of
              (Inr a, p') \<Rightarrow> (Inr a, tx, p')
            | (Inl e, p') \<Rightarrow> (case tx_rollback_all tx p' of (tx', p'') \<Rightarrow> (Inl e, tx', p''))))"

section \<open>The cache and the tables\<close>

text \<open>
  \<open>tables_view\<close> is the record a cache key \<open>table:id\<close> stands for. Table names without a colon (as the
  services' all are) make the key decomposable at its first colon.
\<close>

definition clean_name :: "string \<Rightarrow> bool" where
  "clean_name t \<longleftrightarrow> CHR '':'' \<notin> set t"

definition split_key :: "string \<Rightarrow> (string \<times> string) option" where
  "split_key key = (case index_of key (CHR '':'') of
     None \<Rightarrow> None | Some n \<Rightarrow> Some (take n key, drop (Suc n) key))"

definition tables_view :: "(string, mem_table) jsmap \<Rightarrow> string \<Rightarrow> jsval option" where
  "tables_view ts key =
     (case split_key key of
        None \<Rightarrow> None
      | Some (t, i) \<Rightarrow>
          (case jm_get ts t of None \<Rightarrow> None | Some mt \<Rightarrow> map_option JObj (jm_get (mt_records mt) i)))"

definition coherent :: "provider \<Rightarrow> bool" where
  "coherent p \<longleftrightarrow>
     (case pv_cache p of None \<Rightarrow> True | Some c \<Rightarrow> lru_cache.backed c (tables_view (pv_tables p)))"

abbreviation strip :: "provider \<Rightarrow> provider" where
  "strip p \<equiv> p\<lparr>pv_cache := None\<rparr>"

lemma index_of_append: "c \<notin> set a \<Longrightarrow> index_of (a @ c # b) c = Some (length a)"
  by (induction a) auto

lemma index_of_Some: "index_of s c = Some n \<Longrightarrow> s = take n s @ c # drop (Suc n) s \<and> c \<notin> set (take n s)"
  by (induction s arbitrary: n) (auto split: if_splits)

lemma split_cache_key [simp]: "clean_name t \<Longrightarrow> split_key (cache_key t i) = Some (t, i)"
  by (simp add: split_key_def cache_key_def clean_name_def index_of_append)

lemma split_key_Some: "split_key key = Some (t, i) \<Longrightarrow> key = cache_key t i \<and> clean_name t"
  by (auto simp: split_key_def cache_key_def clean_name_def dest: index_of_Some split: option.splits)

lemma cache_key_prefix:
  "clean_name t \<Longrightarrow> clean_name t' \<Longrightarrow> starts_with (cache_key t i) (t' @ '':'') \<longleftrightarrow> t = t'"
  by (auto simp: starts_with_conv cache_key_def clean_name_def append_eq_append_conv2)
     (metis append_eq_Cons_conv in_set_conv_decomp list.inject)+

lemma tables_view_key:
  "clean_name t \<Longrightarrow> tables_view ts (cache_key t i) =
     (case jm_get ts t of None \<Rightarrow> None | Some mt \<Rightarrow> map_option JObj (jm_get (mt_records mt) i))"
  by (simp add: tables_view_def)

lemma tables_view_eqI:
  assumes "\<And>t i. clean_name t \<Longrightarrow> tables_view ts (cache_key t i) = f (cache_key t i)"
    and "\<And>key. split_key key = None \<Longrightarrow> f key = None"
  shows "tables_view ts = f"
proof
  fix key
  show "tables_view ts key = f key"
  proof (cases "split_key key")
    case None
    with assms(2) show ?thesis by (simp add: tables_view_def)
  next
    case (Some ti)
    then obtain t i where "key = cache_key t i" "clean_name t"
      using split_key_Some by (cases ti) blast
    with assms(1) show ?thesis by simp
  qed
qed

lemma cache_key_inject: "clean_name t \<Longrightarrow> clean_name t' \<Longrightarrow> cache_key t i = cache_key t' i' \<longleftrightarrow> t = t' \<and> i = i'"
  by (metis Pair_inject option.inject split_cache_key)

lemma tables_view_no_key: "split_key key = None \<Longrightarrow> tables_view ts key = None"
  by (simp add: tables_view_def)

lemma tables_view_put:
  assumes "clean_name table" and "jm_get (pv_tables p) table = Some t"
  shows "tables_view (pv_tables (put_record table t i r p)) =
           (tables_view (pv_tables p))(cache_key table i \<mapsto> JObj r)"
  using assms
  by (intro tables_view_eqI)
     (auto simp: put_record_def tables_view_key cache_key_inject tables_view_no_key)

lemma tables_view_drop:
  assumes "clean_name table" and "jm_get (pv_tables p) table = Some t"
  shows "tables_view (pv_tables (drop_record table t i p)) =
           (tables_view (pv_tables p))(cache_key table i := None)"
  using assms
  by (intro tables_view_eqI)
     (auto simp: drop_record_def tables_view_key cache_key_inject tables_view_no_key)

lemma get_table_strip [simp]: "get_table table (strip p) = get_table table p"
  by (simp add: get_table_def)

lemma get_table_Inr: "get_table table p = Inr t \<longleftrightarrow> jm_get (pv_tables p) table = Some t"
  by (simp add: get_table_def split: option.splits)

lemma strip_simps [simp]:
  "strip (put_record table t i r p) = put_record table t i r (strip p)"
  "strip (drop_record table t i p) = drop_record table t i (strip p)"
  "strip (cache_record now key r p) = strip p"
  "strip (uncache key p) = strip p"
  "cache_record now key r (strip p) = strip p"
  "uncache key (strip p) = strip p"
  by (simp_all add: put_record_def drop_record_def cache_record_def uncache_def)

lemma cache_field [simp]:
  "pv_cache (put_record table t i r p) = pv_cache p"
  "pv_cache (drop_record table t i p) = pv_cache p"
  "pv_cache p = None \<Longrightarrow> cache_record now key r p = p"
  "pv_cache p = None \<Longrightarrow> uncache key p = p"
  by (simp_all add: put_record_def drop_record_def cache_record_def uncache_def)

text \<open>The steps that keep the cache coherent.\<close>

lemma coherent_put:
  assumes "coherent p" and "clean_name table" and "jm_get (pv_tables p) table = Some t"
  shows "coherent (cache_record now (cache_key table i) r (put_record table t i r p))"
  using assms tables_view_put [OF assms(2,3), of i r]
  by (auto simp: coherent_def cache_record_def put_record_def
           intro: lru_cache.backed_set split: option.splits)

lemma coherent_cache_record:
  assumes "coherent p" and "clean_name table" and "jm_get (pv_tables p) table = Some t"
    and "jm_get (mt_records t) i = Some r"
  shows "coherent (cache_record now (cache_key table i) r p)"
  using assms
  by (auto simp: coherent_def cache_record_def tables_view_key
           intro!: lru_cache.backed_set_same split: option.splits)

lemma coherent_drop:
  assumes "coherent p" and "clean_name table" and "jm_get (pv_tables p) table = Some t"
  shows "coherent (uncache (cache_key table i) (drop_record table t i p))"
  using assms tables_view_drop [OF assms(2,3), of i]
  by (auto simp: coherent_def uncache_def drop_record_def
           intro: lru_cache.backed_delete split: option.splits)

lemma coherent_drop_absent:
  assumes "coherent p" and "clean_name table" and "jm_get (pv_tables p) table = Some t"
    and "\<not> jm_has (mt_records t) i"
  shows "coherent (drop_record table t i p)"
proof -
  have "tables_view (pv_tables (drop_record table t i p)) = tables_view (pv_tables p)"
    using assms tables_view_drop [OF assms(2,3), of i]
    by (simp add: fun_upd_idem tables_view_key jm_has_get)
  with assms(1) show ?thesis
    by (simp add: coherent_def drop_record_def split: option.splits)
qed

text \<open>
  \<open>transparent f p\<close>: at \<open>p\<close>, \<open>f\<close> gives the result it gives without a cache, leaves the tables it
  leaves without a cache, and leaves the cache coherent.
\<close>

definition transparent :: "(provider \<Rightarrow> 'a \<times> provider) \<Rightarrow> provider \<Rightarrow> bool" where
  "transparent f p \<longleftrightarrow> f (strip p) = (fst (f p), strip (snd (f p))) \<and> coherent (snd (f p))"

lemma transparent_read: "coherent p \<Longrightarrow> (\<And>q. pv_tables q = pv_tables p \<Longrightarrow> f q = (a, q)) \<Longrightarrow> transparent f p"
  by (simp add: transparent_def)

lemma transparent_find_by_id:
  assumes coh: "coherent p" and clean: "clean_name table"
  shows "transparent (find_by_id now table i) p"
proof (cases "pv_cache p")
  case None
  then have "strip p = p" by simp
  with coh None show ?thesis
    by (auto simp: transparent_def find_by_id_def get_table_def coherent_def split: option.splits)
next
  case (Some c)
  let ?key = "cache_key table i"
  let ?c' = "snd (lru_get now ?key c)"
  let ?p1 = "p\<lparr>pv_cache := Some ?c'\<rparr>"
  have bc: "lru_cache.backed c (tables_view (pv_tables p))"
    using coh Some by (simp add: coherent_def)
  then have p1: "coherent ?p1"
    by (simp add: coherent_def lru_cache.backed_get)
  show ?thesis
  proof (cases "fst (lru_get now ?key c)")
    case None
    have "coherent (cache_record now ?key r ?p1)"
      if "jm_get (pv_tables p) table = Some t" "jm_get (mt_records t) i = Some r" for t r
      using coherent_cache_record [OF p1 clean] that by simp
    with None Some p1 show ?thesis
      by (auto simp: transparent_def find_by_id_def get_table_def cache_record_def Let_def
               split: prod.splits sum.splits option.splits)
  next
    case (Some v)
    note hit = lru_cache.backed_hit [OF bc Some]
    then obtain t r where t: "jm_get (pv_tables p) table = Some t" "jm_get (mt_records t) i = Some r" "v = JObj r"
      using clean by (auto simp: tables_view_key split: option.splits)
    have "find_by_id now table i p = (Inr (Some v), ?p1)"
      using \<open>pv_cache p = Some c\<close> Some t(3)
      by (cases "lru_get now ?key c") (simp add: find_by_id_def)
    moreover have "find_by_id now table i (strip p) = (Inr (Some v), strip p)"
      using t by (simp add: find_by_id_def get_table_def cache_record_def)
    ultimately show ?thesis using p1 by (simp add: transparent_def)
  qed
qed

lemma transparent_exists:
  assumes coh: "coherent p" and clean: "clean_name table"
  shows "transparent (record_exists now table i) p"
proof (cases "pv_cache p")
  case None
  then have "strip p = p" by simp
  with coh None show ?thesis
    by (auto simp: transparent_def record_exists_def split: sum.splits)
next
  case (Some c)
  let ?key = "cache_key table i"
  let ?p1 = "p\<lparr>pv_cache := Some (snd (lru_has now ?key c))\<rparr>"
  have bc: "lru_cache.backed c (tables_view (pv_tables p))"
    using coh Some by (simp add: coherent_def)
  then have p1: "coherent ?p1"
    by (simp add: coherent_def lru_cache.backed_check)
  show ?thesis
  proof (cases "fst (lru_has now ?key c)")
    case True
    with lru_cache.backed_has [OF bc] have "tables_view (pv_tables p) ?key \<noteq> None" by blast
    then obtain t where t: "jm_get (pv_tables p) table = Some t" "jm_has (mt_records t) i"
      using clean by (auto simp: tables_view_key jm_has_get split: option.splits)
    with True Some p1 show ?thesis
      by (auto simp: transparent_def record_exists_def get_table_def split: prod.splits)
  next
    case False
    with Some p1 show ?thesis
      by (auto simp: transparent_def record_exists_def get_table_def split: prod.splits option.splits sum.splits)
  qed
qed

lemma transparent_find: "coherent p \<Longrightarrow> transparent (find_records pf table opts) p"
  by (auto simp: transparent_def find_records_def split: sum.splits)

lemma transparent_find_first: "coherent p \<Longrightarrow> transparent (find_first pf table opts) p"
  by (auto simp: transparent_def find_first_def find_records_def Let_def split: sum.splits)

lemma transparent_count: "coherent p \<Longrightarrow> transparent (count_records pf table f) p"
  by (auto simp: transparent_def count_records_def split: sum.splits)

lemma transparent_create:
  assumes "coherent p" and "clean_name table"
  shows "transparent (create_record now i table data) p"
  using assms
  by (auto simp: transparent_def create_record_def get_table_def Let_def coherent_put split: option.splits)

lemma transparent_update_by_id:
  assumes "coherent p" and "clean_name table"
  shows "transparent (update_by_id now table i data) p"
  using assms
  by (auto simp: transparent_def update_by_id_def get_table_def Let_def coherent_put
           split: option.splits)

lemma transparent_delete_by_id:
  assumes "coherent p" and "clean_name table"
  shows "transparent (delete_by_id table i) p"
  using assms
  by (auto simp: transparent_def delete_by_id_def get_table_def Let_def coherent_drop coherent_drop_absent
           split: option.splits)

text \<open>The loops: an induction over the visited ids.\<close>

lemma transparent_create_loop:
  "coherent p \<Longrightarrow> clean_name table \<Longrightarrow> transparent (create_loop now table items acc) p"
proof (induction now table items acc p rule: create_loop.induct)
  case (1 now table acc p)
  then show ?case by (simp add: transparent_def)
next
  case (2 now table i data items acc p)
  have tr: "transparent (create_record now i table data) p"
    using 2(2,3) by (rule transparent_create)
  show ?case
  proof (cases "create_record now i table data p")
    case (Pair o1 p')
    with tr have st: "create_record now i table data (strip p) = (o1, strip p')" and coh: "coherent p'"
      by (auto simp: transparent_def)
    with Pair 2 show ?thesis
      by (cases o1) (auto simp: transparent_def)
  qed
qed

lemma transparent_update_loop:
  "coherent p \<Longrightarrow> clean_name table \<Longrightarrow> transparent (update_loop pf now table f data rs n) p"
proof (induction pf now table f data rs n p rule: update_loop.induct)
  case (1 pf now table f data n p)
  then show ?case by (simp add: transparent_def)
next
  case (2 pf now table f data i r rs n p)
  show ?case
  proof (cases "matches_filter pf f r")
    case False
    with 2 show ?thesis by (simp add: transparent_def)
  next
    case True
    show ?thesis
    proof (cases "get_table table p")
      case (Inl e)
      with True 2 show ?thesis by (simp add: transparent_def)
    next
      case (Inr t)
      let ?r = "updated_record now r data"
      let ?p = "cache_record now (cache_key table i) ?r (put_record table t i ?r p)"
      have "coherent ?p" using 2 Inr by (intro coherent_put) (simp_all add: get_table_Inr)
      then have "transparent (update_loop pf now table f data rs (Suc n)) ?p"
        using 2(1) [OF True Inr refl] 2(4) by blast
      with True Inr show ?thesis by (simp add: transparent_def Let_def)
    qed
  qed
qed

lemma transparent_delete_loop:
  "coherent p \<Longrightarrow> clean_name table \<Longrightarrow> transparent (delete_loop table is n) p"
proof (induction table "is" n p rule: delete_loop.induct)
  case (1 table n p)
  then show ?case by (simp add: transparent_def)
next
  case (2 table i ids n p)
  show ?case
  proof (cases "get_table table p")
    case (Inl e)
    with 2 show ?thesis by (simp add: transparent_def)
  next
    case (Inr t)
    let ?p = "uncache (cache_key table i) (drop_record table t i p)"
    have "coherent ?p" using 2 Inr by (intro coherent_drop) (simp_all add: get_table_Inr)
    then have "transparent (delete_loop table ids (Suc n)) ?p"
      using 2(1) [OF Inr] 2(3) by blast
    with Inr show ?thesis by (simp add: transparent_def)
  qed
qed

section \<open>Runs of the provider\<close>

datatype prov_op =
    PCreate int string string jsobj
  | PCreateMany int string "(string \<times> jsobj) list"
  | PFindById int string string
  | PFind string query_options
  | PFindFirst string query_options
  | PUpdateById int string string jsobj
  | PUpdateMany int string query_filter jsobj
  | PDeleteById string string
  | PDeleteMany string query_filter
  | PExists int string string
  | PCount string "query_filter option"
  | PCreateTable string table_schema
  | PDropTable string
  | PListTables
  | PCacheCleanup int
  | PClose

datatype prov_out =
    RRecord "storage_error + jsobj"
  | RRecords "storage_error + jsobj list"
  | RValue "storage_error + jsval option"
  | RQuery "storage_error + query_result"
  | ROptional "storage_error + jsobj option"
  | RCount "storage_error + nat"
  | RBool "storage_error + bool"
  | RTables "string list"
  | RDone

fun prov_exec :: "platform \<Rightarrow> prov_op \<Rightarrow> provider \<Rightarrow> prov_out \<times> provider" where
  "prov_exec pf (PCreate now i table data) p = map_prod RRecord id (create_record now i table data p)"
| "prov_exec pf (PCreateMany now table items) p = map_prod RRecords id (create_many now table items p)"
| "prov_exec pf (PFindById now table i) p = map_prod RValue id (find_by_id now table i p)"
| "prov_exec pf (PFind table opts) p = map_prod RQuery id (find_records pf table opts p)"
| "prov_exec pf (PFindFirst table opts) p = map_prod ROptional id (find_first pf table opts p)"
| "prov_exec pf (PUpdateById now table i data) p = map_prod ROptional id (update_by_id now table i data p)"
| "prov_exec pf (PUpdateMany now table f data) p = map_prod RCount id (update_many pf now table f data p)"
| "prov_exec pf (PDeleteById table i) p = map_prod RBool id (delete_by_id table i p)"
| "prov_exec pf (PDeleteMany table f) p = map_prod RCount id (delete_many pf table f p)"
| "prov_exec pf (PExists now table i) p = map_prod RBool id (record_exists now table i p)"
| "prov_exec pf (PCount table f) p = map_prod RCount id (count_records pf table f p)"
| "prov_exec pf (PCreateTable name schema) p = (RDone, create_table name schema p)"
| "prov_exec pf (PDropTable name) p = (RDone, drop_table name p)"
| "prov_exec pf PListTables p = (RTables (list_tables p), p)"
| "prov_exec pf (PCacheCleanup now) p = (RDone, p\<lparr>pv_cache := map_option (lru_cleanup now) (pv_cache p)\<rparr>)"
| "prov_exec pf PClose p = (RDone, close_provider p)"

fun prov_run :: "platform \<Rightarrow> prov_op list \<Rightarrow> provider \<Rightarrow> prov_out list \<times> provider" where
  "prov_run pf [] p = ([], p)"
| "prov_run pf (a # as) p =
     (case prov_exec pf a p of (out, p1) \<Rightarrow>
        (case prov_run pf as p1 of (outs, p2) \<Rightarrow> (out # outs, p2)))"

fun op_table :: "prov_op \<Rightarrow> string" where
  "op_table (PCreate now i table data) = table"
| "op_table (PCreateMany now table items) = table"
| "op_table (PFindById now table i) = table"
| "op_table (PFind table opts) = table"
| "op_table (PFindFirst table opts) = table"
| "op_table (PUpdateById now table i data) = table"
| "op_table (PUpdateMany now table f data) = table"
| "op_table (PDeleteById table i) = table"
| "op_table (PDeleteMany table f) = table"
| "op_table (PExists now table i) = table"
| "op_table (PCount table f) = table"
| "op_table (PCreateTable name schema) = name"
| "op_table (PDropTable name) = name"
| "op_table PListTables = []"
| "op_table (PCacheCleanup now) = []"
| "op_table PClose = []"

lemma transparent_map_prod:
  "transparent f p \<Longrightarrow> transparent (\<lambda>q. map_prod g id (f q)) p"
  by (simp add: transparent_def map_prod_def split_beta)

lemma transparent_create_many:
  assumes "coherent p" and "clean_name table"
  shows "transparent (create_many now table items) p"
  using assms transparent_create_loop [OF assms]
  by (auto simp: transparent_def create_many_def split: sum.splits)

lemma transparent_update_many:
  assumes "coherent p" and "clean_name table"
  shows "transparent (update_many pf now table f data) p"
  using assms transparent_update_loop [OF assms]
  by (auto simp: transparent_def update_many_def split_beta split: sum.splits)

lemma transparent_delete_many:
  assumes "coherent p" and "clean_name table"
  shows "transparent (delete_many pf table f) p"
  using assms transparent_delete_loop [OF assms]
  by (auto simp: transparent_def delete_many_def split_beta Let_def split: sum.splits)

lemma coherent_same_view:
  "coherent p \<Longrightarrow> tables_view (pv_tables q) = tables_view (pv_tables p) \<Longrightarrow> pv_cache q = pv_cache p \<Longrightarrow> coherent q"
  by (simp add: coherent_def split: option.splits)

lemma transparent_create_table:
  assumes "coherent p" and "clean_name name"
  shows "transparent (\<lambda>q. (RDone, create_table name schema q)) p"
proof -
  have "tables_view (pv_tables (create_table name schema p)) = tables_view (pv_tables p)"
    by (intro tables_view_eqI)
       (auto simp: create_table_def tables_view_key tables_view_no_key split: option.splits)
  moreover have "pv_cache (create_table name schema p) = pv_cache p"
    by (simp add: create_table_def split: option.splits)
  ultimately have "coherent (create_table name schema p)"
    using assms(1) by (rule coherent_same_view [rotated 1])
  then show ?thesis
    by (simp add: transparent_def create_table_def split: option.splits)
qed

lemma transparent_drop_table:
  assumes coh: "coherent p" and clean: "clean_name name"
  shows "transparent (\<lambda>q. (RDone, drop_table name q)) p"
proof -
  have "coherent (drop_table name p)"
  proof (cases "jm_has (pv_tables p) name")
    case True
    have eq: "tables_view (jm_delete (pv_tables p) name) key = tables_view (pv_tables p) key"
      if "\<not> starts_with key (name @ '':'')" for key
      using that clean split_key_Some
      by (auto simp: tables_view_def cache_key_def starts_with_conv split: option.splits)
    show ?thesis
      using coh True
      by (auto simp: coherent_def drop_table_def eq
               intro!: lru_cache.backed_delete_prefix split: option.splits)
  next
    case False
    then have "jm_delete (pv_tables p) name = pv_tables p"
      by (simp add: jm_delete_absent jm_has_get)
    with False coh show ?thesis by (simp add: drop_table_def coherent_def)
  qed
  then show ?thesis by (simp add: transparent_def drop_table_def Let_def)
qed

lemma lru_cleanup_view: "lru_view (lru_cleanup now c) \<subseteq>\<^sub>m lru_view c"
  unfolding lru_cleanup_def Let_def
  by (rule lru_view_mono) (auto simp: map_le_def dom_def js.lookup_fold_remove simp del: set_map split: if_splits)

lemma transparent_cleanup:
  "coherent p \<Longrightarrow> transparent (\<lambda>q. (RDone, q\<lparr>pv_cache := map_option (lru_cleanup now) (pv_cache q)\<rparr>)) p"
  unfolding transparent_def coherent_def
  by (auto simp: lru_cache.backed_def intro: map_le_trans [OF lru_cleanup_view] split: option.splits)

lemma prov_exec_fun:
  "prov_exec pf (PCreate now i table data) = (\<lambda>p. map_prod RRecord id (create_record now i table data p))"
  "prov_exec pf (PCreateMany now table items) = (\<lambda>p. map_prod RRecords id (create_many now table items p))"
  "prov_exec pf (PFindById now table i) = (\<lambda>p. map_prod RValue id (find_by_id now table i p))"
  "prov_exec pf (PFind table opts) = (\<lambda>p. map_prod RQuery id (find_records pf table opts p))"
  "prov_exec pf (PFindFirst table opts) = (\<lambda>p. map_prod ROptional id (find_first pf table opts p))"
  "prov_exec pf (PUpdateById now table i data) = (\<lambda>p. map_prod ROptional id (update_by_id now table i data p))"
  "prov_exec pf (PUpdateMany now table f data) = (\<lambda>p. map_prod RCount id (update_many pf now table f data p))"
  "prov_exec pf (PDeleteById table i) = (\<lambda>p. map_prod RBool id (delete_by_id table i p))"
  "prov_exec pf (PDeleteMany table f) = (\<lambda>p. map_prod RCount id (delete_many pf table f p))"
  "prov_exec pf (PExists now table i) = (\<lambda>p. map_prod RBool id (record_exists now table i p))"
  "prov_exec pf (PCount table fo) = (\<lambda>p. map_prod RCount id (count_records pf table fo p))"
  "prov_exec pf (PCreateTable name schema) = (\<lambda>p. (RDone, create_table name schema p))"
  "prov_exec pf (PDropTable name) = (\<lambda>p. (RDone, drop_table name p))"
  "prov_exec pf PListTables = (\<lambda>p. (RTables (list_tables p), p))"
  "prov_exec pf (PCacheCleanup now) =
     (\<lambda>p. (RDone, p\<lparr>pv_cache := map_option (lru_cleanup now) (pv_cache p)\<rparr>))"
  "prov_exec pf PClose = (\<lambda>p. (RDone, close_provider p))"
  by (simp_all add: fun_eq_iff)

lemma transparent_exec:
  assumes "coherent p" and "clean_name (op_table a)"
  shows "transparent (prov_exec pf a) p"
proof (cases a)
  case (PCreateTable name schema)
  with assms show ?thesis by (simp add: prov_exec_fun transparent_create_table)
next
  case (PDropTable name)
  with assms show ?thesis by (simp add: prov_exec_fun transparent_drop_table)
next
  case (PCacheCleanup now)
  with assms show ?thesis by (simp add: prov_exec_fun transparent_cleanup)
next
  case PListTables
  with assms show ?thesis by (simp add: transparent_def list_tables_def)
next
  case PClose
  then show ?thesis by (simp add: transparent_def close_provider_def coherent_def)
qed (use assms in \<open>simp_all add: prov_exec_fun transparent_map_prod transparent_create transparent_create_many
      transparent_find_by_id transparent_find transparent_find_first transparent_update_by_id
      transparent_update_many transparent_delete_by_id transparent_delete_many transparent_exists
      transparent_count\<close>)

lemma prov_run_transparent:
  "coherent p \<Longrightarrow> \<forall>a \<in> set as. clean_name (op_table a) \<Longrightarrow> transparent (prov_run pf as) p"
proof (induction "as" arbitrary: p)
  case Nil
  then show ?case by (simp add: transparent_def)
next
  case (Cons a "as")
  have "transparent (prov_exec pf a) p" using Cons.prems by (intro transparent_exec) simp_all
  then have step: "prov_exec pf a (strip p) = (fst (prov_exec pf a p), strip (snd (prov_exec pf a p)))"
      and coh: "coherent (snd (prov_exec pf a p))"
    by (simp_all add: transparent_def)
  have "transparent (prov_run pf as) (snd (prov_exec pf a p))"
    using coh Cons.prems(2) by (intro Cons.IH) simp_all
  with step show ?case by (simp add: transparent_def split_beta)
qed

section \<open>Well-formed tables\<close>

text \<open>Table names are distinct, and so are the ids within a table: each is a \<open>Map\<close>.\<close>

definition provider_wf :: "provider \<Rightarrow> bool" where
  "provider_wf p \<longleftrightarrow> distinct (jm_keys (pv_tables p)) \<and>
     (\<forall>name t. jm_get (pv_tables p) name = Some t \<longrightarrow> distinct (jm_keys (mt_records t)))"

named_theorems wf_step \<open>steps that keep the tables well-formed\<close>

lemma wf_ids: "provider_wf p \<Longrightarrow> get_table table p = Inr t \<Longrightarrow> distinct (jm_keys (mt_records t))"
  by (auto simp: provider_wf_def get_table_Inr)

lemma wf_cache [simp]:
  "provider_wf (p\<lparr>pv_cache := c\<rparr>) = provider_wf p"
  "provider_wf (cache_record now key r p) = provider_wf p"
  "provider_wf (uncache key p) = provider_wf p"
  by (simp_all add: provider_wf_def cache_record_def uncache_def)

lemma wf_put [wf_step]: "provider_wf p \<Longrightarrow> get_table table p = Inr t \<Longrightarrow> provider_wf (put_record table t i r p)"
  by (auto simp: provider_wf_def put_record_def get_table_Inr)

lemma wf_drop [wf_step]: "provider_wf p \<Longrightarrow> get_table table p = Inr t \<Longrightarrow> provider_wf (drop_record table t i p)"
  by (auto simp: provider_wf_def drop_record_def get_table_Inr simp del: jm_keys_delete)

lemma wf_create: "provider_wf p \<Longrightarrow> provider_wf (snd (create_record now i table data p))"
  by (auto simp: create_record_def Let_def wf_step split: sum.splits)

lemma wf_create_loop: "provider_wf p \<Longrightarrow> provider_wf (snd (create_loop now table items acc p))"
proof (induction now table items acc p rule: create_loop.induct)
  case (2 now table i data items acc p)
  show ?case
  proof (cases "create_record now i table data p")
    case (Pair o1 p')
    with wf_create [OF 2(2), of now i table data] have "provider_wf p'" by simp
    with Pair 2 show ?thesis by (cases o1) auto
  qed
qed simp

lemma wf_update_loop: "provider_wf p \<Longrightarrow> provider_wf (snd (update_loop pf now table f data rs n p))"
  by (induction pf now table f data rs n p rule: update_loop.induct)
     (auto simp: Let_def wf_step split: sum.splits)

lemma wf_delete_loop: "provider_wf p \<Longrightarrow> provider_wf (snd (delete_loop table ids n p))"
  by (induction table ids n p rule: delete_loop.induct) (auto simp: wf_step split: sum.splits)

lemma wf_exec:
  assumes "provider_wf p"
  shows "provider_wf (snd (prov_exec pf a p))"
proof (cases a)
  case (PCreateTable name schema)
  with assms show ?thesis
    by (auto simp: create_table_def provider_wf_def split: option.splits)
next
  case (PDropTable name)
  with assms show ?thesis
    by (auto simp: drop_table_def Let_def provider_wf_def)
next
  case PClose
  then show ?thesis by (simp add: close_provider_def provider_wf_def)
qed (use assms wf_create_loop wf_update_loop wf_delete_loop wf_create in
      \<open>auto simp: create_many_def find_by_id_def find_records_def find_first_def update_by_id_def
          update_many_def delete_by_id_def delete_many_def record_exists_def count_records_def
          Let_def split_beta wf_step
          split: sum.splits option.splits prod.splits\<close>)

lemma wf_run: "provider_wf p \<Longrightarrow> provider_wf (snd (prov_run pf as p))"
  by (induction "as" arbitrary: p) (auto simp: split_beta wf_exec)

section \<open>What the bulk operations compute\<close>

lemma delete_loop_effect:
  "get_table table p = Inr t \<Longrightarrow>
     \<exists>p'. delete_loop table ids n p = (n + length ids, p') \<and>
       get_table table p' = Inr (t\<lparr>mt_records := filter (\<lambda>e. fst e \<notin> set ids) (mt_records t)\<rparr>)"
proof (induction ids arbitrary: n p t)
  case Nil
  then show ?case by simp
next
  case (Cons i ids)
  let ?t = "t\<lparr>mt_records := jm_delete (mt_records t) i\<rparr>"
  let ?p = "uncache (cache_key table i) (drop_record table t i p)"
  have "get_table table ?p = Inr ?t"
    by (simp add: get_table_Inr uncache_def drop_record_def)
  from Cons.IH [OF this, of "Suc n"] obtain p' where
      "delete_loop table ids (Suc n) ?p = (Suc n + length ids, p')"
      "get_table table p' = Inr (?t\<lparr>mt_records := filter (\<lambda>e. fst e \<notin> set ids) (mt_records ?t)\<rparr>)"
    by blast
  with Cons.prems show ?case
    by (auto simp: jm_delete_def intro!: filter_cong)
qed

lemma update_loop_effect:
  assumes "get_table table p = Inr t" and "distinct (jm_keys rs)"
    and "\<forall>(i, r) \<in> set rs. jm_get (mt_records t) i = Some r"
  shows "\<exists>p' t'. update_loop pf now table f data rs n p =
           (n + length (filter (\<lambda>(i, r). matches_filter pf f r) rs), p') \<and>
         get_table table p' = Inr t' \<and> jm_keys (mt_records t') = jm_keys (mt_records t) \<and>
         (\<forall>j. jm_get (mt_records t') j =
            (if j \<in> fst ` set rs
             then map_option (\<lambda>r. if matches_filter pf f r then updated_record now r data else r)
                    (jm_get (mt_records t) j)
             else jm_get (mt_records t) j))"
  using assms
proof (induction rs arbitrary: n p t)
  case Nil
  then show ?case by auto
next
  case (Cons ir rs)
  obtain i r where ir [simp]: "ir = (i, r)" by (cases ir)
  have i: "jm_get (mt_records t) i = Some r" "i \<notin> fst ` set rs" using Cons.prems by auto
  show ?case
  proof (cases "matches_filter pf f r")
    case False
    from Cons.IH [of p t n] Cons.prems False i show ?thesis
      by (auto 4 4 split: if_splits)
  next
    case True
    let ?r = "updated_record now r data"
    let ?t = "t\<lparr>mt_records := jm_set (mt_records t) i ?r\<rparr>"
    let ?p = "cache_record now (cache_key table i) ?r (put_record table t i ?r p)"
    have "get_table table ?p = Inr ?t"
      by (simp add: get_table_Inr cache_record_def put_record_def)
    moreover have "\<forall>(j, x) \<in> set rs. jm_get (mt_records ?t) j = Some x"
      using Cons.prems(3) i by (auto simp: rev_image_eqI)
    moreover have "jm_keys (mt_records ?t) = jm_keys (mt_records t)"
      using i by (auto simp: jm_keys_set rev_image_eqI dest!: map_of_SomeD)
    ultimately show ?thesis
      using Cons.IH [of ?p ?t "Suc n"] Cons.prems True i
      by (auto simp: Let_def split: if_splits)
  qed
qed

section \<open>Sorting and windows\<close>

definition str_field :: "string \<Rightarrow> jsobj \<Rightarrow> string" where
  "str_field f r = (case field_of r f of JStr s \<Rightarrow> s | _ \<Rightarrow> [])"

lemma compare_by_str_field:
  assumes "field_of a f = JStr x" and "field_of b f = JStr y"
  shows "compare_records pf [\<lparr>so_field = f, so_direction = Asc\<rparr>] a b \<le> 0 \<longleftrightarrow> x \<le> y"
  using assms by (auto simp: sort_comparison_def sort_comparable_def js_less_def)

lemma insert_by_str_field:
  assumes "\<forall>r \<in> set (a # rs). \<exists>x. field_of r f = JStr x"
  shows "insert_by (compare_records pf [\<lparr>so_field = f, so_direction = Asc\<rparr>]) a rs = insort_key (str_field f) a rs"
  using assms
proof (induction rs)
  case (Cons b rs)
  then obtain x y where "field_of a f = JStr x" "field_of b f = JStr y" by auto
  note le = compare_by_str_field [OF this, of pf]
  with Cons \<open>field_of a f = _\<close> \<open>field_of b f = _\<close> show ?case
    by (simp add: str_field_def del: compare_records.simps)
qed simp

text \<open>Ascending by a field that holds strings, the comparator sort is the library's stable sort.\<close>

lemma sort_by_str_field:
  assumes "\<forall>r \<in> set rs. \<exists>x. field_of r f = JStr x"
  shows "sort_by (compare_records pf [\<lparr>so_field = f, so_direction = Asc\<rparr>]) rs = sort_key (str_field f) rs"
  using assms
proof (induction rs)
  case Nil
  then show ?case by (simp add: sort_by_def)
next
  case (Cons a rs)
  then have "sort_by (compare_records pf [\<lparr>so_field = f, so_direction = Asc\<rparr>]) (a # rs) =
      insert_by (compare_records pf [\<lparr>so_field = f, so_direction = Asc\<rparr>]) a (sort_key (str_field f) rs)"
    by (simp add: sort_by_def del: compare_records.simps)
  also have "\<dots> = insort_key (str_field f) a (sort_key (str_field f) rs)"
    using Cons.prems by (intro insert_by_str_field) simp
  finally show ?case by (simp del: compare_records.simps)
qed

lemma js_slice_window:
  assumes "0 \<le> offset" and "0 < limit"
  shows "js_slice offset (offset + limit) xs = take (nat limit) (drop (nat offset) xs)"
proof (cases "nat offset \<le> length xs")
  case True
  have "min (nat (offset + limit)) (length xs) - nat offset = min (nat limit) (length xs - nat offset)"
    using assms by (auto simp: min_def nat_add_distrib)
  with True assms show ?thesis
    by (simp add: js_slice_def slice_bound_def Let_def min_def)
next
  case False
  with assms show ?thesis
    by (simp add: js_slice_def slice_bound_def Let_def)
qed

lemma page_window:
  assumes "0 \<le> offset" and "0 < limit"
  shows "page_of (Some \<lparr>pg_limit = Some limit, pg_offset = Some offset\<rparr>) rs =
    \<lparr>qr_data = take (nat limit) (drop (nat offset) rs), qr_total = length rs,
     qr_has_more = (offset + limit < int (length rs)),
     qr_next_cursor = (if offset + limit < int (length rs) then Some (int_to_dec (offset + limit)) else None)\<rparr>"
  using assms by (simp add: page_of_def js_slice_window Let_def)

section \<open>Properties\<close>

text \<open>C1: Caching is invisible. Any sequence of storage operations on tables with colon-free names
  gives, on a provider with a write-through cache of any settings, the very results it gives on a
  provider without one: no operation ever returns a stale, evicted or foreign record, whatever the
  clock readings, expiries, evictions and clean-ups in between.\<close>

theorem provider_cache_transparent:
  assumes "\<forall>a \<in> set ops. clean_name (op_table a)"
  shows "fst (prov_run pf ops (initialize_provider (Some cs) new_provider)) = fst (prov_run pf ops new_provider)"
proof -
  let ?p = "initialize_provider (Some cs) new_provider"
  have "coherent ?p"
    by (simp add: coherent_def initialize_provider_def new_provider_def lru_cache.backed_def
                  lru_view_def lru_new_def map_le_def dom_def)
  then have "transparent (prov_run pf ops) ?p"
    using assms by (rule prov_run_transparent)
  moreover have "strip ?p = new_provider"
    by (simp add: initialize_provider_def new_provider_def)
  ultimately show ?thesis
    by (simp add: transparent_def)
qed

definition demo_platform :: platform where
  "demo_platform = \<lparr>pf_locale_compare = (\<lambda>s t. if s < t then -1 else if t < s then 1 else 0),
                     pf_to_number = (\<lambda>s. map_option of_int (parse_int s)), pf_date_string = iso_string\<rparr>"

definition demo_schema :: table_schema where
  "demo_schema = \<lparr>ts_name = ''t'', ts_columns = [], ts_timestamps = True\<rparr>"

definition demo_ops :: "prov_op list" where
  "demo_ops = [PCreateTable ''t'' demo_schema, PCreate 1 ''x'' ''t'' [(''name'', JStr ''n'')],
               PDeleteById ''t'' ''x'', PFindById 2 ''t'' ''x'']"

theorem provider_cache_transparent_witness:
  "fst (prov_run demo_platform demo_ops
         (initialize_provider (Some \<lparr>cs_max_size = Some 1, cs_ttl_seconds = None, cs_max_memory_mb = None\<rparr>)
           new_provider)) =
   fst (prov_run demo_platform demo_ops new_provider)"
  by (rule provider_cache_transparent) (auto simp: demo_ops_def clean_name_def)

text \<open>The tables stay maps. After any sequence of operations from a new provider, cached or not,
  table names are distinct and the ids in every table are distinct.\<close>

theorem provider_tables_wf:
  "provider_wf (snd (prov_run pf ops (initialize_provider cs new_provider)))"
  by (intro wf_run) (auto simp: initialize_provider_def new_provider_def provider_wf_def split: option.splits)

text \<open>What \<open>create\<close> returned is what \<open>findById\<close> finds, at any later instant and through any cache
  coherent with the tables; a data field overrides a generated one of the same name.\<close>

theorem create_then_find_by_id:
  assumes "coherent p" and "clean_name table" and "jm_get (pv_tables p) table = Some t"
    and "distinct (jm_keys data)" and "create_record now i table data p = (Inr r, p')"
  shows "fst (find_by_id now' table i p') = Inr (Some (JObj r)) \<and>
         field_of r f = (if jm_has data f then field_of data f
                         else field_of [(''id'', JStr i), (''createdAt'', JDate now), (''updatedAt'', JDate now)] f)"
proof -
  have r: "r = new_record now i data"
      and p': "p' = cache_record now (cache_key table i) r (put_record table t i r p)"
    using assms(3,5) by (auto simp: create_record_def get_table_def Let_def)
  have "coherent p'" unfolding p' using assms(1-3) by (rule coherent_put)
  then have "transparent (find_by_id now' table i) p'"
    using assms(2) by (rule transparent_find_by_id)
  then have "fst (find_by_id now' table i p') = fst (find_by_id now' table i (strip p'))"
    by (simp add: transparent_def)
  also have "\<dots> = Inr (Some (JObj r))"
    unfolding p' by (simp add: find_by_id_def get_table_def put_record_def cache_record_def)
  finally show ?thesis
    using assms(4) by (simp add: r new_record_def field_of_spread)
qed

definition demo_provider :: provider where
  "demo_provider = create_table ''t'' demo_schema
     (initialize_provider (Some \<lparr>cs_max_size = Some 1, cs_ttl_seconds = None, cs_max_memory_mb = None\<rparr>) new_provider)"

definition demo_table :: mem_table where
  "demo_table = \<lparr>mt_schema = demo_schema, mt_records = []\<rparr>"

lemma demo_provider_table: "jm_get (pv_tables demo_provider) ''t'' = Some demo_table"
  by (simp add: demo_provider_def demo_table_def create_table_def initialize_provider_def new_provider_def)

lemma demo_provider_coherent: "coherent demo_provider"
  by (simp add: demo_provider_def coherent_def create_table_def initialize_provider_def new_provider_def
                lru_cache.backed_def lru_view_def lru_new_def map_le_def dom_def)

theorem create_then_find_by_id_witness:
  "\<exists>r p'. create_record 5 ''x'' ''t'' [(''name'', JStr ''n'')] demo_provider = (Inr r, p') \<and>
     fst (find_by_id 9 ''t'' ''x'' p') = Inr (Some (JObj r)) \<and> field_of r ''name'' = JStr ''n''"
proof -
  obtain r p' where rp: "create_record 5 ''x'' ''t'' [(''name'', JStr ''n'')] demo_provider = (Inr r, p')"
    using demo_provider_table by (simp add: create_record_def get_table_def Let_def)
  have "clean_name ''t''" by (simp add: clean_name_def)
  from create_then_find_by_id [OF demo_provider_coherent this demo_provider_table _ rp, of 9 "''name''"]
  show ?thesis using rp by (auto simp: jm_has_def field_of_def)
qed

text \<open>\<open>deleteMany\<close> removes exactly the records that match the filter, keeps the others in their
  order, and returns how many it removed.\<close>

theorem delete_many_exact:
  assumes "provider_wf p" and "get_table table p = Inr t"
  shows "\<exists>p'. delete_many pf table f p = (Inr (length (filter (\<lambda>(i, r). matches_filter pf f r) (mt_records t))), p') \<and>
     get_table table p' = Inr (t\<lparr>mt_records := filter (\<lambda>(i, r). \<not> matches_filter pf f r) (mt_records t)\<rparr>)"
proof -
  let ?ids = "map fst (filter (\<lambda>(i, r). matches_filter pf f r) (mt_records t))"
  obtain p' where p': "delete_loop table ?ids 0 p = (0 + length ?ids, p')"
      "get_table table p' = Inr (t\<lparr>mt_records := filter (\<lambda>e. fst e \<notin> set ?ids) (mt_records t)\<rparr>)"
    using delete_loop_effect [OF assms(2), of ?ids 0] by blast
  have "filter (\<lambda>e. fst e \<notin> set ?ids) (mt_records t) = filter (\<lambda>(i, r). \<not> matches_filter pf f r) (mt_records t)"
    using wf_ids [OF assms] by (intro filter_cong) (auto dest: eq_key_imp_eq_value)
  with p' assms(2) show ?thesis by (simp add: delete_many_def Let_def)
qed

theorem delete_many_exact_witness:
  "\<exists>p'. delete_many demo_platform ''t'' \<lparr>qf_conditions = [], qf_operator = None\<rparr> demo_provider = (Inr 0, p')"
proof -
  have wf: "provider_wf demo_provider"
    by (simp add: provider_wf_def demo_provider_def create_table_def initialize_provider_def new_provider_def)
  have t: "get_table ''t'' demo_provider = Inr demo_table"
    using demo_provider_table by (simp add: get_table_def)
  from delete_many_exact [OF wf t, of demo_platform "\<lparr>qf_conditions = [], qf_operator = None\<rparr>"]
  show ?thesis by (auto simp: demo_table_def)
qed

text \<open>\<open>updateMany\<close> returns the number of matching records, keeps the set and order of ids, and
  leaves each record as it was or, where it matched, with the data spread over it and \<open>updatedAt\<close>
  set.\<close>

theorem update_many_exact:
  assumes "provider_wf p" and "get_table table p = Inr t"
  shows "\<exists>p' t'. update_many pf now table f data p =
      (Inr (length (filter (\<lambda>(i, r). matches_filter pf f r) (mt_records t))), p') \<and>
     get_table table p' = Inr t' \<and> jm_keys (mt_records t') = jm_keys (mt_records t) \<and>
     (\<forall>i. jm_get (mt_records t') i =
        map_option (\<lambda>r. if matches_filter pf f r then updated_record now r data else r) (jm_get (mt_records t) i))"
proof -
  note d = wf_ids [OF assms]
  then have "\<forall>(i, r) \<in> set (mt_records t). jm_get (mt_records t) i = Some r"
    by (auto simp: map_of_is_SomeI)
  from update_loop_effect [OF assms(2) d this, of pf now f data 0] assms(2)
  show ?thesis
    by (auto simp: update_many_def) (metis (no_types, lifting) map_of_eq_None_iff option.map_disc_iff)
qed

theorem update_many_exact_witness:
  "\<exists>p'. update_many demo_platform 7 ''t'' \<lparr>qf_conditions = [], qf_operator = None\<rparr> [] demo_provider = (Inr 0, p')"
proof -
  have wf: "provider_wf demo_provider"
    by (simp add: provider_wf_def demo_provider_def create_table_def initialize_provider_def new_provider_def)
  have t: "get_table ''t'' demo_provider = Inr demo_table"
    using demo_provider_table by (simp add: get_table_def)
  from update_many_exact [OF wf t, of demo_platform 7 "\<lparr>qf_conditions = [], qf_operator = None\<rparr>" "[]"]
  show ?thesis by (auto simp: demo_table_def)
qed

text \<open>C4: A sorted page. With a sort by one field that holds strings, ascending, \<open>find\<close> returns the
  window \<open>[offset, offset + limit)\<close> of the matching records in the stable order of that field; \<open>total\<close>
  counts all matches, \<open>hasMore\<close> says whether matches lie beyond the window, and then the cursor is
  the next offset.\<close>

theorem find_sorted_page:
  assumes "get_table table p = Inr t" and "0 \<le> offset" and "0 < limit"
    and "\<forall>(i, r) \<in> set (mt_records t). \<exists>x. field_of r f = JStr x"
  shows "fst (find_records pf table
           \<lparr>qo_filter = Some q, qo_sort = Some [\<lparr>so_field = f, so_direction = Asc\<rparr>],
            qo_pagination = Some \<lparr>pg_limit = Some limit, pg_offset = Some offset\<rparr>\<rparr> p) =
         (let rs = sort_key (str_field f) (filter (matches_filter pf q) (map snd (mt_records t)))
          in Inr \<lparr>qr_data = take (nat limit) (drop (nat offset) rs), qr_total = length rs,
                  qr_has_more = (offset + limit < int (length rs)),
                  qr_next_cursor = (if offset + limit < int (length rs)
                                    then Some (int_to_dec (offset + limit)) else None)\<rparr>)"
proof -
  have "\<forall>r \<in> set (filter (matches_filter pf q) (map snd (mt_records t))). \<exists>x. field_of r f = JStr x"
    using assms(4) by auto
  note srt = sort_by_str_field [OF this, of pf]
  show ?thesis
    using assms(1)
    by (simp add: find_records_def select_records_def srt page_window [OF assms(2,3)] Let_def del: compare_records.simps)
qed

theorem find_sorted_page_witness:
  "fst (find_records demo_platform ''t''
      \<lparr>qo_filter = Some \<lparr>qf_conditions = [], qf_operator = None\<rparr>,
       qo_sort = Some [\<lparr>so_field = ''name'', so_direction = Asc\<rparr>],
       qo_pagination = Some \<lparr>pg_limit = Some 1, pg_offset = Some 0\<rparr>\<rparr>
      (\<lparr>pv_tables = [(''t'', \<lparr>mt_schema = demo_schema,
          mt_records = [(''1'', [(''name'', JStr ''b'')]), (''2'', [(''name'', JStr ''a'')])]\<rparr>)], pv_cache = None\<rparr>)) =
   Inr \<lparr>qr_data = [[(''name'', JStr ''a'')]], qr_total = 2, qr_has_more = True, qr_next_cursor = Some ''1''\<rparr>"
  (is "fst (find_records _ _ _ ?p) = _")
proof -
  let ?t = "\<lparr>mt_schema = demo_schema,
          mt_records = [(''1'', [(''name'', JStr ''b'')]), (''2'', [(''name'', JStr ''a'')])]\<rparr>"
  have t: "get_table ''t'' ?p = Inr ?t" by (simp add: get_table_def)
  have f: "\<forall>(i, r) \<in> set (mt_records ?t). \<exists>x. field_of r ''name'' = JStr x"
    by (simp add: field_of_def)
  have c: "(\<not> ''b'' \<le> ''a'')" by code_simp
  have n: "int_to_dec 1 = ''1''" by code_simp
  have srt: "sort_key (str_field ''name'') [[(''name'', JStr ''b'')], [(''name'', JStr ''a'')]] =
      [[(''name'', JStr ''a'')], [(''name'', JStr ''b'')]]"
    by code_simp
  show ?thesis
    using find_sorted_page [OF t _ _ f, of 0 1 demo_platform "\<lparr>qf_conditions = [], qf_operator = None\<rparr>"] srt n
    by (simp add: matches_filter_def)
qed



end
