(* ===== verification/Storage_Manager.thy ===== *)
theory Storage_Manager
  imports Memory_Provider
begin

text \<open>
  The storage manager of \<open>src/src/core/storage/manager.ts\<close> on the in-memory provider: it checks that
  it is initialised, delegates to the provider, keeps the provider's cache in step, emits an event per
  mutation and counts the queries. \<open>dur\<close> is the elapsed time a call adds to the query statistics.
  Events are recorded in the order of emission; the callbacks subscribed to them are not modelled
  (no part of the program subscribes one).
\<close>

section \<open>State\<close>

datatype storage_event =
    RecordCreated | RecordUpdated | RecordDeleted | TableCreated | TableDropped
  | TransactionStarted | TransactionCommitted | TransactionRollback | CacheHit | CacheMiss | ErrorEvent

record event_data =
  ev_table :: "string option"
  ev_record_id :: "string option"
  ev_operation :: string
  ev_timestamp :: int

record manager =
  mg_provider :: "provider option"
  mg_events :: "(storage_event \<times> event_data) list"
  mg_total_queries :: nat
  mg_query_time :: int
  mg_active_transactions :: int

definition not_initialized :: storage_error where
  "not_initialized = ValidationError ''Storage manager not initialized''"

definition new_manager :: manager where
  "new_manager = \<lparr>mg_provider = None, mg_events = [], mg_total_queries = 0, mg_query_time = 0,
                  mg_active_transactions = 0\<rparr>"

definition emit_event ::
  "int \<Rightarrow> storage_event \<Rightarrow> string option \<Rightarrow> string option \<Rightarrow> string \<Rightarrow> manager \<Rightarrow> manager" where
  "emit_event now ev table i operation m =
     m\<lparr>mg_events := mg_events m @ [(ev, \<lparr>ev_table = table, ev_record_id = i, ev_operation = operation,
                                       ev_timestamp = now\<rparr>)]\<rparr>"

definition update_query_stats :: "int \<Rightarrow> manager \<Rightarrow> manager" where
  "update_query_stats dur m =
     m\<lparr>mg_total_queries := Suc (mg_total_queries m), mg_query_time := mg_query_time m + dur\<rparr>"

definition with_cache :: "(lru \<Rightarrow> lru) \<Rightarrow> provider \<Rightarrow> provider" where
  "with_cache f p = p\<lparr>pv_cache := map_option f (pv_cache p)\<rparr>"

definition mg_initialize :: "int \<Rightarrow> cache_settings option \<Rightarrow> manager \<Rightarrow> manager" where
  "mg_initialize now cfg m =
     emit_event now TableCreated None None ''initialize''
       (m\<lparr>mg_provider := Some (initialize_provider cfg new_provider)\<rparr>)"

definition mg_get_provider :: "manager \<Rightarrow> storage_error + provider" where
  "mg_get_provider m = (case mg_provider m of None \<Rightarrow> Inl not_initialized | Some p \<Rightarrow> Inr p)"

definition mg_get_cache :: "manager \<Rightarrow> lru option" where
  "mg_get_cache m = (case mg_provider m of None \<Rightarrow> None | Some p \<Rightarrow> pv_cache p)"

section \<open>Records\<close>

definition mg_create :: "int \<Rightarrow> int \<Rightarrow> string \<Rightarrow> string \<Rightarrow> jsobj \<Rightarrow> manager \<Rightarrow> (storage_error + jsobj) \<times> manager" where
  "mg_create dur now i table data m =
     (case mg_provider m of
        None \<Rightarrow> (Inl not_initialized, m)
      | Some p \<Rightarrow>
          (case create_record now i table data p of
             (Inl e, p') \<Rightarrow> (Inl e, update_query_stats dur (m\<lparr>mg_provider := Some p'\<rparr>))
           | (Inr r, p') \<Rightarrow>
               (Inr r, update_query_stats dur
                  (emit_event now RecordCreated (Some table)
                     (case field_of r ''id'' of JStr s \<Rightarrow> Some s | _ \<Rightarrow> None) ''create''
                     (m\<lparr>mg_provider := Some p'\<rparr>)))))"

definition mg_create_many ::
  "int \<Rightarrow> int \<Rightarrow> string \<Rightarrow> (string \<times> jsobj) list \<Rightarrow> manager \<Rightarrow> (storage_error + jsobj list) \<times> manager" where
  "mg_create_many dur now table items m =
     (case mg_provider m of
        None \<Rightarrow> (Inl not_initialized, m)
      | Some p \<Rightarrow>
          (case create_many now table items p of
             (Inl e, p') \<Rightarrow> (Inl e, update_query_stats dur (m\<lparr>mg_provider := Some p'\<rparr>))
           | (Inr rs, p') \<Rightarrow>
               (Inr rs, update_query_stats dur
                  (emit_event now RecordCreated (Some table) None ''create_many'' (m\<lparr>mg_provider := Some p'\<rparr>)))))"

text \<open>The manager looks into the cache before it asks the provider, which looks again.\<close>

definition mg_find_by_id ::
  "int \<Rightarrow> int \<Rightarrow> string \<Rightarrow> string \<Rightarrow> manager \<Rightarrow> (storage_error + jsval option) \<times> manager" where
  "mg_find_by_id dur now table i m =
     (case mg_provider m of
        None \<Rightarrow> (Inl not_initialized, m)
      | Some p \<Rightarrow>
          (case pv_cache p of
             None \<Rightarrow>
               (case find_by_id now table i p of
                  (res, p') \<Rightarrow> (res, update_query_stats dur (m\<lparr>mg_provider := Some p'\<rparr>)))
           | Some c \<Rightarrow>
               (case lru_get now (cache_key table i) c of
                  (hit, c') \<Rightarrow>
                    (let m1 = m\<lparr>mg_provider := Some (p\<lparr>pv_cache := Some c'\<rparr>)\<rparr>
                     in if (case hit of None \<Rightarrow> False | Some v \<Rightarrow> truthy v)
                        then (Inr hit, update_query_stats dur
                                (emit_event now CacheHit (Some table) (Some i) ''find_by_id'' m1))
                        else
                          (let m2 = emit_event now CacheMiss (Some table) (Some i) ''find_by_id'' m1
                           in case find_by_id now table i (p\<lparr>pv_cache := Some c'\<rparr>) of
                                (Inr (Some v), p') \<Rightarrow>
                                  (Inr (Some v), update_query_stats dur
                                     (m2\<lparr>mg_provider :=
                                        Some (with_cache (lru_set now (cache_key table i) v None) p')\<rparr>))
                              | (res, p') \<Rightarrow> (res, update_query_stats dur (m2\<lparr>mg_provider := Some p'\<rparr>)))))))"

definition mg_find ::
  "platform \<Rightarrow> int \<Rightarrow> string \<Rightarrow> query_options \<Rightarrow> manager \<Rightarrow> (storage_error + query_result) \<times> manager" where
  "mg_find pf dur table opts m =
     (case mg_provider m of
        None \<Rightarrow> (Inl not_initialized, m)
      | Some p \<Rightarrow> (case find_records pf table opts p of
                     (res, p') \<Rightarrow> (res, update_query_stats dur (m\<lparr>mg_provider := Some p'\<rparr>))))"

definition mg_find_first ::
  "platform \<Rightarrow> int \<Rightarrow> string \<Rightarrow> query_options \<Rightarrow> manager \<Rightarrow> (storage_error + jsobj option) \<times> manager" where
  "mg_find_first pf dur table opts m =
     (case mg_provider m of
        None \<Rightarrow> (Inl not_initialized, m)
      | Some p \<Rightarrow> (case find_first pf table opts p of
                     (res, p') \<Rightarrow> (res, update_query_stats dur (m\<lparr>mg_provider := Some p'\<rparr>))))"

definition mg_update_by_id ::
  "int \<Rightarrow> int \<Rightarrow> string \<Rightarrow> string \<Rightarrow> jsobj \<Rightarrow> manager \<Rightarrow> (storage_error + jsobj option) \<times> manager" where
  "mg_update_by_id dur now table i data m =
     (case mg_provider m of
        None \<Rightarrow> (Inl not_initialized, m)
      | Some p \<Rightarrow>
          (case update_by_id now table i data p of
             (Inr (Some r), p') \<Rightarrow>
               (Inr (Some r), update_query_stats dur
                  (emit_event now RecordUpdated (Some table) (Some i) ''update''
                     (m\<lparr>mg_provider := Some (uncache (cache_key table i) p')\<rparr>)))
           | (res, p') \<Rightarrow> (res, update_query_stats dur (m\<lparr>mg_provider := Some p'\<rparr>))))"

text \<open>\<open>`${table}:${record.id}`\<close> for the records a query returned.\<close>

definition record_key :: "platform \<Rightarrow> string \<Rightarrow> jsobj \<Rightarrow> string" where
  "record_key pf table r = cache_key table (js_string (pf_date_string pf) (field_of r ''id''))"

definition uncache_records :: "platform \<Rightarrow> string \<Rightarrow> jsobj list \<Rightarrow> provider \<Rightarrow> provider" where
  "uncache_records pf table rs p = fold (\<lambda>r. uncache (record_key pf table r)) rs p"

definition uncache_table :: "string \<Rightarrow> provider \<Rightarrow> provider" where
  "uncache_table table p = with_cache (\<lambda>c. snd (lru_delete_by_prefix (table @ '':'') c)) p"

definition mg_update_many ::
  "platform \<Rightarrow> int \<Rightarrow> int \<Rightarrow> string \<Rightarrow> query_filter \<Rightarrow> jsobj \<Rightarrow> manager \<Rightarrow> (storage_error + nat) \<times> manager" where
  "mg_update_many pf dur now table f data m =
     (case mg_provider m of
        None \<Rightarrow> (Inl not_initialized, m)
      | Some p \<Rightarrow>
          (case update_many pf now table f data p of
             (Inl e, p') \<Rightarrow> (Inl e, update_query_stats dur (m\<lparr>mg_provider := Some p'\<rparr>))
           | (Inr n, p') \<Rightarrow>
               (if n = 0 then (Inr n, update_query_stats dur (m\<lparr>mg_provider := Some p'\<rparr>))
                else
                  (let p2 = (case pv_cache p' of
                               None \<Rightarrow> p'
                             | Some _ \<Rightarrow>
                                 (case find_records pf table (empty_query\<lparr>qo_filter := Some f\<rparr>) p' of
                                    (Inr q, p1) \<Rightarrow> uncache_records pf table (qr_data q) p1
                                  | (Inl _, p1) \<Rightarrow> uncache_table table p1))
                   in (Inr n, update_query_stats dur
                         (emit_event now RecordUpdated (Some table) None ''update_many''
                            (m\<lparr>mg_provider := Some p2\<rparr>)))))))"

definition mg_delete_by_id :: "int \<Rightarrow> int \<Rightarrow> string \<Rightarrow> string \<Rightarrow> manager \<Rightarrow> (storage_error + bool) \<times> manager" where
  "mg_delete_by_id dur now table i m =
     (case mg_provider m of
        None \<Rightarrow> (Inl not_initialized, m)
      | Some p \<Rightarrow>
          (case delete_by_id table i p of
             (Inr True, p') \<Rightarrow>
               (Inr True, update_query_stats dur
                  (emit_event now RecordDeleted (Some table) (Some i) ''delete''
                     (m\<lparr>mg_provider := Some (uncache (cache_key table i) p')\<rparr>)))
           | (res, p') \<Rightarrow> (res, update_query_stats dur (m\<lparr>mg_provider := Some p'\<rparr>))))"

definition mg_delete_many ::
  "platform \<Rightarrow> int \<Rightarrow> int \<Rightarrow> string \<Rightarrow> query_filter \<Rightarrow> manager \<Rightarrow> (storage_error + nat) \<times> manager" where
  "mg_delete_many pf dur now table f m =
     (case mg_provider m of
        None \<Rightarrow> (Inl not_initialized, m)
      | Some p \<Rightarrow>
          (let affected = (case pv_cache p of
                             None \<Rightarrow> []
                           | Some _ \<Rightarrow> (case find_records pf table (empty_query\<lparr>qo_filter := Some f\<rparr>) p of
                                          (Inr q, _) \<Rightarrow> qr_data q
                                        | (Inl _, _) \<Rightarrow> []))
           in case delete_many pf table f p of
                (Inl e, p') \<Rightarrow> (Inl e, update_query_stats dur (m\<lparr>mg_provider := Some p'\<rparr>))
              | (Inr n, p') \<Rightarrow>
                  (if n = 0 then (Inr n, update_query_stats dur (m\<lparr>mg_provider := Some p'\<rparr>))
                   else
                     (let p2 = (if affected \<noteq> [] then uncache_records pf table affected p'
                                else uncache_table table p')
                      in (Inr n, update_query_stats dur
                            (emit_event now RecordDeleted (Some table) None ''delete_many''
                               (m\<lparr>mg_provider := Some p2\<rparr>)))))))"

definition mg_exists :: "int \<Rightarrow> int \<Rightarrow> string \<Rightarrow> string \<Rightarrow> manager \<Rightarrow> (storage_error + bool) \<times> manager" where
  "mg_exists dur now table i m =
     (case mg_provider m of
        None \<Rightarrow> (Inl not_initialized, m)
      | Some p \<Rightarrow> (case record_exists now table i p of
                     (res, p') \<Rightarrow> (res, update_query_stats dur (m\<lparr>mg_provider := Some p'\<rparr>))))"

definition mg_count ::
  "platform \<Rightarrow> int \<Rightarrow> string \<Rightarrow> query_filter option \<Rightarrow> manager \<Rightarrow> (storage_error + nat) \<times> manager" where
  "mg_count pf dur table f m =
     (case mg_provider m of
        None \<Rightarrow> (Inl not_initialized, m)
      | Some p \<Rightarrow> (case count_records pf table f p of
                     (res, p') \<Rightarrow> (res, update_query_stats dur (m\<lparr>mg_provider := Some p'\<rparr>))))"

section \<open>Tables, statistics, life cycle\<close>

definition mg_create_table :: "int \<Rightarrow> string \<Rightarrow> table_schema \<Rightarrow> manager \<Rightarrow> (storage_error + unit) \<times> manager" where
  "mg_create_table now name schema m =
     (case mg_provider m of
        None \<Rightarrow> (Inl not_initialized, m)
      | Some p \<Rightarrow>
          (Inr (), emit_event now TableCreated (Some name) None ''create_table''
                     (m\<lparr>mg_provider := Some (create_table name schema p)\<rparr>)))"

definition mg_drop_table :: "int \<Rightarrow> string \<Rightarrow> manager \<Rightarrow> (storage_error + unit) \<times> manager" where
  "mg_drop_table now name m =
     (case mg_provider m of
        None \<Rightarrow> (Inl not_initialized, m)
      | Some p \<Rightarrow>
          (Inr (), emit_event now TableDropped (Some name) None ''drop_table''
                     (m\<lparr>mg_provider := Some (uncache_table name (drop_table name p))\<rparr>)))"

definition mg_list_tables :: "manager \<Rightarrow> storage_error + string list" where
  "mg_list_tables m = (case mg_provider m of None \<Rightarrow> Inl not_initialized | Some p \<Rightarrow> Inr (list_tables p))"

definition mg_health_check :: "manager \<Rightarrow> bool" where
  "mg_health_check m = (case mg_provider m of None \<Rightarrow> False | Some p \<Rightarrow> health_check p)"

record storage_stats =
  ss_tables_count :: nat
  ss_total_records :: nat
  ss_cache :: "lru_stats option"
  ss_avg_query_time :: rat
  ss_total_queries :: nat
  ss_active_transactions :: int

fun count_tables :: "platform \<Rightarrow> int \<Rightarrow> string list \<Rightarrow> nat \<Rightarrow> manager \<Rightarrow> nat \<times> manager" where
  "count_tables pf dur [] n m = (n, m)"
| "count_tables pf dur (t # ts) n m =
     (case mg_count pf dur t None m of
        (Inr k, m') \<Rightarrow> count_tables pf dur ts (n + k) m'
      | (Inl _, m') \<Rightarrow> count_tables pf dur ts n m')"

definition mg_get_stats :: "platform \<Rightarrow> int \<Rightarrow> manager \<Rightarrow> (storage_error + storage_stats) \<times> manager" where
  "mg_get_stats pf dur m =
     (case mg_list_tables m of
        Inl e \<Rightarrow> (Inl e, m)
      | Inr tables \<Rightarrow>
          (case count_tables pf dur tables 0 m of
             (n, m') \<Rightarrow>
               (let avg = (if mg_total_queries m' > 0
                           then of_int (mg_query_time m') / of_nat (mg_total_queries m') else 0 :: rat)
                in (Inr \<lparr>ss_tables_count = length tables, ss_total_records = n,
                         ss_cache = map_option lru_get_stats (mg_get_cache m'),
                         ss_avg_query_time = of_int \<lfloor>avg * 100 + 1 / 2\<rfloor> / 100,
                         ss_total_queries = mg_total_queries m',
                         ss_active_transactions = mg_active_transactions m'\<rparr>, m'))))"

definition mg_close :: "manager \<Rightarrow> manager" where
  "mg_close m = m\<lparr>mg_provider := None\<rparr>"

section \<open>Transactions\<close>

text \<open>
  \<open>withTransaction\<close>: \<open>fn\<close> runs on the provider through the transactional wrapper, which delegates
  every operation to it unchanged (and runs a nested transaction's function directly).
\<close>

definition mg_with_transaction ::
  "int \<Rightarrow> (provider \<Rightarrow> (storage_error + 'a) \<times> provider) \<Rightarrow> manager \<Rightarrow> (storage_error + 'a) \<times> manager" where
  "mg_with_transaction now fn m =
     (case mg_provider m of
        None \<Rightarrow> (Inl not_initialized, m)
      | Some p \<Rightarrow>
          (let m1 = emit_event now TransactionStarted None None ''begin_transaction''
                      (m\<lparr>mg_active_transactions := mg_active_transactions m + 1\<rparr>)
           in case tx_execute fn (begin_transaction p) p of
                (res, tx, p1) \<Rightarrow>
                  (let outcome = (case res of
                                    Inl e \<Rightarrow> (Inl e, tx)
                                  | Inr a \<Rightarrow> (case tx_commit tx of
                                               (Inl e, tx') \<Rightarrow> (Inl e, tx')
                                             | (Inr _, tx') \<Rightarrow> (Inr a, tx')))
                   in case outcome of
                        (Inr a, tx') \<Rightarrow>
                          (let m2 = emit_event now TransactionCommitted None None ''commit_transaction''
                                      (m1\<lparr>mg_provider := Some p1\<rparr>)
                           in (Inr a, m2\<lparr>mg_active_transactions := mg_active_transactions m2 - 1\<rparr>))
                      | (Inl e, tx') \<Rightarrow>
                          (case tx_rollback_all tx' p1 of
                             (tx'', p2) \<Rightarrow>
                               (let m2 = emit_event now TransactionRollback None None ''rollback_transaction''
                                           (m1\<lparr>mg_provider := Some p2\<rparr>)
                                in (Inl e, m2\<lparr>mg_active_transactions := mg_active_transactions m2 - 1\<rparr>))))))"

section \<open>The manager against the plain tables\<close>

fun mg_exec :: "platform \<Rightarrow> int \<Rightarrow> prov_op \<Rightarrow> manager \<Rightarrow> prov_out \<times> manager" where
  "mg_exec pf dur (PCreate now i table data) m = map_prod RRecord id (mg_create dur now i table data m)"
| "mg_exec pf dur (PCreateMany now table items) m = map_prod RRecords id (mg_create_many dur now table items m)"
| "mg_exec pf dur (PFindById now table i) m = map_prod RValue id (mg_find_by_id dur now table i m)"
| "mg_exec pf dur (PFind table opts) m = map_prod RQuery id (mg_find pf dur table opts m)"
| "mg_exec pf dur (PFindFirst table opts) m = map_prod ROptional id (mg_find_first pf dur table opts m)"
| "mg_exec pf dur (PUpdateById now table i data) m = map_prod ROptional id (mg_update_by_id dur now table i data m)"
| "mg_exec pf dur (PUpdateMany now table f data) m = map_prod RCount id (mg_update_many pf dur now table f data m)"
| "mg_exec pf dur (PDeleteById table i) m = map_prod RBool id (mg_delete_by_id dur 0 table i m)"
| "mg_exec pf dur (PDeleteMany table f) m = map_prod RCount id (mg_delete_many pf dur 0 table f m)"
| "mg_exec pf dur (PExists now table i) m = map_prod RBool id (mg_exists dur now table i m)"
| "mg_exec pf dur (PCount table f) m = map_prod RCount id (mg_count pf dur table f m)"
| "mg_exec pf dur (PCreateTable name schema) m = (RDone, snd (mg_create_table 0 name schema m))"
| "mg_exec pf dur (PDropTable name) m = (RDone, snd (mg_drop_table 0 name m))"
| "mg_exec pf dur PListTables m =
     (case mg_list_tables m of Inr ts \<Rightarrow> (RTables ts, m) | Inl _ \<Rightarrow> (RTables [], m))"
| "mg_exec pf dur (PCacheCleanup now) m =
     (RDone, m\<lparr>mg_provider := map_option (with_cache (lru_cleanup now)) (mg_provider m)\<rparr>)"
| "mg_exec pf dur PClose m = (RDone, mg_close m)"

fun mg_run :: "platform \<Rightarrow> int \<Rightarrow> prov_op list \<Rightarrow> manager \<Rightarrow> prov_out list \<times> manager" where
  "mg_run pf dur [] m = ([], m)"
| "mg_run pf dur (a # as) m =
     (case mg_exec pf dur a m of (out, m1) \<Rightarrow>
        (case mg_run pf dur as m1 of (outs, m2) \<Rightarrow> (out # outs, m2)))"

text \<open>A manager represents the plain provider (no cache) with the same tables.\<close>

definition represents :: "manager \<Rightarrow> provider \<Rightarrow> bool" where
  "represents m p \<longleftrightarrow> (\<exists>q. mg_provider m = Some q \<and> coherent q \<and> p = strip q)"

lemma mg_fields [simp]:
  "mg_provider (update_query_stats dur m) = mg_provider m"
  "mg_provider (emit_event now ev t i a m) = mg_provider m"
  "mg_total_queries (emit_event now ev t i a m) = mg_total_queries m"
  "mg_total_queries (update_query_stats dur m) = Suc (mg_total_queries m)"
  "mg_active_transactions (emit_event now ev t i a m) = mg_active_transactions m"
  "mg_active_transactions (update_query_stats dur m) = mg_active_transactions m"
  by (simp_all add: update_query_stats_def emit_event_def)

lemma strip_with_cache [simp]: "strip (with_cache f p) = strip p"
  by (simp add: with_cache_def)

lemma coherent_uncache: "coherent p \<Longrightarrow> coherent (uncache key p)"
  unfolding coherent_def uncache_def
  by (auto intro: lru_cache.backed_mono [OF lru_cache.backed_delete] simp: map_le_def split: option.splits)

lemma coherent_uncache_table: "coherent p \<Longrightarrow> coherent (uncache_table table p)"
  unfolding coherent_def uncache_table_def with_cache_def
  by (auto intro!: lru_cache.backed_delete_prefix split: option.splits)

lemma strip_uncache_table [simp]: "strip (uncache_table table p) = strip p"
  by (simp add: uncache_table_def)

lemma coherent_uncache_records: "coherent p \<Longrightarrow> coherent (uncache_records pf table rs p)"
  unfolding uncache_records_def by (induction rs arbitrary: p) (simp_all add: coherent_uncache)

lemma strip_uncache_records [simp]: "strip (uncache_records pf table rs p) = strip p"
  unfolding uncache_records_def by (induction rs arbitrary: p) simp_all

lemma transparentD:
  assumes "transparent f q" and "f q = (res, q')"
  shows "f (strip q) = (res, strip q') \<and> coherent q'"
  using assms by (simp add: transparent_def)

lemma find_by_id_plain:
  "fst (find_by_id now table i (strip p)) = Inr (Some v) \<Longrightarrow>
     \<exists>t r. jm_get (pv_tables p) table = Some t \<and> jm_get (mt_records t) i = Some r \<and> v = JObj r"
  by (auto simp: find_by_id_def get_table_def split: option.splits)

lemma coherent_set_found:
  assumes "coherent q'" and "clean_name table"
    and "find_by_id now table i (strip q) = (Inr (Some v), strip q')"
  shows "coherent (with_cache (lru_set now (cache_key table i) v None) q')"
proof -
  from find_by_id_plain [of now table i q v] assms(3) obtain t r where
      "jm_get (pv_tables q) table = Some t" "jm_get (mt_records t) i = Some r" "v = JObj r" by auto
  moreover have "pv_tables q' = pv_tables q"
    using arg_cong [OF assms(3), of "\<lambda>x. pv_tables (snd x)"]
    by (auto simp: find_by_id_def cache_record_def split: option.splits sum.splits)
  ultimately have "coherent (cache_record now (cache_key table i) r q')"
    using assms(1,2) by (intro coherent_cache_record) simp_all
  then show ?thesis using \<open>v = JObj r\<close> by (simp add: cache_record_def with_cache_def)
qed

lemma mg_find_by_id_represents:
  assumes "represents m p" and clean: "clean_name table"
  shows "fst (mg_find_by_id dur now table i m) = fst (find_by_id now table i p) \<and>
         represents (snd (mg_find_by_id dur now table i m)) (snd (find_by_id now table i p))"
proof -
  obtain q where q: "mg_provider m = Some q" "coherent q" "p = strip q"
    using assms(1) by (auto simp: represents_def)
  have tr: "transparent (find_by_id now table i) q'" if "coherent q'" for q'
    using that clean by (rule transparent_find_by_id)
  show ?thesis
  proof (cases "pv_cache q")
    case None
    with transparentD [OF tr [OF q(2)]] q show ?thesis
      by (cases "find_by_id now table i q") (auto simp: mg_find_by_id_def represents_def)
  next
    case (Some c)
    obtain hit c' where get: "lru_get now (cache_key table i) c = (hit, c')" by fastforce
    let ?q1 = "q\<lparr>pv_cache := Some c'\<rparr>"
    have coh1: "coherent ?q1"
      using q(2) Some get lru_cache.backed_get [of c "tables_view (pv_tables q)" now "cache_key table i"]
      by (simp add: coherent_def)
    obtain res q2 where f: "find_by_id now table i ?q1 = (res, q2)" by fastforce
    have st: "find_by_id now table i (strip q) = (res, strip q2)" and coh2: "coherent q2"
      using transparentD [OF tr [OF coh1] f] by simp_all
    show ?thesis
    proof (cases "case hit of None \<Rightarrow> False | Some v \<Rightarrow> truthy v")
      case True
      then obtain v where v: "hit = Some v" by (auto split: option.splits)
      have "tables_view (pv_tables q) (cache_key table i) = Some v"
        using lru_cache.backed_hit [of c "tables_view (pv_tables q)" now "cache_key table i" v] q(2) Some get v
        by (simp add: coherent_def)
      then obtain t r where "jm_get (pv_tables q) table = Some t" "jm_get (mt_records t) i = Some r" "v = JObj r"
        using clean by (auto simp: tables_view_key split: option.splits)
      then have "find_by_id now table i (strip q) = (Inr (Some v), strip q)"
        by (simp add: find_by_id_def get_table_def)
      with True v Some get q coh1 show ?thesis
        by (auto simp: mg_find_by_id_def represents_def)
    next
      case False
      show ?thesis
      proof (cases "\<exists>v. res = Inr (Some v)")
        case True
        then obtain v where v: "res = Inr (Some v)" by blast
        have "coherent (with_cache (lru_set now (cache_key table i) v None) q2)"
          using coh2 clean st v by (intro coherent_set_found) simp_all
        with False v Some get q st f show ?thesis
          by (auto simp: mg_find_by_id_def represents_def Let_def)
      next
        case False': False
        with False Some get q st f coh2 show ?thesis
          by (auto simp: mg_find_by_id_def represents_def Let_def split: sum.splits option.splits)
      qed
    qed
  qed
qed

text \<open>
  \<open>delegates g f\<close>: at a manager over a coherent provider, the operation \<open>g\<close> returns what the provider's
  \<open>f\<close> returns and leaves a provider with the tables \<open>f\<close> leaves and a coherent cache.
\<close>

definition delegates :: "(manager \<Rightarrow> 'a \<times> manager) \<Rightarrow> (provider \<Rightarrow> 'a \<times> provider) \<Rightarrow> manager \<Rightarrow> provider \<Rightarrow> bool" where
  "delegates g f m p \<longleftrightarrow> fst (g m) = fst (f p) \<and> represents (snd (g m)) (snd (f p))"

lemma delegates_intro:
  assumes "represents m p"
    and "\<And>q. mg_provider m = Some q \<Longrightarrow> coherent q \<Longrightarrow> transparent f q"
    and "\<And>q res q1. \<lbrakk>mg_provider m = Some q; f q = (res, q1); coherent q1\<rbrakk> \<Longrightarrow>
           \<exists>m' q2. g m = (res, m') \<and> mg_provider m' = Some q2 \<and> coherent q2 \<and> strip q2 = strip q1"
  shows "delegates g f m p"
proof -
  obtain q where q: "mg_provider m = Some q" "coherent q" "p = strip q"
    using assms(1) by (auto simp: represents_def)
  obtain res q1 where f: "f q = (res, q1)" by fastforce
  with transparentD [OF assms(2) [OF q(1,2)] f] have "f p = (res, strip q1)" "coherent q1"
    using q(3) by simp_all
  with assms(3) [OF q(1) f] show ?thesis
    by (auto simp: delegates_def represents_def)
qed

lemma delegates_map:
  "delegates g f m p \<Longrightarrow> delegates (\<lambda>x. map_prod h id (g x)) (\<lambda>x. map_prod h id (f x)) m p"
  by (simp add: delegates_def map_prod_def split_beta)

lemma find_records_keeps: "snd (find_records pf table opts p) = p"
  by (simp add: find_records_def split: sum.splits)

lemma delegates_create:
  "represents m p \<Longrightarrow> clean_name table \<Longrightarrow>
     delegates (mg_create dur now i table data) (create_record now i table data) m p"
  by (rule delegates_intro, assumption, erule (1) transparent_create)
     (auto simp: mg_create_def split: sum.splits)

lemma delegates_create_many:
  "represents m p \<Longrightarrow> clean_name table \<Longrightarrow>
     delegates (mg_create_many dur now table items) (create_many now table items) m p"
  by (rule delegates_intro, assumption, erule (1) transparent_create_many)
     (auto simp: mg_create_many_def split: sum.splits)

lemma delegates_find_by_id:
  "represents m p \<Longrightarrow> clean_name table \<Longrightarrow>
     delegates (mg_find_by_id dur now table i) (find_by_id now table i) m p"
  unfolding delegates_def by (rule mg_find_by_id_represents)

lemma delegates_find:
  "represents m p \<Longrightarrow> delegates (mg_find pf dur table opts) (find_records pf table opts) m p"
  by (rule delegates_intro, assumption, erule transparent_find) (auto simp: mg_find_def)

lemma delegates_find_first:
  "represents m p \<Longrightarrow> delegates (mg_find_first pf dur table opts) (find_first pf table opts) m p"
  by (rule delegates_intro, assumption, erule transparent_find_first) (auto simp: mg_find_first_def)

lemma delegates_update_by_id:
  "represents m p \<Longrightarrow> clean_name table \<Longrightarrow>
     delegates (mg_update_by_id dur now table i data) (update_by_id now table i data) m p"
  by (rule delegates_intro, assumption, erule (1) transparent_update_by_id)
     (auto simp: mg_update_by_id_def coherent_uncache split: sum.splits option.splits)

lemma delegates_delete_by_id:
  "represents m p \<Longrightarrow> clean_name table \<Longrightarrow>
     delegates (mg_delete_by_id dur now table i) (delete_by_id table i) m p"
  by (rule delegates_intro, assumption, erule (1) transparent_delete_by_id)
     (auto simp: mg_delete_by_id_def coherent_uncache split: sum.splits bool.splits)

lemma delegates_exists:
  "represents m p \<Longrightarrow> clean_name table \<Longrightarrow>
     delegates (mg_exists dur now table i) (record_exists now table i) m p"
  by (rule delegates_intro, assumption, erule (1) transparent_exists) (auto simp: mg_exists_def)

lemma delegates_count:
  "represents m p \<Longrightarrow> delegates (mg_count pf dur table f) (count_records pf table f) m p"
  by (rule delegates_intro, assumption, erule transparent_count) (auto simp: mg_count_def)

lemma delegates_update_many:
  assumes "represents m p" and "clean_name table"
  shows "delegates (mg_update_many pf dur now table f data) (update_many pf now table f data) m p"
proof (rule delegates_intro [OF assms(1)])
  show "transparent (update_many pf now table f data) q" if "coherent q" for q
    using that assms(2) by (rule transparent_update_many)
next
  fix q res q1
  assume q: "mg_provider m = Some q" "update_many pf now table f data q = (res, q1)" "coherent q1"
  let ?p2 = "case pv_cache q1 of
               None \<Rightarrow> q1
             | Some _ \<Rightarrow> (case find_records pf table (empty_query\<lparr>qo_filter := Some f\<rparr>) q1 of
                            (Inr r, p1) \<Rightarrow> uncache_records pf table (qr_data r) p1
                          | (Inl _, p1) \<Rightarrow> uncache_table table p1)"
  have fr: "snd (find_records pf table (empty_query\<lparr>qo_filter := Some f\<rparr>) q1) = q1"
    by (rule find_records_keeps)
  then have "coherent ?p2 \<and> strip ?p2 = strip q1"
    using q(3) by (auto simp: coherent_uncache_records coherent_uncache_table split: option.splits prod.splits sum.splits)
  with q show "\<exists>m' q2. mg_update_many pf dur now table f data m = (res, m') \<and>
                 mg_provider m' = Some q2 \<and> coherent q2 \<and> strip q2 = strip q1"
    by (cases res) (simp_all add: mg_update_many_def Let_def)
qed

lemma delegates_delete_many:
  assumes "represents m p" and "clean_name table"
  shows "delegates (mg_delete_many pf dur now table f) (delete_many pf table f) m p"
  by (rule delegates_intro [OF assms(1)], erule transparent_delete_many [OF _ assms(2)])
     (auto simp: mg_delete_many_def Let_def coherent_uncache_records coherent_uncache_table split: sum.splits)

lemma delegates_exec:
  assumes rep: "represents m p" and clean: "clean_name (op_table a)" and "a \<noteq> PClose"
  shows "delegates (mg_exec pf dur a) (prov_exec pf a) m p"
proof (cases a)
  case (PCreateTable name schema)
  have "delegates (\<lambda>m. (RDone, snd (mg_create_table 0 name schema m)))
          (\<lambda>q. (RDone, create_table name schema q)) m p"
    using clean PCreateTable
    by (intro delegates_intro [OF rep] transparent_create_table) (auto simp: mg_create_table_def)
  with PCreateTable show ?thesis by (simp add: delegates_def)
next
  case (PDropTable name)
  have "delegates (\<lambda>m. (RDone, snd (mg_drop_table 0 name m))) (\<lambda>q. (RDone, drop_table name q)) m p"
    using clean PDropTable
    by (intro delegates_intro [OF rep] transparent_drop_table)
       (auto simp: mg_drop_table_def coherent_uncache_table)
  with PDropTable show ?thesis by (simp add: delegates_def)
next
  case (PCacheCleanup now)
  have "delegates (\<lambda>m. (RDone, m\<lparr>mg_provider := map_option (with_cache (lru_cleanup now)) (mg_provider m)\<rparr>))
          (\<lambda>q. (RDone, q\<lparr>pv_cache := map_option (lru_cleanup now) (pv_cache q)\<rparr>)) m p"
    by (intro delegates_intro [OF rep] transparent_cleanup) (auto simp: with_cache_def)
  with PCacheCleanup show ?thesis by (simp add: delegates_def)
next
  case PListTables
  with rep show ?thesis
    by (auto simp: delegates_def represents_def mg_list_tables_def list_tables_def)
qed (use assms in \<open>simp_all add: delegates_def\<close>,
     (use delegates_create delegates_create_many delegates_find_by_id delegates_find delegates_find_first
          delegates_update_by_id delegates_update_many delegates_delete_by_id delegates_delete_many
          delegates_exists delegates_count in \<open>simp add: delegates_def\<close>)+)

lemma mg_run_represents:
  assumes "represents m p" and "\<forall>a \<in> set as. clean_name (op_table a) \<and> a \<noteq> PClose"
  shows "fst (mg_run pf dur as m) = fst (prov_run pf as p) \<and>
         represents (snd (mg_run pf dur as m)) (snd (prov_run pf as p))"
  using assms
proof (induction "as" arbitrary: m p)
  case (Cons a "as")
  then have "delegates (mg_exec pf dur a) (prov_exec pf a) m p" by (simp add: delegates_exec)
  moreover obtain out m1 p1 where "mg_exec pf dur a m = (out, m1)" "prov_exec pf a p = (out, p1)"
    using \<open>delegates _ _ m p\<close> by (metis delegates_def prod.collapse)
  ultimately show ?case using Cons.IH [of m1 p1] Cons.prems(2)
    by (auto simp: delegates_def split_beta)
qed simp

section \<open>Bookkeeping\<close>

text \<open>The operations that read or write records: each counts as one query, whatever its outcome.\<close>

fun counts_as_query :: "prov_op \<Rightarrow> bool" where
  "counts_as_query (PCreateTable name schema) = False"
| "counts_as_query (PDropTable name) = False"
| "counts_as_query PListTables = False"
| "counts_as_query (PCacheCleanup now) = False"
| "counts_as_query PClose = False"
| "counts_as_query a = True"

lemmas manager_op_defs =
  mg_create_def mg_create_many_def mg_find_by_id_def mg_find_def mg_find_first_def mg_update_by_id_def
  mg_update_many_def mg_delete_by_id_def mg_delete_many_def mg_exists_def mg_count_def mg_create_table_def
  mg_drop_table_def mg_list_tables_def

lemma mg_exec_bookkeeping:
  assumes "mg_provider m = Some q" and "a \<noteq> PClose"
  shows "mg_provider (snd (mg_exec pf dur a m)) \<noteq> None"
    and "mg_total_queries (snd (mg_exec pf dur a m)) =
         mg_total_queries m + (if counts_as_query a then 1 else 0)"
    and "mg_active_transactions (snd (mg_exec pf dur a m)) = mg_active_transactions m"
  using assms
  by (cases a; auto simp: manager_op_defs Let_def split: prod.splits sum.splits option.splits bool.splits)+

lemma mg_run_bookkeeping:
  assumes "mg_provider m \<noteq> None" and "PClose \<notin> set as"
  shows "mg_total_queries (snd (mg_run pf dur as m)) = mg_total_queries m + length (filter counts_as_query as) \<and>
         mg_active_transactions (snd (mg_run pf dur as m)) = mg_active_transactions m"
  using assms
proof (induction "as" arbitrary: m)
  case (Cons a "as")
  then obtain q where "mg_provider m = Some q" by blast
  with Cons.prems(2) have "a \<noteq> PClose" by auto
  note book = mg_exec_bookkeeping [OF \<open>mg_provider m = Some q\<close> this, of pf dur]
  show ?case
    using Cons.IH [of "snd (mg_exec pf dur a m)"] book Cons.prems(2) by (simp add: split_beta)
qed simp

section \<open>Properties\<close>

text \<open>C6: The storage manager is its tables. On an in-memory provider with any cache settings, every
  sequence of storage operations on colon-free table names returns exactly what the plain provider
  without a cache returns: the manager's own cache reads, write-backs and invalidations never show a
  stale record.\<close>

theorem manager_refines_plain_tables:
  assumes "\<forall>a \<in> set ops. clean_name (op_table a) \<and> a \<noteq> PClose"
  shows "fst (mg_run pf dur ops (mg_initialize now cfg new_manager)) = fst (prov_run pf ops new_provider)"
proof -
  have "coherent (initialize_provider cfg new_provider)"
    by (auto simp: coherent_def initialize_provider_def new_provider_def lru_cache.backed_def
                   lru_view_def lru_new_def map_le_def dom_def split: option.splits)
  then have "represents (mg_initialize now cfg new_manager) new_provider"
    by (auto simp: represents_def mg_initialize_def initialize_provider_def new_provider_def split: option.splits)
  from mg_run_represents [OF this assms] show ?thesis by blast
qed

theorem manager_refines_plain_tables_witness:
  "fst (mg_run demo_platform 1 demo_ops
          (mg_initialize 0 (Some \<lparr>cs_max_size = Some 1, cs_ttl_seconds = Some 5, cs_max_memory_mb = None\<rparr>) new_manager)) =
   fst (prov_run demo_platform demo_ops new_provider)"
  by (rule manager_refines_plain_tables) (auto simp: demo_ops_def clean_name_def)

text \<open>Query accounting. Once initialised, the manager counts every record operation once, failed
  ones included, and table operations never; the number of active transactions is untouched.\<close>

theorem manager_counts_queries:
  assumes "PClose \<notin> set ops"
  shows "mg_total_queries (snd (mg_run pf dur ops (mg_initialize now cfg new_manager))) =
           length (filter counts_as_query ops) \<and>
         mg_active_transactions (snd (mg_run pf dur ops (mg_initialize now cfg new_manager))) = 0"
  using mg_run_bookkeeping [of "mg_initialize now cfg new_manager" ops pf dur] assms
  by (simp add: mg_initialize_def new_manager_def emit_event_def)

theorem manager_counts_queries_witness:
  "mg_total_queries (snd (mg_run demo_platform 1 demo_ops (mg_initialize 0 None new_manager))) = 3"
  using manager_counts_queries [of demo_ops demo_platform 1 0 None]
  by (simp add: demo_ops_def del: mg_run.simps)

text \<open>A transaction is its function. \<open>withTransaction\<close> returns the function's result or error and
  leaves the provider as the function left it, returns the active-transaction count to its value before
  the call on success and on failure alike, and records a start event followed by a commit on success or
  a rollback on failure.\<close>

theorem with_transaction_runs_function:
  assumes "mg_provider m = Some p" and "fn p = (res, p')"
  shows "\<exists>m'. mg_with_transaction now fn m = (res, m') \<and> mg_provider m' = Some p' \<and>
     mg_active_transactions m' = mg_active_transactions m \<and>
     map fst (mg_events m') = map fst (mg_events m) @
       [TransactionStarted, case res of Inr _ \<Rightarrow> TransactionCommitted | Inl _ \<Rightarrow> TransactionRollback]"
  using assms
  by (cases res)
     (simp_all add: mg_with_transaction_def tx_execute_def begin_transaction_def tx_rollback_all_def
        tx_commit_def emit_event_def)

definition missing_table_message :: string where
  "missing_table_message = ''Table '' @ [CHR 0x27] @ ''t'' @ [CHR 0x27] @ '' not found''"

theorem with_transaction_runs_function_witness:
  "\<exists>m'. mg_with_transaction 3 (create_record 1 ''x'' ''t'' []) (new_manager\<lparr>mg_provider := Some new_provider\<rparr>) =
          (Inl (NotFoundError missing_table_message), m') \<and>
        map fst (mg_events m') = [TransactionStarted, TransactionRollback]"
proof -
  let ?m = "new_manager\<lparr>mg_provider := Some new_provider\<rparr>"
  have "mg_provider ?m = Some new_provider" by simp
  moreover have "create_record 1 ''x'' ''t'' [] new_provider =
      (Inl (NotFoundError missing_table_message), new_provider)"
    by (simp add: create_record_def get_table_def new_provider_def missing_table_message_def)
  ultimately obtain m' where
      "mg_with_transaction 3 (create_record 1 ''x'' ''t'' []) ?m =
         (Inl (NotFoundError missing_table_message), m')"
      "map fst (mg_events m') = map fst (mg_events ?m) @ [TransactionStarted, TransactionRollback]"
    using with_transaction_runs_function [of ?m new_provider "create_record 1 ''x'' ''t'' []" _ _ 3] by fastforce
  then show ?thesis by (auto simp: new_manager_def)
qed

end
