(* ===== verification/Resource_Repository.thy ===== *)
theory Resource_Repository
  imports Storage_Manager
begin

text \<open>
  The persistence every name-addressed resource shares, \<open>src/src/core/storage/resource-repository.ts\<close>,
  with the page tokens of \<open>src/src/shared/utils/pagination.ts\<close>: one table per repository, looked up by
  exact name or by name prefix through the storage manager. The abstract view of a repository is a map
  from names to records; the simulation at the end relates the two.
\<close>

section \<open>Page sizes and page tokens\<close>

text \<open>A query parameter is absent (\<open>None\<close>) or a string.\<close>

definition default_list_page_size :: int where
  "default_list_page_size = 100"

definition parse_page_size :: "string option \<Rightarrow> int option" where
  "parse_page_size raw =
     (case raw of
        None \<Rightarrow> None
      | Some s \<Rightarrow>
          (if s = [] then None
           else case parse_int s of
                  None \<Rightarrow> None
                | Some n \<Rightarrow> (if n > 0 then Some n else None)))"

definition parse_offset_token :: "string option \<Rightarrow> int" where
  "parse_offset_token raw =
     (case raw of
        None \<Rightarrow> 0
      | Some s \<Rightarrow>
          (if s = [] then 0
           else case parse_int s of
                  None \<Rightarrow> 0
                | Some n \<Rightarrow> (if n < 0 then 0 else n)))"

section \<open>The repository\<close>

record repository =
  rr_table :: string
  rr_schema :: table_schema
  rr_label :: string
  rr_reject_duplicates :: bool

datatype repo_error =
    RepoError string
  | RepoStorage storage_error

record list_result =
  lr_records :: "jsobj list"
  lr_next_token :: "string option"

definition new_repository :: "string \<Rightarrow> table_schema \<Rightarrow> string \<Rightarrow> bool option \<Rightarrow> repository" where
  "new_repository table schema label reject =
     \<lparr>rr_table = table, rr_schema = schema, rr_label = label,
      rr_reject_duplicates = (case reject of None \<Rightarrow> True | Some b \<Rightarrow> b)\<rparr>"

fun lift_storage :: "(storage_error + 'a) \<times> manager \<Rightarrow> (repo_error + 'a) \<times> manager" where
  "lift_storage (Inl e, m) = (Inl (RepoStorage e), m)"
| "lift_storage (Inr a, m) = (Inr a, m)"

definition rr_initialize :: "int \<Rightarrow> repository \<Rightarrow> manager \<Rightarrow> (repo_error + unit) \<times> manager" where
  "rr_initialize now R m =
     (case mg_list_tables m of
        Inl e \<Rightarrow> (Inl (RepoStorage e), m)
      | Inr existing \<Rightarrow>
          (if rr_table R \<in> set existing then (Inr (), m)
           else lift_storage (mg_create_table now (rr_table R) (rr_schema R) m)))"

definition name_query :: "jsval \<Rightarrow> query_options" where
  "name_query v = empty_query\<lparr>qo_filter :=
     Some \<lparr>qf_conditions = [\<lparr>qc_field = ''name'', qc_operator = QEq, qc_value = v\<rparr>], qf_operator = None\<rparr>\<rparr>"

definition prefix_filter :: "string \<Rightarrow> query_filter" where
  "prefix_filter pre =
     \<lparr>qf_conditions = [\<lparr>qc_field = ''name'', qc_operator = QLike, qc_value = JStr (pre @ ''%'')\<rparr>],
      qf_operator = None\<rparr>"

definition by_name :: "sort_order list" where
  "by_name = [\<lparr>so_field = ''name'', so_direction = Asc\<rparr>]"

definition rr_get_by_name ::
  "platform \<Rightarrow> int \<Rightarrow> repository \<Rightarrow> jsval \<Rightarrow> manager \<Rightarrow> (repo_error + jsobj option) \<times> manager" where
  "rr_get_by_name pf dur R name m = lift_storage (mg_find_first pf dur (rr_table R) (name_query name) m)"

definition duplicate_message :: "platform \<Rightarrow> repository \<Rightarrow> jsobj \<Rightarrow> string" where
  "duplicate_message pf R data =
     ''A '' @ rr_label R @ '' named '' @ [CHR 0x22] @
     js_string (pf_date_string pf) (field_of data ''name'') @ [CHR 0x22] @ '' already exists''"

definition rr_create ::
  "platform \<Rightarrow> int \<Rightarrow> int \<Rightarrow> string \<Rightarrow> repository \<Rightarrow> jsobj \<Rightarrow> manager \<Rightarrow> (repo_error + jsobj) \<times> manager" where
  "rr_create pf dur now i R data m =
     (if rr_reject_duplicates R
      then (case rr_get_by_name pf dur R (field_of data ''name'') m of
              (Inl e, m') \<Rightarrow> (Inl e, m')
            | (Inr (Some existing), m') \<Rightarrow> (Inl (RepoError (duplicate_message pf R data)), m')
            | (Inr None, m') \<Rightarrow> lift_storage (mg_create dur now i (rr_table R) data m'))
      else lift_storage (mg_create dur now i (rr_table R) data m))"

definition id_of :: "platform \<Rightarrow> jsobj \<Rightarrow> string" where
  "id_of pf r = js_string (pf_date_string pf) (field_of r ''id'')"

definition rr_update ::
  "platform \<Rightarrow> int \<Rightarrow> int \<Rightarrow> repository \<Rightarrow> jsval \<Rightarrow> jsobj \<Rightarrow> manager \<Rightarrow>
     (repo_error + jsobj option) \<times> manager" where
  "rr_update pf dur now R name data m =
     (case rr_get_by_name pf dur R name m of
        (Inl e, m') \<Rightarrow> (Inl e, m')
      | (Inr None, m') \<Rightarrow> (Inr None, m')
      | (Inr (Some r), m') \<Rightarrow> lift_storage (mg_update_by_id dur now (rr_table R) (id_of pf r) data m'))"

definition rr_delete ::
  "platform \<Rightarrow> int \<Rightarrow> int \<Rightarrow> repository \<Rightarrow> jsval \<Rightarrow> manager \<Rightarrow> (repo_error + bool) \<times> manager" where
  "rr_delete pf dur now R name m =
     (case rr_get_by_name pf dur R name m of
        (Inl e, m') \<Rightarrow> (Inl e, m')
      | (Inr None, m') \<Rightarrow> (Inr False, m')
      | (Inr (Some r), m') \<Rightarrow> lift_storage (mg_delete_by_id dur now (rr_table R) (id_of pf r) m'))"

definition rr_list_by_prefix ::
  "platform \<Rightarrow> int \<Rightarrow> repository \<Rightarrow> string \<Rightarrow> int option \<Rightarrow> string option \<Rightarrow> manager \<Rightarrow>
     (repo_error + list_result) \<times> manager" where
  "rr_list_by_prefix pf dur R pre page_size page_token m =
     (let offset = parse_offset_token page_token;
          limit = (case page_size of None \<Rightarrow> default_list_page_size | Some n \<Rightarrow> n)
      in case lift_storage (mg_find pf dur (rr_table R)
                \<lparr>qo_filter = Some (prefix_filter pre), qo_sort = Some by_name,
                 qo_pagination = Some \<lparr>pg_limit = Some limit, pg_offset = Some offset\<rparr>\<rparr> m) of
           (Inl e, m') \<Rightarrow> (Inl e, m')
         | (Inr q, m') \<Rightarrow>
             (Inr \<lparr>lr_records = qr_data q,
                   lr_next_token = (if qr_has_more q then Some (int_to_dec (offset + limit)) else None)\<rparr>, m'))"

definition rr_list_all_by_prefix ::
  "platform \<Rightarrow> int \<Rightarrow> repository \<Rightarrow> string \<Rightarrow> manager \<Rightarrow> (repo_error + jsobj list) \<times> manager" where
  "rr_list_all_by_prefix pf dur R pre m =
     (case lift_storage (mg_find pf dur (rr_table R)
             \<lparr>qo_filter = Some (prefix_filter pre), qo_sort = Some by_name, qo_pagination = None\<rparr> m) of
        (Inl e, m') \<Rightarrow> (Inl e, m')
      | (Inr q, m') \<Rightarrow> (Inr (qr_data q), m'))"

definition rr_count_by_prefix ::
  "platform \<Rightarrow> int \<Rightarrow> repository \<Rightarrow> string \<Rightarrow> manager \<Rightarrow> (repo_error + nat) \<times> manager" where
  "rr_count_by_prefix pf dur R pre m =
     lift_storage (mg_count pf dur (rr_table R) (Some (prefix_filter pre)) m)"

definition rr_delete_by_prefix ::
  "platform \<Rightarrow> int \<Rightarrow> int \<Rightarrow> repository \<Rightarrow> string \<Rightarrow> manager \<Rightarrow> (repo_error + nat) \<times> manager" where
  "rr_delete_by_prefix pf dur now R pre m =
     lift_storage (mg_delete_many pf dur now (rr_table R) (prefix_filter pre) m)"

section \<open>The rows of a repository\<close>

definition rr_rows :: "repository \<Rightarrow> manager \<Rightarrow> (string, jsobj) jsmap option" where
  "rr_rows R m =
     (case mg_provider m of
        None \<Rightarrow> None
      | Some p \<Rightarrow> map_option mt_records (jm_get (pv_tables p) (rr_table R)))"

lemma rr_rows_fields [simp]:
  "rr_rows R (update_query_stats dur m) = rr_rows R m"
  "rr_rows R (emit_event now ev t i a m) = rr_rows R m"
  by (simp_all add: rr_rows_def)

lemma pv_tables_cache_only [simp]:
  "pv_tables (cache_record now key r p) = pv_tables p"
  "pv_tables (uncache key p) = pv_tables p"
  "pv_tables (with_cache f p) = pv_tables p"
  by (simp_all add: cache_record_def uncache_def with_cache_def)

lemma pv_tables_uncache_records [simp]: "pv_tables (uncache_records pf table rs p) = pv_tables p"
  unfolding uncache_records_def by (induction rs arbitrary: p) simp_all

lemma pv_tables_uncache_table [simp]: "pv_tables (uncache_table table p) = pv_tables p"
  by (simp add: uncache_table_def)

lemma rr_rowsE:
  assumes "rr_rows R m = Some rows"
  obtains p t where "mg_provider m = Some p" and "jm_get (pv_tables p) (rr_table R) = Some t"
    and "mt_records t = rows" and "get_table (rr_table R) p = Inr t"
  using assms by (auto simp: rr_rows_def get_table_Inr split: option.splits)

text \<open>What each call of the manager does to the rows.\<close>

lemma list_find_filter: "(case filter P xs of [] \<Rightarrow> None | x # _ \<Rightarrow> Some x) = List.find P xs"
  by (induction xs) auto

lemma rows_find_first:
  assumes "rr_rows R m = Some rows"
  shows "\<exists>m'. mg_find_first pf dur (rr_table R) (name_query v) m =
           (Inr (List.find (\<lambda>r. strict_eq (field_of r ''name'') v) (map snd rows)), m') \<and>
         rr_rows R m' = Some rows"
proof -
  obtain p t where p: "mg_provider m = Some p" "jm_get (pv_tables p) (rr_table R) = Some t"
      "mt_records t = rows" "get_table (rr_table R) p = Inr t"
    using assms by (rule rr_rowsE)
  let ?P = "\<lambda>r. strict_eq (field_of r ''name'') v"
  let ?rs = "filter ?P (map snd rows)"
  have "js_slice 0 1 xs = take 1 xs" for xs :: "jsobj list"
    using js_slice_window [of 0 1 xs] by simp
  then have "qr_data (page_of (Some \<lparr>pg_limit = Some 1, pg_offset = None\<rparr>) ?rs) = take 1 ?rs"
    by (simp add: page_of_def Let_def)
  moreover have "(case take 1 xs of [] \<Rightarrow> None | x # _ \<Rightarrow> Some x) = (case xs of [] \<Rightarrow> None | x # _ \<Rightarrow> Some x)"
    for xs :: "jsobj list"
    by (cases xs) simp_all
  moreover have "matches_filter pf \<lparr>qf_conditions = [\<lparr>qc_field = ''name'', qc_operator = QEq, qc_value = v\<rparr>],
      qf_operator = None\<rparr> = ?P"
    by (rule ext) (simp add: matches_filter_def matches_condition_def)
  ultimately have "find_first pf (rr_table R) (name_query v) p = (Inr (List.find ?P (map snd rows)), p)"
    using p by (simp add: find_first_def find_records_def name_query_def empty_query_def select_records_def
        Let_def list_find_filter)
  with p show ?thesis by (simp add: mg_find_first_def rr_rows_def)
qed

lemma rows_create:
  assumes "rr_rows R m = Some rows"
  shows "\<exists>m'. mg_create dur now i (rr_table R) data m = (Inr (new_record now i data), m') \<and>
         rr_rows R m' = Some (jm_set rows i (new_record now i data))"
  by (rule rr_rowsE [OF assms(1)]) (auto simp: mg_create_def create_record_def Let_def put_record_def rr_rows_def)

lemma rows_update:
  assumes "rr_rows R m = Some rows" and "jm_get rows i = Some r"
  shows "\<exists>m'. mg_update_by_id dur now (rr_table R) i data m = (Inr (Some (updated_record now r data)), m') \<and>
         rr_rows R m' = Some (jm_set rows i (updated_record now r data))"
  by (rule rr_rowsE [OF assms(1)]) (use assms(2-) in \<open>auto simp: mg_update_by_id_def update_by_id_def Let_def put_record_def rr_rows_def\<close>)

lemma rows_delete:
  assumes "rr_rows R m = Some rows" and "jm_get rows i = Some r"
  shows "\<exists>m'. mg_delete_by_id dur now (rr_table R) i m = (Inr True, m') \<and>
         rr_rows R m' = Some (jm_delete rows i)"
  by (rule rr_rowsE [OF assms(1)]) (use assms(2-) in \<open>auto simp: mg_delete_by_id_def delete_by_id_def Let_def drop_record_def rr_rows_def jm_has_get\<close>)

lemma rows_find:
  assumes "rr_rows R m = Some rows"
  shows "\<exists>m' t. mg_find pf dur (rr_table R) opts m = (Inr (page_of (qo_pagination opts) (select_records pf opts t)), m') \<and>
         mt_records t = rows \<and> rr_rows R m' = Some rows"
  by (rule rr_rowsE [OF assms(1)]) (auto simp: mg_find_def find_records_def rr_rows_def)

lemma rows_count:
  assumes "rr_rows R m = Some rows"
  shows "\<exists>m'. mg_count pf dur (rr_table R) (Some f) m =
           (Inr (length (filter (matches_filter pf f) (map snd rows))), m') \<and> rr_rows R m' = Some rows"
  by (rule rr_rowsE [OF assms(1)]) (auto simp: mg_count_def count_records_def rr_rows_def)

lemma rows_delete_many:
  assumes "rr_rows R m = Some rows" and "distinct (jm_keys rows)"
  shows "\<exists>m'. mg_delete_many pf dur now (rr_table R) f m =
           (Inr (length (filter (matches_filter pf f) (map snd rows))), m') \<and>
         rr_rows R m' = Some (filter (\<lambda>(i, r). \<not> matches_filter pf f r) rows)"
proof -
  obtain p t where p: "mg_provider m = Some p" "jm_get (pv_tables p) (rr_table R) = Some t"
      "mt_records t = rows" "get_table (rr_table R) p = Inr t"
    using assms(1) by (rule rr_rowsE)
  let ?ids = "map fst (filter (\<lambda>(i, r). matches_filter pf f r) rows)"
  let ?n = "length (filter (matches_filter pf f) (map snd rows))"
  have n: "?n = length ?ids"
    by (simp add: filter_map o_def case_prod_unfold)
  have keep: "filter (\<lambda>e. fst e \<notin> set ?ids) rows = filter (\<lambda>(i, r). \<not> matches_filter pf f r) rows"
    using assms(2) by (intro filter_cong) (auto dest: eq_key_imp_eq_value)
  obtain p' where p': "delete_loop (rr_table R) ?ids 0 p = (0 + length ?ids, p')"
      "get_table (rr_table R) p' = Inr (t\<lparr>mt_records := filter (\<lambda>e. fst e \<notin> set ?ids) (mt_records t)\<rparr>)"
    using delete_loop_effect [OF p(4), of ?ids 0] by blast
  then have "delete_many pf (rr_table R) f p = (Inr ?n, p')"
    using p n by (simp add: delete_many_def Let_def)
  moreover have "jm_get (pv_tables p') (rr_table R) = Some (t\<lparr>mt_records := filter (\<lambda>(i, r). \<not> matches_filter pf f r) rows\<rparr>)"
    using p' p(3) keep by (simp add: get_table_Inr)
  ultimately show ?thesis
    using p(1) by (auto simp: mg_delete_many_def Let_def rr_rows_def)
qed

section \<open>The abstract view: a catalog of named records\<close>

abbreviation name_of :: "jsobj \<Rightarrow> string" where
  "name_of r \<equiv> str_field ''name'' r"

definition rows_wf :: "(string, jsobj) jsmap \<Rightarrow> bool" where
  "rows_wf rows \<longleftrightarrow> distinct (jm_keys rows) \<and> distinct (map name_of (map snd rows)) \<and>
     (\<forall>(i, r) \<in> set rows. field_of r ''id'' = JStr i \<and> (\<exists>n. field_of r ''name'' = JStr n))"

definition catalog_of :: "(string, jsobj) jsmap \<Rightarrow> string \<Rightarrow> jsobj option" where
  "catalog_of rows = map_of (map (\<lambda>(i, r). (name_of r, r)) rows)"

definition beneath :: "string \<Rightarrow> string \<Rightarrow> bool" where
  "beneath pre n = includes_str n (strip_percent pre)"

datatype repo_op =
    RoCreate int string jsobj
  | RoGet string
  | RoUpdate int string jsobj
  | RoDelete int string
  | RoListAll string
  | RoCount string
  | RoDeletePrefix int string

datatype repo_out =
    OutRecord "repo_error + jsobj"
  | OutOptional "repo_error + jsobj option"
  | OutBool "repo_error + bool"
  | OutCount "repo_error + nat"
  | OutList "repo_error + jsobj list"

fun repo_exec :: "platform \<Rightarrow> int \<Rightarrow> repository \<Rightarrow> repo_op \<Rightarrow> manager \<Rightarrow> repo_out \<times> manager" where
  "repo_exec pf dur R (RoCreate now i data) m = map_prod OutRecord id (rr_create pf dur now i R data m)"
| "repo_exec pf dur R (RoGet n) m = map_prod OutOptional id (rr_get_by_name pf dur R (JStr n) m)"
| "repo_exec pf dur R (RoUpdate now n data) m = map_prod OutOptional id (rr_update pf dur now R (JStr n) data m)"
| "repo_exec pf dur R (RoDelete now n) m = map_prod OutBool id (rr_delete pf dur now R (JStr n) m)"
| "repo_exec pf dur R (RoListAll pre) m = map_prod OutList id (rr_list_all_by_prefix pf dur R pre m)"
| "repo_exec pf dur R (RoCount pre) m = map_prod OutCount id (rr_count_by_prefix pf dur R pre m)"
| "repo_exec pf dur R (RoDeletePrefix now pre) m = map_prod OutCount id (rr_delete_by_prefix pf dur now R pre m)"

fun repo_run :: "platform \<Rightarrow> int \<Rightarrow> repository \<Rightarrow> repo_op list \<Rightarrow> manager \<Rightarrow> repo_out list \<times> manager" where
  "repo_run pf dur R [] m = ([], m)"
| "repo_run pf dur R (a # as) m =
     (case repo_exec pf dur R a m of (out, m1) \<Rightarrow>
        (case repo_run pf dur R as m1 of (outs, m2) \<Rightarrow> (out # outs, m2)))"

text \<open>What each operation promises of the catalog.\<close>

fun catalog_step :: "platform \<Rightarrow> repository \<Rightarrow> repo_op \<Rightarrow> (string \<Rightarrow> jsobj option) \<Rightarrow>
    repo_out \<times> (string \<Rightarrow> jsobj option)" where
  "catalog_step pf R (RoCreate now i data) c =
     (case c (name_of data) of
        Some r \<Rightarrow> (OutRecord (Inl (RepoError (duplicate_message pf R data))), c)
      | None \<Rightarrow> (OutRecord (Inr (new_record now i data)), c(name_of data \<mapsto> new_record now i data)))"
| "catalog_step pf R (RoGet n) c = (OutOptional (Inr (c n)), c)"
| "catalog_step pf R (RoUpdate now n data) c =
     (case c n of
        None \<Rightarrow> (OutOptional (Inr None), c)
      | Some r \<Rightarrow> (OutOptional (Inr (Some (updated_record now r data))), c(n \<mapsto> updated_record now r data)))"
| "catalog_step pf R (RoDelete now n) c = (OutBool (Inr (c n \<noteq> None)), c(n := None))"
| "catalog_step pf R (RoListAll pre) c =
     (OutList (Inr (map (\<lambda>n. the (c n)) (sorted_list_of_set {n \<in> dom c. beneath pre n}))), c)"
| "catalog_step pf R (RoCount pre) c = (OutCount (Inr (card {n \<in> dom c. beneath pre n})), c)"
| "catalog_step pf R (RoDeletePrefix now pre) c =
     (OutCount (Inr (card {n \<in> dom c. beneath pre n})), c |` {n. \<not> beneath pre n})"

fun catalog_run :: "platform \<Rightarrow> repository \<Rightarrow> repo_op list \<Rightarrow> (string \<Rightarrow> jsobj option) \<Rightarrow>
    repo_out list \<times> (string \<Rightarrow> jsobj option)" where
  "catalog_run pf R [] c = ([], c)"
| "catalog_run pf R (a # as) c =
     (case catalog_step pf R a c of (out, c1) \<Rightarrow>
        (case catalog_run pf R as c1 of (outs, c2) \<Rightarrow> (out # outs, c2)))"

text \<open>Calls as the services make them: a created record has a name and no id of its own, and an update
  leaves the name and the id alone.\<close>

fun op_ok :: "repo_op \<Rightarrow> bool" where
  "op_ok (RoCreate now i data) = (distinct (jm_keys data) \<and> (case field_of data ''name'' of JStr n \<Rightarrow> True | _ \<Rightarrow> False)
     \<and> \<not> jm_has data ''id'')"
| "op_ok (RoUpdate now n data) = (distinct (jm_keys data) \<and> \<not> jm_has data ''name'' \<and> \<not> jm_has data ''id'')"
| "op_ok a = True"

fun created_id :: "repo_op \<Rightarrow> string list" where
  "created_id (RoCreate now i data) = [i]"
| "created_id a = []"

lemma name_of_JStr: "field_of r ''name'' = JStr n \<Longrightarrow> name_of r = n"
  by (simp add: str_field_def)

lemma rows_wf_name: "rows_wf rows \<Longrightarrow> (i, r) \<in> set rows \<Longrightarrow> field_of r ''name'' = JStr (name_of r)"
  by (auto simp: rows_wf_def str_field_def)

lemma rows_wf_id: "rows_wf rows \<Longrightarrow> (i, r) \<in> set rows \<Longrightarrow> id_of pf r = i"
  by (auto simp: rows_wf_def id_of_def)

lemma catalog_Nil [simp]: "catalog_of [] = Map.empty"
  by (simp add: catalog_of_def)

lemma catalog_Cons [simp]: "catalog_of ((i, r) # rows) = (catalog_of rows)(name_of r \<mapsto> r)"
  by (simp add: catalog_of_def)

lemma dom_catalog: "dom (catalog_of rows) = set (map name_of (map snd rows))"
  by (simp add: catalog_of_def dom_map_of_conv_image_fst image_image case_prod_unfold)

lemma catalog_find:
  assumes "rows_wf rows"
  shows "List.find (\<lambda>r. field_of r ''name'' = JStr n) (map snd rows) = catalog_of rows n"
  using assms
proof (induction rows)
  case (Cons e rows)
  obtain i r where e: "e = (i, r)" by (cases e)
  with Cons.prems have "field_of r ''name'' = JStr (name_of r)" by (intro rows_wf_name) auto
  moreover have "rows_wf rows" using Cons.prems by (simp add: rows_wf_def)
  ultimately show ?case using Cons.IH e by auto
qed simp

lemma catalog_Some:
  assumes "rows_wf rows" and "catalog_of rows n = Some r"
  shows "\<exists>i. (i, r) \<in> set rows \<and> jm_get rows i = Some r \<and> field_of r ''id'' = JStr i \<and> field_of r ''name'' = JStr n"
proof -
  have "(n, r) \<in> set (map (\<lambda>(i, r). (name_of r, r)) rows)"
    using assms(2) unfolding catalog_of_def by (rule map_of_SomeD)
  then obtain i where i: "(i, r) \<in> set rows" "name_of r = n" by auto
  with assms(1) rows_wf_name [OF assms(1) i(1)] show ?thesis
    by (auto simp: rows_wf_def map_of_is_SomeI)
qed

lemma catalog_append:
  "name_of r \<notin> set (map name_of (map snd rows)) \<Longrightarrow>
     catalog_of (rows @ [(i, r)]) = (catalog_of rows)(name_of r \<mapsto> r)"
  by (induction rows) (auto simp: fun_upd_twist)

lemma catalog_filter:
  "catalog_of (filter (\<lambda>(i, r). P (name_of r)) rows) = catalog_of rows |` {n. P n}"
  by (induction rows) (auto simp: restrict_map_def fun_eq_iff)

lemma catalog_replace:
  assumes "jm_get rows i = Some r" and "name_of r' = name_of r" and "distinct (map name_of (map snd rows))"
  shows "catalog_of (jm_set rows i r') = (catalog_of rows)(name_of r \<mapsto> r')"
  using assms
proof (induction rows)
  case (Cons e rows)
  obtain j q where e: "e = (j, q)" by (cases e)
  show ?case
  proof (cases "j = i")
    case True
    with Cons.prems e show ?thesis by (auto simp: fun_eq_iff)
  next
    case False
    with Cons.prems(1) e have "jm_get rows i = Some r" by simp
    then have "(i, r) \<in> set rows" by (rule map_of_SomeD)
    then have "name_of r \<in> (\<lambda>x. name_of (snd x)) ` set rows" by force
    moreover have "name_of q \<notin> (\<lambda>x. name_of (snd x)) ` set rows"
      using Cons.prems(3) e by (simp add: image_image)
    ultimately have "name_of r \<noteq> name_of q" by metis
    with Cons False e \<open>jm_get rows i = Some r\<close> show ?thesis by (auto simp: fun_eq_iff)
  qed
qed simp

lemma names_replace:
  assumes "jm_get rows i = Some r" and "name_of r' = name_of r"
  shows "map name_of (map snd (jm_set rows i r')) = map name_of (map snd rows)"
  using assms by (induction rows i r' rule: jm_set.induct) (auto split: if_splits)

lemma rows_wf_append:
  assumes "rows_wf rows" and "i \<notin> set (jm_keys rows)" and "name_of r \<notin> set (map name_of (map snd rows))"
    and "field_of r ''id'' = JStr i" and "field_of r ''name'' = JStr n"
  shows "rows_wf (rows @ [(i, r)])"
  using assms by (auto simp: rows_wf_def)

lemma distinct_map_filter_rows: "distinct (map f (map g xs)) \<Longrightarrow> distinct (map f (map g (filter P xs)))"
  by (induction xs) auto

lemma rows_wf_filter: "rows_wf rows \<Longrightarrow> rows_wf (filter P rows)"
  unfolding rows_wf_def
  by (elim conjE, intro conjI distinct_map_filter distinct_map_filter_rows, assumption, assumption) auto

lemma rows_wf_replace:
  assumes "rows_wf rows" and "jm_get rows i = Some r" and "field_of r' ''id'' = JStr i"
    and "field_of r' ''name'' = JStr (name_of r)"
  shows "rows_wf (jm_set rows i r')"
proof -
  have "name_of r' = name_of r" using assms(4) by (rule name_of_JStr)
  note names = names_replace [OF assms(2) this]
  have "\<forall>(j, q) \<in> set (jm_set rows i r'). field_of q ''id'' = JStr j \<and> (\<exists>n. field_of q ''name'' = JStr n)"
    using assms set_jm_set_subset [of rows i r'] by (auto simp: rows_wf_def)
  with assms(1) names show ?thesis
    unfolding rows_wf_def names by auto
qed

lemma matches_prefix:
  "field_of r ''name'' = JStr n \<Longrightarrow> matches_filter pf (prefix_filter pre) r = beneath pre n"
  by (simp add: matches_filter_def matches_condition_def prefix_filter_def beneath_def strip_percent_def)

lemma filter_prefix:
  assumes "rows_wf rows"
  shows "filter (matches_filter pf (prefix_filter pre)) (map snd rows) =
           map snd (filter (\<lambda>(i, r). beneath pre (name_of r)) rows)"
    and "filter (\<lambda>(i, r). \<not> matches_filter pf (prefix_filter pre) r) rows =
           filter (\<lambda>(i, r). \<not> beneath pre (name_of r)) rows"
proof -
  have m: "matches_filter pf (prefix_filter pre) r = beneath pre (name_of r)" if "(i, r) \<in> set rows" for i r
    using rows_wf_name [OF assms that] by (rule matches_prefix)
  then show "filter (\<lambda>(i, r). \<not> matches_filter pf (prefix_filter pre) r) rows =
           filter (\<lambda>(i, r). \<not> beneath pre (name_of r)) rows"
    by (intro filter_cong) auto
  have "filter (matches_filter pf (prefix_filter pre)) (map snd rows) =
      filter (\<lambda>r. beneath pre (name_of r)) (map snd rows)"
    using m by (intro filter_cong) auto
  then show "filter (matches_filter pf (prefix_filter pre)) (map snd rows) =
           map snd (filter (\<lambda>(i, r). beneath pre (name_of r)) rows)"
    by (simp add: filter_map o_def case_prod_unfold)
qed

lemma count_prefix:
  assumes "rows_wf rows"
  shows "length (filter (\<lambda>(i, r). beneath pre (name_of r)) rows) = card {n \<in> dom (catalog_of rows). beneath pre n}"
proof -
  let ?names = "map name_of (map snd (filter (\<lambda>(i, r). beneath pre (name_of r)) rows))"
  have "rows_wf (filter (\<lambda>(i, r). beneath pre (name_of r)) rows)"
    using assms by (rule rows_wf_filter)
  then have "distinct ?names" by (simp only: rows_wf_def)
  then have "length ?names = card (set ?names)" by (rule distinct_card [symmetric])
  moreover have "set ?names = {n \<in> dom (catalog_of rows). beneath pre n}"
    by (force simp: dom_catalog)
  ultimately show ?thesis by simp
qed

text \<open>A sorted listing of records with distinct names is the catalog read off along the sorted names.\<close>

lemma sort_by_name_catalog:
  assumes "rows_wf rows"
  shows "sort_key name_of (map snd rows) = map (\<lambda>n. the (catalog_of rows n)) (sorted_list_of_set (dom (catalog_of rows)))"
proof -
  let ?rs = "sort_key name_of (map snd rows)"
  have names: "map name_of ?rs = sorted_list_of_set (dom (catalog_of rows))"
  proof -
    have "distinct (map snd rows) \<and> inj_on name_of (set (map snd rows))"
      using assms unfolding rows_wf_def distinct_map [of name_of "map snd rows"] by blast
    then have "distinct (map name_of ?rs)"
      unfolding distinct_map [of name_of ?rs] distinct_sort set_sort by blast
    moreover have "sorted (map name_of ?rs)" by simp
    moreover have "set (map name_of ?rs) = dom (catalog_of rows)" by (simp add: dom_catalog image_image)
    ultimately show ?thesis
      by (metis sorted_list_of_set.idem_if_sorted_distinct)
  qed
  have "the (catalog_of rows (name_of r)) = r" if "r \<in> set ?rs" for r
  proof -
    from that obtain i where i: "(i, r) \<in> set rows" by auto
    then have "(name_of r, r) \<in> set (map (\<lambda>(i, r). (name_of r, r)) rows)" by force
    moreover have "distinct (map fst (map (\<lambda>(i, r). (name_of r, r)) rows))"
      using assms by (simp add: rows_wf_def o_def case_prod_unfold)
    ultimately show ?thesis by (simp add: catalog_of_def)
  qed
  then have "map (\<lambda>n. the (catalog_of rows n)) (map name_of ?rs) = ?rs"
    unfolding map_map by (intro map_idI) simp
  with names show ?thesis by simp
qed

lemma select_by_prefix:
  assumes "rows_wf rows" and "mt_records t = rows"
  shows "select_records pf \<lparr>qo_filter = Some (prefix_filter pre), qo_sort = Some by_name, qo_pagination = pg\<rparr> t =
         sort_key name_of (map snd (filter (\<lambda>(i, r). beneath pre (name_of r)) rows))"
proof -
  let ?rs = "map snd (filter (\<lambda>(i, r). beneath pre (name_of r)) rows)"
  have "\<forall>r \<in> set ?rs. \<exists>x. field_of r ''name'' = JStr x"
    using rows_wf_name [OF assms(1)] by auto
  note srt = sort_by_str_field [OF this, of pf]
  show ?thesis
    using assms(2) by (simp add: select_records_def filter_prefix(1) [OF assms(1)] by_name_def srt
        Let_def del: compare_records.simps)
qed

section \<open>The simulation\<close>

definition simulates :: "repository \<Rightarrow> manager \<Rightarrow> (string \<Rightarrow> jsobj option) \<Rightarrow> string set \<Rightarrow> bool" where
  "simulates R m c used \<longleftrightarrow>
     (\<exists>rows. rr_rows R m = Some rows \<and> rows_wf rows \<and> catalog_of rows = c \<and> set (jm_keys rows) \<subseteq> used)"

lemma get_by_name_result:
  assumes "rr_rows R m = Some rows" and "rows_wf rows"
  shows "\<exists>m'. rr_get_by_name pf dur R (JStr n) m = (Inr (catalog_of rows n), m') \<and> rr_rows R m' = Some rows"
  using rows_find_first [OF assms(1), of pf dur "JStr n"] catalog_find [OF assms(2), of n]
  by (auto simp: rr_get_by_name_def)

lemma catalog_create:
  assumes wf: "rows_wf rows" and data: "op_ok (RoCreate now i data)" and fresh: "i \<notin> set (jm_keys rows)"
    and n: "field_of data ''name'' = JStr n" and "catalog_of rows n = None"
  shows "rows_wf (rows @ [(i, new_record now i data)])"
    and "catalog_of (rows @ [(i, new_record now i data)]) = (catalog_of rows)(n \<mapsto> new_record now i data)"
    and "jm_set rows i (new_record now i data) = rows @ [(i, new_record now i data)]"
proof -
  let ?r = "new_record now i data"
  have "distinct (jm_keys data)" "\<not> jm_has data ''id''" using data by simp_all
  moreover have "jm_has data ''name''"
    using n by (cases "jm_get data ''name''") (simp_all add: field_of_def jm_has_get)
  ultimately have flds: "field_of ?r ''id'' = JStr i" "field_of ?r ''name'' = JStr n"
    using n by (simp_all add: new_record_def field_of_spread) (simp add: field_of_def)
  then have dom: "name_of ?r = n" by (simp add: name_of_JStr)
  have "n \<notin> set (map name_of (map snd rows))"
    using assms(5) by (metis domIff dom_catalog)
  then show "rows_wf (rows @ [(i, ?r)])" "catalog_of (rows @ [(i, ?r)]) = (catalog_of rows)(n \<mapsto> ?r)"
    using rows_wf_append [OF wf fresh] catalog_append [of ?r rows i] dom flds by simp_all
  show "jm_set rows i ?r = rows @ [(i, ?r)]"
    using fresh by (intro jm_set_fresh) (simp add: map_of_eq_None_iff)
qed

lemma sim_create:
  assumes "rr_rows R m = Some rows" and wf: "rows_wf rows" and "rr_reject_duplicates R"
    and data: "op_ok (RoCreate now i data)" and fresh: "i \<notin> set (jm_keys rows)"
  shows "\<exists>m' rows'. repo_exec pf dur R (RoCreate now i data) m =
           (fst (catalog_step pf R (RoCreate now i data) (catalog_of rows)), m') \<and>
         rr_rows R m' = Some rows' \<and> rows_wf rows' \<and>
         catalog_of rows' = snd (catalog_step pf R (RoCreate now i data) (catalog_of rows)) \<and>
         set (jm_keys rows') \<subseteq> insert i (set (jm_keys rows))"
proof -
  obtain n where n: "field_of data ''name'' = JStr n" using data by (auto split: jsval.splits)
  then have name: "name_of data = n" by (rule name_of_JStr)
  obtain m1 where get: "rr_get_by_name pf dur R (JStr n) m = (Inr (catalog_of rows n), m1)"
      "rr_rows R m1 = Some rows"
    using get_by_name_result [OF assms(1) wf, of pf dur n] by blast
  show ?thesis
  proof (cases "catalog_of rows n")
    case (Some r)
    with get n name assms(3) wf show ?thesis by (auto simp: rr_create_def)
  next
    case None
    let ?r = "new_record now i data"
    have "rows_wf (rows @ [(i, ?r)])" "catalog_of (rows @ [(i, ?r)]) = (catalog_of rows)(n \<mapsto> ?r)"
        "jm_set rows i ?r = rows @ [(i, ?r)]"
      using catalog_create [OF wf data fresh n None] by simp_all
    moreover obtain m2 where "mg_create dur now i (rr_table R) data m1 = (Inr ?r, m2)"
        "rr_rows R m2 = Some (jm_set rows i ?r)"
      using rows_create [OF get(2), of dur now i data] by blast
    ultimately show ?thesis
      using get None n name assms(3) by (auto simp: rr_create_def)
  qed
qed

lemma sim_update:
  assumes "rr_rows R m = Some rows" and wf: "rows_wf rows" and data: "op_ok (RoUpdate now n data)"
  shows "\<exists>m' rows'. repo_exec pf dur R (RoUpdate now n data) m =
           (fst (catalog_step pf R (RoUpdate now n data) (catalog_of rows)), m') \<and>
         rr_rows R m' = Some rows' \<and> rows_wf rows' \<and>
         catalog_of rows' = snd (catalog_step pf R (RoUpdate now n data) (catalog_of rows)) \<and>
         set (jm_keys rows') \<subseteq> set (jm_keys rows)"
proof -
  obtain m1 where get: "rr_get_by_name pf dur R (JStr n) m = (Inr (catalog_of rows n), m1)"
      "rr_rows R m1 = Some rows"
    using get_by_name_result [OF assms(1) wf, of pf dur n] by blast
  show ?thesis
  proof (cases "catalog_of rows n")
    case None
    with get wf show ?thesis by (auto simp: rr_update_def)
  next
    case (Some r)
    then obtain i where i: "(i, r) \<in> set rows" "jm_get rows i = Some r" "field_of r ''id'' = JStr i"
        "field_of r ''name'' = JStr n"
      using catalog_Some [OF wf] by blast
    let ?r = "updated_record now r data"
    have r: "field_of ?r ''id'' = JStr i" "field_of ?r ''name'' = JStr n"
      using data i by (auto simp: updated_record_def field_of_def jm_get_spread jm_has_get split: option.splits)
    have nm: "name_of r = n" "name_of ?r = n" using i(4) r(2) by (simp_all add: name_of_JStr)
    have "rows_wf (jm_set rows i ?r)"
      using rows_wf_replace [OF wf i(2) r(1)] r(2) nm by simp
    moreover have "catalog_of (jm_set rows i ?r) = (catalog_of rows)(n \<mapsto> ?r)"
      using catalog_replace [OF i(2), of ?r] nm wf unfolding rows_wf_def by simp
    moreover have "set (jm_keys (jm_set rows i ?r)) \<subseteq> set (jm_keys rows)"
      using i(1) by (auto simp: jm_keys_set rev_image_eqI)
    moreover obtain m2 where "mg_update_by_id dur now (rr_table R) i data m1 = (Inr (Some ?r), m2)"
        "rr_rows R m2 = Some (jm_set rows i ?r)"
      using rows_update [OF get(2) i(2), of dur now data] by blast
    moreover have "id_of pf r = i" using i(3) by (simp add: id_of_def)
    ultimately show ?thesis
      using get Some by (auto simp: rr_update_def)
  qed
qed

lemma sim_delete:
  assumes "rr_rows R m = Some rows" and wf: "rows_wf rows"
  shows "\<exists>m' rows'. repo_exec pf dur R (RoDelete now n) m =
           (fst (catalog_step pf R (RoDelete now n) (catalog_of rows)), m') \<and>
         rr_rows R m' = Some rows' \<and> rows_wf rows' \<and>
         catalog_of rows' = snd (catalog_step pf R (RoDelete now n) (catalog_of rows)) \<and>
         set (jm_keys rows') \<subseteq> set (jm_keys rows)"
proof -
  obtain m1 where get: "rr_get_by_name pf dur R (JStr n) m = (Inr (catalog_of rows n), m1)"
      "rr_rows R m1 = Some rows"
    using get_by_name_result [OF assms(1) wf, of pf dur n] by blast
  show ?thesis
  proof (cases "catalog_of rows n")
    case None
    with get wf show ?thesis by (auto simp: rr_delete_def fun_upd_idem)
  next
    case (Some r)
    then obtain i where i: "(i, r) \<in> set rows" "jm_get rows i = Some r" "field_of r ''id'' = JStr i"
        "field_of r ''name'' = JStr n"
      using catalog_Some [OF wf] by blast
    have "jm_delete rows i = filter (\<lambda>(j, q). name_of q \<noteq> n) rows"
      unfolding jm_delete_def
    proof (intro filter_cong refl)
      fix e assume e: "e \<in> set rows"
      obtain j q where jq: "e = (j, q)" by (cases e)
      have "j = i \<longleftrightarrow> name_of q = n"
      proof
        assume "j = i"
        with e jq i wf have "q = r" by (auto simp: rows_wf_def dest: eq_key_imp_eq_value)
        then show "name_of q = n" using i(4) by (simp add: name_of_JStr)
      next
        assume nq: "name_of q = n"
        have "inj_on (name_of \<circ> snd) (set rows)"
          using wf unfolding rows_wf_def by (simp add: distinct_map)
        then have "e = (i, r)"
          using e i(1) nq name_of_JStr [OF i(4)] jq inj_onD [of "name_of \<circ> snd" "set rows" e "(i, r)"] by simp
        with jq show "j = i" by simp
      qed
      with jq show "(fst e \<noteq> i) = (case e of (j, q) \<Rightarrow> name_of q \<noteq> n)" by simp
    qed
    moreover have "catalog_of (filter (\<lambda>(j, q). name_of q \<noteq> n) rows) = (catalog_of rows)(n := None)"
      by (simp add: catalog_filter [of "\<lambda>x. x \<noteq> n"] restrict_map_def fun_eq_iff)
    moreover have "rows_wf (filter (\<lambda>(j, q). name_of q \<noteq> n) rows)" using wf by (rule rows_wf_filter)
    moreover obtain m2 where "mg_delete_by_id dur now (rr_table R) i m1 = (Inr True, m2)"
        "rr_rows R m2 = Some (jm_delete rows i)"
      using rows_delete [OF get(2) i(2), of dur now] by blast
    moreover have "id_of pf r = i" using i(3) by (simp add: id_of_def)
    ultimately show ?thesis
      using get Some by (auto simp: rr_delete_def)
  qed
qed

lemma sim_list_all:
  assumes "rr_rows R m = Some rows" and wf: "rows_wf rows"
  shows "\<exists>m'. repo_exec pf dur R (RoListAll pre) m =
           (fst (catalog_step pf R (RoListAll pre) (catalog_of rows)), m') \<and> rr_rows R m' = Some rows"
proof -
  let ?opts = "\<lparr>qo_filter = Some (prefix_filter pre), qo_sort = Some by_name, qo_pagination = None\<rparr>"
  let ?under = "filter (\<lambda>(i, r). beneath pre (name_of r)) rows"
  obtain m' t where m': "mg_find pf dur (rr_table R) ?opts m = (Inr (page_of None (select_records pf ?opts t)), m')"
      "mt_records t = rows" "rr_rows R m' = Some rows"
    using rows_find [OF assms(1), of pf dur ?opts] by auto
  have cat: "catalog_of ?under = catalog_of rows |` {n. beneath pre n}" by (rule catalog_filter)
  have "select_records pf ?opts t = map (\<lambda>n. the (catalog_of ?under n)) (sorted_list_of_set (dom (catalog_of ?under)))"
    using select_by_prefix [OF wf m'(2)] sort_by_name_catalog [OF rows_wf_filter [OF wf]] by simp
  also have "dom (catalog_of ?under) = {n \<in> dom (catalog_of rows). beneath pre n}"
    unfolding cat by (auto simp: restrict_map_def split: if_splits)
  also have "map (\<lambda>n. the (catalog_of ?under n)) (sorted_list_of_set {n \<in> dom (catalog_of rows). beneath pre n}) =
      map (\<lambda>n. the (catalog_of rows n)) (sorted_list_of_set {n \<in> dom (catalog_of rows). beneath pre n})"
    unfolding cat by (intro map_cong refl) (simp add: dom_catalog restrict_map_def)
  finally show ?thesis
    using m' by (simp add: rr_list_all_by_prefix_def page_of_def Let_def)
qed

lemma sim_count:
  assumes "rr_rows R m = Some rows" and wf: "rows_wf rows"
  shows "\<exists>m'. repo_exec pf dur R (RoCount pre) m =
           (fst (catalog_step pf R (RoCount pre) (catalog_of rows)), m') \<and> rr_rows R m' = Some rows"
  using rows_count [OF assms(1), of pf dur "prefix_filter pre"] count_prefix [OF wf, of pre]
  by (auto simp: rr_count_by_prefix_def filter_prefix(1) [OF wf])

lemma sim_delete_prefix:
  assumes "rr_rows R m = Some rows" and wf: "rows_wf rows"
  shows "\<exists>m' rows'. repo_exec pf dur R (RoDeletePrefix now pre) m =
           (fst (catalog_step pf R (RoDeletePrefix now pre) (catalog_of rows)), m') \<and>
         rr_rows R m' = Some rows' \<and> rows_wf rows' \<and>
         catalog_of rows' = snd (catalog_step pf R (RoDeletePrefix now pre) (catalog_of rows)) \<and>
         set (jm_keys rows') \<subseteq> set (jm_keys rows)"
proof -
  let ?rest = "filter (\<lambda>(i, r). \<not> beneath pre (name_of r)) rows"
  have "distinct (jm_keys rows)" using wf by (simp add: rows_wf_def)
  from rows_delete_many [OF assms(1) this, of pf dur now "prefix_filter pre"] obtain m' where
      "mg_delete_many pf dur now (rr_table R) (prefix_filter pre) m =
         (Inr (card {n \<in> dom (catalog_of rows). beneath pre n}), m')"
      "rr_rows R m' = Some ?rest"
    using count_prefix [OF wf, of pre] by (auto simp: filter_prefix [OF wf])
  moreover have "rows_wf ?rest" using wf by (rule rows_wf_filter)
  moreover have "catalog_of ?rest = catalog_of rows |` {n. \<not> beneath pre n}" by (rule catalog_filter)
  ultimately show ?thesis
    by (auto simp: rr_delete_by_prefix_def)
qed

lemma simulates_step:
  assumes "simulates R m c used" and "rr_reject_duplicates R" and "op_ok a" and "set (created_id a) \<inter> used = {}"
  shows "\<exists>m'. repo_exec pf dur R a m = (fst (catalog_step pf R a c), m') \<and>
           simulates R m' (snd (catalog_step pf R a c)) (used \<union> set (created_id a))"
proof -
  obtain rows where rows: "rr_rows R m = Some rows" "rows_wf rows" "c = catalog_of rows" "set (jm_keys rows) \<subseteq> used"
    using assms(1) by (auto simp: simulates_def)
  show ?thesis
  proof (cases a)
    case (RoCreate now i data)
    then have "op_ok (RoCreate now i data)" and "i \<notin> set (jm_keys rows)" using assms rows(4) by auto
    from sim_create [OF rows(1,2) assms(2) this, of pf dur] obtain m' rows' where m':
        "repo_exec pf dur R (RoCreate now i data) m =
           (fst (catalog_step pf R (RoCreate now i data) (catalog_of rows)), m')"
        "rr_rows R m' = Some rows'" "rows_wf rows'"
        "catalog_of rows' = snd (catalog_step pf R (RoCreate now i data) (catalog_of rows))"
        "set (jm_keys rows') \<subseteq> insert i (set (jm_keys rows))" by blast
    have "set (jm_keys rows') \<subseteq> used \<union> set (created_id (RoCreate now i data))"
      unfolding created_id.simps using m'(5) rows(4) by auto
    with m' show ?thesis
      unfolding simulates_def rows(3) RoCreate by (intro exI [of _ m'] exI [of _ rows'] conjI) assumption+
  next
    case (RoGet n)
    with get_by_name_result [OF rows(1,2), of pf dur n] rows show ?thesis by (auto simp: simulates_def)
  next
    case (RoUpdate now n data)
    then have "op_ok (RoUpdate now n data)" using assms by simp
    from sim_update [OF rows(1,2) this, of pf dur] show ?thesis
      unfolding RoUpdate simulates_def rows(3) created_id.simps using rows(4) by (elim exE conjE) auto
  next
    case (RoDelete now n)
    from sim_delete [OF rows(1,2), of pf dur now n] show ?thesis
      unfolding RoDelete simulates_def rows(3) created_id.simps using rows(4) by (elim exE conjE) auto
  next
    case (RoListAll pre)
    from sim_list_all [OF rows(1,2), of pf dur pre] rows show ?thesis
      unfolding RoListAll simulates_def by auto
  next
    case (RoCount pre)
    from sim_count [OF rows(1,2), of pf dur pre] rows show ?thesis
      unfolding RoCount simulates_def by auto
  next
    case (RoDeletePrefix now pre)
    from sim_delete_prefix [OF rows(1,2), of pf dur now pre] show ?thesis
      unfolding RoDeletePrefix simulates_def rows(3) created_id.simps using rows(4) by (elim exE conjE) auto
  qed
qed

lemma simulates_run:
  assumes "simulates R m c used" and "rr_reject_duplicates R" and "list_all op_ok as"
    and "distinct (concat (map created_id as))" and "set (concat (map created_id as)) \<inter> used = {}"
  shows "fst (repo_run pf dur R as m) = fst (catalog_run pf R as c) \<and>
         (\<exists>used'. simulates R (snd (repo_run pf dur R as m)) (snd (catalog_run pf R as c)) used')"
  using assms
proof (induction "as" arbitrary: m c used)
  case (Cons a "as")
  have "set (created_id a) \<inter> used = {}" "op_ok a" using Cons.prems by auto
  then obtain m' where step: "repo_exec pf dur R a m = (fst (catalog_step pf R a c), m')"
      "simulates R m' (snd (catalog_step pf R a c)) (used \<union> set (created_id a))"
    using simulates_step [OF Cons.prems(1,2)] by blast
  from Cons.IH [OF step(2)] Cons.prems have
      "fst (repo_run pf dur R as m') = fst (catalog_run pf R as (snd (catalog_step pf R a c))) \<and>
       (\<exists>used'. simulates R (snd (repo_run pf dur R as m')) (snd (catalog_run pf R as (snd (catalog_step pf R a c)))) used')"
    by auto
  with step(1) show ?case by (simp add: split_beta)
qed auto

text \<open>Paging: following the page tokens from the first page.\<close>

fun follow_pages :: "nat \<Rightarrow> platform \<Rightarrow> int \<Rightarrow> repository \<Rightarrow> string \<Rightarrow> int option \<Rightarrow> string option \<Rightarrow> manager \<Rightarrow>
    jsobj list option" where
  "follow_pages 0 pf dur R pre psize tok m = None"
| "follow_pages (Suc n) pf dur R pre psize tok m =
     (case rr_list_by_prefix pf dur R pre psize tok m of
        (Inl e, m') \<Rightarrow> None
      | (Inr l, m') \<Rightarrow>
          (case lr_next_token l of
             None \<Rightarrow> Some (lr_records l)
           | Some t \<Rightarrow> map_option (\<lambda>rest. lr_records l @ rest) (follow_pages n pf dur R pre psize (Some t) m')))"

lemma parse_offset_nat: "parse_offset_token (Some (nat_to_dec n)) = int n"
  by (simp add: parse_offset_token_def)

lemma int_to_dec_nat: "0 \<le> i \<Longrightarrow> int_to_dec i = nat_to_dec (nat i)"
  by (simp add: int_to_dec_def)

definition listing :: "string \<Rightarrow> (string, jsobj) jsmap \<Rightarrow> jsobj list" where
  "listing pre rows = sort_key name_of (map snd (filter (\<lambda>(i, r). beneath pre (name_of r)) rows))"

lemma list_page:
  assumes "rr_rows R m = Some rows" and "rows_wf rows" and "0 < psize" and "parse_offset_token tok = int k"
  shows "\<exists>m'. rr_list_by_prefix pf dur R pre (Some (int psize)) tok m =
     (Inr \<lparr>lr_records = take psize (drop k (listing pre rows)),
           lr_next_token = (if k + psize < length (listing pre rows) then Some (nat_to_dec (k + psize)) else None)\<rparr>, m') \<and>
     rr_rows R m' = Some rows"
proof -
  let ?pg = "\<lparr>pg_limit = Some (int psize), pg_offset = Some (int k)\<rparr>"
  let ?opts = "\<lparr>qo_filter = Some (prefix_filter pre), qo_sort = Some by_name, qo_pagination = Some ?pg\<rparr>"
  obtain m' t where m': "mg_find pf dur (rr_table R) ?opts m =
        (Inr (page_of (Some ?pg) (select_records pf ?opts t)), m')"
      "mt_records t = rows" "rr_rows R m' = Some rows"
    using rows_find [OF assms(1), of pf dur ?opts] by auto
  have "select_records pf ?opts t = listing pre rows"
    using select_by_prefix [OF assms(2) m'(2)] by (simp add: listing_def)
  then have "page_of (Some ?pg) (select_records pf ?opts t) =
      \<lparr>qr_data = take psize (drop k (listing pre rows)), qr_total = length (listing pre rows),
       qr_has_more = (k + psize < length (listing pre rows)),
       qr_next_cursor = (if k + psize < length (listing pre rows) then Some (int_to_dec (int k + int psize)) else None)\<rparr>"
    using page_window [of "int k" "int psize" "listing pre rows"] assms(3) by simp
  moreover have "int_to_dec (int k + int psize) = nat_to_dec (k + psize)"
    by (subst int_to_dec_nat) (simp_all add: nat_add_distrib)
  ultimately show ?thesis
    using m' assms(4) by (simp add: rr_list_by_prefix_def Let_def)
qed

lemma follow_pages_from:
  assumes "rr_rows R m = Some rows" and "rows_wf rows" and "0 < psize" and "parse_offset_token tok = int k"
    and "length (listing pre rows) - k < n"
  shows "follow_pages n pf dur R pre (Some (int psize)) tok m = Some (drop k (listing pre rows))"
  using assms
proof (induction n arbitrary: m tok k)
  case (Suc n)
  obtain m' where page: "rr_list_by_prefix pf dur R pre (Some (int psize)) tok m =
     (Inr \<lparr>lr_records = take psize (drop k (listing pre rows)),
           lr_next_token = (if k + psize < length (listing pre rows) then Some (nat_to_dec (k + psize)) else None)\<rparr>, m')"
     "rr_rows R m' = Some rows"
    using list_page [OF Suc.prems(1-4), of pf dur pre] by blast
  show ?case
  proof (cases "k + psize < length (listing pre rows)")
    case True
    have "follow_pages n pf dur R pre (Some (int psize)) (Some (nat_to_dec (k + psize))) m' =
        Some (drop (k + psize) (listing pre rows))"
      using True Suc.prems(3,5)
      by (intro Suc.IH [OF page(2) assms(2,3)]) (simp_all add: parse_offset_nat)
    moreover have "take psize (drop k xs) @ drop (k + psize) xs = drop k xs" for xs :: "jsobj list"
      by (metis append_take_drop_id drop_drop add.commute)
    ultimately show ?thesis using True page(1) by simp
  next
    case False
    with page(1) show ?thesis by simp
  qed
qed simp

section \<open>Properties\<close>

lemma simulates_initialized:
  assumes "mg_provider m = Some p" and "pv_tables p = []"
  shows "simulates R (snd (rr_initialize now R m)) Map.empty {}"
proof -
  have "rr_rows R (snd (rr_initialize now R m)) = Some []"
    using assms
    by (simp add: rr_initialize_def mg_list_tables_def list_tables_def mg_create_table_def create_table_def rr_rows_def)
  then show ?thesis by (auto simp: simulates_def rows_wf_def)
qed


definition demo_repository :: repository where
  "demo_repository = new_repository ''widgets'' demo_schema ''widget'' None"

definition demo_repo_ops :: "repo_op list" where
  "demo_repo_ops = [RoCreate 1 ''i1'' [(''name'', JStr ''w/b'')], RoCreate 2 ''i2'' [(''name'', JStr ''w/a'')],
     RoCreate 3 ''i3'' [(''name'', JStr ''w/b'')], RoDeletePrefix 4 ''w/'', RoGet ''w/a'']"


text \<open>C8: Paging is complete. Whatever the page size, following the page tokens from the first page
  until none is returned yields exactly the unpaged listing, each record once and in its order; the
  number of pages is at most one more than the number of rows.\<close>

theorem repository_paging_complete:
  assumes "rr_rows R m = Some rows" and "rows_wf rows" and "0 < psize" and "length rows < n"
  shows "fst (rr_list_all_by_prefix pf dur R pre m) = Inr (listing pre rows) \<and>
         follow_pages n pf dur R pre (Some (int psize)) None m = Some (listing pre rows)"
proof -
  have "length (listing pre rows) \<le> length rows"
    by (simp add: listing_def)
  then have "follow_pages n pf dur R pre (Some (int psize)) None m = Some (drop 0 (listing pre rows))"
    using assms by (intro follow_pages_from) (simp_all add: parse_offset_token_def)
  moreover have "fst (rr_list_all_by_prefix pf dur R pre m) = Inr (listing pre rows)"
  proof -
    let ?opts = "\<lparr>qo_filter = Some (prefix_filter pre), qo_sort = Some by_name, qo_pagination = None\<rparr>"
    obtain m' t where m': "mg_find pf dur (rr_table R) ?opts m = (Inr (page_of None (select_records pf ?opts t)), m')"
        "mt_records t = rows"
      using rows_find [OF assms(1), of pf dur ?opts] by auto
    then show ?thesis
      using select_by_prefix [OF assms(2) m'(2)]
      by (simp add: rr_list_all_by_prefix_def page_of_def Let_def listing_def)
  qed
  ultimately show ?thesis by simp
qed

definition demo_rows :: "(string, jsobj) jsmap" where
  "demo_rows = [(''1'', [(''id'', JStr ''1''), (''name'', JStr ''p/b'')]),
                (''2'', [(''id'', JStr ''2''), (''name'', JStr ''q/p/a'')])]"

definition demo_manager :: manager where
  "demo_manager = new_manager\<lparr>mg_provider := Some
     \<lparr>pv_tables = [(''widgets'', \<lparr>mt_schema = demo_schema, mt_records = demo_rows\<rparr>)], pv_cache = None\<rparr>\<rparr>"

lemma demo_rows_wf: "rows_wf demo_rows"
  by (simp add: rows_wf_def demo_rows_def field_of_def str_field_def)

lemma demo_manager_rows: "rr_rows demo_repository demo_manager = Some demo_rows"
  by (simp add: rr_rows_def demo_manager_def demo_repository_def new_repository_def)

theorem repository_paging_complete_witness:
  "follow_pages 3 demo_platform 0 demo_repository ''p/'' (Some 1) None demo_manager =
     Some (listing ''p/'' demo_rows)"
  using repository_paging_complete [OF demo_manager_rows demo_rows_wf, of 1 3 demo_platform 0 "''p/''"]
  by (simp add: demo_rows_def del: follow_pages.simps)

text \<open>A prefix matches anywhere. The in-memory \<open>like\<close> keeps only the text around the percent signs
  and looks for it as a substring, so a listing "beneath a prefix" also returns every record whose name
  merely contains the prefix.\<close>

theorem prefix_listing_matches_inside:
  assumes "rr_rows R m = Some rows" and "rows_wf rows" and "(i, r) \<in> set rows"
    and "field_of r ''name'' = JStr (u @ pre @ v)" and "CHR ''%'' \<notin> set pre"
  shows "\<exists>rs m'. rr_list_all_by_prefix pf dur R pre m = (Inr rs, m') \<and> r \<in> set rs"
proof -
  let ?opts = "\<lparr>qo_filter = Some (prefix_filter pre), qo_sort = Some by_name, qo_pagination = None\<rparr>"
  obtain m' t where m': "mg_find pf dur (rr_table R) ?opts m = (Inr (page_of None (select_records pf ?opts t)), m')"
      "mt_records t = rows"
    using rows_find [OF assms(1), of pf dur ?opts] by auto
  have "strip_percent pre = pre"
    using assms(5) unfolding strip_percent_def by (intro filter_True) auto
  then have "beneath pre (name_of r)"
    using name_of_JStr [OF assms(4)] by (auto simp: beneath_def includes_str_conv)
  then have "r \<in> set (select_records pf ?opts t)"
    using select_by_prefix [OF assms(2) m'(2)] assms(3) by force
  with m' show ?thesis
    by (simp add: rr_list_all_by_prefix_def page_of_def Let_def)
qed

theorem prefix_listing_matches_inside_witness:
  "\<exists>rs m'. rr_list_all_by_prefix demo_platform 0 demo_repository ''p/'' demo_manager = (Inr rs, m') \<and>
     [(''id'', JStr ''2''), (''name'', JStr ''q/p/a'')] \<in> set rs"
  by (rule prefix_listing_matches_inside [OF demo_manager_rows demo_rows_wf, of "''2''" _ "''q/''" _ "''a''"])
     (simp_all add: demo_rows_def field_of_def)

text \<open>Page parameters. A page size, when one is taken from the request, is positive; an offset is
  never negative whatever the token says; and a token or size printed by the server reads back as the
  number it stands for.\<close>

theorem page_parameters:
  "(case parse_page_size raw of None \<Rightarrow> True | Some n \<Rightarrow> 0 < n) \<and> 0 \<le> parse_offset_token raw \<and>
   parse_offset_token (Some (nat_to_dec k)) = int k \<and>
   parse_page_size (Some (nat_to_dec (Suc k))) = Some (int (Suc k))"
  by (auto simp: parse_page_size_def parse_offset_token_def split: option.splits)

end
