(* ===== verification/Storage_Rows.thy ===== *)
theory Storage_Rows
  imports Resource_Repository
begin

text \<open>
  What the calls of the storage manager do to the rows of all tables at once, for the services that keep
  several tables (\<open>table_rows\<close>), and the sequencing of such calls: a service awaits one call after the
  other and stops at the first error.
\<close>

section \<open>Sequencing\<close>

text \<open>\<open>await f(...)\<close>, then \<open>g\<close> with the result; an error ends the calling method.\<close>

definition and_then :: "('s \<Rightarrow> ('e + 'a) \<times> 's) \<Rightarrow> ('a \<Rightarrow> 's \<Rightarrow> ('e + 'b) \<times> 's) \<Rightarrow> 's \<Rightarrow> ('e + 'b) \<times> 's" where
  "and_then f g s = (case f s of (Inl e, s') \<Rightarrow> (Inl e, s') | (Inr a, s') \<Rightarrow> g a s')"

definition done_with :: "'a \<Rightarrow> 's \<Rightarrow> ('e + 'a) \<times> 's" where
  "done_with a s = (Inr a, s)"

definition fails_with :: "'e \<Rightarrow> 's \<Rightarrow> ('e + 'a) \<times> 's" where
  "fails_with e s = (Inl e, s)"

text \<open>\<open>for (const x of xs) await f(x)\<close>.\<close>

fun for_each :: "('a \<Rightarrow> 's \<Rightarrow> ('e + unit) \<times> 's) \<Rightarrow> 'a list \<Rightarrow> 's \<Rightarrow> ('e + unit) \<times> 's" where
  "for_each f [] = done_with ()"
| "for_each f (x # xs) = and_then (f x) (\<lambda>_. for_each f xs)"

lemma and_then_Inr: "f s = (Inr a, s') \<Longrightarrow> and_then f g s = g a s'"
  by (simp add: and_then_def)

lemma and_then_Inl: "f s = (Inl e, s') \<Longrightarrow> and_then f g s = (Inl e, s')"
  by (simp add: and_then_def)

lemma and_then_done [simp]: "and_then (done_with a) g = g a" "and_then f done_with = f"
  by (auto simp: and_then_def done_with_def fun_eq_iff split: prod.splits sum.splits)

text \<open>A loop whose body always succeeds and acts on an abstraction of the state as \<open>h\<close>.\<close>

lemma for_each_simulates:
  assumes "R s a" and "\<And>x s a. x \<in> set xs \<Longrightarrow> R s a \<Longrightarrow> \<exists>s'. f x s = (Inr (), s') \<and> R s' (h x a)"
  shows "\<exists>s'. for_each f xs s = (Inr (), s') \<and> R s' (fold h xs a)"
  using assms
proof (induction xs arbitrary: s a)
  case Nil
  then show ?case by (auto simp: done_with_def)
next
  case (Cons x xs)
  then obtain s1 where "f x s = (Inr (), s1)" "R s1 (h x a)" by (metis list.set_intros(1))
  with Cons.IH [of s1 "h x a"] Cons.prems(2) show ?case by (auto simp: and_then_Inr)
qed

section \<open>Sequences of operations\<close>

fun run_ops :: "('op \<Rightarrow> 's \<Rightarrow> 'o \<times> 's) \<Rightarrow> 'op list \<Rightarrow> 's \<Rightarrow> 'o list \<times> 's" where
  "run_ops f [] s = ([], s)"
| "run_ops f (x # xs) s = (case f x s of (out, s1) \<Rightarrow> (case run_ops f xs s1 of (outs, s2) \<Rightarrow> (out # outs, s2)))"

lemma run_ops_append:
  "run_ops f (xs @ ys) s = (case run_ops f xs s of (o1, s1) \<Rightarrow> (case run_ops f ys s1 of (o2, s2) \<Rightarrow> (o1 @ o2, s2)))"
  by (induction xs arbitrary: s) (auto split: prod.splits)

lemma run_ops_length: "length (fst (run_ops f xs s)) = length xs"
  by (induction xs arbitrary: s) (simp_all add: split_beta)

lemma run_ops_invariant:
  assumes "P s" and "\<And>x s. x \<in> set xs \<Longrightarrow> P s \<Longrightarrow> P (snd (f x s)) \<and> Q x (fst (f x s))"
  shows "P (snd (run_ops f xs s)) \<and> (\<forall>(x, y) \<in> set (zip xs (fst (run_ops f xs s))). Q x y)"
  using assms
proof (induction xs arbitrary: s)
  case (Cons x xs)
  obtain y s1 where x: "f x s = (y, s1)" by fastforce
  from Cons.prems(2) [of x s] x Cons.prems(1) have "P s1" "Q x y" by auto
  with Cons.IH [OF this(1)] Cons.prems(2) x show ?case by (fastforce split: prod.splits)
qed simp

text \<open>If every operation does what its specification says on the abstract state, so does every sequence.\<close>

locale step_refinement =
  fixes exec :: "'op \<Rightarrow> 's \<Rightarrow> 'o \<times> 's" and spec :: "'op \<Rightarrow> 'a \<Rightarrow> 'o \<times> 'a"
    and R :: "'s \<Rightarrow> 'a \<Rightarrow> bool" and ok :: "'op \<Rightarrow> bool"
  assumes step: "R s a \<Longrightarrow> ok x \<Longrightarrow> \<exists>s'. exec x s = (fst (spec x a), s') \<and> R s' (snd (spec x a))"
begin

lemma run:
  "R s a \<Longrightarrow> list_all ok xs \<Longrightarrow> \<exists>s'. run_ops exec xs s = (fst (run_ops spec xs a), s') \<and> R s' (snd (run_ops spec xs a))"
proof (induction xs arbitrary: s a)
  case (Cons x xs)
  then obtain s1 where s1: "exec x s = (fst (spec x a), s1)" "R s1 (snd (spec x a))" using step by fastforce
  from Cons.IH [OF this(2)] Cons.prems(2) s1(1) show ?case by (fastforce simp: split_beta)
qed simp

lemma outputs: "R s a \<Longrightarrow> list_all ok xs \<Longrightarrow> fst (run_ops exec xs s) = fst (run_ops spec xs a)"
  using run by fastforce

end

section \<open>The rows of the tables\<close>

lemma field_of_literal [simp]:
  "field_of [] f = JUndef" "field_of ((k, v) # r) f = (if f = k then v else field_of r f)"
  by (simp_all add: field_of_def)

lemma jm_has_literal [simp]: "\<not> jm_has [] f" "jm_has ((k, v) # r) f \<longleftrightarrow> f = k \<or> jm_has r f"
  by (auto simp: jm_has_def)

lemma field_of_updated:
  "distinct (jm_keys data) \<Longrightarrow> field_of (updated_record now r data) f =
     (if f = ''updatedAt'' then JDate now else if jm_has data f then field_of data f else field_of r f)"
  by (simp add: updated_record_def field_of_def [of "jm_set _ _ _"] field_of_spread [symmetric])
     (simp add: field_of_def)

lemma field_of_new_record:
  "distinct (jm_keys data) \<Longrightarrow> field_of (new_record now i data) f =
     (if jm_has data f then field_of data f else field_of [(''id'', JStr i), (''createdAt'', JDate now), (''updatedAt'', JDate now)] f)"
  unfolding new_record_def by (rule field_of_spread)

definition table_rows :: "manager \<Rightarrow> string \<Rightarrow> (string, jsobj) jsmap option" where
  "table_rows m T =
     (case mg_provider m of
        None \<Rightarrow> None
      | Some p \<Rightarrow> map_option mt_records (jm_get (pv_tables p) T))"

lemma rr_rows_table: "rr_rows R m = table_rows m (rr_table R)"
  by (simp add: rr_rows_def table_rows_def)

lemma table_rows_fields [simp]:
  "table_rows (update_query_stats dur m) = table_rows m"
  "table_rows (emit_event now ev t i a m) = table_rows m"
  by (simp_all add: table_rows_def fun_eq_iff)

lemma table_rowsE:
  assumes "table_rows m T = Some rows"
  obtains p t where "mg_provider m = Some p" and "jm_get (pv_tables p) T = Some t"
    and "mt_records t = rows" and "get_table T p = Inr t"
  using assms by (auto simp: table_rows_def get_table_Inr split: option.splits)

text \<open>Each call succeeds on a table that exists, and changes that table only.\<close>

lemma row_create:
  assumes "table_rows m T = Some rows"
  shows "\<exists>m'. mg_create dur now i T data m = (Inr (new_record now i data), m') \<and>
         table_rows m' = (table_rows m)(T \<mapsto> jm_set rows i (new_record now i data))"
  by (rule table_rowsE [OF assms])
     (auto simp: mg_create_def create_record_def Let_def put_record_def table_rows_def fun_eq_iff)

lemma row_find:
  assumes "table_rows m T = Some rows"
  shows "\<exists>m'. mg_find pf dur T \<lparr>qo_filter = Some f, qo_sort = None, qo_pagination = pg\<rparr> m =
           (Inr (page_of pg (filter (matches_filter pf f) (map snd rows))), m') \<and> table_rows m' = table_rows m"
  by (rule table_rowsE [OF assms])
     (auto simp: mg_find_def find_records_def select_records_def Let_def table_rows_def fun_eq_iff)

lemma row_find_sorted:
  assumes "table_rows m T = Some rows"
  shows "\<exists>m' t. mg_find pf dur T opts m = (Inr (page_of (qo_pagination opts) (select_records pf opts t)), m') \<and>
         mt_records t = rows \<and> table_rows m' = table_rows m"
  by (rule table_rowsE [OF assms]) (auto simp: mg_find_def find_records_def table_rows_def fun_eq_iff)

lemma row_find_first:
  assumes "table_rows m T = Some rows"
  shows "\<exists>m'. mg_find_first pf dur T \<lparr>qo_filter = Some f, qo_sort = None, qo_pagination = None\<rparr> m =
           (Inr (List.find (matches_filter pf f) (map snd rows)), m') \<and> table_rows m' = table_rows m"
proof -
  obtain p t where p: "mg_provider m = Some p" "jm_get (pv_tables p) T = Some t"
      "mt_records t = rows" "get_table T p = Inr t"
    using assms by (rule table_rowsE)
  let ?rs = "filter (matches_filter pf f) (map snd rows)"
  have "js_slice 0 1 xs = take 1 xs" for xs :: "jsobj list"
    using js_slice_window [of 0 1 xs] by simp
  then have "qr_data (page_of (Some \<lparr>pg_limit = Some 1, pg_offset = None\<rparr>) ?rs) = take 1 ?rs"
    by (simp add: page_of_def Let_def)
  moreover have "(case take 1 xs of [] \<Rightarrow> None | x # _ \<Rightarrow> Some x) = (case xs of [] \<Rightarrow> None | x # _ \<Rightarrow> Some x)"
    for xs :: "jsobj list"
    by (cases xs) simp_all
  ultimately have "find_first pf T \<lparr>qo_filter = Some f, qo_sort = None, qo_pagination = None\<rparr> p =
      (Inr (List.find (matches_filter pf f) (map snd rows)), p)"
    using p by (simp add: find_first_def find_records_def select_records_def Let_def list_find_filter)
  with p show ?thesis by (auto simp: mg_find_first_def table_rows_def fun_eq_iff)
qed

lemma row_update:
  assumes "table_rows m T = Some rows" and "jm_get rows i = Some r"
  shows "\<exists>m'. mg_update_by_id dur now T i data m = (Inr (Some (updated_record now r data)), m') \<and>
         table_rows m' = (table_rows m)(T \<mapsto> jm_set rows i (updated_record now r data))"
  by (rule table_rowsE [OF assms(1)])
     (use assms(2) in \<open>auto simp: mg_update_by_id_def update_by_id_def Let_def put_record_def table_rows_def fun_eq_iff\<close>)

lemma alist_restore: "distinct (jm_keys zs) \<Longrightarrow> map (\<lambda>k. (k, the (jm_get zs k))) (jm_keys zs) = zs"
proof (induction zs)
  case (Cons z zs)
  then have "(\<lambda>k. (k, the (jm_get (z # zs) k))) (fst e) = e" if "e \<in> set zs" for e
    using that by (cases e) (auto simp: rev_image_eqI)
  then show ?case by (cases z) (simp add: map_idI)
qed simp

lemma alist_eqI:
  assumes "jm_keys xs = jm_keys ys" and "distinct (jm_keys ys)" and "\<And>k. jm_get xs k = jm_get ys k"
  shows "xs = ys"
  using alist_restore [of xs] alist_restore [of ys] assms by simp

lemma table_rows_set_provider:
  "pv_tables p = pv_tables p' \<Longrightarrow> table_rows (m\<lparr>mg_provider := Some p\<rparr>) = table_rows (m\<lparr>mg_provider := Some p'\<rparr>)"
  by (simp add: table_rows_def fun_eq_iff)

lemma update_loop_frame:
  "T' \<noteq> T \<Longrightarrow> jm_get (pv_tables (snd (update_loop pf now T f data rs n p))) T' = jm_get (pv_tables p) T'"
proof (induction pf now T f data rs n p rule: update_loop.induct)
  case (2 pf now T f data i r rs n p)
  then show ?case by (cases "get_table T p") (auto simp: Let_def put_record_def)
qed simp

lemma delete_loop_frame:
  "T' \<noteq> T \<Longrightarrow> jm_get (pv_tables (snd (delete_loop T ids n p))) T' = jm_get (pv_tables p) T'"
proof (induction T ids n p rule: delete_loop.induct)
  case (2 T i "is" n p)
  then show ?case by (cases "get_table T p") (auto simp: drop_record_def)
qed simp

definition update_rows :: "(jsobj \<Rightarrow> bool) \<Rightarrow> (jsobj \<Rightarrow> jsobj) \<Rightarrow> (string, jsobj) jsmap \<Rightarrow> (string, jsobj) jsmap" where
  "update_rows P g rows = map (\<lambda>(i, r). (i, if P r then g r else r)) rows"

lemma update_rows_keys [simp]: "jm_keys (update_rows P g rows) = jm_keys rows"
  by (simp add: update_rows_def case_prod_unfold o_def)

lemma update_rows_get: "jm_get (update_rows P g rows) i = map_option (\<lambda>r. if P r then g r else r) (jm_get rows i)"
  by (induction rows) (auto simp: update_rows_def)

lemma row_update_many:
  assumes "table_rows m T = Some rows" and "distinct (jm_keys rows)"
  shows "\<exists>m'. mg_update_many pf dur now T f data m =
           (Inr (length (filter (matches_filter pf f) (map snd rows))), m') \<and>
         table_rows m' = (table_rows m)(T \<mapsto> update_rows (matches_filter pf f) (\<lambda>r. updated_record now r data) rows)"
proof -
  obtain p t where p: "mg_provider m = Some p" "jm_get (pv_tables p) T = Some t"
      "mt_records t = rows" "get_table T p = Inr t"
    using assms(1) by (rule table_rowsE)
  let ?n = "length (filter (matches_filter pf f) (map snd rows))"
  let ?rows = "update_rows (matches_filter pf f) (\<lambda>r. updated_record now r data) rows"
  have "\<forall>(i, r) \<in> set rows. jm_get (mt_records t) i = Some r" using assms(2) p(3) by (auto simp: map_of_is_SomeI)
  from update_loop_effect [OF p(4) assms(2) this, of pf now f data 0]
  obtain p' t' where loop: "update_loop pf now T f data rows 0 p = (?n, p')" and t': "get_table T p' = Inr t'"
      and keys: "jm_keys (mt_records t') = jm_keys rows"
      and get: "\<forall>j. jm_get (mt_records t') j = (if j \<in> fst ` set rows
             then map_option (\<lambda>r. if matches_filter pf f r then updated_record now r data else r) (jm_get rows j)
             else jm_get rows j)"
    using p(3) by (auto simp: filter_map o_def case_prod_unfold)
  have rows': "mt_records t' = ?rows"
  proof (rule alist_eqI)
    show "jm_get (mt_records t') k = jm_get ?rows k" for k
      using get by (cases "k \<in> fst ` set rows") (simp_all add: update_rows_get map_of_eq_None_iff [THEN iffD2])
  qed (use keys assms(2) in simp_all)
  have frame: "jm_get (pv_tables p') T' = jm_get (pv_tables p) T'" if "T' \<noteq> T" for T'
    using update_loop_frame [OF that, of pf now f data rows 0 p] loop by simp
  have "update_many pf now T f data p = (Inr ?n, p')" using p loop by (simp add: update_many_def)
  moreover have eff: "table_rows (m\<lparr>mg_provider := Some p'\<rparr>) = (table_rows m)(T \<mapsto> ?rows)"
    using frame t' rows' p(1) by (auto simp: table_rows_def fun_eq_iff get_table_Inr)
  moreover have "table_rows (m\<lparr>mg_provider := Some q\<rparr>) = (table_rows m)(T \<mapsto> ?rows)" if "pv_tables q = pv_tables p'" for q
    using table_rows_set_provider [OF that] eff by simp
  ultimately show ?thesis
    using p(1) t' by (cases "pv_cache p'") (simp_all add: mg_update_many_def find_records_def Let_def)
qed

lemma row_delete_many:
  assumes "table_rows m T = Some rows" and "distinct (jm_keys rows)"
  shows "\<exists>m'. mg_delete_many pf dur now T f m =
           (Inr (length (filter (matches_filter pf f) (map snd rows))), m') \<and>
         table_rows m' = (table_rows m)(T \<mapsto> filter (\<lambda>(i, r). \<not> matches_filter pf f r) rows)"
proof -
  obtain p t where p: "mg_provider m = Some p" "jm_get (pv_tables p) T = Some t"
      "mt_records t = rows" "get_table T p = Inr t"
    using assms(1) by (rule table_rowsE)
  let ?ids = "map fst (filter (\<lambda>(i, r). matches_filter pf f r) rows)"
  let ?n = "length (filter (matches_filter pf f) (map snd rows))"
  have n: "?n = length ?ids" by (simp add: filter_map o_def case_prod_unfold)
  have keep: "filter (\<lambda>e. fst e \<notin> set ?ids) rows = filter (\<lambda>(i, r). \<not> matches_filter pf f r) rows"
    using assms(2) by (intro filter_cong) (auto dest: eq_key_imp_eq_value)
  obtain p' where p': "delete_loop T ?ids 0 p = (0 + length ?ids, p')"
      "get_table T p' = Inr (t\<lparr>mt_records := filter (\<lambda>e. fst e \<notin> set ?ids) (mt_records t)\<rparr>)"
    using delete_loop_effect [OF p(4), of ?ids 0] by blast
  have frame: "jm_get (pv_tables p') T' = jm_get (pv_tables p) T'" if "T' \<noteq> T" for T'
    using delete_loop_frame [OF that, of ?ids 0 p] p'(1) by simp
  have "delete_many pf T f p = (Inr ?n, p')" using p p' n by (simp add: delete_many_def Let_def)
  moreover have "table_rows (m\<lparr>mg_provider := Some p'\<rparr>) =
      (table_rows m)(T \<mapsto> filter (\<lambda>(i, r). \<not> matches_filter pf f r) rows)"
    using frame p' p keep by (auto simp: table_rows_def fun_eq_iff get_table_Inr)
  then have "table_rows (m\<lparr>mg_provider := Some q\<rparr>) = (table_rows m)(T \<mapsto> filter (\<lambda>(i, r). \<not> matches_filter pf f r) rows)"
    if "pv_tables q = pv_tables p'" for q
    using table_rows_set_provider [OF that] by simp
  ultimately show ?thesis
    using p(1) by (simp add: mg_delete_many_def Let_def)
qed

end
