(* ===== verification/Js_Text.thy ===== *)
theory Js_Text
  imports Js_Value
begin

text \<open>
  Text encodings of the language and the platform that the request filter uses: UTF-8 decoding
  (\<open>TextDecoder\<close>, \<open>decodeURIComponent\<close>), \<open>atob\<close>, and the percent decoding of
  \<open>src/src/services/compute/armor/expression.ts\<close>. A string of the model has 8-bit code units; a decoder
  that produces another character answers \<open>Beyond\<close>.
\<close>

section \<open>Outcomes\<close>

text \<open>\<open>Done v\<close>: the code returns \<open>v\<close>. \<open>Malformed\<close>: it throws. \<open>Beyond\<close>: a text outside the model occurs, and the
  model gives no answer.\<close>

datatype 'a outcome = Done 'a | Malformed | Beyond

definition obind :: "'a outcome \<Rightarrow> ('a \<Rightarrow> 'b outcome) \<Rightarrow> 'b outcome" where
  "obind r f = (case r of Done v \<Rightarrow> f v | Malformed \<Rightarrow> Malformed | Beyond \<Rightarrow> Beyond)"

lemma obind_simps [simp]:
  "obind (Done v) f = f v" "obind Malformed f = Malformed" "obind Beyond f = Beyond"
  by (simp_all add: obind_def)

abbreviation unit_of :: "char \<Rightarrow> nat" where
  "unit_of \<equiv> of_char"

definition ascii_text :: "string \<Rightarrow> bool" where
  "ascii_text s = list_all (\<lambda>c. unit_of c < 128) s"

section \<open>UTF-8\<close>

definition continuation :: "nat \<Rightarrow> bool" where
  "continuation b = (128 \<le> b \<and> b < 192)"

text \<open>
  The decoder of the Encoding Standard in fatal mode: overlong forms, surrogates and values above 10FFFF
  are refused by the range of the second byte.
\<close>

fun utf8_decode :: "nat list \<Rightarrow> nat list option" where
  "utf8_decode [] = Some []"
| "utf8_decode (b # r) =
     (if b < 128 then map_option (Cons b) (utf8_decode r)
      else if 194 \<le> b \<and> b \<le> 223 then
        (case r of
           c # r' \<Rightarrow> if continuation c then map_option (Cons ((b - 192) * 64 + (c - 128))) (utf8_decode r') else None
         | _ \<Rightarrow> None)
      else if 224 \<le> b \<and> b \<le> 239 then
        (case r of
           c # d # r' \<Rightarrow>
             if continuation c \<and> continuation d \<and> (b = 224 \<longrightarrow> 160 \<le> c) \<and> (b = 237 \<longrightarrow> c \<le> 159)
             then map_option (Cons ((b - 224) * 4096 + (c - 128) * 64 + (d - 128))) (utf8_decode r') else None
         | _ \<Rightarrow> None)
      else if 240 \<le> b \<and> b \<le> 244 then
        (case r of
           c # d # e # r' \<Rightarrow>
             if continuation c \<and> continuation d \<and> continuation e \<and> (b = 240 \<longrightarrow> 144 \<le> c) \<and> (b = 244 \<longrightarrow> c \<le> 143)
             then map_option (Cons ((b - 240) * 262144 + (c - 128) * 4096 + (d - 128) * 64 + (e - 128))) (utf8_decode r')
             else None
         | _ \<Rightarrow> None)
      else None)"

definition text_of_points :: "nat list \<Rightarrow> string outcome" where
  "text_of_points ps = (if list_all (\<lambda>p. p < 256) ps then Done (map char_of ps) else Beyond)"

text \<open>\<open>new TextDecoder('utf-8', { fatal: true })\<close> drops a leading byte order mark.\<close>

definition decode_fatal :: "nat list \<Rightarrow> string outcome" where
  "decode_fatal bytes =
     (case utf8_decode bytes of
        None \<Rightarrow> Malformed
      | Some (p # ps) \<Rightarrow> text_of_points (if p = 65279 then ps else p # ps)
      | Some [] \<Rightarrow> Done [])"

text \<open>The UTF-8 encoding of an 8-bit code unit.\<close>

definition utf8_unit :: "char \<Rightarrow> nat list" where
  "utf8_unit c = (let n = unit_of c in if n < 128 then [n] else [192 + n div 64, 128 + n mod 64])"

text \<open>\<open>TextDecoder\<close> on the first bytes of a text: a character cut in two becomes U+FFFD.\<close>

fun take_bytes :: "nat \<Rightarrow> string \<Rightarrow> nat list" where
  "take_bytes n [] = []"
| "take_bytes n (c # s) =
     (if n = 0 then []
      else if length (utf8_unit c) \<le> n then unit_of c # take_bytes (n - length (utf8_unit c)) s
      else [65533])"

section \<open>Hexadecimal\<close>

definition is_hex_char :: "char \<Rightarrow> bool" where
  "is_hex_char c = (is_digit c \<or> (CHR ''a'' \<le> c \<and> c \<le> CHR ''f'') \<or> (CHR ''A'' \<le> c \<and> c \<le> CHR ''F''))"

definition hex_char_value :: "char \<Rightarrow> nat" where
  "hex_char_value c = (if is_digit c then digit_value c else unit_of (lower_char c) - 87)"

definition hex_text_value :: "string \<Rightarrow> nat" where
  "hex_text_value s = foldl (\<lambda>a c. a * 16 + hex_char_value c) 0 s"

section \<open>Percent decoding of the rule language\<close>

text \<open>The inner loop of \<open>decodePercent\<close>: the bytes of consecutive escapes, and the rest.\<close>

fun percent_bytes :: "string \<Rightarrow> nat list \<times> string" where
  "percent_bytes (c # a # b # s) =
     (if c = CHR ''%'' \<and> is_hex_char a \<and> is_hex_char b
      then (case percent_bytes s of (bs, r) \<Rightarrow> (hex_text_value [a, b] # bs, r))
      else ([], c # a # b # s))"
| "percent_bytes s = ([], s)"

lemma percent_bytes_length: "percent_bytes s = (bs, r) \<Longrightarrow> length r + 3 * length bs = length s"
  by (induction s arbitrary: bs r rule: percent_bytes.induct) (auto split: if_splits prod.splits)

definition unicode_escape :: "string \<Rightarrow> bool" where
  "unicode_escape s = (length s \<ge> 6 \<and> s ! 0 = CHR ''%'' \<and> (s ! 1 = CHR ''u'' \<or> s ! 1 = CHR ''U'')
     \<and> list_all is_hex_char (take 4 (drop 2 s)))"

definition oappend :: "string \<Rightarrow> string outcome \<Rightarrow> string outcome" where
  "oappend p r = obind r (\<lambda>s. Done (p @ s))"

lemma oappend_Done [simp]: "oappend p (Done s) = Done (p @ s)"
  by (simp add: oappend_def)

function decode_percent :: "bool \<Rightarrow> string \<Rightarrow> string outcome" where
  "decode_percent unicode [] = Done []"
| "decode_percent unicode (c # s) =
     (if c = CHR ''+'' then oappend '' '' (decode_percent unicode s)
      else if unicode \<and> unicode_escape (c # s) then
        obind (text_of_points [hex_text_value (take 4 (drop 2 (c # s)))])
          (\<lambda>p. oappend p (decode_percent unicode (drop 6 (c # s))))
      else if c = CHR ''%'' \<and> fst (percent_bytes (c # s)) \<noteq> [] then
        (case decode_fatal (fst (percent_bytes (c # s))) of
           Done p \<Rightarrow> oappend p (decode_percent unicode (snd (percent_bytes (c # s))))
         | Malformed \<Rightarrow> oappend (take 3 (c # s)) (decode_percent unicode (drop 3 (c # s)))
         | Beyond \<Rightarrow> Beyond)
      else oappend [c] (decode_percent unicode s))"
  by pat_completeness auto
termination
proof (relation "measure (\<lambda>(u, s). length s)")
  fix unicode :: bool and c s
  assume "c = CHR ''%'' \<and> fst (percent_bytes (c # s)) \<noteq> []"
  then show "((unicode, snd (percent_bytes (c # s))), unicode, c # s) \<in> measure (\<lambda>(u, s). length s)"
    using percent_bytes_length [of "c # s" "fst (percent_bytes (c # s))" "snd (percent_bytes (c # s))"]
    by (cases "fst (percent_bytes (c # s))") auto
qed auto

declare decode_percent.simps [simp del]

abbreviation url_decode :: "string \<Rightarrow> string outcome" where
  "url_decode \<equiv> decode_percent False"

abbreviation url_decode_uni :: "string \<Rightarrow> string outcome" where
  "url_decode_uni \<equiv> decode_percent True"

text \<open>\<open>utf8ToUnicode\<close>: characters above 7F become \<open>%uXXXX\<close>.\<close>

definition utf8_to_unicode :: "string \<Rightarrow> string" where
  "utf8_to_unicode s = concat (map (\<lambda>c. let n = unit_of c in
     if n \<le> 127 then [c] else ''%u00'' @ [hex_digit (n div 16), hex_digit (n mod 16)]) s)"

section \<open>Base64\<close>

definition base64_value :: "char \<Rightarrow> nat option" where
  "base64_value c =
     (if CHR ''A'' \<le> c \<and> c \<le> CHR ''Z'' then Some (unit_of c - 65)
      else if CHR ''a'' \<le> c \<and> c \<le> CHR ''z'' then Some (unit_of c - 71)
      else if is_digit c then Some (digit_value c + 52)
      else if c = CHR ''+'' then Some 62
      else if c = CHR ''/'' then Some 63
      else None)"

text \<open>Four characters make three bytes; a last group of two or three makes one or two.\<close>

fun base64_bytes :: "nat list \<Rightarrow> nat list" where
  "base64_bytes (a # b # c # d # r) =
     [a * 4 + b div 16, b mod 16 * 16 + c div 4, c mod 4 * 64 + d] @ base64_bytes r"
| "base64_bytes [a, b, c] = [a * 4 + b div 16, b mod 16 * 16 + c div 4]"
| "base64_bytes [a, b] = [a * 4 + b div 16]"
| "base64_bytes _ = []"

text \<open>\<open>atob\<close>, the forgiving decoder of the Infra Standard.\<close>

definition strip_padding :: "string \<Rightarrow> string" where
  "strip_padding s =
     (if length s mod 4 = 0 then
        (if ends_with s ''=='' then take (length s - 2) s
         else if ends_with s ''='' then take (length s - 1) s else s)
      else s)"

definition atob :: "string \<Rightarrow> string option" where
  "atob s =
     (let t = strip_padding (filter (\<lambda>c. c \<notin> set [CHR '' '', CHR 0x09, CHR 0x0A, CHR 0x0C, CHR 0x0D]) s)
      in if length t mod 4 = 1 \<or> list_ex (\<lambda>c. base64_value c = None) t then None
         else Some (map char_of (base64_bytes (map (\<lambda>c. the (base64_value c)) t))))"

text \<open>\<open>base64Decode\<close>: the URL alphabet is mapped to the standard one and padding is added; a failure is
  the empty string.\<close>

definition base64_decode :: "string \<Rightarrow> string" where
  "base64_decode s =
     (let n = map (\<lambda>c. if c = CHR ''_'' then CHR ''/'' else if c = CHR ''-'' then CHR ''+'' else c) s;
          pad = length n mod 4;
          padded = (if pad = 0 then n else n @ replicate (4 - pad) (CHR ''=''))
      in case atob padded of None \<Rightarrow> [] | Some t \<Rightarrow> t)"

section \<open>Percent decoding inverts percent encoding\<close>

definition percent_byte :: "nat \<Rightarrow> string" where
  "percent_byte b = [CHR ''%'', hex_digit (b div 16), hex_digit (b mod 16)]"

text \<open>Every character as the escapes of its UTF-8 bytes.\<close>

definition percent_encode :: "string \<Rightarrow> string" where
  "percent_encode s = concat (map percent_byte (concat (map utf8_unit s)))"

lemma unit_of_bound [simp]: "unit_of c < 256"
  using of_char_mod_256 [of c, where ?'a = nat] by (metis mod_less_divisor zero_less_numeral)

lemma hex_digit_props:
  assumes "d < 16"
  shows "is_hex_char (hex_digit d)" and "hex_char_value (hex_digit d) = d"
    and "hex_digit d \<noteq> CHR ''u''" and "hex_digit d \<noteq> CHR ''U''"
proof -
  have "\<forall>d \<in> set [0..<16]. is_hex_char (hex_digit d) \<and> hex_char_value (hex_digit d) = d \<and> hex_digit d \<noteq> CHR ''u'' \<and> hex_digit d \<noteq> CHR ''U''"
    by code_simp
  then show "is_hex_char (hex_digit d)" "hex_char_value (hex_digit d) = d" "hex_digit d \<noteq> CHR ''u''" "hex_digit d \<noteq> CHR ''U''"
    using assms by auto
qed

lemma percent_byte_value: "b < 256 \<Longrightarrow> hex_text_value [hex_digit (b div 16), hex_digit (b mod 16)] = b"
  by (simp add: hex_text_value_def hex_digit_props less_mult_imp_div_less)

lemma percent_bytes_encode:
  "list_all (\<lambda>b. b < 256) bs \<Longrightarrow> percent_bytes (concat (map percent_byte bs)) = (bs, [])"
  by (induction bs) (simp_all add: percent_byte_def percent_byte_value hex_digit_props less_mult_imp_div_less)

lemma utf8_unit_bytes: "list_all (\<lambda>b. b < 256) (utf8_unit c)"
  using unit_of_bound [of c] by (auto simp: utf8_unit_def Let_def simp del: unit_of_bound)

lemma utf8_units_bytes: "list_all (\<lambda>b. b < 256) (concat (map utf8_unit s))"
  using utf8_unit_bytes by (auto simp: list_all_iff)

lemma utf8_decode_units: "utf8_decode (concat (map utf8_unit s)) = Some (map unit_of s)"
proof (induction s)
  case (Cons c s)
  show ?case
  proof (cases "unit_of c < 128")
    case False
    then have "unit_of c div 64 = 2 \<or> unit_of c div 64 = 3"
      using unit_of_bound [of c] by linarith
    then show ?thesis using False Cons.IH
      by (auto simp: utf8_unit_def Let_def continuation_def)
  next
    case True
    then have "utf8_unit c = [unit_of c]" by (simp add: utf8_unit_def)
    then show ?thesis using True Cons.IH by simp
  qed
qed simp

lemma text_of_units [simp]: "text_of_points (map unit_of s) = Done s"
  by (simp add: text_of_points_def list_all_iff comp_def)

lemma decode_fatal_units: "decode_fatal (concat (map utf8_unit s)) = Done s"
proof (cases s)
  case (Cons c r)
  have "unit_of c \<noteq> 65279" using unit_of_bound [of c] by linarith
  then show ?thesis
    using Cons text_of_units [of "c # r"] utf8_decode_units [of "c # r"]
    by (simp add: decode_fatal_def del: text_of_units)
qed (simp add: decode_fatal_def)

section \<open>Base64 decoding inverts encoding\<close>

fun base64_sextets :: "nat list \<Rightarrow> nat list" where
  "base64_sextets (a # b # c # r) =
     [a div 4, a mod 4 * 16 + b div 16, b mod 16 * 4 + c div 64, c mod 64] @ base64_sextets r"
| "base64_sextets [a, b] = [a div 4, a mod 4 * 16 + b div 16, b mod 16 * 4]"
| "base64_sextets [a] = [a div 4, a mod 4 * 16]"
| "base64_sextets [] = []"

definition base64url_char :: "nat \<Rightarrow> char" where
  "base64url_char n = ''ABCDEFGHIJKLMNOPQRSTUVWXYZabcdefghijklmnopqrstuvwxyz0123456789-_'' ! n"

text \<open>The URL-safe encoding without padding.\<close>

definition base64url_encode :: "string \<Rightarrow> string" where
  "base64url_encode s = map base64url_char (base64_sextets (map unit_of s))"

lemma base64_sextets_bound: "list_all (\<lambda>b. b < 256) bs \<Longrightarrow> list_all (\<lambda>x. x < 64) (base64_sextets bs)"
  by (induction bs rule: base64_sextets.induct) auto

lemma base64_regroup:
  fixes a b c :: nat
  assumes "b < 256" and "c < 256"
  shows "a div 4 * 4 + (a mod 4 * 16 + b div 16) div 16 = a"
    and "(a mod 4 * 16 + b div 16) mod 16 * 16 + (b mod 16 * 4 + c div 64) div 4 = b"
    and "(b mod 16 * 4 + c div 64) mod 4 * 64 + c mod 64 = c"
    and "a div 4 * 4 + (a mod 4 * 16) div 16 = a"
    and "(a mod 4 * 16 + b div 16) mod 16 * 16 + (b mod 16 * 4) div 4 = b"
proof -
  have b: "b div 16 < 16" and c: "c div 64 < 4" using assms by (simp_all add: less_mult_imp_div_less)
  have "(a mod 4 * 16 + b div 16) div 16 = a mod 4" "(a mod 4 * 16 + b div 16) mod 16 = b div 16" using b by simp_all
  moreover have "(b mod 16 * 4 + c div 64) div 4 = b mod 16" "(b mod 16 * 4 + c div 64) mod 4 = c div 64" using c by simp_all
  moreover have "x div 4 * 4 + x mod 4 = x" "x div 16 * 16 + x mod 16 = x" "x div 64 * 64 + x mod 64 = x" for x :: nat by simp_all
  ultimately show "a div 4 * 4 + (a mod 4 * 16 + b div 16) div 16 = a"
    "(a mod 4 * 16 + b div 16) mod 16 * 16 + (b mod 16 * 4 + c div 64) div 4 = b"
    "(b mod 16 * 4 + c div 64) mod 4 * 64 + c mod 64 = c" "a div 4 * 4 + (a mod 4 * 16) div 16 = a"
    "(a mod 4 * 16 + b div 16) mod 16 * 16 + (b mod 16 * 4) div 4 = b"
    by simp_all
qed

lemma base64_bytes_sextets: "list_all (\<lambda>b. b < 256) bs \<Longrightarrow> base64_bytes (base64_sextets bs) = bs"
proof (induction bs rule: base64_sextets.induct)
  case (1 a b c r)
  then have "b < 256" "c < 256" by simp_all
  with 1 show ?case by (simp only: base64_sextets.simps append_Cons append_Nil base64_bytes.simps base64_regroup list.pred_inject)
next
  case (2 a b)
  then have "b < 256" by simp
  then show ?case by (simp only: base64_sextets.simps base64_bytes.simps base64_regroup [of b 0])
next
  case (3 a)
  show ?case using base64_regroup(4) [of 0 0 a] by (simp only: base64_sextets.simps base64_bytes.simps)
qed simp

lemma base64_sextets_length: "length (base64_sextets bs) mod 4 \<noteq> 1"
  by (induction bs rule: base64_sextets.induct) simp_all

definition base64_standard :: "char \<Rightarrow> char" where
  "base64_standard c = (if c = CHR ''_'' then CHR ''/'' else if c = CHR ''-'' then CHR ''+'' else c)"

lemma base64url_char_props:
  assumes "n < 64"
  shows "base64_value (base64_standard (base64url_char n)) = Some n"
    and "base64_standard (base64url_char n) \<notin> set [CHR '' '', CHR 0x09, CHR 0x0A, CHR 0x0C, CHR 0x0D]"
    and "base64_standard (base64url_char n) \<noteq> CHR ''=''"
proof -
  have "\<forall>n \<in> set [0..<64]. base64_value (base64_standard (base64url_char n)) = Some n \<and>
     base64_standard (base64url_char n) \<notin> set [CHR '' '', CHR 0x09, CHR 0x0A, CHR 0x0C, CHR 0x0D] \<and>
     base64_standard (base64url_char n) \<noteq> CHR ''=''"
    by code_simp
  then show "base64_value (base64_standard (base64url_char n)) = Some n"
      "base64_standard (base64url_char n) \<notin> set [CHR '' '', CHR 0x09, CHR 0x0A, CHR 0x0C, CHR 0x0D]"
      "base64_standard (base64url_char n) \<noteq> CHR ''=''"
    using assms by auto
qed

lemma strip_padding_pad:
  assumes "CHR ''='' \<notin> set t" and "length t mod 4 \<noteq> 1"
  shows "strip_padding (if length t mod 4 = 0 then t else t @ replicate (4 - length t mod 4) (CHR ''='')) = t"
proof -
  have last: "\<not> ends_with t ''=''"
    using assms(1) by (cases t rule: rev_cases) (auto simp: ends_with_def starts_with_def)
  then have last2: "\<not> ends_with t ''==''"
    by (cases t rule: rev_cases) (auto simp: ends_with_def starts_with_def)
  consider "length t mod 4 = 0" | "length t mod 4 = 2" | "length t mod 4 = 3"
    using assms(2) mod_less_divisor [of 4 "length t"] by linarith
  then show ?thesis
  proof cases
    case 2
    then have "(length t + 2) mod 4 = 0" by presburger
    with 2 show ?thesis by (simp add: strip_padding_def numeral_2_eq_2 ends_with_def starts_with_def)
  next
    case 3
    then have "(length t + 1) mod 4 = 0" by presburger
    moreover have "\<not> ends_with (t @ ''='') ''==''"
      using last by (cases t rule: rev_cases) (auto simp: ends_with_def starts_with_def)
    ultimately show ?thesis using 3 by (simp add: strip_padding_def ends_with_def starts_with_def)
  qed (simp add: strip_padding_def last last2)
qed

section \<open>Properties\<close>

text \<open>\<open>urlDecode\<close> and \<open>urlDecodeUni\<close> invert percent encoding: they return the text whose characters were
  escaped as their UTF-8 bytes.\<close>

theorem decode_percent_inverts:
  "decode_percent unicode (percent_encode s) = Done s"
proof (cases s)
  case Nil
  then show ?thesis by (simp add: percent_encode_def decode_percent.simps)
next
  case (Cons c r)
  define bs where "bs = concat (map utf8_unit s)"
  have "bs \<noteq> []" using Cons by (simp add: bs_def utf8_unit_def Let_def)
  then obtain b bs' where bs: "bs = b # bs'" by (cases bs) auto
  have bounds: "list_all (\<lambda>b. b < 256) bs" unfolding bs_def by (rule utf8_units_bytes)
  have enc: "percent_encode s = CHR ''%'' # hex_digit (b div 16) # hex_digit (b mod 16) # concat (map percent_byte bs')"
    by (simp add: percent_encode_def bs_def [symmetric] bs percent_byte_def)
  have "b < 256" using bounds bs by simp
  then have "hex_digit (b div 16) \<noteq> CHR ''u''" "hex_digit (b div 16) \<noteq> CHR ''U''"
    by (simp_all add: hex_digit_props less_mult_imp_div_less)
  then have no_u: "\<not> unicode_escape (percent_encode s)" by (simp add: enc unicode_escape_def)
  have pb: "percent_bytes (percent_encode s) = (bs, [])"
    using percent_bytes_encode [OF bounds] by (simp add: percent_encode_def bs_def)
  have "decode_fatal bs = Done s" unfolding bs_def by (rule decode_fatal_units)
  then show ?thesis
    using pb no_u \<open>bs \<noteq> []\<close> unfolding enc by (subst decode_percent.simps) (simp add: decode_percent.simps(1))
qed

text \<open>\<open>base64Decode\<close> inverts the URL-safe base64 encoding without padding, on every string of bytes.\<close>

theorem base64_decode_inverts:
  "base64_decode (base64url_encode s) = s"
proof -
  define xs where "xs = base64_sextets (map unit_of s)"
  define t where "t = map base64_standard (map base64url_char xs)"
  have xs: "list_all (\<lambda>x. x < 64) xs"
    unfolding xs_def by (rule base64_sextets_bound) (simp add: list_all_iff)
  have len: "length t mod 4 \<noteq> 1"
    unfolding t_def xs_def using base64_sextets_length by simp
  have no_pad: "CHR ''='' \<notin> set t" and no_ws: "filter (\<lambda>c. c \<notin> set [CHR '' '', CHR 0x09, CHR 0x0A, CHR 0x0C, CHR 0x0D]) t = t"
    using xs base64url_char_props(2,3) by (fastforce simp: t_def list_all_iff filter_id_conv)+
  have vals: "map (\<lambda>c. the (base64_value c)) t = xs" and ok: "\<not> list_ex (\<lambda>c. base64_value c = None) t"
    using xs base64url_char_props(1) by (auto simp: t_def list_all_iff list_ex_iff map_idI)
  have norm: "map (\<lambda>c. if c = CHR ''_'' then CHR ''/'' else if c = CHR ''-'' then CHR ''+'' else c) (base64url_encode s) = t"
    by (simp add: t_def xs_def base64url_encode_def base64_standard_def)
  let ?padded = "if length t mod 4 = 0 then t else t @ replicate (4 - length t mod 4) (CHR ''='')"
  have "filter (\<lambda>c. c \<notin> set [CHR '' '', CHR 0x09, CHR 0x0A, CHR 0x0C, CHR 0x0D]) ?padded = ?padded"
    using no_ws by auto
  then have "atob ?padded = Some (map char_of (base64_bytes xs))"
    using len ok vals by (simp only: atob_def strip_padding_pad [OF no_pad len] Let_def if_False HOL.simp_thms)
  moreover have "map char_of (base64_bytes xs) = s"
    unfolding xs_def by (simp add: base64_bytes_sextets list_all_iff comp_def)
  ultimately show ?thesis
    unfolding base64_decode_def norm Let_def by simp
qed

end
