(* ===== verification/Js_Json.thy ===== *)
theory Js_Json
  imports Js_Text
begin

text \<open>
  \<open>JSON.parse\<close> and \<open>decodeURIComponent\<close>, which the request filter applies to bodies and query strings. A
  parser returns the value and the rest of the text. \<open>Malformed\<close> is the exception the language throws;
  \<open>Beyond\<close> a text or a number outside the model: a character above FF, more than 15 significant digits, an
  exponent, or a magnitude that prints with one.
\<close>

section \<open>White space, literals and numbers\<close>

definition json_ws :: "char \<Rightarrow> bool" where
  "json_ws c = (c \<in> set [CHR '' '', CHR 0x09, CHR 0x0A, CHR 0x0D])"

abbreviation skip_json_ws :: "string \<Rightarrow> string" where
  "skip_json_ws \<equiv> dropWhile json_ws"

text \<open>The length of the number at the start of a text, by the grammar of JSON.\<close>

definition digits_length :: "string \<Rightarrow> nat" where
  "digits_length s = length (takeWhile is_digit s)"

definition number_length :: "string \<Rightarrow> nat option" where
  "number_length s =
     (let i0 = (if starts_with s ''-'' then 1 else 0); r0 = drop i0 s
      in if r0 = [] \<or> \<not> is_digit (hd r0) then None
         else
           let i1 = i0 + (if hd r0 = CHR ''0'' then 1 else digits_length r0); r1 = drop i1 s;
               frac = starts_with r1 ''.''
           in if frac \<and> digits_length (tl r1) = 0 then None
              else
                let i2 = (if frac then i1 + 1 + digits_length (tl r1) else i1); r2 = drop i2 s;
                    ex = (starts_with r2 ''e'' \<or> starts_with r2 ''E'');
                    sg = (if starts_with (tl r2) ''+'' \<or> starts_with (tl r2) ''-'' then 1 else 0)
                in if \<not> ex then Some i2
                   else if digits_length (drop (1 + sg) r2) = 0 then None
                   else Some (i2 + 1 + sg + digits_length (drop (1 + sg) r2)))"

text \<open>The value of the text of a number without exponent.\<close>

definition decimal_value :: "string \<Rightarrow> rat" where
  "decimal_value s =
     (let neg = starts_with s ''-''; t = (if neg then tl s else s);
          whole = takeWhile is_digit t; frac = takeWhile is_digit (drop (Suc (length whole)) t);
          v = of_nat (dec_value whole) + of_nat (dec_value frac) / 10 ^ length frac
      in if neg then - v else v)"

definition number_of_text :: "string \<Rightarrow> rat outcome" where
  "number_of_text s =
     (if CHR ''e'' \<in> set s \<or> CHR ''E'' \<in> set s \<or> length (filter is_digit s) > 15 then Beyond
      else let v = decimal_value s in if v \<noteq> 0 \<and> \<bar>v\<bar> < 1 / 1000000 then Beyond else Done v)"

section \<open>Strings\<close>

definition json_unescape :: "char \<Rightarrow> char option" where
  "json_unescape c =
     (if c = CHR 0x22 \<or> c = CHR 0x5C \<or> c = CHR ''/'' then Some c
      else if c = CHR ''b'' then Some (CHR 0x08) else if c = CHR ''f'' then Some (CHR 0x0C)
      else if c = CHR ''n'' then Some (CHR 0x0A) else if c = CHR ''r'' then Some (CHR 0x0D)
      else if c = CHR ''t'' then Some (CHR 0x09) else None)"

text \<open>The characters of a string literal behind its opening quote. A later mistake makes the whole text
  malformed, so it takes precedence over a character outside the model.\<close>

definition prepend_point :: "nat \<Rightarrow> (string \<times> string) outcome \<Rightarrow> (string \<times> string) outcome" where
  "prepend_point p r = obind r (\<lambda>(v, rest). if p < 256 then Done (char_of p # v, rest) else Beyond)"

fun json_string_body :: "string \<Rightarrow> (string \<times> string) outcome" where
  "json_string_body [] = Malformed"
| "json_string_body (c # s) =
     (if c = CHR 0x22 then Done ([], s)
      else if unit_of c < 32 then Malformed
      else if c = CHR 0x5C then
        (case s of
           [] \<Rightarrow> Malformed
         | e # r \<Rightarrow>
             if e = CHR ''u'' then
               (case r of
                  a # b # d # f # r' \<Rightarrow>
                    if list_all is_hex_char [a, b, d, f]
                    then prepend_point (hex_text_value [a, b, d, f]) (json_string_body r') else Malformed
                | _ \<Rightarrow> Malformed)
             else (case json_unescape e of None \<Rightarrow> Malformed | Some x \<Rightarrow> prepend_point (unit_of x) (json_string_body r)))
      else prepend_point (unit_of c) (json_string_body s))"

section \<open>Values\<close>

text \<open>
  An object lists its array-index keys first, in ascending order, then the others in the order of their first
  occurrence; a repeated key keeps its last value.
\<close>

definition index_key :: "string \<Rightarrow> bool" where
  "index_key k = (k \<noteq> [] \<and> list_all is_digit k \<and> (k = ''0'' \<or> hd k \<noteq> CHR ''0'') \<and> int (dec_value k) < 4294967295)"

definition make_object :: "(string \<times> jsval) list \<Rightarrow> jsobj" where
  "make_object es =
     (let m = fold (\<lambda>(k, v) m. jm_set m k v) es []
      in sort_key (\<lambda>e. dec_value (fst e)) (filter (\<lambda>e. index_key (fst e)) m) @ filter (\<lambda>e. \<not> index_key (fst e)) m)"

text \<open>
  The recursion is on the rest of the text. The tests \<open>length r < length s\<close> always hold; they only show that
  it ends.
\<close>

definition shorter :: "string \<Rightarrow> string \<Rightarrow> bool" where
  "shorter r s = (length r < length s)"

function json_value :: "string \<Rightarrow> (jsval \<times> string) outcome"
  and json_array :: "string \<Rightarrow> (jsval list \<times> string) outcome"
  and json_object :: "string \<Rightarrow> ((string \<times> jsval) list \<times> string) outcome" where
  "json_value s =
     (let t = skip_json_ws s
      in if starts_with t ''true'' then Done (JBool True, drop 4 t)
         else if starts_with t ''false'' then Done (JBool False, drop 5 t)
         else if starts_with t ''null'' then Done (JNull, drop 4 t)
         else (case t of
                 [] \<Rightarrow> Malformed
               | c # r \<Rightarrow>
                   if c = CHR 0x22 then obind (json_string_body r) (\<lambda>(v, r'). Done (JStr v, r'))
                   else if c = CHR ''['' then
                     (if starts_with (skip_json_ws r) '']'' then Done (JArr [], tl (skip_json_ws r))
                      else obind (json_array r) (\<lambda>(vs, r'). Done (JArr vs, r')))
                   else if c = CHR ''{'' then
                     (if starts_with (skip_json_ws r) ''}'' then Done (JObj [], tl (skip_json_ws r))
                      else obind (json_object r) (\<lambda>(es, r'). Done (JObj (make_object es), r')))
                   else (case number_length t of
                           None \<Rightarrow> Malformed
                         | Some n \<Rightarrow> obind (number_of_text (take n t)) (\<lambda>v. Done (JNum v, drop n t)))))"
| "json_array s =
     (case json_value s of
        Done (v, r) \<Rightarrow>
          (let t = skip_json_ws r
           in if starts_with t '','' \<and> shorter (tl t) s then obind (json_array (tl t)) (\<lambda>(vs, r'). Done (v # vs, r'))
              else if starts_with t '']'' then Done ([v], tl t)
              else Malformed)
      | Malformed \<Rightarrow> Malformed
      | Beyond \<Rightarrow> Beyond)"
| "json_object s =
     (let t = skip_json_ws s
      in if \<not> starts_with t [CHR 0x22] then Malformed
         else (case json_string_body (tl t) of
                 Done (k, r) \<Rightarrow>
                   (let u = skip_json_ws r
                    in if \<not> (starts_with u '':'' \<and> shorter (tl u) s) then Malformed
                       else (case json_value (tl u) of
                               Done (v, r1) \<Rightarrow>
                                 (let w = skip_json_ws r1
                                  in if starts_with w '','' \<and> shorter (tl w) s
                                     then obind (json_object (tl w)) (\<lambda>(es, r'). Done ((k, v) # es, r'))
                                     else if starts_with w ''}'' then Done ([(k, v)], tl w)
                                     else Malformed)
                             | Malformed \<Rightarrow> Malformed
                             | Beyond \<Rightarrow> Beyond))
               | Malformed \<Rightarrow> Malformed
               | Beyond \<Rightarrow> Beyond))"
  by pat_completeness auto
termination
proof (relation "measure (\<lambda>x. case x of Inl s \<Rightarrow> 2 * length s | Inr (Inl s) \<Rightarrow> 2 * length s + 1 | Inr (Inr s) \<Rightarrow> 2 * length s + 1)", goal_cases)
  case (2 s t c r)
  then have "Suc (length r) \<le> length s" using length_dropWhile_le [of json_ws s] by (metis length_Cons)
  then show ?case by simp
next
  case (3 s t c r)
  then have "Suc (length r) \<le> length s" using length_dropWhile_le [of json_ws s] by (metis length_Cons)
  then show ?case by simp
qed (auto simp: shorter_def)

declare json_value.simps [simp del] json_array.simps [simp del] json_object.simps [simp del]

text \<open>\<open>JSON.parse\<close>: one value and only white space after it.\<close>

definition json_parse :: "string \<Rightarrow> jsval outcome" where
  "json_parse s =
     (case json_value s of
        Done (v, r) \<Rightarrow> if skip_json_ws r = [] then Done v else Malformed
      | Malformed \<Rightarrow> Malformed
      | Beyond \<Rightarrow> Beyond)"

section \<open>decodeURIComponent\<close>

text \<open>Every percent sign starts an escape, and each run of escapes is well-formed UTF-8.\<close>

definition join_outcome :: "string outcome \<Rightarrow> string outcome \<Rightarrow> string outcome" where
  "join_outcome p r = (case r of Malformed \<Rightarrow> Malformed | _ \<Rightarrow> obind p (\<lambda>v. oappend v r))"

function decode_uri_component :: "string \<Rightarrow> string outcome" where
  "decode_uri_component [] = Done []"
| "decode_uri_component (c # s) =
     (if c \<noteq> CHR ''%'' then oappend [c] (decode_uri_component s)
      else if fst (percent_bytes (c # s)) = [] then Malformed
      else (case utf8_decode (fst (percent_bytes (c # s))) of
              None \<Rightarrow> Malformed
            | Some ps \<Rightarrow> join_outcome (text_of_points ps) (decode_uri_component (snd (percent_bytes (c # s))))))"
  by pat_completeness auto
termination
proof (relation "measure length")
  fix c s ps
  assume "\<not> c \<noteq> CHR ''%''" "fst (percent_bytes (c # s)) \<noteq> []"
  then show "(snd (percent_bytes (c # s)), c # s) \<in> measure length"
    using percent_bytes_length [OF surjective_pairing, of "c # s"]
    by (cases "fst (percent_bytes (c # s))") auto
qed auto

declare decode_uri_component.simps [simp del]

end
