(* ===== verification/Js_Json_Print.thy ===== *)
theory Js_Json_Print
  imports Js_Json
begin

text \<open>
  \<open>JSON.parse\<close> reads back what \<open>JSON.stringify\<close> writes: string literals, and objects whose values are strings,
  as the services store labels and message attributes in a text column.
\<close>

section \<open>String literals\<close>

lemma hex_digit_reads:
  assumes "k < 16"
  shows "is_hex_char (hex_digit k)" and "hex_char_value (hex_digit k) = k"
proof -
  have "list_all (\<lambda>k. is_hex_char (hex_digit k) \<and> hex_char_value (hex_digit k) = k) [0..<16]" by code_simp
  then show "is_hex_char (hex_digit k)" "hex_char_value (hex_digit k) = k"
    using assms by (auto simp: list_all_iff)
qed

lemma json_escape_parse:
  "json_string_body (json_escape_char c @ s) = prepend_point (unit_of c) (json_string_body s)"
proof (cases "unit_of c \<in> {8, 9, 10, 12, 13, 34, 92}")
  case True
  then have "unit_of c \<in> unit_of ` {CHR 0x08, CHR 0x09, CHR 0x0A, CHR 0x0C, CHR 0x0D, CHR 0x22, CHR 0x5C}" by simp
  then have "c \<in> {CHR 0x08, CHR 0x09, CHR 0x0A, CHR 0x0C, CHR 0x0D, CHR 0x22, CHR 0x5C}"
    by (auto simp only: image_iff of_char_eq_iff)
  moreover have "char_of (92 :: nat) = CHR 0x5C" "char_of (34 :: nat) = CHR 0x22"
    using char_of_char [of "CHR 0x5C"] char_of_char [of "CHR 0x22"] by simp_all
  ultimately show ?thesis by (auto simp: json_escape_char_def json_unescape_def)
next
  case False
  let ?n = "unit_of c :: nat"
  show ?thesis
  proof (cases "?n < 32")
    case True
    then have hex: "?n div 16 < 16" "?n mod 16 < 16" by auto
    have esc: "char_of (92 :: nat) = CHR 0x5C" using char_of_char [of "CHR 0x5C"] by simp
    have "hex_char_value (CHR ''0'') = 0" "is_hex_char (CHR ''0'')" by code_simp+
    moreover have "(?n div 16) * 16 + ?n mod 16 = ?n" by simp
    ultimately show ?thesis
      using False True hex_digit_reads [OF hex(1)] hex_digit_reads [OF hex(2)]
      by (simp add: json_escape_char_def Let_def hex_text_value_def esc)
  next
    case False2: False
    then show ?thesis using False
      by (auto simp: json_escape_char_def Let_def)
  qed
qed

lemma prepend_point_char [simp]: "prepend_point (unit_of c) (Done (v, r)) = Done (c # v, r)"
  using of_char_of [of "unit_of c"] by (auto simp: prepend_point_def)

lemma json_quote_parse: "json_string_body (concat (map json_escape_char s) @ CHR 0x22 # r) = Done (s, r)"
  by (induction s) (simp_all add: json_escape_parse)

section \<open>Objects of strings\<close>

definition string_members :: "(string \<times> string) list \<Rightarrow> jsobj" where
  "string_members es = map (\<lambda>(k, v). (k, JStr v)) es"

definition print_member :: "string \<times> string \<Rightarrow> string" where
  "print_member e = json_quote (fst e) @ '':'' @ json_quote (snd e)"

lemma json_members_strings: "json_members (string_members es) = map print_member es"
  by (induction es) (auto simp: string_members_def print_member_def)

lemma json_quote_append: "json_quote s @ r = CHR 0x22 # concat (map json_escape_char s) @ CHR 0x22 # r"
  using char_of_char [of "CHR 0x22"] by (simp add: json_quote_def)

lemma starts_with_Cons [simp]: "starts_with (c # s) (d # p) \<longleftrightarrow> c = d \<and> starts_with s p" "starts_with s []"
  by (auto simp: starts_with_def)

lemma json_value_quote: "json_value (json_quote v @ r) = Done (JStr v, r)"
  by (subst json_value.simps) (simp add: json_quote_append json_ws_def Let_def json_quote_parse)

lemma json_object_members:
  "es \<noteq> [] \<Longrightarrow> json_object (join_str '','' (map print_member es) @ ''}'' @ r) = Done (string_members es, r)"
proof (induction es)
  case (Cons e es)
  obtain k v where e: "e = (k, v)" by (cases e)
  let ?rest = "(if es = [] then ''}'' @ r else '','' @ join_str '','' (map print_member es) @ ''}'' @ r)"
  have txt_eq: "join_str '','' (map print_member (e # es)) @ ''}'' @ r =
      CHR 0x22 # concat (map json_escape_char k) @ CHR 0x22 # CHR '':'' # json_quote v @ ?rest"
    by (cases es) (simp_all add: e print_member_def json_quote_append)
  have val: "json_value (json_quote v @ ?rest) = Done (JStr v, ?rest)" by (rule json_value_quote)
  show ?case
  proof (cases "es = []")
    case True
    then show ?thesis unfolding txt_eq using val
      by (subst json_object.simps)
         (simp add: json_ws_def json_quote_parse Let_def shorter_def e string_members_def)
  next
    case False
    with Cons.IH have "json_object (join_str '','' (map print_member es) @ ''}'' @ r) = Done (string_members es, r)" by simp
    with False show ?thesis unfolding txt_eq using val
      by (subst json_object.simps)
         (simp add: json_ws_def json_quote_parse Let_def shorter_def e string_members_def json_quote_append)
  qed
qed simp

lemma join_str_starts: "es \<noteq> [] \<Longrightarrow> \<exists>t. join_str '','' (map print_member es) = CHR 0x22 # t"
  by (cases es; cases "tl es") (auto simp: print_member_def json_quote_append)

theorem json_string_object_roundtrip:
  assumes "make_object (string_members es) = string_members es"
  shows "\<exists>t. json_stringify (JObj (string_members es)) = Some t \<and> t \<noteq> [] \<and> json_parse t = Done (JObj (string_members es))"
proof (cases "es = []")
  case True
  have "json_parse ''{}'' = Done (JObj [])"
    unfolding json_parse_def by (subst json_value.simps) (simp add: json_ws_def Let_def)
  with True show ?thesis by (simp add: string_members_def)
next
  case False
  let ?t = "''{'' @ join_str '','' (map print_member es) @ ''}''"
  obtain t where t: "join_str '','' (map print_member es) = CHR 0x22 # t" using join_str_starts [OF False] by blast
  have "json_value ?t = Done (JObj (make_object (string_members es)), [])"
    using json_object_members [OF False, of "[]"] t
    by (subst json_value.simps) (simp add: json_ws_def Let_def)
  then have "json_parse ?t = Done (JObj (string_members es))" using assms by (simp add: json_parse_def)
  then show ?thesis by (simp add: json_members_strings)
qed

end
