(* ===== verification/Iso_Time.thy ===== *)
theory Iso_Time
  imports Js_Value
begin

text \<open>
  The text of \<open>Date.prototype.toISOString\<close> orders like the time it stands for. Several services store times as
  such texts and compare them as strings.
\<close>

section \<open>The calendar is monotone\<close>

definition year_day :: "int \<Rightarrow> int" where
  "year_day doe = doe - doe div 1460 + doe div 36524 - doe div 146096"

definition year_of_era :: "int \<Rightarrow> int" where
  "year_of_era doe = year_day doe div 365"

definition year_start :: "int \<Rightarrow> int" where
  "year_start y = 365 * y + y div 4 - y div 100"

lemma div_add_le:
  fixes a k n :: int
  assumes "0 \<le> k" and "1 \<le> n"
  shows "(a + k) div n \<le> a div n + k"
proof -
  have "k \<le> n * k" using assms mult_right_mono [of 1 n k] by simp
  then have "(a + k) div n \<le> (a + n * k) div n" using assms by (intro zdiv_mono1) auto
  then show ?thesis using assms by simp
qed

lemma year_day_mono:
  assumes "0 \<le> a" and "a \<le> b" and "b < 146097"
  shows "year_day a \<le> year_day b"
proof -
  define p q r where "p x = x div 1460" and "q x = x div 36524" and "r x = x div 146096" for x :: int
  have form: "year_day x = x - p x + q x - r x" for x by (simp add: year_day_def p_def q_def r_def)
  have p: "p b \<le> p a + (b - a)" if "a \<le> b" for a b
    using div_add_le [of "b - a" 1460 a] that by (simp add: p_def)
  have q: "q a \<le> q b" if "a \<le> b" for a b unfolding q_def by (rule zdiv_mono1 [OF that]) simp
  have r: "r x = 0" if "0 \<le> x" "x < 146096" for x unfolding r_def by (rule div_pos_pos_trivial [OF that])
  consider "b < 146096" | "a = 146096" "b = 146096" | "a \<le> 146095" "b = 146096" using assms by linarith
  then show ?thesis
  proof cases
    case 1
    then show ?thesis using p [OF assms(2)] q [OF assms(2)] r [of a] r [of b] assms unfolding form by linarith
  next
    case 3
    have "p 146096 = p 146095" "q 146096 = q 146095 + 1" "r 146096 = 1" by (simp_all add: p_def q_def r_def)
    then show ?thesis using p [OF 3(1)] q [OF 3(1)] r [of a] assms 3 unfolding form by simp
  qed simp
qed

lemma year_of_era_mono: "0 \<le> a \<Longrightarrow> a \<le> b \<Longrightarrow> b < 146097 \<Longrightarrow> year_of_era a \<le> year_of_era b"
  unfolding year_of_era_def by (intro zdiv_mono1 year_day_mono) auto

lemma year_of_era_ends:
  "list_all (\<lambda>y. year_of_era (year_start y) = y \<and> year_of_era (year_start (y + 1) - 1) = y) [0..399]"
  by code_simp

lemma year_of_era_range:
  assumes "0 \<le> a" and "a < 146097"
  shows "0 \<le> year_of_era a \<and> year_of_era a \<le> 399"
proof -
  have "year_of_era 0 = 0" "year_of_era 146096 = 399" by (simp_all add: year_of_era_def year_day_def)
  then show ?thesis using year_of_era_mono [of 0 a] year_of_era_mono [of a 146096] assms by simp
qed

lemma day_of_year_range:
  assumes "0 \<le> a" and "a < 146097"
  shows "0 \<le> a - year_start (year_of_era a) \<and> a - year_start (year_of_era a) \<le> 365"
proof -
  let ?y = "year_of_era a"
  have y: "0 \<le> ?y" "?y \<le> 399" using year_of_era_range [OF assms] by auto
  have ends: "year_of_era (year_start y) = y" "year_of_era (year_start (y + 1) - 1) = y" if "0 \<le> y" "y \<le> 399" for y
    using year_of_era_ends that by (auto simp: list_all_iff)
  have bound: "year_start z \<le> 146096" if "z \<le> 400" for z
    using that zdiv_mono1 [of z 400 4] by (simp add: year_start_def)
  have "year_start ?y \<le> a"
  proof (rule ccontr)
    assume "\<not> year_start ?y \<le> a"
    moreover from this have "?y \<noteq> 0" using assms by (auto simp: year_start_def)
    ultimately have "a \<le> year_start (?y - 1 + 1) - 1" "0 \<le> ?y - 1" using y by auto
    then have "year_of_era a \<le> ?y - 1"
      using year_of_era_mono [of a "year_start (?y - 1 + 1) - 1"] ends(2) [of "?y - 1"] bound [of ?y] assms y by simp
    then show False by simp
  qed
  moreover have "a \<le> year_start ?y + 365"
  proof (cases "?y = 399")
    case True
    then show ?thesis using assms by (simp add: year_start_def)
  next
    case False
    have "a < year_start (?y + 1)"
    proof (rule ccontr)
      assume "\<not> a < year_start (?y + 1)"
      moreover have "0 \<le> year_start (?y + 1)" using y by (simp add: year_start_def)
      ultimately have "?y + 1 \<le> year_of_era a"
        using year_of_era_mono [of "year_start (?y + 1)" a] ends(1) [of "?y + 1"] assms y False by simp
      then show False by simp
    qed
    moreover have "year_start (?y + 1) \<le> year_start ?y + 366" 
      using div_add_le [of 1 4 ?y] zdiv_mono1 [of ?y "?y + 1" 100] by (simp add: year_start_def)
    ultimately show ?thesis by simp
  qed
  ultimately show ?thesis by simp
qed

text \<open>Dates and times in lexicographic order.\<close>

fun lex_less :: "int list \<Rightarrow> int list \<Rightarrow> bool" where
  "lex_less (x # xs) (y # ys) = (x < y \<or> (x = y \<and> lex_less xs ys))"
| "lex_less _ _ = False"

definition month_of :: "int \<Rightarrow> int" where
  "month_of doy = (5 * doy + 2) div 153"

definition day_of :: "int \<Rightarrow> int" where
  "day_of doy = doy - (153 * month_of doy + 2) div 5 + 1"

lemma month_day_lex: "a < b \<Longrightarrow> lex_less [month_of a, day_of a] [month_of b, day_of b]"
  using zdiv_mono1 [of "5 * a + 2" "5 * b + 2" 153] by (auto simp: month_of_def day_of_def)

lemma month_day_range:
  assumes "0 \<le> doy" and "doy \<le> 365"
  shows "0 \<le> month_of doy \<and> month_of doy \<le> 11 \<and> 1 \<le> day_of doy \<and> day_of doy \<le> 31"
proof -
  have "list_all (\<lambda>doy. 0 \<le> month_of doy \<and> month_of doy \<le> 11 \<and> 1 \<le> day_of doy \<and> day_of doy \<le> 31) [0..365]"
    by code_simp
  then show ?thesis using assms by (auto simp: list_all_iff)
qed

lemma civil_parts:
  fixes z :: int
  defines "era \<equiv> (z + 719468) div 146097" and "doe \<equiv> (z + 719468) mod 146097"
  defines "doy \<equiv> doe - year_start (year_of_era doe)"
  shows "civil_of_days z =
    (year_of_era doe + era * 400 + (if month_of doy < 10 then 0 else 1),
     (if month_of doy < 10 then month_of doy + 3 else month_of doy - 9), day_of doy)"
    and "0 \<le> doy" and "doy \<le> 365"
proof -
  have "0 \<le> doe" "doe < 146097" by (simp_all add: doe_def)
  from day_of_year_range [OF this] show doy: "0 \<le> doy" "doy \<le> 365" by (simp_all add: doy_def)
  have "civil_of_days z =
      (year_of_era doe + era * 400 + (if (if month_of doy < 10 then month_of doy + 3 else month_of doy - 9) \<le> 2 then 1 else 0),
       (if month_of doy < 10 then month_of doy + 3 else month_of doy - 9), day_of doy)"
    unfolding civil_of_days_def Let_def month_of_def day_of_def doy_def year_start_def year_of_era_def year_day_def
      doe_def era_def by (rule refl)
  then show "civil_of_days z =
    (year_of_era doe + era * 400 + (if month_of doy < 10 then 0 else 1),
     (if month_of doy < 10 then month_of doy + 3 else month_of doy - 9), day_of doy)"
    using month_day_range [OF doy] by auto
qed

lemma civil_range:
  assumes "civil_of_days z = (y, m, d)"
  shows "1 \<le> m \<and> m \<le> 12 \<and> 1 \<le> d \<and> d \<le> 31"
  using assms civil_parts [of z] month_day_range [OF civil_parts(2,3) [of z]] by (auto split: if_splits)

lemma civil_mono:
  assumes "z < z'" and "civil_of_days z = (y, m, d)" and "civil_of_days z' = (y', m', d')"
  shows "lex_less [y, m, d] [y', m', d']"
proof -
  define e doe e' doe' where "e = (z + 719468) div 146097" and "doe = (z + 719468) mod 146097"
    and "e' = (z' + 719468) div 146097" and "doe' = (z' + 719468) mod 146097"
  define doy doy' where "doy = doe - year_start (year_of_era doe)" and "doy' = doe' - year_start (year_of_era doe')"
  note c = civil_parts [of z, folded e_def doe_def, folded doy_def]
  note c' = civil_parts [of z', folded e'_def doe'_def, folded doy'_def]
  have r: "0 \<le> doe" "doe < 146097" "0 \<le> doe'" "doe' < 146097" by (simp_all add: doe_def doe'_def)
  note y = year_of_era_range [OF r(1,2)] year_of_era_range [OF r(3,4)]
  define Y Y' where "Y = year_of_era doe + e * 400" and "Y' = year_of_era doe' + e' * 400"
  have ee: "e \<le> e'" unfolding e_def e'_def using assms(1) by (intro zdiv_mono1) auto
  have mm: "0 \<le> month_of doy" "month_of doy \<le> 11" "0 \<le> month_of doy'" "month_of doy' \<le> 11"
    using month_day_range [OF c(2,3)] month_day_range [OF c'(2,3)] by auto
  have "Y < Y' \<or> (Y = Y' \<and> doy < doy')"
  proof (cases "e = e'")
    case False
    then show ?thesis using ee y by (auto simp: Y_def Y'_def)
  next
    case True
    have "146097 * e + doe = z + 719468" "146097 * e' + doe' = z' + 719468"
      by (simp_all add: e_def doe_def e'_def doe'_def)
    then have "doe < doe'" using True assms(1) by simp
    then show ?thesis using True year_of_era_mono [of doe doe'] r by (auto simp: Y_def Y'_def doy_def doy'_def)
  qed
  then show ?thesis
  proof
    assume "Y < Y'"
    then show ?thesis using assms(2,3) c(1) c'(1) mm by (auto simp: Y_def Y'_def split: if_splits)
  next
    assume *: "Y = Y' \<and> doy < doy'"
    then have "lex_less [month_of doy, day_of doy] [month_of doy', day_of doy']" by (intro month_day_lex) simp
    then show ?thesis using * assms(2,3) c(1) c'(1) by (auto simp: Y_def Y'_def split: if_splits)
  qed
qed

section \<open>Decimal text of fixed length\<close>

lemma pad_zero_short: "length s \<le> n \<Longrightarrow> pad_zero n s = replicate (n - length s) (CHR ''0'') @ s"
proof (induction n)
  case (Suc n)
  then show ?case by (cases "length s = Suc n") (auto simp: Suc_diff_le)
qed simp

lemma dec_value_zero: "dec_value (replicate k (CHR ''0'') @ s) = dec_value s"
proof (induction k)
  case (Suc k)
  have "digit_value (CHR ''0'') = 0" by code_simp
  then show ?case using Suc by (simp add: dec_value_def)
qed simp

lemma pad_int_props:
  assumes "0 \<le> i" and "i < 10 ^ n" and "0 < n"
  shows "length (pad_int n i) = n" and "dec_value (pad_int n i) = nat i" and "list_all is_digit (pad_int n i)"
proof -
  have "nat i < 10 ^ n" using assms by (simp add: nat_less_iff)
  then have l: "length (nat_to_dec (nat i)) \<le> n" using assms(3) by (rule nat_to_dec_length)
  have "is_digit (CHR ''0'')" by code_simp
  then show "length (pad_int n i) = n" "dec_value (pad_int n i) = nat i" "list_all is_digit (pad_int n i)"
    using l nat_to_dec_digits [of "nat i"]
    by (auto simp: pad_int_def pad_zero_short dec_value_zero list_all_iff)
qed

lemma dec_value_Cons: "dec_value (c # s) = digit_value c * 10 ^ length s + dec_value s"
proof (induction s rule: rev_induct)
  case (snoc x s)
  have "dec_value (c # s @ [x]) = dec_value (c # s) * 10 + digit_value x"
    using dec_value_snoc [of "c # s" x] by simp
  with snoc show ?case by (simp add: dec_value_snoc algebra_simps)
qed (simp add: dec_value_def)

lemma dec_value_bound: "list_all is_digit s \<Longrightarrow> dec_value s < 10 ^ length s"
proof (induction s)
  case (Cons c s)
  have "digit_value c \<le> 9" using Cons.prems by (auto simp: is_digit_def digit_value_def less_eq_char_def)
  then have "digit_value c * 10 ^ length s \<le> 9 * 10 ^ length s" by (rule mult_right_mono) simp
  moreover have "dec_value s < 10 ^ length s" using Cons by simp
  ultimately show ?case unfolding dec_value_Cons length_Cons power_Suc by linarith
qed (simp add: dec_value_def)

lemma digits_less:
  assumes "length s = length t" and "list_all is_digit s" and "list_all is_digit t"
  shows "s < t \<longleftrightarrow> dec_value s < dec_value t"
  using assms
proof (induction s t rule: list_induct2)
  case (Cons c s d t)
  have "of_char x = digit_value x + 48" if "is_digit x" for x
    using that by (auto simp: is_digit_def digit_value_def less_eq_char_def)
  then have codes: "of_char c = digit_value c + 48" "of_char d = digit_value d + 48" using Cons.prems by simp_all
  have digits: "c < d \<longleftrightarrow> digit_value c < digit_value d" by (simp add: less_char_def codes)
  have same: "c = d \<longleftrightarrow> digit_value c = digit_value d"
    unfolding of_char_eq_iff [where 'a = nat, symmetric] codes by simp
  have b: "dec_value s < 10 ^ length t" "dec_value t < 10 ^ length t"
    using dec_value_bound [of s] dec_value_bound [of t] Cons by auto
  have "dec_value (c # s) < dec_value (d # t) \<longleftrightarrow>
      digit_value c < digit_value d \<or> (digit_value c = digit_value d \<and> dec_value s < dec_value t)"
  proof (cases "digit_value c" "digit_value d" rule: linorder_cases)
    case less
    then have "Suc (digit_value c) * 10 ^ length t \<le> digit_value d * 10 ^ length t" by (intro mult_right_mono) auto
    then show ?thesis using less b Cons.hyps by (simp add: dec_value_Cons)
  next
    case greater
    then have "Suc (digit_value d) * 10 ^ length t \<le> digit_value c * 10 ^ length t" by (intro mult_right_mono) auto
    then show ?thesis using greater b Cons.hyps by (simp add: dec_value_Cons)
  qed (simp add: dec_value_Cons Cons.hyps)
  then show ?case using Cons digits same by simp
qed (simp add: dec_value_def)

lemma append_less:
  fixes s t :: string
  shows "length s = length t \<Longrightarrow> s @ r < t @ r' \<longleftrightarrow> s < t \<or> (s = t \<and> r < r')"
  by (induction s t rule: list_induct2) auto

lemma pad_less:
  assumes "0 \<le> i" and "i < 10 ^ n" and "0 \<le> j" and "j < 10 ^ n" and "0 < n"
  shows "pad_int n i @ r < pad_int n j @ r' \<longleftrightarrow> i < j \<or> (i = j \<and> r < r')"
proof -
  note i = pad_int_props [OF assms(1,2,5)] and j = pad_int_props [OF assms(3-5)]
  have "pad_int n i < pad_int n j \<longleftrightarrow> i < j" using digits_less [of "pad_int n i" "pad_int n j"] i j assms by auto
  moreover have "pad_int n i = pad_int n j \<longleftrightarrow> i = j" using i(2) j(2) assms by auto
  ultimately show ?thesis using i(1) j(1) by (simp add: append_less)
qed

section \<open>The order of times\<close>

text \<open>From 1970 to 9999.\<close>

definition iso_range :: "int \<Rightarrow> bool" where
  "iso_range ms = (0 \<le> ms \<and> ms < 253402300800000)"

definition iso_fields :: "int \<Rightarrow> int list" where
  "iso_fields ms =
     (case civil_of_days (ms div 86400000) of (y, m, d) \<Rightarrow>
        let t = ms mod 86400000 in [y, m, d, t div 3600000, t div 60000 mod 60, t div 1000 mod 60, t mod 1000])"

lemma civil_year_range:
  assumes "iso_range ms" and "civil_of_days (ms div 86400000) = (y, m, d)"
  shows "0 \<le> y \<and> y \<le> 9999"
proof -
  let ?z = "ms div 86400000"
  have z: "0 \<le> ?z" "?z \<le> 2932896"
  proof -
    have ms: "0 \<le> ms" "ms \<le> 253402300799999" using assms(1) by (auto simp: iso_range_def)
    show "0 \<le> ?z" by (rule div_int_pos_iff [THEN iffD2]) (use ms in simp)
    have "?z \<le> 253402300799999 div 86400000" using ms(2) by (rule zdiv_mono1) simp
    then show "?z \<le> 2932896" by simp
  qed
  have ends: "civil_of_days 0 = (1970, 1, 1)" "civil_of_days 2932896 = (9999, 12, 31)"
    by code_simp+
  have "1970 \<le> y"
    using civil_mono [OF _ ends(1) assms(2)] z(1) ends(1) assms(2) by (cases "?z = 0") auto
  moreover have "y \<le> 9999"
    using civil_mono [OF _ assms(2) ends(2)] z(2) ends(2) assms(2) by (cases "?z = 2932896") auto
  ultimately show ?thesis by simp
qed

lemma iso_text_less:
  assumes "0 \<le> y" "y < 10 ^ 4" "0 \<le> y'" "y' < 10 ^ 4"
    and "0 \<le> m" "m < 10 ^ 2" "0 \<le> d" "d < 10 ^ 2" "0 \<le> m'" "m' < 10 ^ 2" "0 \<le> d'" "d' < 10 ^ 2"
    and "0 \<le> h \<and> h < 10 ^ 2" "0 \<le> n \<and> n < 10 ^ 2" "0 \<le> s \<and> s < 10 ^ 2" "0 \<le> f \<and> f < 10 ^ 3"
    and "0 \<le> h' \<and> h' < 10 ^ 2" "0 \<le> n' \<and> n' < 10 ^ 2" "0 \<le> s' \<and> s' < 10 ^ 2" "0 \<le> f' \<and> f' < 10 ^ 3"
  shows "pad_int 4 y @ ''-'' @ pad_int 2 m @ ''-'' @ pad_int 2 d @ ''T'' @ pad_int 2 h @ '':'' @ pad_int 2 n @ '':''
           @ pad_int 2 s @ ''.'' @ pad_int 3 f @ ''Z''
       < pad_int 4 y' @ ''-'' @ pad_int 2 m' @ ''-'' @ pad_int 2 d' @ ''T'' @ pad_int 2 h' @ '':'' @ pad_int 2 n' @ '':''
           @ pad_int 2 s' @ ''.'' @ pad_int 3 f' @ ''Z''
     \<longleftrightarrow> lex_less [y, m, d, h, n, s, f] [y', m', d', h', n', s', f']"
proof -
  note less = pad_less [of _ 4] pad_less [of _ 2] pad_less [of _ 3]
  show ?thesis using assms by (simp only: less append_Cons append_Nil Cons_less_Cons lex_less.simps) simp
qed

lemma iso_less_fields:
  assumes "iso_range a" and "iso_range b"
  shows "iso_string a < iso_string b \<longleftrightarrow> lex_less (iso_fields a) (iso_fields b)"
proof -
  obtain y m d where c: "civil_of_days (a div 86400000) = (y, m, d)" by (metis prod_cases3)
  obtain y' m' d' where c': "civil_of_days (b div 86400000) = (y', m', d')" by (metis prod_cases3)
  define t t' where "t = a mod 86400000" and "t' = b mod 86400000"
  have t: "0 \<le> t" "t < 86400000" "0 \<le> t'" "t' < 86400000" by (simp_all add: t_def t'_def)
  have h: "0 \<le> x div 3600000 \<and> x div 3600000 < 10 ^ 2" "0 \<le> x div 60000 mod 60 \<and> x div 60000 mod 60 < 10 ^ 2"
    "0 \<le> x div 1000 mod 60 \<and> x div 1000 mod 60 < 10 ^ 2" "0 \<le> x mod 1000 \<and> x mod 1000 < 10 ^ 3"
    if "0 \<le> x" "x < 86400000" for x :: int
  proof -
    have "x \<le> 86399999" using that by simp
    then have "x div 3600000 \<le> 86399999 div 3600000" by (rule zdiv_mono1) simp
    then have "x div 3600000 \<le> 23" by simp
    moreover have "0 \<le> x div 3600000" by (rule div_int_pos_iff [THEN iffD2]) (use that in simp)
    ultimately show "0 \<le> x div 3600000 \<and> x div 3600000 < 10 ^ 2" unfolding power2_eq_square by linarith
    have mod: "0 \<le> y mod 60 \<and> y mod 60 < 10 ^ 2" for y :: int
      using pos_mod_sign [of 60 y] pos_mod_bound [of 60 y] by simp
    show "0 \<le> x div 60000 mod 60 \<and> x div 60000 mod 60 < 10 ^ 2" "0 \<le> x div 1000 mod 60 \<and> x div 1000 mod 60 < 10 ^ 2"
      by (rule mod)+
    show "0 \<le> x mod 1000 \<and> x mod 1000 < 10 ^ 3" using pos_mod_sign [of 1000 x] pos_mod_bound [of 1000 x] by simp
  qed
  have yr: "0 \<le> y" "y < 10 ^ 4" "0 \<le> y'" "y' < 10 ^ 4"
    using civil_year_range [OF assms(1) c] civil_year_range [OF assms(2) c'] by auto
  have md: "0 \<le> m" "m < 10 ^ 2" "0 \<le> d" "d < 10 ^ 2" "0 \<le> m'" "m' < 10 ^ 2" "0 \<le> d'" "d' < 10 ^ 2"
    using civil_range [OF c] civil_range [OF c'] by auto
  show ?thesis
    unfolding iso_string_def iso_fields_def c c' Let_def t_def [symmetric] t'_def [symmetric]
    unfolding prod.case by (rule iso_text_less [OF yr md h [OF t(1,2)] h [OF t(3,4)]])
qed

lemma time_of_day_lex:
  fixes t t' :: int
  assumes "0 \<le> t" and "t < t'"
  shows "lex_less [t div 3600000, t div 60000 mod 60, t div 1000 mod 60, t mod 1000]
    [t' div 3600000, t' div 60000 mod 60, t' div 1000 mod 60, t' mod 1000]"
proof -
  have step: "u div k < u' div k \<or> (u div k = u' div k \<and> u mod k < u' mod k)" if "u < u'" "0 < k" for u u' k :: int
  proof -
    have "u div k \<le> u' div k" using that by (intro zdiv_mono1) auto
    moreover have "u mod k < u' mod k" if "u div k = u' div k"
      unfolding minus_mult_div_eq_mod [symmetric] that using \<open>u < u'\<close> by (rule diff_strict_right_mono)
    ultimately show ?thesis by (cases "u div k = u' div k") auto
  qed
  have dd: "x div 60000 = x div 1000 div 60" "x div 3600000 = x div 1000 div 60 div 60" for x :: int
    by (simp_all add: zdiv_zmult2_eq [symmetric])
  define q q' p p' where "q = t div 1000" and "q' = t' div 1000" and "p = q div 60" and "p' = q' div 60"
  have "q < q' \<or> (q = q' \<and> t mod 1000 < t' mod 1000)" unfolding q_def q'_def by (rule step) (use assms(2) in simp_all)
  then show ?thesis
    unfolding dd q_def [symmetric] q'_def [symmetric] p_def [symmetric] p'_def [symmetric]
  proof
    assume "q < q'"
    then have "p < p' \<or> (p = p' \<and> q mod 60 < q' mod 60)" unfolding p_def p'_def by (rule step) simp
    then show "lex_less [p div 60, p mod 60, q mod 60, t mod 1000] [p' div 60, p' mod 60, q' mod 60, t' mod 1000]"
    proof
      assume "p < p'"
      then have "p div 60 < p' div 60 \<or> (p div 60 = p' div 60 \<and> p mod 60 < p' mod 60)" by (rule step) simp
      then show ?thesis unfolding lex_less.simps by blast
    qed (simp only: lex_less.simps simp_thms)
  qed (simp only: p_def p'_def lex_less.simps simp_thms)
qed

text \<open>The text of an earlier time is smaller.\<close>

lemma iso_string_mono:
  assumes "iso_range a" and "iso_range b" and "a < b"
  shows "iso_string a < iso_string b"
proof -
  obtain y m d where c: "civil_of_days (a div 86400000) = (y, m, d)" by (metis prod_cases3)
  obtain y' m' d' where c': "civil_of_days (b div 86400000) = (y', m', d')" by (metis prod_cases3)
  have "lex_less (iso_fields a) (iso_fields b)"
  proof (cases "a div 86400000 = b div 86400000")
    case True
    have "86400000 * (a div 86400000) + a mod 86400000 < 86400000 * (b div 86400000) + b mod 86400000"
      using assms(3) by (simp only: mult_div_mod_eq)
    then have "a mod 86400000 < b mod 86400000" using True by (simp only: add_less_cancel_left)
    from time_of_day_lex [OF _ this] True c c' show ?thesis by (auto simp: iso_fields_def Let_def)
  next
    case False
    then have "a div 86400000 < b div 86400000" using zdiv_mono1 [of a b 86400000] assms(3) by simp
    from civil_mono [OF this c c'] show ?thesis by (auto simp: iso_fields_def c c' Let_def)
  qed
  then show ?thesis using iso_less_fields [OF assms(1,2)] by simp
qed

lemma iso_string_less_iff:
  assumes "iso_range a" and "iso_range b"
  shows "iso_string a < iso_string b \<longleftrightarrow> a < b"
  using iso_string_mono [OF assms] iso_string_mono [OF assms(2,1)] by (cases a b rule: linorder_cases) auto

lemma iso_string_le_iff:
  assumes "iso_range a" and "iso_range b"
  shows "iso_string a \<le> iso_string b \<longleftrightarrow> a \<le> b"
  using iso_string_less_iff [OF assms(2,1)] by (simp add: not_less [symmetric])

end
