(* ===== verification/Pubsub_Messages.thy ===== *)
theory Pubsub_Messages
  imports Storage_Rows Js_Json_Print Iso_Time
begin

text \<open>
  The messages of Cloud Pub/Sub, \<open>src/src/services/pubsub/message-repository.ts\<close>, on the storage manager: one
  table of published messages and one of their deliveries to subscriptions. Each method awaits calls of the
  manager; a method runs as one step on one clock reading. The identifiers of \<open>crypto.randomUUID\<close> are
  \<open>rt_uuid 0, rt_uuid 1, \<dots>\<close> in the order of the calls.
\<close>

section \<open>State and errors\<close>

record runtime =
  rt_platform :: platform
  rt_uuid :: "nat \<Rightarrow> string"
  rt_duration :: int

record message_store =
  ms_storage :: manager
  ms_uuids :: nat

text \<open>
  The errors a method can throw: those of the service with their code, message and resource name, those of the
  storage, and those of the language that the code can meet. \<open>OutsideModel\<close> marks an input the model does not
  decide, such as a stored text whose \<open>JSON.parse\<close> is \<open>Beyond\<close>.
\<close>

datatype pubsub_code = NotFound | AlreadyExists | InvalidArgument | FailedPrecondition

datatype pubsub_error =
    PubSubError pubsub_code string "string option"
  | StorageFailure storage_error
  | PlainError string
  | JsonSyntaxError
  | JsTypeError
  | JsRangeError
  | OutsideModel

type_synonym 'a pubsub = "message_store \<Rightarrow> (pubsub_error + 'a) \<times> message_store"

definition storage_call :: "(manager \<Rightarrow> (storage_error + 'a) \<times> manager) \<Rightarrow> 'a pubsub" where
  "storage_call f s =
     (case f (ms_storage s) of
        (Inl e, m) \<Rightarrow> (Inl (StorageFailure e), s\<lparr>ms_storage := m\<rparr>)
      | (Inr a, m) \<Rightarrow> (Inr a, s\<lparr>ms_storage := m\<rparr>))"

definition random_uuid :: "runtime \<Rightarrow> string pubsub" where
  "random_uuid rt s = (Inr (rt_uuid rt (ms_uuids s)), s\<lparr>ms_uuids := Suc (ms_uuids s)\<rparr>)"

text \<open>\<open>storage.create(table, data)\<close>: the provider draws the id of the record.\<close>

definition create_row :: "runtime \<Rightarrow> int \<Rightarrow> string \<Rightarrow> jsobj \<Rightarrow> jsobj pubsub" where
  "create_row rt now table data =
     and_then (random_uuid rt) (\<lambda>i. storage_call (mg_create (rt_duration rt) now i table data))"

definition find_rows :: "runtime \<Rightarrow> string \<Rightarrow> query_condition list \<Rightarrow> pagination option \<Rightarrow> jsobj list pubsub" where
  "find_rows rt table cs pg =
     and_then (storage_call (mg_find (rt_platform rt) (rt_duration rt) table
         \<lparr>qo_filter = Some \<lparr>qf_conditions = cs, qf_operator = None\<rparr>, qo_sort = None, qo_pagination = pg\<rparr>))
       (\<lambda>q. done_with (qr_data q))"

definition find_first_row :: "runtime \<Rightarrow> string \<Rightarrow> query_condition list \<Rightarrow> jsobj option pubsub" where
  "find_first_row rt table cs =
     storage_call (mg_find_first (rt_platform rt) (rt_duration rt) table
       \<lparr>qo_filter = Some \<lparr>qf_conditions = cs, qf_operator = None\<rparr>, qo_sort = None, qo_pagination = None\<rparr>)"

definition update_row :: "runtime \<Rightarrow> int \<Rightarrow> string \<Rightarrow> string \<Rightarrow> jsobj \<Rightarrow> unit pubsub" where
  "update_row rt now table i data =
     and_then (storage_call (mg_update_by_id (rt_duration rt) now table i data)) (\<lambda>_. done_with ())"

definition update_rows_where :: "runtime \<Rightarrow> int \<Rightarrow> string \<Rightarrow> query_condition list \<Rightarrow> jsobj \<Rightarrow> unit pubsub" where
  "update_rows_where rt now table cs data =
     and_then (storage_call (mg_update_many (rt_platform rt) (rt_duration rt) now table
        \<lparr>qf_conditions = cs, qf_operator = None\<rparr> data)) (\<lambda>_. done_with ())"

definition delete_rows_where :: "runtime \<Rightarrow> int \<Rightarrow> string \<Rightarrow> query_condition list \<Rightarrow> unit pubsub" where
  "delete_rows_where rt now table cs =
     and_then (storage_call (mg_delete_many (rt_platform rt) (rt_duration rt) now table
        \<lparr>qf_conditions = cs, qf_operator = None\<rparr>)) (\<lambda>_. done_with ())"

abbreviation where_eq :: "string \<Rightarrow> string \<Rightarrow> query_condition" where
  "where_eq f v \<equiv> \<lparr>qc_field = f, qc_operator = QEq, qc_value = JStr v\<rparr>"

section \<open>The rows\<close>

definition messages_table :: string where
  "messages_table = ''pubsub_messages''"

definition delivered_table :: string where
  "delivered_table = ''pubsub_delivered_messages''"

definition messages_schema :: table_schema where
  "messages_schema = \<lparr>ts_name = messages_table, ts_columns =
     [\<lparr>cd_name = ''messageId'', cd_type = CString, cd_nullable = False, cd_unique = True\<rparr>,
      \<lparr>cd_name = ''topicName'', cd_type = CString, cd_nullable = False, cd_unique = False\<rparr>,
      \<lparr>cd_name = ''data'', cd_type = CString, cd_nullable = True, cd_unique = False\<rparr>,
      \<lparr>cd_name = ''attributes'', cd_type = CJson, cd_nullable = True, cd_unique = False\<rparr>,
      \<lparr>cd_name = ''orderingKey'', cd_type = CString, cd_nullable = True, cd_unique = False\<rparr>,
      \<lparr>cd_name = ''publishTime'', cd_type = CString, cd_nullable = False, cd_unique = False\<rparr>],
     ts_timestamps = True\<rparr>"

definition delivered_schema :: table_schema where
  "delivered_schema = \<lparr>ts_name = delivered_table, ts_columns =
     [\<lparr>cd_name = ''ackId'', cd_type = CString, cd_nullable = False, cd_unique = True\<rparr>,
      \<lparr>cd_name = ''subscriptionName'', cd_type = CString, cd_nullable = False, cd_unique = False\<rparr>,
      \<lparr>cd_name = ''messageId'', cd_type = CString, cd_nullable = False, cd_unique = False\<rparr>,
      \<lparr>cd_name = ''deliveryAttempt'', cd_type = CNumber, cd_nullable = False, cd_unique = False\<rparr>,
      \<lparr>cd_name = ''ackDeadline'', cd_type = CString, cd_nullable = False, cd_unique = False\<rparr>,
      \<lparr>cd_name = ''ackStatus'', cd_type = CString, cd_nullable = False, cd_unique = False\<rparr>],
     ts_timestamps = True\<rparr>"

text \<open>\<open>PublishMessageInput\<close>.\<close>

record publish_input =
  pi_data :: "string option"
  pi_attributes :: "(string \<times> string) list option"
  pi_ordering_key :: "string option"

definition text_or_null :: "string option \<Rightarrow> jsval" where
  "text_or_null v = (case v of None \<Rightarrow> JNull | Some t \<Rightarrow> JStr t)"

definition stringify_or_null :: "(string \<times> string) list option \<Rightarrow> jsval" where
  "stringify_or_null v =
     (case v of
        None \<Rightarrow> JNull
      | Some es \<Rightarrow> (case json_stringify (JObj (string_members es)) of None \<Rightarrow> JUndef | Some t \<Rightarrow> JStr t))"

definition message_row :: "string \<Rightarrow> string \<Rightarrow> publish_input \<Rightarrow> string \<Rightarrow> jsobj" where
  "message_row mid topic msg now =
     [(''messageId'', JStr mid), (''topicName'', JStr topic), (''data'', text_or_null (pi_data msg)),
      (''attributes'', stringify_or_null (pi_attributes msg)),
      (''orderingKey'', text_or_null (pi_ordering_key msg)), (''publishTime'', JStr now)]"

definition epoch_text :: string where
  "epoch_text = iso_string 0"

definition delivered_row :: "string \<Rightarrow> string \<Rightarrow> string \<Rightarrow> jsobj" where
  "delivered_row ack sub mid =
     [(''ackId'', JStr ack), (''subscriptionName'', JStr sub), (''messageId'', JStr mid),
      (''deliveryAttempt'', JNum 0), (''ackDeadline'', JStr epoch_text), (''ackStatus'', JStr ''PENDING'')]"

text \<open>Reading the columns back: \<open>str_field\<close> for the texts; the number of attempts is always a number.\<close>

definition num_field :: "string \<Rightarrow> jsobj \<Rightarrow> rat" where
  "num_field f r = (case field_of r f of JNum n \<Rightarrow> n | _ \<Rightarrow> 0)"

definition text_option :: "string \<Rightarrow> jsobj \<Rightarrow> string option" where
  "text_option f r = (case field_of r f of JStr t \<Rightarrow> Some t | _ \<Rightarrow> None)"

section \<open>Publishing\<close>

definition initialize_messages :: "runtime \<Rightarrow> int \<Rightarrow> unit pubsub" where
  "initialize_messages rt now =
     and_then (storage_call (mg_create_table now messages_table messages_schema))
       (\<lambda>_. storage_call (mg_create_table now delivered_table delivered_schema))"

definition fan_out :: "runtime \<Rightarrow> int \<Rightarrow> string \<Rightarrow> string \<Rightarrow> unit pubsub" where
  "fan_out rt now mid sub =
     and_then (random_uuid rt) (\<lambda>ack.
       and_then (create_row rt now delivered_table (delivered_row ack sub mid)) (\<lambda>_. done_with ()))"

fun publish_loop :: "runtime \<Rightarrow> int \<Rightarrow> string \<Rightarrow> string list \<Rightarrow> publish_input list \<Rightarrow> string list \<Rightarrow> string list pubsub" where
  "publish_loop rt now topic subs [] ids = done_with ids"
| "publish_loop rt now topic subs (msg # msgs) ids =
     and_then (random_uuid rt) (\<lambda>mid.
       and_then (create_row rt now messages_table (message_row mid topic msg (iso_string now))) (\<lambda>_.
         and_then (for_each (fan_out rt now mid) subs) (\<lambda>_.
           publish_loop rt now topic subs msgs (ids @ [mid]))))"

definition publish_messages :: "runtime \<Rightarrow> int \<Rightarrow> string \<Rightarrow> publish_input list \<Rightarrow> string list \<Rightarrow> string list pubsub" where
  "publish_messages rt now topic msgs subs = publish_loop rt now topic subs msgs []"

section \<open>Pulling\<close>

text \<open>\<open>ReceivedMessageResponse\<close>.\<close>

record received_message =
  rm_ack :: string
  rm_attempt :: rat
  rm_message_id :: string
  rm_publish_time :: string
  rm_data :: "string option"
  rm_attributes :: "jsval option"
  rm_ordering_key :: "string option"

text \<open>\<open>if (message.attributes) JSON.parse(message.attributes)\<close>.\<close>

definition parse_attributes :: "jsobj \<Rightarrow> pubsub_error + jsval option" where
  "parse_attributes r =
     (case field_of r ''attributes'' of
        JStr t \<Rightarrow>
          (if t = [] then Inr None
           else (case json_parse t of Done v \<Rightarrow> Inr (Some v) | Malformed \<Rightarrow> Inl JsonSyntaxError | Beyond \<Rightarrow> Inl OutsideModel))
      | _ \<Rightarrow> Inr None)"

definition truthy_text :: "string option \<Rightarrow> string option" where
  "truthy_text t = (if t = Some [] then None else t)"

definition received :: "string \<Rightarrow> rat \<Rightarrow> jsobj \<Rightarrow> pubsub_error + received_message" where
  "received ack attempt r =
     (case parse_attributes r of
        Inl e \<Rightarrow> Inl e
      | Inr attrs \<Rightarrow>
          Inr \<lparr>rm_ack = ack, rm_attempt = attempt, rm_message_id = str_field ''messageId'' r,
               rm_publish_time = str_field ''publishTime'' r, rm_data = text_option ''data'' r,
               rm_attributes = attrs, rm_ordering_key = truthy_text (text_option ''orderingKey'' r)\<rparr>)"

definition due_conditions :: "string \<Rightarrow> int \<Rightarrow> query_condition list" where
  "due_conditions sub now =
     [where_eq ''subscriptionName'' sub, where_eq ''ackStatus'' ''PENDING'',
      \<lparr>qc_field = ''ackDeadline'', qc_operator = QLte, qc_value = JStr (iso_string now)\<rparr>]"

definition message_of_delivery :: "runtime \<Rightarrow> jsobj \<Rightarrow> jsobj option pubsub" where
  "message_of_delivery rt dm =
     find_first_row rt messages_table
       [\<lparr>qc_field = ''messageId'', qc_operator = QEq, qc_value = field_of dm ''messageId''\<rparr>]"

definition later :: "int \<Rightarrow> int \<Rightarrow> string" where
  "later now seconds = iso_string (now + seconds * 1000)"

fun pull_loop :: "runtime \<Rightarrow> int \<Rightarrow> int \<Rightarrow> jsobj list \<Rightarrow> received_message list \<Rightarrow> received_message list pubsub" where
  "pull_loop rt now secs [] acc = done_with acc"
| "pull_loop rt now secs (dm # dms) acc =
     and_then (message_of_delivery rt dm) (\<lambda>found.
       (case found of
          None \<Rightarrow> pull_loop rt now secs dms acc
        | Some msg \<Rightarrow>
            (let attempt = num_field ''deliveryAttempt'' dm + 1
             in and_then (update_row rt now delivered_table (id_of (rt_platform rt) dm)
                   [(''ackDeadline'', JStr (later now secs)), (''deliveryAttempt'', JNum attempt)])
                 (\<lambda>_. (case received (str_field ''ackId'' dm) attempt msg of
                        Inl e \<Rightarrow> fails_with e
                      | Inr r \<Rightarrow> pull_loop rt now secs dms (acc @ [r]))))))"

definition pull_messages :: "runtime \<Rightarrow> int \<Rightarrow> string \<Rightarrow> int \<Rightarrow> int \<Rightarrow> received_message list pubsub" where
  "pull_messages rt now sub max_messages secs =
     and_then (find_rows rt delivered_table (due_conditions sub now)
         (Some \<lparr>pg_limit = Some max_messages, pg_offset = Some 0\<rparr>))
       (\<lambda>eligible. pull_loop rt now secs eligible [])"

section \<open>Acknowledging and the delivery engine's view\<close>

definition ack_conditions :: "string \<Rightarrow> string \<Rightarrow> query_condition list" where
  "ack_conditions ack sub = [where_eq ''ackId'' ack, where_eq ''subscriptionName'' sub]"

definition acknowledge_messages :: "runtime \<Rightarrow> int \<Rightarrow> string \<Rightarrow> string list \<Rightarrow> unit pubsub" where
  "acknowledge_messages rt now sub acks =
     for_each (\<lambda>ack. update_rows_where rt now delivered_table (ack_conditions ack sub)
                       [(''ackStatus'', JStr ''ACKED'')]) acks"

definition modify_ack_deadline :: "runtime \<Rightarrow> int \<Rightarrow> string \<Rightarrow> string list \<Rightarrow> int \<Rightarrow> unit pubsub" where
  "modify_ack_deadline rt now sub acks secs =
     for_each (\<lambda>ack. update_rows_where rt now delivered_table (ack_conditions ack sub)
                       [(''ackDeadline'', JStr (later now secs))]) acks"

fun deliverable_loop :: "runtime \<Rightarrow> jsobj list \<Rightarrow> (jsobj \<times> jsobj) list \<Rightarrow> (jsobj \<times> jsobj) list pubsub" where
  "deliverable_loop rt [] acc = done_with acc"
| "deliverable_loop rt (dm # dms) acc =
     and_then (message_of_delivery rt dm) (\<lambda>found.
       (case found of
          None \<Rightarrow> deliverable_loop rt dms acc
        | Some msg \<Rightarrow> deliverable_loop rt dms (acc @ [(dm, msg)])))"

definition find_push_deliverable :: "runtime \<Rightarrow> int \<Rightarrow> string \<Rightarrow> int \<Rightarrow> (jsobj \<times> jsobj) list pubsub" where
  "find_push_deliverable rt now sub limit =
     and_then (find_rows rt delivered_table (due_conditions sub now)
         (Some \<lparr>pg_limit = Some limit, pg_offset = Some 0\<rparr>))
       (\<lambda>eligible. deliverable_loop rt eligible [])"

definition increment_delivery_attempt :: "runtime \<Rightarrow> int \<Rightarrow> string \<Rightarrow> string \<Rightarrow> unit pubsub" where
  "increment_delivery_attempt rt now i deadline =
     and_then (find_rows rt delivered_table [where_eq ''id'' i] None) (\<lambda>rs.
       (case rs of
          [] \<Rightarrow> done_with ()
        | r # _ \<Rightarrow> update_row rt now delivered_table i
                     [(''deliveryAttempt'', JNum (num_field ''deliveryAttempt'' r + 1)), (''ackDeadline'', JStr deadline)]))"

definition cleanup_acked_messages :: "runtime \<Rightarrow> int \<Rightarrow> nat pubsub" where
  "cleanup_acked_messages rt now =
     and_then (find_rows rt delivered_table [where_eq ''ackStatus'' ''ACKED''] None) (\<lambda>rs.
       if length rs > 0
       then and_then (delete_rows_where rt now delivered_table [where_eq ''ackStatus'' ''ACKED'']) (\<lambda>_. done_with (length rs))
       else done_with (length rs))"

fun reset_loop :: "runtime \<Rightarrow> int \<Rightarrow> string \<Rightarrow> jsobj list \<Rightarrow> nat \<Rightarrow> nat pubsub" where
  "reset_loop rt now before [] n = done_with n"
| "reset_loop rt now before (dm # dms) n =
     and_then (message_of_delivery rt dm) (\<lambda>found.
       (case found of
          None \<Rightarrow> reset_loop rt now before dms n
        | Some msg \<Rightarrow>
            if str_field ''publishTime'' msg \<le> before
            then and_then (update_row rt now delivered_table (id_of (rt_platform rt) dm) [(''ackDeadline'', JStr epoch_text)])
                   (\<lambda>_. reset_loop rt now before dms (Suc n))
            else reset_loop rt now before dms n))"

definition reset_delivered_by_time :: "runtime \<Rightarrow> int \<Rightarrow> string \<Rightarrow> string \<Rightarrow> nat pubsub" where
  "reset_delivered_by_time rt now sub before =
     and_then (find_rows rt delivered_table [where_eq ''subscriptionName'' sub, where_eq ''ackStatus'' ''PENDING''] None)
       (\<lambda>rs. reset_loop rt now before rs 0)"

definition delete_by_subscription :: "runtime \<Rightarrow> int \<Rightarrow> string \<Rightarrow> unit pubsub" where
  "delete_by_subscription rt now sub =
     delete_rows_where rt now delivered_table [where_eq ''subscriptionName'' sub]"

definition delete_by_topic :: "runtime \<Rightarrow> int \<Rightarrow> string \<Rightarrow> unit pubsub" where
  "delete_by_topic rt now topic =
     and_then (find_rows rt messages_table [where_eq ''topicName'' topic] None) (\<lambda>msgs.
       and_then (for_each (\<lambda>msg. delete_rows_where rt now delivered_table
             [\<lparr>qc_field = ''messageId'', qc_operator = QEq, qc_value = field_of msg ''messageId''\<rparr>]) msgs)
         (\<lambda>_. delete_rows_where rt now messages_table [where_eq ''topicName'' topic]))"

end
