(* ===== verification/Js_Json_Roundtrip.thy ===== *)
theory Js_Json_Roundtrip
  imports Js_Json_Print
begin

text \<open>
  \<open>JSON.parse\<close> reads back every value \<open>JSON.stringify\<close> writes exactly: \<open>null\<close>, booleans, texts, whole numbers of
  at most 15 digits, and arrays and objects of such values whose keys stand in the order of the language.
\<close>

section \<open>Values that print exactly\<close>

text \<open>The order of the keys of an object: array indices first, ascending, each key once.\<close>

definition key_order :: "string \<Rightarrow> string \<Rightarrow> bool" where
  "key_order a b \<longleftrightarrow> (index_key b \<longrightarrow> index_key a \<and> dec_value a < dec_value b)"

definition canonical :: "jsobj \<Rightarrow> bool" where
  "canonical m \<longleftrightarrow> distinct (jm_keys m) \<and> sorted_wrt key_order (jm_keys m)"

fun json_plain :: "jsval \<Rightarrow> bool"
  and plain_elements :: "jsval list \<Rightarrow> bool"
  and plain_members :: "(string \<times> jsval) list \<Rightarrow> bool" where
  "json_plain JUndef = False"
| "json_plain JNull = True"
| "json_plain (JBool b) = True"
| "json_plain (JNum n) = (n = of_int \<lfloor>n\<rfloor> \<and> \<bar>\<lfloor>n\<rfloor>\<bar> < 10 ^ 15)"
| "json_plain (JStr s) = True"
| "json_plain (JDate t) = False"
| "json_plain (JArr vs) = plain_elements vs"
| "json_plain (JObj m) = (canonical m \<and> plain_members m)"
| "plain_elements [] = True"
| "plain_elements (v # vs) = (json_plain v \<and> plain_elements vs)"
| "plain_members [] = True"
| "plain_members ((k, v) # m) = (json_plain v \<and> plain_members m)"

lemma plain_members_iff: "plain_members m \<longleftrightarrow> (\<forall>e \<in> set m. json_plain (snd e))"
  by (induction m) auto

section \<open>Objects\<close>

lemma fold_set_distinct:
  "distinct (jm_keys (acc @ es)) \<Longrightarrow> fold (\<lambda>(k, v) m. jm_set m k v) es acc = acc @ es"
proof (induction es arbitrary: acc)
  case (Cons e es)
  obtain k v where e: "e = (k, v)" by (cases e)
  with Cons.prems have "jm_set acc k v = acc @ [e]" by (simp add: jm_set_fresh map_of_eq_None_iff)
  with Cons.IH [of "acc @ [e]"] Cons.prems e show ?case by simp
qed simp

lemma make_object_canonical:
  assumes "canonical m"
  shows "make_object m = m"
proof -
  have fold: "fold (\<lambda>(k, v) m. jm_set m k v) m [] = m"
    using fold_set_distinct [of "[]" m] assms by (simp add: canonical_def)
  have "sort_key (\<lambda>e. dec_value (fst e)) (filter (\<lambda>e. index_key (fst e)) m) @ filter (\<lambda>e. \<not> index_key (fst e)) m = m"
    using assms unfolding canonical_def
  proof (induction m)
    case (Cons e m)
    then have IH: "sort_key (\<lambda>e. dec_value (fst e)) (filter (\<lambda>e. index_key (fst e)) m) @ filter (\<lambda>e. \<not> index_key (fst e)) m = m"
      by simp
    show ?case
    proof (cases "index_key (fst e)")
      case True
      have "dec_value (fst e) \<le> dec_value (fst x)" if "x \<in> set (sort_key (\<lambda>e. dec_value (fst e)) (filter (\<lambda>e. index_key (fst e)) m))" for x
        using that Cons.prems by (auto simp: key_order_def less_imp_le)
      then have "insort_key (\<lambda>e. dec_value (fst e)) e (sort_key (\<lambda>e. dec_value (fst e)) (filter (\<lambda>e. index_key (fst e)) m)) =
          e # sort_key (\<lambda>e. dec_value (fst e)) (filter (\<lambda>e. index_key (fst e)) m)"
        by (rule insort_is_Cons [OF ballI])
      with True IH show ?thesis by simp
    next
      case False
      then have "filter (\<lambda>e. index_key (fst e)) m = []"
        using Cons.prems by (auto simp: filter_empty_conv key_order_def)
      with False IH show ?thesis by simp
    qed
  qed simp
  with fold show ?thesis by (simp add: make_object_def Let_def)
qed

section \<open>Whole numbers\<close>

definition closes :: "string \<Rightarrow> bool" where
  "closes r \<longleftrightarrow> r = [] \<or> hd r \<in> {CHR '','', CHR '']'', CHR ''}''}"

lemma num_to_str_int:
  "num_to_str (of_int i) = (if i < 0 then ''-'' else []) @ nat_to_dec (nat \<bar>i\<bar>)"
  by (simp add: num_to_str_def Let_def of_int_abs [symmetric] del: of_int_abs)

lemma nat_to_dec_first: "\<exists>c s. nat_to_dec n = c # s \<and> is_digit c \<and> (c = CHR ''0'' \<longrightarrow> s = [])"
proof (induction n rule: nat_to_dec.induct)
  case (1 n)
  show ?case
  proof (cases "n < 10")
    case True
    then show ?thesis by (subst nat_to_dec.simps) simp
  next
    case False
    then obtain c s where "nat_to_dec (n div 10) = c # s" "is_digit c" "c = CHR ''0'' \<longrightarrow> s = []" using 1 by blast
    moreover have "c \<noteq> CHR ''0''"
    proof
      assume "c = CHR ''0''"
      with calculation have "nat_to_dec (n div 10) = ''0''" by simp
      then have "n div 10 = dec_value ''0''" by (metis dec_value_nat_to_dec)
      with False show False by (simp add: dec_value_def digit_value_def)
    qed
    ultimately show ?thesis using False by (subst nat_to_dec.simps) simp
  qed
qed

lemma closes_digits: "closes r \<Longrightarrow> takeWhile is_digit r = []" "closes r \<Longrightarrow> \<not> starts_with r ''.''"
  "closes r \<Longrightarrow> \<not> starts_with r ''e''" "closes r \<Longrightarrow> \<not> starts_with r ''E''"
  by (cases r; auto simp: closes_def is_digit_def starts_with_def)+

lemma number_length_digits:
  assumes "closes r" and "pre = [] \<or> pre = ''-''"
  shows "number_length (pre @ nat_to_dec n @ r) = Some (length pre + length (nat_to_dec n))"
proof -
  obtain c s where c: "nat_to_dec n = c # s" "is_digit c" "c = CHR ''0'' \<longrightarrow> s = []"
    using nat_to_dec_first by blast
  have "takeWhile is_digit (nat_to_dec n @ r) = nat_to_dec n"
    using nat_to_dec_digits [of n] closes_digits(1) [OF assms(1)] by (simp add: takeWhile_append2)
  then have len: "digits_length (c # s @ r) = Suc (length s)" using c(1) by (simp add: digits_length_def)
  have "c \<noteq> CHR ''-''" using c(2) by (auto simp: is_digit_def less_eq_char_def)
  then have i0: "(if starts_with (pre @ c # s @ r) ''-'' then 1 else 0) = length pre" using assms(2) by auto
  have r0: "drop (length pre) (pre @ c # s @ r) = c # s @ r" by simp
  have i1: "length pre + (if hd (c # s @ r) = CHR ''0'' then 1 else digits_length (c # s @ r)) = length pre + Suc (length s)"
    using c(3) len by auto
  have r1: "drop (length pre + Suc (length s)) (pre @ c # s @ r) = r" by simp
  have first: "\<not> (c # s @ r = [] \<or> \<not> is_digit (hd (c # s @ r)))" using c(2) by simp
  note rest = closes_digits(2-4) [OF assms(1)]
  show ?thesis
    unfolding number_length_def c(1) append_Cons i0 Let_def r0 i1 r1
    using first rest by (simp only: if_False simp_thms if_True not_False_eq_True) simp
qed

lemma number_length_int:
  "closes r \<Longrightarrow> number_length (num_to_str (of_int i) @ r) = Some (length (num_to_str (of_int i)))"
  using number_length_digits [of r "[]" "nat \<bar>i\<bar>"] number_length_digits [of r "''-''" "nat \<bar>i\<bar>"]
  by (cases "i < 0") (simp_all add: num_to_str_int)

lemma number_of_int:
  assumes "\<bar>i\<bar> < 10 ^ 15"
  shows "number_of_text (num_to_str (of_int i)) = Done (of_int i)"
proof -
  let ?d = "nat_to_dec (nat \<bar>i\<bar>)"
  have dig: "\<forall>c \<in> set ?d. is_digit c" by (rule nat_to_dec_digits)
  then have "\<not> starts_with ?d ''-''" by (cases ?d) (auto simp: starts_with_def is_digit_def less_eq_char_def)
  moreover have "dec_value [] = 0" by (simp add: dec_value_def)
  ultimately have "decimal_value ?d = of_nat (nat \<bar>i\<bar>)" "decimal_value (''-'' @ ?d) = - of_nat (nat \<bar>i\<bar>)"
    using dig by (simp_all add: decimal_value_def Let_def takeWhile_digits)
  then have "decimal_value (num_to_str (of_int i)) = of_int i"
    by (cases "i < 0") (simp_all add: num_to_str_int)
  moreover have "length (filter is_digit (num_to_str (of_int i))) \<le> 15"
  proof -
    have "nat \<bar>i\<bar> < 10 ^ 15" using assms by (simp add: nat_less_iff)
    then have "length ?d \<le> 15" by (rule nat_to_dec_length) simp
    moreover have "filter is_digit ?d = ?d" using dig by simp
    moreover have "\<not> is_digit (CHR ''-'')" by code_simp
    ultimately show ?thesis by (simp add: num_to_str_int)
  qed
  moreover have "CHR ''e'' \<notin> set (num_to_str (of_int i))" "CHR ''E'' \<notin> set (num_to_str (of_int i))"
    using dig by (auto simp: num_to_str_int is_digit_def less_eq_char_def)
  moreover have "(of_int i :: rat) = 0 \<or> \<not> \<bar>of_int i :: rat\<bar> < 1 / 1000000"
  proof (cases "i = 0")
    case False
    then have "1 \<le> \<bar>i\<bar>" by simp
    then have "1 \<le> \<bar>of_int i :: rat\<bar>" by (metis of_int_1_le_iff of_int_abs)
    then show ?thesis by simp
  qed simp
  ultimately show ?thesis by (simp add: number_of_text_def Let_def)
qed

section \<open>Every value\<close>

definition opens :: "string \<Rightarrow> bool" where
  "opens t \<longleftrightarrow> t \<noteq> [] \<and> \<not> json_ws (hd t) \<and> hd t \<noteq> CHR '']'' \<and> hd t \<noteq> CHR ''}''"

lemma opens_skip: "opens t \<Longrightarrow> skip_json_ws (t @ r) = t @ r"
  by (cases t) (auto simp: opens_def)

lemma closes_skip: "closes r \<Longrightarrow> skip_json_ws r = r"
  by (cases r) (auto simp: closes_def json_ws_def)

definition reads_back :: "string \<Rightarrow> jsval \<Rightarrow> bool" where
  "reads_back t v \<longleftrightarrow> opens t \<and> (\<forall>r. closes r \<longrightarrow> json_value (t @ r) = Done (v, r))"

lemma reads_back_int:
  assumes "\<bar>i\<bar> < 10 ^ 15"
  shows "reads_back (num_to_str (of_int i)) (JNum (of_int i))"
proof -
  let ?t = "num_to_str (of_int i)"
  obtain c s where c: "nat_to_dec (nat \<bar>i\<bar>) = c # s" "is_digit c" using nat_to_dec_first by blast
  then obtain d u where t: "?t = d # u" "d = CHR ''-'' \<or> is_digit d" by (cases "i < 0") (auto simp: num_to_str_int)
  then have d: "\<not> json_ws d" "d \<noteq> CHR '']''" "d \<noteq> CHR ''}''" "d \<noteq> CHR ''t''" "d \<noteq> CHR ''f''" "d \<noteq> CHR ''n''"
      "d \<noteq> CHR 0x22" "d \<noteq> CHR ''[''" "d \<noteq> CHR ''{''"
    by (auto simp: json_ws_def is_digit_def less_eq_char_def)
  have "json_value (?t @ r) = Done (JNum (of_int i), r)" if "closes r" for r
  proof -
    have "number_length (d # u @ r) = Some (length ?t)" using number_length_int [OF that, of i] t(1) by simp
    moreover have "take (length ?t) (d # u @ r) = ?t" "drop (length ?t) (d # u @ r) = r" using t(1) by simp_all
    moreover have "number_of_text ?t = Done (of_int i)" using assms by (rule number_of_int)
    ultimately show ?thesis using d t(1) by (subst json_value.simps) (simp add: Let_def)
  qed
  then show ?thesis using t(1) d by (simp add: reads_back_def opens_def)
qed

lemma reads_back_quote: "reads_back (json_quote s) (JStr s)"
  using json_value_quote [of s] json_quote_append [of s "[]"] by (simp add: reads_back_def opens_def json_ws_def)

lemma reads_back_word:
  "reads_back ''null'' JNull" "reads_back ''true'' (JBool True)" "reads_back ''false'' (JBool False)"
  by (simp_all add: reads_back_def opens_def json_ws_def) (subst json_value.simps, simp add: json_ws_def Let_def)+

text \<open>The elements of an array and the members of an object, each with what follows it.\<close>

lemma json_array_Cons:
  assumes "reads_back t v"
  shows "json_array (t @ '']'' @ r) = Done ([v], r)"
    and "json_array s = Done (vs, r) \<Longrightarrow> json_array (t @ '','' @ s) = Done (v # vs, r)"
proof -
  have "json_value (t @ '']'' @ r) = Done (v, '']'' @ r)" "json_value (t @ '','' @ s) = Done (v, '','' @ s)"
    using assms by (simp_all add: reads_back_def closes_def)
  then show "json_array (t @ '']'' @ r) = Done ([v], r)"
    and "json_array s = Done (vs, r) \<Longrightarrow> json_array (t @ '','' @ s) = Done (v # vs, r)"
    by (subst json_array.simps, simp add: json_ws_def Let_def shorter_def)+
qed

lemma json_object_Cons:
  assumes "reads_back t v"
  shows "json_object (json_quote k @ '':'' @ t @ ''}'' @ r) = Done ([(k, v)], r)"
    and "json_object s = Done (es, r) \<Longrightarrow> json_object (json_quote k @ '':'' @ t @ '','' @ s) = Done ((k, v) # es, r)"
proof -
  have "json_value (t @ ''}'' @ r) = Done (v, ''}'' @ r)" "json_value (t @ '','' @ s) = Done (v, '','' @ s)"
    using assms by (simp_all add: reads_back_def closes_def)
  then show "json_object (json_quote k @ '':'' @ t @ ''}'' @ r) = Done ([(k, v)], r)"
    and "json_object s = Done (es, r) \<Longrightarrow> json_object (json_quote k @ '':'' @ t @ '','' @ s) = Done ((k, v) # es, r)"
    by (subst json_object.simps, simp add: json_quote_append json_ws_def json_quote_parse Let_def shorter_def)+
qed

lemma join_str_Cons2: "xs \<noteq> [] \<Longrightarrow> join_str sep (x # xs) = x @ sep @ join_str sep xs"
  by (cases xs) simp_all

lemma reads_back_array:
  assumes "vs \<noteq> [] \<Longrightarrow> (\<forall>r. json_array (join_str '','' ts @ '']'' @ r) = Done (vs, r)) \<and> opens (join_str '','' ts)"
    and "vs = [] \<Longrightarrow> ts = []"
  shows "reads_back (''['' @ join_str '','' ts @ '']'') (JArr vs)"
proof (cases "vs = []")
  case True
  then show ?thesis using assms(2)
    by (simp add: reads_back_def opens_def json_ws_def) (subst json_value.simps, simp add: json_ws_def Let_def)
next
  case False
  then obtain c s where t: "join_str '','' ts = c # s" "\<not> json_ws c" "c \<noteq> CHR '']''"
    using assms(1) by (auto simp: opens_def neq_Nil_conv)
  with False show ?thesis using assms(1)
    by (simp add: reads_back_def opens_def json_ws_def [of "CHR ''[''"])
      (subst json_value.simps, simp add: json_ws_def [of "CHR ''[''"] Let_def)
qed

lemma reads_back_object:
  assumes "m \<noteq> [] \<Longrightarrow> (\<forall>r. json_object (join_str '','' ts @ ''}'' @ r) = Done (m, r)) \<and> opens (join_str '','' ts)"
    and "m = [] \<Longrightarrow> ts = []" and "canonical m"
  shows "reads_back (''{'' @ join_str '','' ts @ ''}'') (JObj m)"
proof (cases "m = []")
  case True
  then show ?thesis using assms(2)
    by (simp add: reads_back_def opens_def json_ws_def) (subst json_value.simps, simp add: json_ws_def Let_def)
next
  case False
  then obtain c s where t: "join_str '','' ts = c # s" "\<not> json_ws c" "c \<noteq> CHR ''}''"
    using assms(1) by (auto simp: opens_def neq_Nil_conv)
  with False show ?thesis using assms(1) make_object_canonical [OF assms(3)]
    by (simp add: reads_back_def opens_def json_ws_def [of "CHR ''{''"])
      (subst json_value.simps, simp add: json_ws_def [of "CHR ''{''"] Let_def)
qed

lemma opens_append: "opens t \<Longrightarrow> opens (t @ s)"
  by (cases t) (auto simp: opens_def)

lemma json_stringify_reads_back:
  "json_plain v \<Longrightarrow> \<exists>t. json_stringify v = Some t \<and> reads_back t v"
  "plain_elements vs \<Longrightarrow> vs \<noteq> [] \<Longrightarrow>
     json_elements vs \<noteq> [] \<and> (\<forall>r. json_array (join_str '','' (json_elements vs) @ '']'' @ r) = Done (vs, r)) \<and>
     opens (join_str '','' (json_elements vs))"
  "plain_members m \<Longrightarrow> m \<noteq> [] \<Longrightarrow>
     json_members m \<noteq> [] \<and> (\<forall>r. json_object (join_str '','' (json_members m) @ ''}'' @ r) = Done (m, r)) \<and>
     opens (join_str '','' (json_members m))"
proof (induction v and vs and m rule: json_plain_plain_elements_plain_members.induct)
  case (4 n)
  then obtain i where "n = of_int i" "\<bar>i\<bar> < 10 ^ 15" by auto
  then show ?case using reads_back_int by simp
next
  case (7 vs)
  then show ?case using reads_back_array [of vs "json_elements vs"] by (cases "vs = []") simp_all
next
  case (8 m)
  then show ?case using reads_back_object [of m "json_members m"] by (cases "m = []") simp_all
next
  case (10 v vs)
  then obtain t where t: "json_stringify v = Some t" "reads_back t v" by auto
  then have o: "opens t" by (simp add: reads_back_def)
  show ?case
  proof (cases "vs = []")
    case True
    then show ?thesis using t json_array_Cons(1) [OF t(2)] o by simp
  next
    case False
    then show ?thesis using 10 t o json_array_Cons(2) [OF t(2)] by (simp add: join_str_Cons2 opens_append)
  qed
next
  case (12 k v m)
  then obtain t where t: "json_stringify v = Some t" "reads_back t v" by auto
  have o: "opens (json_quote k @ s)" for s
    using json_quote_append [of k s] by (simp add: opens_def json_ws_def)
  show ?case
  proof (cases "m = []")
    case True
    then show ?thesis using t json_object_Cons(1) [OF t(2), of k] o by simp
  next
    case False
    then show ?thesis using 12 t o json_object_Cons(2) [OF t(2), of _ _ _ k] by (simp add: join_str_Cons2)
  qed
qed (simp_all add: reads_back_word reads_back_quote)

theorem json_roundtrip:
  assumes "json_plain v"
  shows "\<exists>t. json_stringify v = Some t \<and> t \<noteq> [] \<and> json_parse t = Done v"
proof -
  obtain t where t: "json_stringify v = Some t" "reads_back t v" using json_stringify_reads_back(1) [OF assms] by blast
  then have "json_value (t @ []) = Done (v, [])" unfolding reads_back_def closes_def by blast
  with t show ?thesis by (auto simp: json_parse_def reads_back_def opens_def)
qed

end
