(* ===== verification/Pubsub_Masks.thy ===== *)
theory Pubsub_Masks
  imports Pubsub_Messages Js_Json_Roundtrip
begin

text \<open>
  Update masks of topics and subscriptions: \<open>getNestedValue\<close>, \<open>setNestedValue\<close> and \<open>applyNestedSubUpdate\<close> of
  \<open>src/src/services/pubsub/subscription-service.ts\<close> (\<open>topic-service.ts\<close> holds the same three functions). A path
  reads and writes at some depth of a value, and its laws are those of a lens: what was written is read back, and
  what lies beside the path stays.
\<close>

section \<open>Properties of objects\<close>

text \<open>The names every object inherits, so that reading them or testing them with \<open>in\<close> finds a function.\<close>

definition inherited_names :: "string set" where
  "inherited_names = {''constructor'', ''__defineGetter__'', ''__defineSetter__'', ''hasOwnProperty'',
     ''__lookupGetter__'', ''__lookupSetter__'', ''isPrototypeOf'', ''propertyIsEnumerable'', ''toString'',
     ''valueOf'', ''__proto__'', ''toLocaleString''}"

text \<open>\<open>obj[k] = v\<close>: an array-index key goes among the others of its kind, in ascending order.\<close>

definition js_put :: "jsobj \<Rightarrow> string \<Rightarrow> jsval \<Rightarrow> jsobj" where
  "js_put m k v =
     (if index_key k \<and> \<not> jm_has m k
      then takeWhile (\<lambda>e. index_key (fst e) \<and> dec_value (fst e) < dec_value k) m @ (k, v) #
           dropWhile (\<lambda>e. index_key (fst e) \<and> dec_value (fst e) < dec_value k) m
      else jm_set m k v)"

text \<open>\<open>v?.k\<close> for a value that comes from a JSON body, and \<open>v.k\<close>, which throws on \<open>undefined\<close> and \<open>null\<close>.\<close>

definition opt_prop :: "jsval \<Rightarrow> string \<Rightarrow> jsval" where
  "opt_prop v k = (case v of JObj m \<Rightarrow> field_of m k | _ \<Rightarrow> JUndef)"

definition get_prop :: "jsval \<Rightarrow> string \<Rightarrow> pubsub_error + jsval" where
  "get_prop v k = (case v of JUndef \<Rightarrow> Inl JsTypeError | JNull \<Rightarrow> Inl JsTypeError | _ \<Rightarrow> Inr (opt_prop v k))"

text \<open>\<open>v ?? d\<close>, and \<open>v ? JSON.stringify(v) : null\<close>.\<close>

definition coalesce :: "jsval \<Rightarrow> jsval \<Rightarrow> jsval" where
  "coalesce v d = (case v of JUndef \<Rightarrow> d | JNull \<Rightarrow> d | _ \<Rightarrow> v)"

definition json_text :: "jsval \<Rightarrow> jsval" where
  "json_text v = (case json_stringify v of None \<Rightarrow> JUndef | Some t \<Rightarrow> JStr t)"

definition json_or_null :: "jsval \<Rightarrow> jsval" where
  "json_or_null v = (if truthy v then json_text v else JNull)"

definition flag :: "jsval \<Rightarrow> jsval" where
  "flag v = (if truthy v then JNum 1 else JNum 0)"

section \<open>Nested values\<close>

text \<open>A path through an array or over an inherited name is outside the model.\<close>

fun get_nested :: "jsval \<Rightarrow> string list \<Rightarrow> pubsub_error + jsval" where
  "get_nested v [] = Inr v"
| "get_nested v (k # ks) =
     (case v of
        JObj m \<Rightarrow> if k \<in> inherited_names then Inl OutsideModel else get_nested (field_of m k) ks
      | JArr _ \<Rightarrow> Inl OutsideModel
      | JDate _ \<Rightarrow> Inl OutsideModel
      | _ \<Rightarrow> Inr JUndef)"

definition object_or_new :: "jsval \<Rightarrow> jsval" where
  "object_or_new v = (case v of JObj m \<Rightarrow> v | JArr _ \<Rightarrow> v | JDate _ \<Rightarrow> v | _ \<Rightarrow> JObj [])"

fun set_nested :: "jsval \<Rightarrow> string list \<Rightarrow> jsval \<Rightarrow> pubsub_error + jsval" where
  "set_nested v [] x = Inr v"
| "set_nested v (k # ks) x =
     (case v of
        JObj m \<Rightarrow>
          if k \<in> inherited_names then Inl OutsideModel
          else if ks = [] then Inr (JObj (js_put m k x))
          else (case set_nested (object_or_new (field_of m k)) ks x of
                  Inl e \<Rightarrow> Inl e
                | Inr w \<Rightarrow> Inr (JObj (js_put m k w)))
      | JArr _ \<Rightarrow> Inl OutsideModel
      | JDate _ \<Rightarrow> Inl OutsideModel
      | _ \<Rightarrow> Inl JsTypeError)"

text \<open>\<open>baseStr ? JSON.parse(baseStr) : {}\<close>; \<open>JSON.parse\<close> converts its argument to a string.\<close>

definition parse_base :: "runtime \<Rightarrow> jsval \<Rightarrow> pubsub_error + jsval" where
  "parse_base rt b =
     (if truthy b
      then (case json_parse (js_string (pf_date_string (rt_platform rt)) b) of
              Done v \<Rightarrow> Inr v | Malformed \<Rightarrow> Inl JsonSyntaxError | Beyond \<Rightarrow> Inl OutsideModel)
      else Inr (JObj []))"

definition is_array :: "jsval \<Rightarrow> bool" where
  "is_array v = (case v of JArr _ \<Rightarrow> True | _ \<Rightarrow> False)"

definition apply_nested_sub_update ::
  "runtime \<Rightarrow> string \<Rightarrow> string \<Rightarrow> jsval \<Rightarrow> jsobj \<Rightarrow> jsobj \<Rightarrow> pubsub_error + jsobj" where
  "apply_nested_sub_update rt top_field sub_field incoming existing updates =
     (if top_field \<in> inherited_names \<or> is_array incoming then Inl OutsideModel
      else
        let base_str = (if jm_has updates top_field then field_of updates top_field
                        else coalesce (field_of existing top_field) JNull);
            segments = split_char (CHR ''.'') sub_field
        in case parse_base rt base_str of
             Inl e \<Rightarrow> Inl e
           | Inr base \<Rightarrow>
               (case get_nested (coalesce (opt_prop incoming top_field) (JObj [])) segments of
                  Inl e \<Rightarrow> Inl e
                | Inr value \<Rightarrow>
                    (case set_nested base segments value of
                       Inl e \<Rightarrow> Inl e
                     | Inr base' \<Rightarrow> Inr (jm_set updates top_field (json_text base')))))"

section \<open>The mask of an update\<close>

text \<open>The fields of \<open>updateMask.split(',')\<close>, trimmed; a mask that is not a string has no \<open>split\<close>.\<close>

definition mask_fields :: "jsval \<Rightarrow> pubsub_error + string list" where
  "mask_fields um =
     (if \<not> truthy um then Inr []
      else case um of JStr t \<Rightarrow> Inr (map trim_str (split_char (CHR '','') t)) | _ \<Rightarrow> Inl JsTypeError)"

definition nested_path :: "string \<Rightarrow> bool" where
  "nested_path f = (CHR ''.'' \<in> set f)"

definition top_of :: "string \<Rightarrow> string" where
  "top_of f = takeWhile (\<lambda>c. c \<noteq> CHR ''.'') f"

definition rest_of :: "string \<Rightarrow> string" where
  "rest_of f = tl (dropWhile (\<lambda>c. c \<noteq> CHR ''.'') f)"

text \<open>The loop over the fields; \<open>whole\<close> is the \<open>switch\<close> for a field without a point.\<close>

fun apply_mask ::
  "runtime \<Rightarrow> (string \<Rightarrow> jsobj \<Rightarrow> jsobj) \<Rightarrow> jsval \<Rightarrow> jsobj \<Rightarrow> string list \<Rightarrow> jsobj \<Rightarrow> pubsub_error + jsobj" where
  "apply_mask rt whole data existing [] updates = Inr updates"
| "apply_mask rt whole data existing (f # fs) updates =
     (if nested_path f
      then (case apply_nested_sub_update rt (top_of f) (rest_of f) data existing updates of
              Inl e \<Rightarrow> Inl e
            | Inr updates' \<Rightarrow> apply_mask rt whole data existing fs updates')
      else apply_mask rt whole data existing fs (whole f updates))"

section \<open>The laws of paths\<close>

lemma jm_get_insert_before:
  "k \<notin> fst ` set m \<Longrightarrow> jm_get (takeWhile P m @ (k, v) # dropWhile P m) j = (if j = k then Some v else jm_get m j)"
  by (induction m) (auto simp: map_add_def split: option.splits)

lemma jm_get_js_put: "jm_get (js_put m k v) j = (if j = k then Some v else jm_get m j)"
proof (cases "index_key k \<and> \<not> jm_has m k")
  case True
  then have "k \<notin> fst ` set m" by (auto simp: jm_has_def)
  with True show ?thesis by (simp add: js_put_def jm_get_insert_before del: map_of_append)
qed (auto simp: js_put_def)

lemma field_of_js_put: "field_of (js_put m k v) j = (if j = k then v else field_of m j)"
  by (simp add: field_of_def jm_get_js_put)

text \<open>Two paths that part at some point: neither leads through the other.\<close>

fun parted :: "string list \<Rightarrow> string list \<Rightarrow> bool" where
  "parted (k # ks) (j # js) = (if k = j then parted ks js else True)"
| "parted _ _ = False"

lemma get_nested_new:
  assumes "set ks \<inter> inherited_names = {}" and "ks \<noteq> []"
  shows "get_nested (object_or_new v) ks = get_nested v ks"
proof -
  obtain k r where "ks = k # r" using assms(2) by (cases ks) auto
  moreover have "get_nested JUndef r = Inr JUndef" by (cases r) simp_all
  ultimately show ?thesis using assms(1) by (cases v) (simp_all add: object_or_new_def)
qed

lemma nested_put_get:
  assumes "set_nested v ks x = Inr w" and "ks \<noteq> []"
  shows "get_nested w ks = Inr x"
  using assms
proof (induction v ks x arbitrary: w rule: set_nested.induct)
  case (2 v k ks x)
  then show ?case
    by (cases v) (auto simp: field_of_js_put split: if_splits sum.splits)
qed simp

lemma nested_put_other:
  assumes "set_nested v ks x = Inr w" and "parted ks js" and "set js \<inter> inherited_names = {}"
  shows "get_nested w js = get_nested v js"
  using assms
proof (induction v ks x arbitrary: w js rule: set_nested.induct)
  case (2 v k ks x)
  obtain j r where js: "js = j # r" using "2.prems"(2) by (cases js) auto
  obtain m where v: "v = JObj m" using "2.prems"(1) by (cases v) auto
  show ?case
  proof (cases "k = j")
    case True
    with "2.prems"(2) js have p: "parted ks r" "ks \<noteq> []" "r \<noteq> []" by (cases ks; cases r; auto)+
    obtain u where u: "set_nested (object_or_new (field_of m k)) ks x = Inr u" "w = JObj (js_put m k u)"
      using "2.prems"(1) v p(2) by (auto split: if_splits sum.splits)
    have "get_nested u r = get_nested (object_or_new (field_of m k)) r"
      using "2.IH" [OF v _ p(2) u(1) p(1)] "2.prems"(1,3) js v by (auto split: if_splits)
    with u v js True "2.prems"(3) p(3) show ?thesis by (simp add: field_of_js_put get_nested_new)
  next
    case False
    then show ?thesis using "2.prems"(1) v js by (auto simp: field_of_js_put split: if_splits sum.splits)
  qed
qed simp

text \<open>The laws as a contract, and what follows for a client that writes one path after another.\<close>

locale path_store =
  fixes get :: "'v \<Rightarrow> 'p \<Rightarrow> 'e + 'x" and put :: "'v \<Rightarrow> 'p \<Rightarrow> 'x \<Rightarrow> 'e + 'v"
    and apart :: "'p \<Rightarrow> 'p \<Rightarrow> bool" and readable :: "'p \<Rightarrow> bool"
  assumes put_get: "put v p x = Inr w \<Longrightarrow> readable p \<Longrightarrow> get w p = Inr x"
    and put_other: "put v p x = Inr w \<Longrightarrow> apart p q \<Longrightarrow> readable q \<Longrightarrow> get w q = get v q"
begin

fun put_all :: "'v \<Rightarrow> ('p \<times> 'x) list \<Rightarrow> 'e + 'v" where
  "put_all v [] = Inr v"
| "put_all v ((p, x) # ws) = (case put v p x of Inl e \<Rightarrow> Inl e | Inr w \<Rightarrow> put_all w ws)"

lemma put_all_other:
  "put_all v ws = Inr w \<Longrightarrow> readable q \<Longrightarrow> \<forall>(p, x) \<in> set ws. apart p q \<Longrightarrow> get w q = get v q"
  by (induction v ws rule: put_all.induct) (auto simp: put_other split: sum.splits)

lemma put_all_get:
  "put_all v (ws @ (p, x) # ws') = Inr w \<Longrightarrow> readable p \<Longrightarrow> \<forall>(q, y) \<in> set ws'. apart q p \<Longrightarrow> get w p = Inr x"
  by (induction v ws rule: put_all.induct) (auto simp: put_all_other put_get split: sum.splits)

end

definition plain_path :: "string list \<Rightarrow> bool" where
  "plain_path ks \<longleftrightarrow> ks \<noteq> [] \<and> set ks \<inter> inherited_names = {}"

interpretation nested: path_store get_nested set_nested parted plain_path
  by unfold_locales (auto simp: plain_path_def nested_put_get nested_put_other)

end
