(* ===== verification/Pubsub_Resources.thy ===== *)
theory Pubsub_Resources
  imports Pubsub_Masks
begin

text \<open>
  The named resources of Cloud Pub/Sub: the repositories of topics, subscriptions, snapshots and schemas
  (\<open>*-repository.ts\<close>), the conversions of \<open>types.ts\<close>, and \<open>topic-service.ts\<close>, \<open>snapshot-service.ts\<close> and
  \<open>schema-service.ts\<close> under \<open>src/src/services/pubsub\<close>. A method runs as one step on one clock reading. What the
  Zod schemas accept of a request body, and the data they return, is the parameter \<open>validation\<close>.
\<close>

section \<open>Calls\<close>

text \<open>What \<open>safeParse\<close> of the three schemas gives: an error text, or the parsed data.\<close>

record validation =
  vl_topic :: "jsval \<Rightarrow> string + jsobj"
  vl_subscription :: "jsval \<Rightarrow> string + jsobj"
  vl_publish :: "jsval \<Rightarrow> string + publish_input list"

definition of_result :: "pubsub_error + 'a \<Rightarrow> 'a pubsub" where
  "of_result r = (case r of Inl e \<Rightarrow> fails_with e | Inr a \<Rightarrow> done_with a)"

fun repo_failure :: "repo_error \<Rightarrow> pubsub_error" where
  "repo_failure (RepoError t) = PlainError t"
| "repo_failure (RepoStorage e) = StorageFailure e"

definition repo_call :: "(manager \<Rightarrow> (repo_error + 'a) \<times> manager) \<Rightarrow> 'a pubsub" where
  "repo_call f s =
     (case f (ms_storage s) of
        (Inl e, m) \<Rightarrow> (Inl (repo_failure e), s\<lparr>ms_storage := m\<rparr>)
      | (Inr a, m) \<Rightarrow> (Inr a, s\<lparr>ms_storage := m\<rparr>))"

definition create_in :: "runtime \<Rightarrow> int \<Rightarrow> repository \<Rightarrow> jsobj \<Rightarrow> jsobj pubsub" where
  "create_in rt now R data =
     and_then (random_uuid rt) (\<lambda>i. repo_call (rr_create (rt_platform rt) (rt_duration rt) now i R data))"

definition get_in :: "runtime \<Rightarrow> repository \<Rightarrow> jsval \<Rightarrow> jsobj option pubsub" where
  "get_in rt R name = repo_call (rr_get_by_name (rt_platform rt) (rt_duration rt) R name)"

definition update_in :: "runtime \<Rightarrow> int \<Rightarrow> repository \<Rightarrow> string \<Rightarrow> jsobj \<Rightarrow> jsobj option pubsub" where
  "update_in rt now R name data = repo_call (rr_update (rt_platform rt) (rt_duration rt) now R (JStr name) data)"

definition delete_in :: "runtime \<Rightarrow> int \<Rightarrow> repository \<Rightarrow> string \<Rightarrow> bool pubsub" where
  "delete_in rt now R name = repo_call (rr_delete (rt_platform rt) (rt_duration rt) now R (JStr name))"

definition list_in :: "runtime \<Rightarrow> repository \<Rightarrow> string \<Rightarrow> int option \<Rightarrow> string option \<Rightarrow> list_result pubsub" where
  "list_in rt R pre psize tok = repo_call (rr_list_by_prefix (rt_platform rt) (rt_duration rt) R pre psize tok)"

text \<open>\<open>storage.find\<close> with conditions, sorted by name, as the repositories list the children of a topic.\<close>

definition find_by_name_order :: "runtime \<Rightarrow> string \<Rightarrow> query_condition list \<Rightarrow> jsobj list pubsub" where
  "find_by_name_order rt table cs =
     and_then (storage_call (mg_find (rt_platform rt) (rt_duration rt) table
         \<lparr>qo_filter = Some \<lparr>qf_conditions = cs, qf_operator = None\<rparr>, qo_sort = Some by_name, qo_pagination = None\<rparr>))
       (\<lambda>q. done_with (qr_data q))"

section \<open>Tables and names\<close>

abbreviation column :: "string \<Rightarrow> column_type \<Rightarrow> bool \<Rightarrow> column_definition" where
  "column n t nl \<equiv> \<lparr>cd_name = n, cd_type = t, cd_nullable = nl, cd_unique = False\<rparr>"

abbreviation name_column :: column_definition where
  "name_column \<equiv> \<lparr>cd_name = ''name'', cd_type = CString, cd_nullable = False, cd_unique = True\<rparr>"

definition topics_schema :: table_schema where
  "topics_schema = \<lparr>ts_name = ''pubsub_topics'', ts_columns =
     [name_column, column ''labels'' CJson True, column ''messageRetentionDuration'' CString True,
      column ''kmsKeyName'' CString True, column ''schemaSettings'' CJson True, column ''satisfiesPzs'' CString True,
      column ''messageStoragePolicy'' CJson True, column ''ingestionDataSourceSettings'' CJson True,
      column ''state'' CString False], ts_timestamps = True\<rparr>"

definition subscriptions_schema :: table_schema where
  "subscriptions_schema = \<lparr>ts_name = ''pubsub_subscriptions'', ts_columns =
     [name_column, column ''topic'' CString False, column ''pushConfig'' CJson True,
      column ''bigqueryConfig'' CJson True, column ''cloudStorageConfig'' CJson True,
      column ''ackDeadlineSeconds'' CNumber False, column ''retainAckedMessages'' CNumber False,
      column ''messageRetentionDuration'' CString False, column ''labels'' CJson True,
      column ''enableMessageOrdering'' CNumber False, column ''expirationPolicy'' CJson True,
      column ''filter'' CString True, column ''deadLetterPolicy'' CJson True, column ''retryPolicy'' CJson True,
      column ''detached'' CNumber False, column ''enableExactlyOnceDelivery'' CNumber False,
      column ''topicMessageRetentionDuration'' CString True, column ''state'' CString False], ts_timestamps = True\<rparr>"

definition snapshots_schema :: table_schema where
  "snapshots_schema = \<lparr>ts_name = ''pubsub_snapshots'', ts_columns =
     [name_column, column ''topic'' CString False, column ''expireTime'' CString True, column ''labels'' CJson True],
     ts_timestamps = True\<rparr>"

definition schemas_schema :: table_schema where
  "schemas_schema = \<lparr>ts_name = ''pubsub_schemas'', ts_columns =
     [name_column, column ''type'' CString False, column ''definition'' CString True,
      column ''revisionId'' CString False, column ''revisionCreateTime'' CString False], ts_timestamps = True\<rparr>"

definition topics :: repository where
  "topics = new_repository ''pubsub_topics'' topics_schema ''topic'' (Some False)"

definition subscriptions :: repository where
  "subscriptions = new_repository ''pubsub_subscriptions'' subscriptions_schema ''subscription'' (Some False)"

definition snapshots :: repository where
  "snapshots = new_repository ''pubsub_snapshots'' snapshots_schema ''snapshot'' (Some False)"

definition schemas :: repository where
  "schemas = new_repository ''pubsub_schemas'' schemas_schema ''schema'' (Some False)"

text \<open>\<open>PubSubService.initialize\<close>: the tables in the order of the code.\<close>

definition initialize_pubsub :: "runtime \<Rightarrow> int \<Rightarrow> unit pubsub" where
  "initialize_pubsub rt now =
     and_then (repo_call (rr_initialize now topics)) (\<lambda>_.
       and_then (repo_call (rr_initialize now subscriptions)) (\<lambda>_.
         and_then (initialize_messages rt now) (\<lambda>_.
           and_then (repo_call (rr_initialize now snapshots)) (\<lambda>_. repo_call (rr_initialize now schemas)))))"

definition build_topic_name :: "string \<Rightarrow> string \<Rightarrow> string" where
  "build_topic_name project t = ''projects/'' @ project @ ''/topics/'' @ t"

definition build_subscription_name :: "string \<Rightarrow> string \<Rightarrow> string" where
  "build_subscription_name project s = ''projects/'' @ project @ ''/subscriptions/'' @ s"

definition build_snapshot_name :: "string \<Rightarrow> string \<Rightarrow> string" where
  "build_snapshot_name project s = ''projects/'' @ project @ ''/snapshots/'' @ s"

definition build_schema_name :: "string \<Rightarrow> string \<Rightarrow> string" where
  "build_schema_name project s = ''projects/'' @ project @ ''/schemas/'' @ s"

text \<open>
  \<open>parseTopicName\<close> and its siblings: \<open>/^projects\/([^/]+)\/topics\/([^/]+)$/\<close>. Without the flag for several lines
  \<open>$\<close> is the end of the text.
\<close>

definition parse_resource_name :: "string \<Rightarrow> string \<Rightarrow> (string \<times> string) option" where
  "parse_resource_name kind name =
     (case split_char (CHR ''/'') name of
        [a, p, k, r] \<Rightarrow> if a = ''projects'' \<and> k = kind \<and> p \<noteq> [] \<and> r \<noteq> [] then Some (p, r) else None
      | _ \<Rightarrow> None)"

definition missing :: "string \<Rightarrow> string \<Rightarrow> pubsub_error" where
  "missing kind n = PubSubError NotFound (kind @ '' '' @ n @ '' not found'') (Some n)"

definition present :: "string \<Rightarrow> string \<Rightarrow> pubsub_error" where
  "present kind n = PubSubError AlreadyExists (kind @ '' '' @ n @ '' already exists'') (Some n)"

text \<open>The lookup every method starts with: the record, or the error of a missing resource.\<close>

definition require :: "runtime \<Rightarrow> repository \<Rightarrow> string \<Rightarrow> string \<Rightarrow> jsobj pubsub" where
  "require rt R kind n =
     and_then (get_in rt R (JStr n)) (\<lambda>found.
       (case found of None \<Rightarrow> fails_with (missing kind n) | Some r \<Rightarrow> done_with r))"

section \<open>Responses\<close>

definition chain :: "'e + 'a \<Rightarrow> ('a \<Rightarrow> 'e + 'b) \<Rightarrow> 'e + 'b" where
  "chain x f = (case x of Inl e \<Rightarrow> Inl e | Inr a \<Rightarrow> f a)"

definition is_nullish :: "jsval \<Rightarrow> bool" where
  "is_nullish v = (v = JUndef \<or> v = JNull)"

text \<open>\<open>parseJsonFieldOptional\<close>; the columns it reads hold a text or \<open>null\<close>.\<close>

definition parse_json_field :: "jsval \<Rightarrow> pubsub_error + jsval" where
  "parse_json_field v =
     (case v of
        JUndef \<Rightarrow> Inr JUndef
      | JNull \<Rightarrow> Inr JUndef
      | JStr t \<Rightarrow> (case json_parse t of Done x \<Rightarrow> Inr x | Malformed \<Rightarrow> Inr JUndef | Beyond \<Rightarrow> Inl OutsideModel)
      | _ \<Rightarrow> Inl OutsideModel)"

definition add_json :: "string \<Rightarrow> jsobj \<Rightarrow> jsobj \<Rightarrow> pubsub_error + jsobj" where
  "add_json f r resp = chain (parse_json_field (field_of r f)) (\<lambda>v. Inr (if truthy v then jm_set resp f v else resp))"

definition add_text :: "string \<Rightarrow> jsobj \<Rightarrow> jsobj \<Rightarrow> jsobj" where
  "add_text f r resp = (if truthy (field_of r f) then jm_set resp f (field_of r f) else resp)"

definition add_flag :: "string \<Rightarrow> jsobj \<Rightarrow> jsobj \<Rightarrow> jsobj" where
  "add_flag f r resp = (if truthy (field_of r f) then jm_set resp f (JBool True) else resp)"

fun add_jsons :: "string list \<Rightarrow> jsobj \<Rightarrow> jsobj \<Rightarrow> pubsub_error + jsobj" where
  "add_jsons [] r resp = Inr resp"
| "add_jsons (f # fs) r resp = chain (add_json f r resp) (add_jsons fs r)"

definition topic_response :: "jsobj \<Rightarrow> pubsub_error + jsobj" where
  "topic_response r =
     chain (add_json ''labels'' r [(''name'', field_of r ''name''), (''state'', field_of r ''state'')]) (\<lambda>a.
       chain (add_json ''schemaSettings'' r (add_text ''kmsKeyName'' r (add_text ''messageRetentionDuration'' r a))) (\<lambda>b.
         add_jsons [''messageStoragePolicy'', ''ingestionDataSourceSettings''] r
           (if is_nullish (field_of r ''satisfiesPzs'') then b
            else jm_set b ''satisfiesPzs'' (JBool (strict_eq (field_of r ''satisfiesPzs'') (JStr ''true''))))))"

definition subscription_response :: "jsobj \<Rightarrow> pubsub_error + jsobj" where
  "subscription_response r =
     add_jsons [''labels'', ''pushConfig'', ''bigqueryConfig'', ''cloudStorageConfig'', ''expirationPolicy'',
         ''deadLetterPolicy'', ''retryPolicy''] r
       (add_text ''topicMessageRetentionDuration'' r (add_text ''filter'' r
         (add_flag ''detached'' r (add_flag ''enableExactlyOnceDelivery'' r
           (add_flag ''enableMessageOrdering'' r (add_flag ''retainAckedMessages'' r
             [(''name'', field_of r ''name''), (''topic'', field_of r ''topic''),
              (''ackDeadlineSeconds'', field_of r ''ackDeadlineSeconds''),
              (''messageRetentionDuration'', field_of r ''messageRetentionDuration''),
              (''state'', field_of r ''state'')]))))))"

definition schema_response :: "jsobj \<Rightarrow> jsobj" where
  "schema_response r =
     (let resp = [(''name'', field_of r ''name''), (''type'', field_of r ''type''),
                  (''revisionId'', field_of r ''revisionId''), (''revisionCreateTime'', field_of r ''revisionCreateTime'')]
      in if is_nullish (field_of r ''definition'') then resp else jm_set resp ''definition'' (field_of r ''definition''))"

text \<open>\<open>SnapshotService.toResponse\<close>: labels that do not parse are left out.\<close>

definition snapshot_response :: "jsobj \<Rightarrow> pubsub_error + jsobj" where
  "snapshot_response r =
     (let resp = add_text ''expireTime'' r [(''name'', field_of r ''name''), (''topic'', field_of r ''topic'')]
      in if truthy (field_of r ''labels'')
         then (case field_of r ''labels'' of
                 JStr t \<Rightarrow>
                   (case json_parse t of
                      Done v \<Rightarrow> Inr (jm_set resp ''labels'' v) | Malformed \<Rightarrow> Inr resp | Beyond \<Rightarrow> Inl OutsideModel)
               | _ \<Rightarrow> Inl OutsideModel)
         else Inr resp)"

fun responses :: "(jsobj \<Rightarrow> pubsub_error + jsobj) \<Rightarrow> jsobj list \<Rightarrow> pubsub_error + jsval list" where
  "responses f [] = Inr []"
| "responses f (r # rs) = chain (f r) (\<lambda>x. chain (responses f rs) (\<lambda>xs. Inr (JObj x # xs)))"

text \<open>The response of a listing: the converted records, and the token of the next page when there is one.\<close>

definition listing :: "string \<Rightarrow> (jsobj \<Rightarrow> pubsub_error + jsobj) \<Rightarrow> list_result \<Rightarrow> pubsub_error + jsobj" where
  "listing f conv l =
     chain (responses conv (lr_records l)) (\<lambda>xs.
       Inr ((f, JArr xs) # (case truthy_text (lr_next_token l) of None \<Rightarrow> [] | Some t \<Rightarrow> [(''nextPageToken'', JStr t)])))"

section \<open>Topics\<close>

definition topic_row :: "string \<Rightarrow> jsobj \<Rightarrow> runtime \<Rightarrow> jsobj" where
  "topic_row name body rt =
     [(''name'', JStr name), (''labels'', json_or_null (field_of body ''labels'')),
      (''messageRetentionDuration'', coalesce (field_of body ''messageRetentionDuration'') JNull),
      (''kmsKeyName'', coalesce (field_of body ''kmsKeyName'') JNull),
      (''schemaSettings'', json_or_null (field_of body ''schemaSettings'')),
      (''satisfiesPzs'', if is_nullish (field_of body ''satisfiesPzs'') then JNull
         else JStr (js_string (pf_date_string (rt_platform rt)) (field_of body ''satisfiesPzs''))),
      (''messageStoragePolicy'', json_or_null (field_of body ''messageStoragePolicy'')),
      (''ingestionDataSourceSettings'', json_or_null (field_of body ''ingestionDataSourceSettings'')),
      (''state'', JStr ''ACTIVE'')]"

definition create_topic :: "validation \<Rightarrow> runtime \<Rightarrow> int \<Rightarrow> string \<Rightarrow> string \<Rightarrow> jsval \<Rightarrow> jsobj pubsub" where
  "create_topic vl rt now project t body =
     (case vl_topic vl (coalesce body (JObj [])) of
        Inl msg \<Rightarrow> fails_with (PubSubError InvalidArgument (''Invalid topic request: '' @ msg) None)
      | Inr data \<Rightarrow>
          (let name = build_topic_name project t
           in and_then (get_in rt topics (JStr name)) (\<lambda>existing.
                (case existing of
                   Some _ \<Rightarrow> fails_with (present ''Topic'' name)
                 | None \<Rightarrow>
                     and_then (create_in rt now topics (topic_row name data rt)) (\<lambda>r. of_result (topic_response r))))))"

definition get_topic :: "runtime \<Rightarrow> string \<Rightarrow> jsobj pubsub" where
  "get_topic rt name = and_then (require rt topics ''Topic'' name) (\<lambda>r. of_result (topic_response r))"

definition list_topics :: "runtime \<Rightarrow> string \<Rightarrow> int option \<Rightarrow> string option \<Rightarrow> jsobj pubsub" where
  "list_topics rt project psize tok =
     and_then (list_in rt topics (''projects/'' @ project @ ''/topics/'') psize tok)
       (\<lambda>l. of_result (listing ''topics'' topic_response l))"

definition put_json :: "string \<Rightarrow> jsval \<Rightarrow> jsobj \<Rightarrow> jsobj" where
  "put_json f data updates = jm_set updates f (json_or_null (opt_prop data f))"

definition topic_field :: "jsval \<Rightarrow> string \<Rightarrow> jsobj \<Rightarrow> jsobj" where
  "topic_field data f updates =
     (if f \<in> {''labels'', ''schemaSettings'', ''messageStoragePolicy'', ''ingestionDataSourceSettings''}
      then put_json f data updates
      else if f = ''messageRetentionDuration'' then jm_set updates f (coalesce (opt_prop data f) JNull)
      else updates)"

text \<open>
  The updates a mask gives. A nested path needs the stored record, which must exist.
\<close>

definition masked_updates ::
  "runtime \<Rightarrow> repository \<Rightarrow> string \<Rightarrow> (jsval \<Rightarrow> string \<Rightarrow> jsobj \<Rightarrow> jsobj) \<Rightarrow> string \<Rightarrow> jsval \<Rightarrow> jsval \<Rightarrow> jsobj pubsub" where
  "masked_updates rt R kind whole name data um =
     and_then (of_result (mask_fields um)) (\<lambda>fields.
       and_then (if list_ex nested_path fields then require rt R kind name else done_with []) (\<lambda>existing.
         of_result (apply_mask rt (whole data) data existing fields [])))"

definition update_topic :: "runtime \<Rightarrow> int \<Rightarrow> string \<Rightarrow> jsval \<Rightarrow> jsobj pubsub" where
  "update_topic rt now name body =
     and_then (masked_updates rt topics ''Topic'' topic_field name
         (coalesce (opt_prop body ''topic'') (JObj [])) (opt_prop body ''updateMask'')) (\<lambda>updates.
       and_then (update_in rt now topics name updates) (\<lambda>updated.
         (case updated of
            None \<Rightarrow> fails_with (missing ''Topic'' name)
          | Some r \<Rightarrow> of_result (topic_response r))))"

definition delete_topic :: "runtime \<Rightarrow> int \<Rightarrow> string \<Rightarrow> unit pubsub" where
  "delete_topic rt now name =
     and_then (delete_in rt now topics name) (\<lambda>deleted.
       if deleted then delete_by_topic rt now name else fails_with (missing ''Topic'' name))"

section \<open>Snapshots\<close>

definition week_ms :: int where
  "week_ms = 7 * 24 * 60 * 60 * 1000"

definition text_of :: "runtime \<Rightarrow> jsval \<Rightarrow> string" where
  "text_of rt v = js_string (pf_date_string (rt_platform rt)) v"

definition create_snapshot :: "runtime \<Rightarrow> int \<Rightarrow> string \<Rightarrow> string \<Rightarrow> jsval \<Rightarrow> jsobj pubsub" where
  "create_snapshot rt now project snap body =
     and_then (of_result (get_prop body ''subscription'')) (\<lambda>target.
       if \<not> truthy target then fails_with (PubSubError InvalidArgument ''subscription is required'' None)
       else and_then (get_in rt subscriptions target) (\<lambda>found.
         (case found of
            None \<Rightarrow> fails_with (missing ''Subscription'' (text_of rt target))
          | Some sub \<Rightarrow>
              (let name = build_snapshot_name project snap
               in and_then (get_in rt snapshots (JStr name)) (\<lambda>existing.
                    (case existing of
                       Some _ \<Rightarrow> fails_with (present ''Snapshot'' name)
                     | None \<Rightarrow>
                         and_then (create_in rt now snapshots
                             [(''name'', JStr name), (''topic'', field_of sub ''topic''),
                              (''expireTime'', JStr (iso_string (now + week_ms))),
                              (''labels'', json_or_null (opt_prop body ''labels''))])
                           (\<lambda>r. of_result (snapshot_response r))))))))"

definition get_snapshot :: "runtime \<Rightarrow> string \<Rightarrow> jsobj pubsub" where
  "get_snapshot rt name = and_then (require rt snapshots ''Snapshot'' name) (\<lambda>r. of_result (snapshot_response r))"

definition list_snapshots :: "runtime \<Rightarrow> string \<Rightarrow> int option \<Rightarrow> string option \<Rightarrow> jsobj pubsub" where
  "list_snapshots rt project psize tok =
     and_then (list_in rt snapshots (''projects/'' @ project @ ''/snapshots/'') psize tok)
       (\<lambda>l. of_result (listing ''snapshots'' snapshot_response l))"

definition snapshot_field :: "jsval \<Rightarrow> string \<Rightarrow> jsobj \<Rightarrow> jsobj" where
  "snapshot_field data f updates =
     (if f = ''expireTime''
      then (if is_nullish (opt_prop data f) then updates else jm_set updates f (opt_prop data f))
      else if f = ''labels'' then put_json f data updates
      else updates)"

definition update_snapshot :: "runtime \<Rightarrow> int \<Rightarrow> string \<Rightarrow> jsval \<Rightarrow> jsobj pubsub" where
  "update_snapshot rt now name body =
     and_then (of_result (mask_fields (opt_prop body ''updateMask''))) (\<lambda>fields.
       and_then (update_in rt now snapshots name
           (fold (snapshot_field (coalesce (opt_prop body ''snapshot'') (JObj []))) fields [])) (\<lambda>updated.
         (case updated of
            None \<Rightarrow> fails_with (missing ''Snapshot'' name)
          | Some r \<Rightarrow> of_result (snapshot_response r))))"

definition delete_snapshot :: "runtime \<Rightarrow> int \<Rightarrow> string \<Rightarrow> unit pubsub" where
  "delete_snapshot rt now name =
     and_then (delete_in rt now snapshots name) (\<lambda>deleted.
       if deleted then done_with () else fails_with (missing ''Snapshot'' name))"

definition list_topic_snapshots :: "runtime \<Rightarrow> string \<Rightarrow> jsval list pubsub" where
  "list_topic_snapshots rt topic_name =
     and_then (require rt topics ''Topic'' topic_name) (\<lambda>_.
       and_then (find_by_name_order rt (rr_table snapshots) [where_eq ''topic'' topic_name]) (\<lambda>rs.
         done_with (map (\<lambda>r. field_of r ''name'') rs)))"

section \<open>Schemas\<close>

definition create_schema :: "runtime \<Rightarrow> int \<Rightarrow> string \<Rightarrow> string \<Rightarrow> jsval \<Rightarrow> jsobj pubsub" where
  "create_schema rt now project schema_id body =
     and_then (of_result (get_prop body ''type'')) (\<lambda>ty.
       if \<not> truthy ty
       then fails_with (PubSubError InvalidArgument ''Schema type is required (AVRO or PROTOCOL_BUFFER)'' None)
       else
         (let name = build_schema_name project schema_id
          in and_then (get_in rt schemas (JStr name)) (\<lambda>existing.
               (case existing of
                  Some _ \<Rightarrow> fails_with (present ''Schema'' name)
                | None \<Rightarrow>
                    and_then (random_uuid rt) (\<lambda>rev.
                      and_then (create_in rt now schemas
                          [(''name'', JStr name), (''type'', ty),
                           (''definition'', coalesce (opt_prop body ''definition'') JNull),
                           (''revisionId'', JStr rev), (''revisionCreateTime'', JStr (iso_string now))])
                        (\<lambda>r. done_with (schema_response r)))))))"

text \<open>\<open>view === 'BASIC'\<close> leaves the definition out.\<close>

definition schema_view :: "string option \<Rightarrow> jsobj \<Rightarrow> jsobj" where
  "schema_view view r = (if view = Some ''BASIC'' then jm_delete (schema_response r) ''definition'' else schema_response r)"

definition get_schema :: "runtime \<Rightarrow> string \<Rightarrow> string option \<Rightarrow> jsobj pubsub" where
  "get_schema rt name view = and_then (require rt schemas ''Schema'' name) (\<lambda>r. done_with (schema_view view r))"

definition list_schemas :: "runtime \<Rightarrow> string \<Rightarrow> int option \<Rightarrow> string option \<Rightarrow> string option \<Rightarrow> jsobj pubsub" where
  "list_schemas rt project psize tok view =
     and_then (list_in rt schemas (''projects/'' @ project @ ''/schemas/'') psize tok)
       (\<lambda>l. of_result (listing ''schemas'' (\<lambda>r. Inr (schema_view view r)) l))"

definition delete_schema :: "runtime \<Rightarrow> int \<Rightarrow> string \<Rightarrow> unit pubsub" where
  "delete_schema rt now name =
     and_then (delete_in rt now schemas name) (\<lambda>deleted.
       if deleted then done_with () else fails_with (missing ''Schema'' name))"

definition commit_schema :: "runtime \<Rightarrow> int \<Rightarrow> string \<Rightarrow> jsval \<Rightarrow> jsobj pubsub" where
  "commit_schema rt now name body =
     and_then (require rt schemas ''Schema'' name) (\<lambda>_.
       and_then (random_uuid rt) (\<lambda>rev.
         and_then (of_result (get_prop body ''schema'')) (\<lambda>sch.
           (let u0 = [(''revisionId'', JStr rev), (''revisionCreateTime'', JStr (iso_string now))];
                u1 = (if truthy (opt_prop sch ''type'') then jm_set u0 ''type'' (opt_prop sch ''type'') else u0);
                u2 = (if is_nullish (opt_prop sch ''definition'') then u1
                      else jm_set u1 ''definition'' (opt_prop sch ''definition''))
            in and_then (update_in rt now schemas name u2) (\<lambda>updated.
                 (case updated of
                    None \<Rightarrow> fails_with (missing ''Schema'' name)
                  | Some r \<Rightarrow> done_with (schema_response r)))))))"

text \<open>Revisions are not kept: \<open>rollbackSchema\<close> and \<open>deleteRevision\<close> return the current schema, a listing only it.\<close>

definition rollback_schema :: "runtime \<Rightarrow> string \<Rightarrow> jsobj pubsub" where
  "rollback_schema rt name = and_then (require rt schemas ''Schema'' name) (\<lambda>r. done_with (schema_response r))"

definition delete_revision :: "runtime \<Rightarrow> string \<Rightarrow> string \<Rightarrow> jsobj pubsub" where
  "delete_revision rt name revision = and_then (require rt schemas ''Schema'' name) (\<lambda>r. done_with (schema_response r))"

definition list_revisions :: "runtime \<Rightarrow> string \<Rightarrow> string option \<Rightarrow> jsval list pubsub" where
  "list_revisions rt name view =
     and_then (require rt schemas ''Schema'' name) (\<lambda>r. done_with [JObj (schema_view view r)])"

end
