(* ===== verification/Pubsub_Subscriptions.thy ===== *)
theory Pubsub_Subscriptions
  imports Pubsub_Resources
begin

text \<open>
  Subscriptions, and publishing, pulling and acknowledging as a client calls them:
  \<open>subscription-repository.ts\<close> and \<open>subscription-service.ts\<close> under \<open>src/src/services/pubsub\<close>. A request body
  is a JSON value; where the code hands it on unchecked, the model reads whole numbers and lists of texts and
  answers \<open>OutsideModel\<close> for values whose conversion it does not follow.
\<close>

section \<open>Queries\<close>

definition list_by_topic :: "runtime \<Rightarrow> string \<Rightarrow> jsobj list pubsub" where
  "list_by_topic rt topic_name = find_by_name_order rt (rr_table subscriptions) [where_eq ''topic'' topic_name]"

abbreviation not_detached :: query_condition where
  "not_detached \<equiv> \<lparr>qc_field = ''detached'', qc_operator = QEq, qc_value = JNum 0\<rparr>"

definition find_active :: "runtime \<Rightarrow> string \<Rightarrow> jsobj list pubsub" where
  "find_active rt topic_name =
     find_by_name_order rt (rr_table subscriptions) [where_eq ''topic'' topic_name, not_detached]"

text \<open>A push configuration counts when it parses and names an endpoint.\<close>

definition pushes :: "jsobj \<Rightarrow> pubsub_error + bool" where
  "pushes r =
     (if \<not> truthy (field_of r ''pushConfig'') then Inr False
      else case field_of r ''pushConfig'' of
        JStr t \<Rightarrow>
          (case json_parse t of
             Done v \<Rightarrow> Inr (truthy (opt_prop v ''pushEndpoint'')) | Malformed \<Rightarrow> Inr False | Beyond \<Rightarrow> Inl OutsideModel)
      | _ \<Rightarrow> Inl OutsideModel)"

fun filter_result :: "('a \<Rightarrow> 'e + bool) \<Rightarrow> 'a list \<Rightarrow> 'e + 'a list" where
  "filter_result p [] = Inr []"
| "filter_result p (x # xs) = chain (p x) (\<lambda>b. chain (filter_result p xs) (\<lambda>ys. Inr (if b then x # ys else ys)))"

definition find_push :: "runtime \<Rightarrow> jsobj list pubsub" where
  "find_push rt =
     and_then (find_rows rt (rr_table subscriptions) [not_detached] None) (\<lambda>rs. of_result (filter_result pushes rs))"

section \<open>Lifecycle\<close>

definition default_ack_deadline :: jsval where
  "default_ack_deadline = JNum 10"

definition default_retention :: jsval where
  "default_retention = JStr ''604800s''"

definition subscription_row :: "string \<Rightarrow> jsobj \<Rightarrow> jsobj" where
  "subscription_row name data =
     [(''name'', JStr name), (''topic'', field_of data ''topic''),
      (''pushConfig'', json_or_null (field_of data ''pushConfig'')),
      (''bigqueryConfig'', json_or_null (field_of data ''bigqueryConfig'')),
      (''cloudStorageConfig'', json_or_null (field_of data ''cloudStorageConfig'')),
      (''ackDeadlineSeconds'', coalesce (field_of data ''ackDeadlineSeconds'') default_ack_deadline),
      (''retainAckedMessages'', flag (field_of data ''retainAckedMessages'')),
      (''messageRetentionDuration'', coalesce (field_of data ''messageRetentionDuration'') default_retention),
      (''labels'', json_or_null (field_of data ''labels'')),
      (''enableMessageOrdering'', flag (field_of data ''enableMessageOrdering'')),
      (''expirationPolicy'', json_or_null (field_of data ''expirationPolicy'')),
      (''filter'', coalesce (field_of data ''filter'') JNull),
      (''deadLetterPolicy'', json_or_null (field_of data ''deadLetterPolicy'')),
      (''retryPolicy'', json_or_null (field_of data ''retryPolicy'')),
      (''detached'', JNum 0),
      (''enableExactlyOnceDelivery'', flag (field_of data ''enableExactlyOnceDelivery'')),
      (''topicMessageRetentionDuration'', JNull), (''state'', JStr ''ACTIVE'')]"

definition create_subscription ::
  "validation \<Rightarrow> runtime \<Rightarrow> int \<Rightarrow> string \<Rightarrow> string \<Rightarrow> jsval \<Rightarrow> jsobj pubsub" where
  "create_subscription vl rt now project sub body =
     (case vl_subscription vl (coalesce body (JObj [])) of
        Inl msg \<Rightarrow> fails_with (PubSubError InvalidArgument (''Invalid subscription request: '' @ msg) None)
      | Inr data \<Rightarrow>
          and_then (require rt topics ''Topic'' (str_field ''topic'' data)) (\<lambda>_.
            (let name = build_subscription_name project sub
             in and_then (get_in rt subscriptions (JStr name)) (\<lambda>existing.
                  (case existing of
                     Some _ \<Rightarrow> fails_with (present ''Subscription'' name)
                   | None \<Rightarrow>
                       and_then (create_in rt now subscriptions (subscription_row name data))
                         (\<lambda>r. of_result (subscription_response r)))))))"

abbreviation require_subscription :: "runtime \<Rightarrow> string \<Rightarrow> jsobj pubsub" where
  "require_subscription rt \<equiv> require rt subscriptions ''Subscription''"

definition get_subscription :: "runtime \<Rightarrow> string \<Rightarrow> jsobj pubsub" where
  "get_subscription rt name = and_then (require_subscription rt name) (\<lambda>r. of_result (subscription_response r))"

definition list_subscriptions :: "runtime \<Rightarrow> string \<Rightarrow> int option \<Rightarrow> string option \<Rightarrow> jsobj pubsub" where
  "list_subscriptions rt project psize tok =
     and_then (list_in rt subscriptions (''projects/'' @ project @ ''/subscriptions/'') psize tok)
       (\<lambda>l. of_result (listing ''subscriptions'' subscription_response l))"

text \<open>The fields of the mask that \<open>updateSubscription\<close> knows.\<close>

definition subscription_field :: "jsval \<Rightarrow> string \<Rightarrow> jsobj \<Rightarrow> jsobj" where
  "subscription_field data f updates =
     (if f = ''ackDeadlineSeconds''
      then (if is_nullish (opt_prop data f) then updates else jm_set updates f (opt_prop data f))
      else if f \<in> {''labels'', ''pushConfig'', ''expirationPolicy'', ''deadLetterPolicy'', ''retryPolicy''}
      then put_json f data updates
      else if f \<in> {''retainAckedMessages'', ''enableExactlyOnceDelivery''} then jm_set updates f (flag (opt_prop data f))
      else if f = ''messageRetentionDuration'' then jm_set updates f (coalesce (opt_prop data f) JNull)
      else updates)"

definition update_subscription :: "runtime \<Rightarrow> int \<Rightarrow> string \<Rightarrow> jsval \<Rightarrow> jsobj pubsub" where
  "update_subscription rt now name body =
     and_then (masked_updates rt subscriptions ''Subscription'' subscription_field name
         (coalesce (opt_prop body ''subscription'') (JObj [])) (opt_prop body ''updateMask'')) (\<lambda>updates.
       and_then (update_in rt now subscriptions name updates) (\<lambda>updated.
         (case updated of
            None \<Rightarrow> fails_with (missing ''Subscription'' name)
          | Some r \<Rightarrow> of_result (subscription_response r))))"

definition delete_subscription :: "runtime \<Rightarrow> int \<Rightarrow> string \<Rightarrow> unit pubsub" where
  "delete_subscription rt now name =
     and_then (delete_in rt now subscriptions name) (\<lambda>deleted.
       if deleted then delete_by_subscription rt now name else fails_with (missing ''Subscription'' name))"

definition modify_push_config :: "runtime \<Rightarrow> int \<Rightarrow> string \<Rightarrow> jsval \<Rightarrow> unit pubsub" where
  "modify_push_config rt now name body =
     and_then (require_subscription rt name) (\<lambda>_.
       and_then (of_result (get_prop body ''pushConfig'')) (\<lambda>cfg.
         and_then (update_in rt now subscriptions name [(''pushConfig'', json_or_null cfg)]) (\<lambda>_. done_with ())))"

definition detach_subscription :: "runtime \<Rightarrow> int \<Rightarrow> string \<Rightarrow> unit pubsub" where
  "detach_subscription rt now name =
     and_then (require_subscription rt name) (\<lambda>_.
       and_then (update_in rt now subscriptions name [(''detached'', JNum 1)]) (\<lambda>_. done_with ()))"

definition list_topic_subscriptions :: "runtime \<Rightarrow> string \<Rightarrow> jsval list pubsub" where
  "list_topic_subscriptions rt topic_name =
     and_then (require rt topics ''Topic'' topic_name) (\<lambda>_.
       and_then (list_by_topic rt topic_name) (\<lambda>rs. done_with (map (\<lambda>r. field_of r ''name'') rs)))"

section \<open>Messages\<close>

definition publish :: "validation \<Rightarrow> runtime \<Rightarrow> int \<Rightarrow> string \<Rightarrow> jsval \<Rightarrow> string list pubsub" where
  "publish vl rt now topic_name body =
     (case vl_publish vl (coalesce body (JObj [])) of
        Inl msg \<Rightarrow> fails_with (PubSubError InvalidArgument (''Invalid publish request: '' @ msg) None)
      | Inr msgs \<Rightarrow>
          and_then (require rt topics ''Topic'' topic_name) (\<lambda>_.
            and_then (find_active rt topic_name) (\<lambda>subs.
              publish_messages rt now topic_name msgs (map (str_field ''name'') subs))))"

definition whole_number :: "jsval \<Rightarrow> pubsub_error + int" where
  "whole_number v = (case v of JNum n \<Rightarrow> if n = of_int \<lfloor>n\<rfloor> then Inr \<lfloor>n\<rfloor> else Inl OutsideModel | _ \<Rightarrow> Inl OutsideModel)"

fun text_items :: "jsval list \<Rightarrow> pubsub_error + string list" where
  "text_items [] = Inr []"
| "text_items (v # vs) = (case v of JStr t \<Rightarrow> chain (text_items vs) (\<lambda>ts. Inr (t # ts)) | _ \<Rightarrow> Inl OutsideModel)"

text \<open>The list a \<open>for ... of\<close> walks; what is not iterable throws.\<close>

definition text_list :: "jsval \<Rightarrow> pubsub_error + string list" where
  "text_list v =
     (case v of
        JArr vs \<Rightarrow> text_items vs
      | JStr _ \<Rightarrow> Inl OutsideModel
      | _ \<Rightarrow> Inl JsTypeError)"

definition detached_error :: "string \<Rightarrow> pubsub_error" where
  "detached_error name = PubSubError FailedPrecondition (''Subscription '' @ name @ '' is detached'') None"

text \<open>The deadline is that of the call when it gives one, else that of the subscription.\<close>

definition pull :: "runtime \<Rightarrow> int \<Rightarrow> string \<Rightarrow> jsval \<Rightarrow> jsval \<Rightarrow> received_message list pubsub" where
  "pull rt now name body override =
     and_then (require_subscription rt name) (\<lambda>sub.
       if truthy (field_of sub ''detached'') then fails_with (detached_error name)
       else
         and_then (of_result (whole_number (coalesce (opt_prop body ''maxMessages'') (JNum 100)))) (\<lambda>max_messages.
           and_then (of_result (whole_number (coalesce override (field_of sub ''ackDeadlineSeconds'')))) (\<lambda>secs.
             pull_messages rt now name max_messages secs)))"

definition acknowledge :: "runtime \<Rightarrow> int \<Rightarrow> string \<Rightarrow> jsval \<Rightarrow> unit pubsub" where
  "acknowledge rt now name body =
     and_then (require_subscription rt name) (\<lambda>_.
       and_then (of_result (chain (get_prop body ''ackIds'') text_list)) (\<lambda>acks.
         acknowledge_messages rt now name acks))"

definition modify_deadline :: "runtime \<Rightarrow> int \<Rightarrow> string \<Rightarrow> jsval \<Rightarrow> unit pubsub" where
  "modify_deadline rt now name body =
     and_then (require_subscription rt name) (\<lambda>_.
       and_then (of_result (chain (get_prop body ''ackDeadlineSeconds'') whole_number)) (\<lambda>secs.
         and_then (of_result (chain (get_prop body ''ackIds'') text_list)) (\<lambda>acks.
           modify_ack_deadline rt now name acks secs)))"

text \<open>A time is compared as text; a snapshot stands for the time it was created.\<close>

definition seek :: "runtime \<Rightarrow> int \<Rightarrow> string \<Rightarrow> jsval \<Rightarrow> unit pubsub" where
  "seek rt now name body =
     and_then (require_subscription rt name) (\<lambda>_.
       and_then (of_result (get_prop body ''time'')) (\<lambda>t.
         if truthy t
         then (case t of
                 JStr before \<Rightarrow> and_then (reset_delivered_by_time rt now name before) (\<lambda>_. done_with ())
               | _ \<Rightarrow> fails_with OutsideModel)
         else if truthy (opt_prop body ''snapshot'')
         then and_then (get_in rt snapshots (opt_prop body ''snapshot'')) (\<lambda>found.
                (case found of
                   None \<Rightarrow> fails_with (missing ''Snapshot'' (text_of rt (opt_prop body ''snapshot'')))
                 | Some snap \<Rightarrow>
                     (case field_of snap ''createdAt'' of
                        JDate c \<Rightarrow> and_then (reset_delivered_by_time rt now name (iso_string c)) (\<lambda>_. done_with ())
                      | _ \<Rightarrow> fails_with OutsideModel)))
         else done_with ()))"

end
