(* ===== verification/Pubsub_Log.thy ===== *)
theory Pubsub_Log
  imports Pubsub_Messages
begin

text \<open>
  What the message tables promise: a log of messages and deliveries, on which publishing appends, pulling
  extends the deadlines of what it returns, and acknowledging marks. Every method of the repository implements
  its operation on the log (\<open>holds\<close> relates the tables to the log), so the properties of the log are properties
  of the code.
\<close>

section \<open>The log\<close>

record message =
  pm_id :: string
  pm_topic :: string
  pm_data :: "string option"
  pm_attributes :: "jsval option"
  pm_key :: "string option"
  pm_time :: string

record delivery =
  dl_row :: string
  dl_ack :: string
  dl_sub :: string
  dl_message :: string
  dl_attempt :: rat
  dl_deadline :: string
  dl_acked :: bool

record msg_log =
  lg_messages :: "message list"
  lg_deliveries :: "delivery list"
  lg_drawn :: nat

definition message_of :: "jsobj \<Rightarrow> message" where
  "message_of r =
     \<lparr>pm_id = str_field ''messageId'' r, pm_topic = str_field ''topicName'' r, pm_data = text_option ''data'' r,
      pm_attributes = (case parse_attributes r of Inl _ \<Rightarrow> None | Inr a \<Rightarrow> a),
      pm_key = text_option ''orderingKey'' r, pm_time = str_field ''publishTime'' r\<rparr>"

definition delivery_of :: "jsobj \<Rightarrow> delivery" where
  "delivery_of r =
     \<lparr>dl_row = str_field ''id'' r, dl_ack = str_field ''ackId'' r, dl_sub = str_field ''subscriptionName'' r,
      dl_message = str_field ''messageId'' r, dl_attempt = num_field ''deliveryAttempt'' r,
      dl_deadline = str_field ''ackDeadline'' r, dl_acked = (field_of r ''ackStatus'' = JStr ''ACKED'')\<rparr>"

definition is_text :: "jsval \<Rightarrow> bool" where
  "is_text v = (case v of JStr _ \<Rightarrow> True | _ \<Rightarrow> False)"

definition message_ok :: "string \<times> jsobj \<Rightarrow> bool" where
  "message_ok e \<longleftrightarrow>
     is_text (field_of (snd e) ''messageId'') \<and> is_text (field_of (snd e) ''topicName'') \<and>
     is_text (field_of (snd e) ''publishTime'') \<and>
     (\<forall>f \<in> {''data'', ''attributes'', ''orderingKey''}. field_of (snd e) f = text_or_null (text_option f (snd e))) \<and>
     (\<exists>a. parse_attributes (snd e) = Inr (map_option (\<lambda>es. JObj (string_members es)) a) \<and>
          (\<forall>es. a = Some es \<longrightarrow> make_object (string_members es) = string_members es))"

definition delivery_ok :: "string \<times> jsobj \<Rightarrow> bool" where
  "delivery_ok e \<longleftrightarrow>
     field_of (snd e) ''id'' = JStr (fst e) \<and> is_text (field_of (snd e) ''ackId'') \<and>
     is_text (field_of (snd e) ''subscriptionName'') \<and> is_text (field_of (snd e) ''messageId'') \<and>
     is_text (field_of (snd e) ''ackDeadline'') \<and>
     (\<exists>n. field_of (snd e) ''deliveryAttempt'' = JNum n) \<and>
     (field_of (snd e) ''ackStatus'' = JStr ''PENDING'' \<or> field_of (snd e) ''ackStatus'' = JStr ''ACKED'')"

definition drawn :: "runtime \<Rightarrow> nat \<Rightarrow> string set" where
  "drawn rt k = rt_uuid rt ` {..<k}"

definition tables_hold :: "runtime \<Rightarrow> message_store \<Rightarrow> msg_log \<Rightarrow> (string, jsobj) jsmap \<Rightarrow> (string, jsobj) jsmap \<Rightarrow> bool" where
  "tables_hold rt s lg M D \<longleftrightarrow>
     table_rows (ms_storage s) messages_table = Some M \<and> table_rows (ms_storage s) delivered_table = Some D \<and>
     distinct (jm_keys M) \<and> distinct (jm_keys D) \<and> list_all message_ok M \<and> list_all delivery_ok D \<and>
     set (jm_keys M) \<subseteq> drawn rt (ms_uuids s) \<and> set (jm_keys D) \<subseteq> drawn rt (ms_uuids s) \<and>
     (\<forall>d \<in> set (lg_deliveries lg). dl_ack d \<in> drawn rt (ms_uuids s)) \<and>
     (\<forall>m \<in> set (lg_messages lg). pm_id m \<in> drawn rt (ms_uuids s)) \<and>
     lg_messages lg = map (\<lambda>e. message_of (snd e)) M \<and> lg_deliveries lg = map (\<lambda>e. delivery_of (snd e)) D \<and>
     lg_drawn lg = ms_uuids s"

definition holds :: "runtime \<Rightarrow> message_store \<Rightarrow> msg_log \<Rightarrow> bool" where
  "holds rt s lg \<longleftrightarrow> (\<exists>M D. tables_hold rt s lg M D)"

text \<open>The operations on the log.\<close>

definition new_delivery :: "runtime \<Rightarrow> string \<Rightarrow> string \<Rightarrow> msg_log \<Rightarrow> msg_log" where
  "new_delivery rt mid sub lg = lg\<lparr>lg_drawn := lg_drawn lg + 2, lg_deliveries := lg_deliveries lg @
     [\<lparr>dl_row = rt_uuid rt (Suc (lg_drawn lg)), dl_ack = rt_uuid rt (lg_drawn lg), dl_sub = sub, dl_message = mid,
       dl_attempt = 0, dl_deadline = epoch_text, dl_acked = False\<rparr>]\<rparr>"

definition new_message :: "runtime \<Rightarrow> string \<Rightarrow> publish_input \<Rightarrow> string \<Rightarrow> msg_log \<Rightarrow> msg_log" where
  "new_message rt topic msg now lg = lg\<lparr>lg_drawn := lg_drawn lg + 2, lg_messages := lg_messages lg @
     [\<lparr>pm_id = rt_uuid rt (lg_drawn lg), pm_topic = topic, pm_data = pi_data msg,
       pm_attributes = map_option (\<lambda>es. JObj (string_members es)) (pi_attributes msg),
       pm_key = pi_ordering_key msg, pm_time = now\<rparr>]\<rparr>"

fun log_publish :: "runtime \<Rightarrow> string \<Rightarrow> string \<Rightarrow> string list \<Rightarrow> publish_input list \<Rightarrow> msg_log \<Rightarrow> string list \<times> msg_log" where
  "log_publish rt now topic subs [] lg = ([], lg)"
| "log_publish rt now topic subs (msg # msgs) lg =
     (let mid = rt_uuid rt (lg_drawn lg);
          lg1 = fold (new_delivery rt mid) subs (new_message rt topic msg now lg)
      in case log_publish rt now topic subs msgs lg1 of (ids, lg2) \<Rightarrow> (mid # ids, lg2))"

definition is_due :: "runtime \<Rightarrow> int \<Rightarrow> delivery \<Rightarrow> bool" where
  "is_due rt now d = (pf_locale_compare (rt_platform rt) (dl_deadline d) (iso_string now) \<le> 0)"

definition deliverable :: "runtime \<Rightarrow> int \<Rightarrow> string \<Rightarrow> delivery \<Rightarrow> bool" where
  "deliverable rt now sub d = (dl_sub d = sub \<and> \<not> dl_acked d \<and> is_due rt now d)"

definition window :: "int \<Rightarrow> 'a list \<Rightarrow> 'a list" where
  "window limit xs = (if limit = 0 then xs else js_slice 0 limit xs)"

definition find_message :: "msg_log \<Rightarrow> string \<Rightarrow> message option" where
  "find_message lg mid = List.find (\<lambda>m. pm_id m = mid) (lg_messages lg)"

definition log_eligible :: "runtime \<Rightarrow> int \<Rightarrow> string \<Rightarrow> int \<Rightarrow> msg_log \<Rightarrow> delivery list" where
  "log_eligible rt now sub limit lg =
     filter (\<lambda>d. find_message lg (dl_message d) \<noteq> None) (window limit (filter (deliverable rt now sub) (lg_deliveries lg)))"

definition receive :: "msg_log \<Rightarrow> delivery \<Rightarrow> received_message" where
  "receive lg d =
     (let m = the (find_message lg (dl_message d))
      in \<lparr>rm_ack = dl_ack d, rm_attempt = dl_attempt d + 1, rm_message_id = pm_id m, rm_publish_time = pm_time m,
          rm_data = pm_data m, rm_attributes = pm_attributes m, rm_ordering_key = truthy_text (pm_key m)\<rparr>)"

definition change_deliveries :: "(delivery \<Rightarrow> bool) \<Rightarrow> (delivery \<Rightarrow> delivery) \<Rightarrow> msg_log \<Rightarrow> msg_log" where
  "change_deliveries P g lg = lg\<lparr>lg_deliveries := map (\<lambda>d. if P d then g d else d) (lg_deliveries lg)\<rparr>"

definition log_pull :: "runtime \<Rightarrow> int \<Rightarrow> string \<Rightarrow> int \<Rightarrow> int \<Rightarrow> msg_log \<Rightarrow> received_message list \<times> msg_log" where
  "log_pull rt now sub limit secs lg =
     (let hits = log_eligible rt now sub limit lg
      in (map (receive lg) hits,
          change_deliveries (\<lambda>d. d \<in> set hits) (\<lambda>d. d\<lparr>dl_deadline := later now secs, dl_attempt := dl_attempt d + 1\<rparr>) lg))"

definition log_ack :: "string \<Rightarrow> string list \<Rightarrow> msg_log \<Rightarrow> msg_log" where
  "log_ack sub acks = change_deliveries (\<lambda>d. dl_sub d = sub \<and> dl_ack d \<in> set acks) (\<lambda>d. d\<lparr>dl_acked := True\<rparr>)"

definition log_modify :: "string \<Rightarrow> string list \<Rightarrow> string \<Rightarrow> msg_log \<Rightarrow> msg_log" where
  "log_modify sub acks deadline = change_deliveries (\<lambda>d. dl_sub d = sub \<and> dl_ack d \<in> set acks) (\<lambda>d. d\<lparr>dl_deadline := deadline\<rparr>)"

definition log_increment :: "string \<Rightarrow> string \<Rightarrow> msg_log \<Rightarrow> msg_log" where
  "log_increment i deadline =
     change_deliveries (\<lambda>d. dl_row d = i) (\<lambda>d. d\<lparr>dl_deadline := deadline, dl_attempt := dl_attempt d + 1\<rparr>)"

definition log_cleanup :: "msg_log \<Rightarrow> nat \<times> msg_log" where
  "log_cleanup lg = (length (filter dl_acked (lg_deliveries lg)),
     lg\<lparr>lg_deliveries := filter (\<lambda>d. \<not> dl_acked d) (lg_deliveries lg)\<rparr>)"

definition resettable :: "msg_log \<Rightarrow> string \<Rightarrow> string \<Rightarrow> delivery \<Rightarrow> bool" where
  "resettable lg sub before d =
     (dl_sub d = sub \<and> \<not> dl_acked d \<and>
      (case find_message lg (dl_message d) of None \<Rightarrow> False | Some m \<Rightarrow> pm_time m \<le> before))"

definition log_reset :: "string \<Rightarrow> string \<Rightarrow> msg_log \<Rightarrow> nat \<times> msg_log" where
  "log_reset sub before lg =
     (length (filter (resettable lg sub before) (lg_deliveries lg)),
      change_deliveries (resettable lg sub before) (\<lambda>d. d\<lparr>dl_deadline := epoch_text\<rparr>) lg)"

definition log_drop_subscription :: "string \<Rightarrow> msg_log \<Rightarrow> msg_log" where
  "log_drop_subscription sub lg = lg\<lparr>lg_deliveries := filter (\<lambda>d. dl_sub d \<noteq> sub) (lg_deliveries lg)\<rparr>"

definition log_drop_topic :: "string \<Rightarrow> msg_log \<Rightarrow> msg_log" where
  "log_drop_topic topic lg =
     (let ids = map pm_id (filter (\<lambda>m. pm_topic m = topic) (lg_messages lg))
      in lg\<lparr>lg_deliveries := filter (\<lambda>d. dl_message d \<notin> set ids) (lg_deliveries lg),
            lg_messages := filter (\<lambda>m. pm_topic m \<noteq> topic) (lg_messages lg)\<rparr>)"

lemma change_deliveries_simps [simp]:
  "lg_messages (change_deliveries P g lg) = lg_messages lg" "lg_drawn (change_deliveries P g lg) = lg_drawn lg"
  "find_message (change_deliveries P g lg) = find_message lg"
  by (simp_all add: change_deliveries_def find_message_def fun_eq_iff)

section \<open>The calls on the two tables\<close>

lemma storage_call_Inr: "f (ms_storage s) = (Inr a, m) \<Longrightarrow> storage_call f s = (Inr a, s\<lparr>ms_storage := m\<rparr>)"
  by (simp add: storage_call_def)

lemma is_textE: "is_text v \<Longrightarrow> (\<And>t. v = JStr t \<Longrightarrow> P) \<Longrightarrow> P"
  by (cases v) (auto simp: is_text_def)

lemma str_field_JStr: "is_text (field_of r f) \<Longrightarrow> field_of r f = JStr (str_field f r)"
  by (auto simp: str_field_def elim: is_textE)

lemma table_names [simp]: "messages_table \<noteq> delivered_table" "delivered_table \<noteq> messages_table"
  by (simp_all add: messages_table_def delivered_table_def)

lemma drawn_Suc [simp]: "drawn rt (Suc k) = insert (rt_uuid rt k) (drawn rt k)"
  by (simp add: drawn_def lessThan_Suc)

lemma drawn_fresh: "inj (rt_uuid rt) \<Longrightarrow> rt_uuid rt k \<notin> drawn rt k"
  by (auto simp: drawn_def dest: injD)

lemma holdsE:
  assumes "holds rt s lg"
  obtains M D where "tables_hold rt s lg M D"
  using assms unfolding holds_def by blast

lemma holdsI: "tables_hold rt s lg M D \<Longrightarrow> holds rt s lg"
  unfolding holds_def by blast

lemma holds_drawn: "holds rt s lg \<Longrightarrow> lg_drawn lg = ms_uuids s"
  by (auto simp: holds_def tables_hold_def)

lemma holds_cong:
  "holds rt s lg \<Longrightarrow> table_rows (ms_storage s') = table_rows (ms_storage s) \<Longrightarrow> ms_uuids s' = ms_uuids s \<Longrightarrow> holds rt s' lg"
  unfolding holds_def tables_hold_def by simp

lemma holds_uuid:
  assumes "holds rt s lg"
  shows "\<exists>s'. random_uuid rt s = (Inr (rt_uuid rt (lg_drawn lg)), s') \<and> ms_storage s' = ms_storage s \<and>
    holds rt s' (lg\<lparr>lg_drawn := Suc (lg_drawn lg)\<rparr>)"
proof -
  obtain M D where h: "tables_hold rt s lg M D" using assms by (rule holdsE)
  have "tables_hold rt (s\<lparr>ms_uuids := Suc (ms_uuids s)\<rparr>) (lg\<lparr>lg_drawn := Suc (lg_drawn lg)\<rparr>) M D"
    using h by (auto simp: tables_hold_def)
  then show ?thesis using holds_drawn [OF assms] by (auto simp: random_uuid_def intro: holdsI)
qed

lemma delivered_row_record:
  "delivery_ok (i, new_record now i (delivered_row ack sub mid))"
  "delivery_of (new_record now i (delivered_row ack sub mid)) =
     \<lparr>dl_row = i, dl_ack = ack, dl_sub = sub, dl_message = mid, dl_attempt = 0, dl_deadline = epoch_text, dl_acked = False\<rparr>"
  by (simp_all add: delivery_ok_def delivery_of_def field_of_new_record delivered_row_def
      is_text_def str_field_def num_field_def)

definition attributes_ok :: "publish_input \<Rightarrow> bool" where
  "attributes_ok msg = (case pi_attributes msg of None \<Rightarrow> True | Some es \<Rightarrow> make_object (string_members es) = string_members es)"

lemma message_row_record:
  assumes "attributes_ok msg"
  shows "message_ok (i, new_record now i (message_row mid topic msg t))"
    and "message_of (new_record now i (message_row mid topic msg t)) =
      \<lparr>pm_id = mid, pm_topic = topic, pm_data = pi_data msg,
       pm_attributes = map_option (\<lambda>es. JObj (string_members es)) (pi_attributes msg),
       pm_key = pi_ordering_key msg, pm_time = t\<rparr>"
proof -
  let ?r = "new_record now i (message_row mid topic msg t)"
  have fields: "field_of ?r ''messageId'' = JStr mid" "field_of ?r ''topicName'' = JStr topic"
      "field_of ?r ''data'' = text_or_null (pi_data msg)" "field_of ?r ''attributes'' = stringify_or_null (pi_attributes msg)"
      "field_of ?r ''orderingKey'' = text_or_null (pi_ordering_key msg)" "field_of ?r ''publishTime'' = JStr t"
    by (simp_all add: field_of_new_record message_row_def)
  have attrs: "parse_attributes ?r = Inr (map_option (\<lambda>es. JObj (string_members es)) (pi_attributes msg))"
  proof (cases "pi_attributes msg")
    case (Some es)
    then obtain t where "json_stringify (JObj (string_members es)) = Some t" "t \<noteq> []" "json_parse t = Done (JObj (string_members es))"
      using assms json_string_object_roundtrip [of es] by (auto simp: attributes_ok_def)
    then show ?thesis by (simp add: parse_attributes_def fields stringify_or_null_def Some)
  qed (simp add: parse_attributes_def fields stringify_or_null_def)
  have texts: "text_or_null (text_option f ?r) = field_of ?r f" if "field_of ?r f = text_or_null v" for f v
    using that by (auto simp: text_option_def text_or_null_def split: option.splits)
  have "\<exists>v. stringify_or_null (pi_attributes msg) = text_or_null v"
  proof (cases "pi_attributes msg")
    case (Some es)
    then obtain t where "json_stringify (JObj (string_members es)) = Some t"
      using assms json_string_object_roundtrip [of es] by (auto simp: attributes_ok_def)
    with Some show ?thesis by (auto simp: stringify_or_null_def text_or_null_def intro!: exI [of _ "Some t"])
  qed (auto simp: stringify_or_null_def text_or_null_def intro!: exI [of _ None])
  then have "\<forall>f \<in> {''data'', ''attributes'', ''orderingKey''}. field_of ?r f = text_or_null (text_option f ?r)"
    using texts fields by (metis empty_iff insert_iff)
  moreover have "\<forall>es. pi_attributes msg = Some es \<longrightarrow> make_object (string_members es) = string_members es"
    using assms by (simp add: attributes_ok_def split: option.splits)
  ultimately show "message_ok (i, ?r)" using attrs by (auto simp: message_ok_def fields is_text_def)
  show "message_of ?r = \<lparr>pm_id = mid, pm_topic = topic, pm_data = pi_data msg,
       pm_attributes = map_option (\<lambda>es. JObj (string_members es)) (pi_attributes msg),
       pm_key = pi_ordering_key msg, pm_time = t\<rparr>"
    by (simp add: message_of_def str_field_def text_option_def fields attrs text_or_null_def split: option.splits)
qed

text \<open>Appending a row with a fresh id.\<close>

lemma holds_create_delivery:
  assumes "holds rt s lg" and "inj (rt_uuid rt)" and "ack \<in> drawn rt (lg_drawn lg)"
  shows "\<exists>r s'. create_row rt now delivered_table (delivered_row ack sub mid) s = (Inr r, s') \<and>
    holds rt s' (lg\<lparr>lg_drawn := Suc (lg_drawn lg), lg_deliveries := lg_deliveries lg @
      [\<lparr>dl_row = rt_uuid rt (lg_drawn lg), dl_ack = ack, dl_sub = sub, dl_message = mid, dl_attempt = 0,
        dl_deadline = epoch_text, dl_acked = False\<rparr>]\<rparr>)"
proof -
  let ?i = "rt_uuid rt (lg_drawn lg)" let ?r = "new_record now ?i (delivered_row ack sub mid)"
  obtain s1 where u: "random_uuid rt s = (Inr ?i, s1)" and s1: "ms_storage s1 = ms_storage s"
      and h1: "holds rt s1 (lg\<lparr>lg_drawn := Suc (lg_drawn lg)\<rparr>)"
    using holds_uuid [OF assms(1)] by blast
  obtain M D where h: "tables_hold rt s lg M D" using assms(1) by (rule holdsE)
  then have D: "table_rows (ms_storage s1) delivered_table = Some D" and fresh: "?i \<notin> set (jm_keys D)"
    using drawn_fresh [OF assms(2), of "lg_drawn lg"] s1 by (auto simp: tables_hold_def)
  then have set: "jm_set D ?i ?r = D @ [(?i, ?r)]" by (intro jm_set_fresh) (simp add: map_of_eq_None_iff)
  obtain m' where c: "mg_create (rt_duration rt) now ?i delivered_table (delivered_row ack sub mid) (ms_storage s1) = (Inr ?r, m')"
      and rows: "table_rows m' = (table_rows (ms_storage s1))(delivered_table \<mapsto> D @ [(?i, ?r)])"
    using row_create [OF D, of "rt_duration rt" now ?i "delivered_row ack sub mid"] unfolding set by blast
  have "create_row rt now delivered_table (delivered_row ack sub mid) s = (Inr ?r, s1\<lparr>ms_storage := m'\<rparr>)"
    by (simp add: create_row_def and_then_Inr u storage_call_Inr c)
  moreover have "ms_uuids s1 = Suc (lg_drawn lg)" using holds_drawn [OF h1] by simp
  then have "tables_hold rt (s1\<lparr>ms_storage := m'\<rparr>) (lg\<lparr>lg_drawn := Suc (lg_drawn lg), lg_deliveries := lg_deliveries lg @
      [\<lparr>dl_row = ?i, dl_ack = ack, dl_sub = sub, dl_message = mid, dl_attempt = 0,
        dl_deadline = epoch_text, dl_acked = False\<rparr>]\<rparr>) M (D @ [(?i, ?r)])"
    using h rows s1 fresh assms(3) by (auto simp: tables_hold_def delivered_row_record)
  ultimately show ?thesis by (auto intro: holdsI)
qed

lemma holds_create_message:
  assumes "holds rt s lg" and "inj (rt_uuid rt)" and "mid \<in> drawn rt (lg_drawn lg)" and "attributes_ok msg"
  shows "\<exists>r s'. create_row rt now messages_table (message_row mid topic msg t) s = (Inr r, s') \<and>
    holds rt s' (lg\<lparr>lg_drawn := Suc (lg_drawn lg), lg_messages := lg_messages lg @
      [\<lparr>pm_id = mid, pm_topic = topic, pm_data = pi_data msg,
        pm_attributes = map_option (\<lambda>es. JObj (string_members es)) (pi_attributes msg),
        pm_key = pi_ordering_key msg, pm_time = t\<rparr>]\<rparr>)"
proof -
  let ?i = "rt_uuid rt (lg_drawn lg)" let ?r = "new_record now ?i (message_row mid topic msg t)"
  obtain s1 where u: "random_uuid rt s = (Inr ?i, s1)" and s1: "ms_storage s1 = ms_storage s"
      and h1: "holds rt s1 (lg\<lparr>lg_drawn := Suc (lg_drawn lg)\<rparr>)"
    using holds_uuid [OF assms(1)] by blast
  obtain M D where h: "tables_hold rt s lg M D" using assms(1) by (rule holdsE)
  then have M: "table_rows (ms_storage s1) messages_table = Some M" and fresh: "?i \<notin> set (jm_keys M)"
    using drawn_fresh [OF assms(2), of "lg_drawn lg"] s1 by (auto simp: tables_hold_def)
  then have set: "jm_set M ?i ?r = M @ [(?i, ?r)]" by (intro jm_set_fresh) (simp add: map_of_eq_None_iff)
  obtain m' where c: "mg_create (rt_duration rt) now ?i messages_table (message_row mid topic msg t) (ms_storage s1) = (Inr ?r, m')"
      and rows: "table_rows m' = (table_rows (ms_storage s1))(messages_table \<mapsto> M @ [(?i, ?r)])"
    using row_create [OF M, of "rt_duration rt" now ?i "message_row mid topic msg t"] unfolding set by blast
  have "create_row rt now messages_table (message_row mid topic msg t) s = (Inr ?r, s1\<lparr>ms_storage := m'\<rparr>)"
    by (simp add: create_row_def and_then_Inr u storage_call_Inr c)
  moreover have "ms_uuids s1 = Suc (lg_drawn lg)" using holds_drawn [OF h1] by simp
  then have "tables_hold rt (s1\<lparr>ms_storage := m'\<rparr>) (lg\<lparr>lg_drawn := Suc (lg_drawn lg), lg_messages := lg_messages lg @
      [\<lparr>pm_id = mid, pm_topic = topic, pm_data = pi_data msg,
        pm_attributes = map_option (\<lambda>es. JObj (string_members es)) (pi_attributes msg),
        pm_key = pi_ordering_key msg, pm_time = t\<rparr>]\<rparr>) (M @ [(?i, ?r)]) D"
    using h rows s1 fresh assms(3) by (auto simp: tables_hold_def message_row_record [OF assms(4)])
  ultimately show ?thesis by (auto intro: holdsI)
qed


section \<open>Publishing\<close>

lemma holds_fan_out:
  assumes "holds rt s lg" and "inj (rt_uuid rt)"
  shows "\<exists>s'. fan_out rt now mid sub s = (Inr (), s') \<and> holds rt s' (new_delivery rt mid sub lg)"
proof -
  let ?ack = "rt_uuid rt (lg_drawn lg)"
  obtain s1 where u: "random_uuid rt s = (Inr ?ack, s1)" and h: "holds rt s1 (lg\<lparr>lg_drawn := Suc (lg_drawn lg)\<rparr>)"
    using holds_uuid [OF assms(1)] by blast
  obtain r s2 where "create_row rt now delivered_table (delivered_row ?ack sub mid) s1 = (Inr r, s2)"
      and "holds rt s2 (new_delivery rt mid sub lg)"
    using holds_create_delivery [OF h assms(2), of ?ack now sub mid] by (auto simp: new_delivery_def)
  then show ?thesis by (auto simp: fan_out_def and_then_Inr u done_with_def)
qed

lemma publish_loop_refines:
  assumes "holds rt s lg" and "inj (rt_uuid rt)" and "list_all attributes_ok msgs"
  shows "\<exists>s'. publish_loop rt now topic subs msgs ids s = (Inr (ids @ fst (log_publish rt (iso_string now) topic subs msgs lg)), s') \<and>
    holds rt s' (snd (log_publish rt (iso_string now) topic subs msgs lg))"
  using assms(1,3)
proof (induction msgs arbitrary: s lg ids)
  case (Cons msg msgs)
  let ?mid = "rt_uuid rt (lg_drawn lg)"
  obtain s1 where u: "random_uuid rt s = (Inr ?mid, s1)" and h1: "holds rt s1 (lg\<lparr>lg_drawn := Suc (lg_drawn lg)\<rparr>)"
    using holds_uuid [OF Cons.prems(1)] by blast
  obtain r s2 where c: "create_row rt now messages_table (message_row ?mid topic msg (iso_string now)) s1 = (Inr r, s2)"
      and h2: "holds rt s2 (new_message rt topic msg (iso_string now) lg)"
    using holds_create_message [OF h1 assms(2), of ?mid msg now topic "iso_string now"] Cons.prems(2) by (auto simp: new_message_def)
  obtain s3 where l: "for_each (fan_out rt now ?mid) subs s2 = (Inr (), s3)"
      and h3: "holds rt s3 (fold (new_delivery rt ?mid) subs (new_message rt topic msg (iso_string now) lg))"
    using for_each_simulates [of "holds rt" s2 _ subs "fan_out rt now ?mid" "new_delivery rt ?mid", OF h2] holds_fan_out [OF _ assms(2)]
    by blast
  from Cons.IH [OF h3, of "ids @ [?mid]"] Cons.prems(2) show ?case
    by (auto simp: and_then_Inr u c l Let_def split: prod.splits)
qed (simp add: done_with_def)

section \<open>Reading and changing rows\<close>

lemma delivery_ok_row: "delivery_ok e \<Longrightarrow> dl_row (delivery_of (snd e)) = fst e"
  by (simp add: delivery_ok_def delivery_of_def str_field_def)

lemma window_map [simp]: "window l (map f xs) = map f (window l xs)"
  by (simp add: window_def js_slice_def Let_def take_map drop_map)

lemma set_window: "set (window l xs) \<subseteq> set xs"
  by (auto simp: window_def js_slice_def Let_def dest: in_set_takeD in_set_dropD)

lemma distinct_window: "distinct xs \<Longrightarrow> distinct (window l xs)"
  by (simp add: window_def js_slice_def Let_def)

definition page_window :: "int option \<Rightarrow> 'a list \<Rightarrow> 'a list" where
  "page_window l xs = (case l of None \<Rightarrow> xs | Some n \<Rightarrow> window n xs)"

lemma page_data: "qr_data (page_of (map_option (\<lambda>l. \<lparr>pg_limit = Some l, pg_offset = Some 0\<rparr>) l) rs) = page_window l rs"
  by (cases l) (simp_all add: page_of_def page_window_def window_def Let_def)

lemma find_deliveries:
  assumes "tables_hold rt s lg M D"
    and "\<And>e. delivery_ok e \<Longrightarrow>
      matches_filter (rt_platform rt) \<lparr>qf_conditions = cs, qf_operator = None\<rparr> (snd e) = P (delivery_of (snd e))"
  shows "\<exists>s'. find_rows rt delivered_table cs (map_option (\<lambda>l. \<lparr>pg_limit = Some l, pg_offset = Some 0\<rparr>) l) s =
      (Inr (map snd (page_window l (filter (\<lambda>e. P (delivery_of (snd e))) D))), s') \<and> tables_hold rt s' lg M D"
proof -
  let ?f = "\<lparr>qf_conditions = cs, qf_operator = None\<rparr>"
  have D: "table_rows (ms_storage s) delivered_table = Some D" using assms(1) by (simp add: tables_hold_def)
  obtain m' where c: "mg_find (rt_platform rt) (rt_duration rt) delivered_table
        \<lparr>qo_filter = Some ?f, qo_sort = None, qo_pagination = map_option (\<lambda>l. \<lparr>pg_limit = Some l, pg_offset = Some 0\<rparr>) l\<rparr> (ms_storage s) =
      (Inr (page_of (map_option (\<lambda>l. \<lparr>pg_limit = Some l, pg_offset = Some 0\<rparr>) l) (filter (matches_filter (rt_platform rt) ?f) (map snd D))), m')"
      and m': "table_rows m' = table_rows (ms_storage s)"
    using row_find [OF D] by blast
  have "filter (matches_filter (rt_platform rt) ?f) (map snd D) = map snd (filter (\<lambda>e. P (delivery_of (snd e))) D)"
    using assms by (auto simp: filter_map o_def tables_hold_def list_all_iff intro!: arg_cong [of _ _ "map snd"] filter_cong)
  moreover have "page_window l (map snd xs) = map snd (page_window l xs)" for xs :: "(string \<times> jsobj) list"
    by (simp add: page_window_def split: option.splits)
  moreover have "tables_hold rt (s\<lparr>ms_storage := m'\<rparr>) lg M D" using assms(1) m' by (simp add: tables_hold_def)
  ultimately show ?thesis
    by (auto simp: find_rows_def and_then_def storage_call_Inr c done_with_def page_data)
qed

lemma find_message_row:
  assumes "tables_hold rt s lg M D" and "delivery_ok e"
  shows "\<exists>s'. message_of_delivery rt (snd e) s =
      (Inr (map_option snd (List.find (\<lambda>m. pm_id (message_of (snd m)) = dl_message (delivery_of (snd e))) M)), s') \<and>
      tables_hold rt s' lg M D"
proof -
  let ?mid = "dl_message (delivery_of (snd e))"
  have mid: "field_of (snd e) ''messageId'' = JStr ?mid"
    using assms(2) by (auto simp: delivery_ok_def delivery_of_def intro: str_field_JStr)
  let ?f = "\<lparr>qf_conditions = [where_eq ''messageId'' ?mid], qf_operator = None\<rparr>"
  have M: "table_rows (ms_storage s) messages_table = Some M" "list_all message_ok M" using assms(1) by (auto simp: tables_hold_def)
  obtain m' where c: "mg_find_first (rt_platform rt) (rt_duration rt) messages_table
        \<lparr>qo_filter = Some ?f, qo_sort = None, qo_pagination = None\<rparr> (ms_storage s) =
      (Inr (List.find (matches_filter (rt_platform rt) ?f) (map snd M)), m')"
      and m': "table_rows m' = table_rows (ms_storage s)"
    using row_find_first [OF M(1)] by blast
  have "List.find (matches_filter (rt_platform rt) ?f) (map snd M) =
      map_option snd (List.find (\<lambda>m. pm_id (message_of (snd m)) = ?mid) M)"
    using M(2)
  proof (induction M)
    case (Cons m M)
    have "field_of (snd m) ''messageId'' = JStr (pm_id (message_of (snd m)))"
      using Cons.prems by (auto simp: message_ok_def message_of_def intro: str_field_JStr)
    then show ?case using Cons by (auto simp: matches_filter_def matches_condition_def)
  qed simp
  moreover have "tables_hold rt (s\<lparr>ms_storage := m'\<rparr>) lg M D" using assms(1) m' by (simp add: tables_hold_def)
  ultimately show ?thesis
    by (auto simp: message_of_delivery_def find_first_row_def mid storage_call_Inr c)
qed

text \<open>An update of the columns of deliveries, as a change of the log.\<close>

definition changes_to :: "int \<Rightarrow> jsobj \<Rightarrow> (delivery \<Rightarrow> delivery) \<Rightarrow> bool" where
  "changes_to now data g \<longleftrightarrow>
     (\<forall>i r. delivery_ok (i, r) \<longrightarrow> delivery_ok (i, updated_record now r data) \<and>
        delivery_of (updated_record now r data) = g (delivery_of r)) \<and>
     (\<forall>d. dl_ack (g d) = dl_ack d)"

lemma tables_hold_change:
  assumes "tables_hold rt s lg M D" and "changes_to now data g"
    and "table_rows (ms_storage s') = (table_rows (ms_storage s))(delivered_table \<mapsto> update_rows Q (\<lambda>r. updated_record now r data) D)"
    and "\<And>e. e \<in> set D \<Longrightarrow> Q (snd e) = P (delivery_of (snd e))" and "ms_uuids s' = ms_uuids s"
  shows "tables_hold rt s' (change_deliveries P g lg) M (update_rows Q (\<lambda>r. updated_record now r data) D)"
proof -
  let ?D = "update_rows Q (\<lambda>r. updated_record now r data) D"
  have ok: "list_all delivery_ok ?D"
    using assms(1,2) by (auto simp: update_rows_def tables_hold_def list_all_iff changes_to_def)
  have "map (\<lambda>e. delivery_of (snd e)) ?D = map (\<lambda>d. if P d then g d else d) (map (\<lambda>e. delivery_of (snd e)) D)"
    using assms(1,2,4) by (fastforce simp: update_rows_def tables_hold_def list_all_iff changes_to_def)
  then have dels: "lg_deliveries (change_deliveries P g lg) = map (\<lambda>e. delivery_of (snd e)) ?D"
    using assms(1) by (simp add: change_deliveries_def tables_hold_def)
  have "\<forall>d \<in> set (lg_deliveries lg). dl_ack d \<in> drawn rt (ms_uuids s)" using assms(1) by (simp add: tables_hold_def)
  then have acks: "\<forall>d \<in> set (lg_deliveries (change_deliveries P g lg)). dl_ack d \<in> drawn rt (ms_uuids s)"
    using assms(2) by (auto simp: changes_to_def change_deliveries_def)
  show ?thesis
    using assms(1,3,5) ok dels acks by (simp add: tables_hold_def)
qed

lemma jm_set_as_update:
  "distinct (jm_keys D) \<Longrightarrow> jm_get D i = Some r \<Longrightarrow> (\<And>e. e \<in> set D \<Longrightarrow> Q (snd e) \<longleftrightarrow> fst e = i) \<Longrightarrow>
     jm_set D i (g r) = update_rows Q g D"
proof (induction D)
  case (Cons e D)
  obtain j x where e: "e = (j, x)" by (cases e)
  show ?case
  proof (cases "j = i")
    case True
    have "\<not> Q (snd z)" if "z \<in> set D" for z
    proof -
      have "fst z \<noteq> i" using that Cons.prems(1) True e by force
      then show ?thesis using Cons.prems(3) [of z] that by simp
    qed
    then have "update_rows Q g D = D" unfolding update_rows_def by (intro map_idI) auto
    then show ?thesis using True Cons.prems(1,2) Cons.prems(3) [of e] e by (simp add: update_rows_def)
  next
    case False
    then show ?thesis using Cons.IH Cons.prems Cons.prems(3) [of e] e by (simp add: update_rows_def)
  qed
qed simp

lemma update_row_change:
  assumes "tables_hold rt s lg M D" and "i \<in> set (jm_keys D)" and "changes_to now data g"
  shows "\<exists>s' D'. update_row rt now delivered_table i data s = (Inr (), s') \<and>
    tables_hold rt s' (change_deliveries (\<lambda>d. dl_row d = i) g lg) M D' \<and> jm_keys D' = jm_keys D"
proof -
  let ?Q = "\<lambda>r. str_field ''id'' r = i"
  have D: "table_rows (ms_storage s) delivered_table = Some D" "distinct (jm_keys D)" "list_all delivery_ok D"
    using assms(1) by (auto simp: tables_hold_def)
  obtain r where r: "jm_get D i = Some r" using assms(2) by (metis map_of_eq_None_iff not_None_eq list.set_map)
  have ids: "?Q (snd e) = (dl_row (delivery_of (snd e)) = i)" "?Q (snd e) \<longleftrightarrow> fst e = i" if "e \<in> set D" for e
    using D(3) that by (auto simp: list_all_iff delivery_ok_def delivery_of_def str_field_def)
  have set: "jm_set D i (updated_record now r data) = update_rows ?Q (\<lambda>r. updated_record now r data) D"
    using jm_set_as_update [OF D(2) r, of ?Q "\<lambda>r. updated_record now r data"] ids(2) by blast
  obtain m' where c: "mg_update_by_id (rt_duration rt) now delivered_table i data (ms_storage s) =
        (Inr (Some (updated_record now r data)), m')"
      and m': "table_rows m' = (table_rows (ms_storage s))(delivered_table \<mapsto> update_rows ?Q (\<lambda>r. updated_record now r data) D)"
    using row_update [OF D(1) r, of "rt_duration rt" now data] unfolding set by blast
  have "tables_hold rt (s\<lparr>ms_storage := m'\<rparr>) (change_deliveries (\<lambda>d. dl_row d = i) g lg) M
      (update_rows ?Q (\<lambda>r. updated_record now r data) D)"
    by (rule tables_hold_change [OF assms(1,3)]) (use m' ids(1) in simp_all)
  moreover have "update_row rt now delivered_table i data s = (Inr (), s\<lparr>ms_storage := m'\<rparr>)"
    by (simp add: update_row_def and_then_def storage_call_Inr c done_with_def)
  ultimately show ?thesis using update_rows_keys by blast
qed

lemma update_where_change:
  assumes "tables_hold rt s lg M D" and "changes_to now data g"
    and "\<And>e. delivery_ok e \<Longrightarrow>
      matches_filter (rt_platform rt) \<lparr>qf_conditions = cs, qf_operator = None\<rparr> (snd e) = P (delivery_of (snd e))"
  shows "\<exists>s' D'. update_rows_where rt now delivered_table cs data s = (Inr (), s') \<and>
    tables_hold rt s' (change_deliveries P g lg) M D' \<and> jm_keys D' = jm_keys D"
proof -
  let ?Q = "matches_filter (rt_platform rt) \<lparr>qf_conditions = cs, qf_operator = None\<rparr>"
  have D: "table_rows (ms_storage s) delivered_table = Some D" "distinct (jm_keys D)" "list_all delivery_ok D"
    using assms(1) by (auto simp: tables_hold_def)
  obtain n m' where c: "mg_update_many (rt_platform rt) (rt_duration rt) now delivered_table
        \<lparr>qf_conditions = cs, qf_operator = None\<rparr> data (ms_storage s) = (Inr n, m')"
      and m': "table_rows m' = (table_rows (ms_storage s))(delivered_table \<mapsto> update_rows ?Q (\<lambda>r. updated_record now r data) D)"
    using row_update_many [OF D(1,2)] by blast
  have "tables_hold rt (s\<lparr>ms_storage := m'\<rparr>) (change_deliveries P g lg) M (update_rows ?Q (\<lambda>r. updated_record now r data) D)"
    by (rule tables_hold_change [OF assms(1,2)]) (use m' assms(3) D(3) in \<open>auto simp: list_all_iff\<close>)
  moreover have "update_rows_where rt now delivered_table cs data s = (Inr (), s\<lparr>ms_storage := m'\<rparr>)"
    by (simp add: update_rows_where_def and_then_def storage_call_Inr c done_with_def)
  ultimately show ?thesis using update_rows_keys by blast
qed

lemma delete_where_filter:
  assumes "tables_hold rt s lg M D"
    and "\<And>e. delivery_ok e \<Longrightarrow>
      matches_filter (rt_platform rt) \<lparr>qf_conditions = cs, qf_operator = None\<rparr> (snd e) = P (delivery_of (snd e))"
  shows "\<exists>s' D'. delete_rows_where rt now delivered_table cs s = (Inr (), s') \<and>
    tables_hold rt s' (lg\<lparr>lg_deliveries := filter (\<lambda>d. \<not> P d) (lg_deliveries lg)\<rparr>) M D'"
proof -
  let ?Q = "matches_filter (rt_platform rt) \<lparr>qf_conditions = cs, qf_operator = None\<rparr>"
  let ?D = "filter (\<lambda>(i, r). \<not> ?Q r) D"
  have D: "table_rows (ms_storage s) delivered_table = Some D" "distinct (jm_keys D)" "list_all delivery_ok D"
    using assms(1) by (auto simp: tables_hold_def)
  obtain n m' where c: "mg_delete_many (rt_platform rt) (rt_duration rt) now delivered_table
        \<lparr>qf_conditions = cs, qf_operator = None\<rparr> (ms_storage s) = (Inr n, m')"
      and m': "table_rows m' = (table_rows (ms_storage s))(delivered_table \<mapsto> ?D)"
    using row_delete_many [OF D(1,2)] by blast
  have dels: "filter (\<lambda>d. \<not> P d) (lg_deliveries lg) = map (\<lambda>e. delivery_of (snd e)) ?D"
    using assms D(3) by (auto simp: tables_hold_def filter_map o_def list_all_iff intro!: arg_cong [of _ _ "map _"] filter_cong)
  have "\<forall>d \<in> set (lg_deliveries lg). dl_ack d \<in> drawn rt (ms_uuids s)" using assms(1) by (simp add: tables_hold_def)
  then have acks: "\<forall>d \<in> set (filter (\<lambda>d. \<not> P d) (lg_deliveries lg)). dl_ack d \<in> drawn rt (ms_uuids s)" by simp
  have keys: "distinct (jm_keys ?D)" "set (jm_keys ?D) \<subseteq> set (jm_keys D)" using D(2) by (auto simp: distinct_map_filter)
  have "tables_hold rt (s\<lparr>ms_storage := m'\<rparr>) (lg\<lparr>lg_deliveries := filter (\<lambda>d. \<not> P d) (lg_deliveries lg)\<rparr>) M ?D"
    unfolding tables_hold_def msg_log.simps message_store.simps
    using assms(1) m' acks keys dels D(3) by (auto simp: tables_hold_def list_all_iff)
  then show ?thesis
    by (intro exI conjI) (auto simp: delete_rows_where_def and_then_def storage_call_Inr c done_with_def)
qed

section \<open>The conditions of the queries\<close>

lemma matches_and [simp]:
  "matches_filter pf \<lparr>qf_conditions = cs, qf_operator = None\<rparr> r = list_all (matches_condition pf r) cs"
  by (simp add: matches_filter_def)

lemma delivery_fields:
  assumes "delivery_ok e"
  shows "matches_condition pf (snd e) (where_eq ''subscriptionName'' sub) \<longleftrightarrow> dl_sub (delivery_of (snd e)) = sub"
    "matches_condition pf (snd e) (where_eq ''ackId'' ack) \<longleftrightarrow> dl_ack (delivery_of (snd e)) = ack"
    "matches_condition pf (snd e) (where_eq ''messageId'' mid) \<longleftrightarrow> dl_message (delivery_of (snd e)) = mid"
    "matches_condition pf (snd e) (where_eq ''id'' i) \<longleftrightarrow> dl_row (delivery_of (snd e)) = i"
    "matches_condition pf (snd e) (where_eq ''ackStatus'' ''PENDING'') \<longleftrightarrow> \<not> dl_acked (delivery_of (snd e))"
    "matches_condition pf (snd e) (where_eq ''ackStatus'' ''ACKED'') \<longleftrightarrow> dl_acked (delivery_of (snd e))"
    "matches_condition pf (snd e) \<lparr>qc_field = ''ackDeadline'', qc_operator = QLte, qc_value = JStr t\<rparr> \<longleftrightarrow>
      pf_locale_compare pf (dl_deadline (delivery_of (snd e))) t \<le> 0"
  using assms
  by (auto simp: delivery_ok_def delivery_of_def matches_condition_def str_field_def compare_values_def elim!: is_textE)

lemma changes:
  "changes_to now [(''ackDeadline'', JStr t), (''deliveryAttempt'', JNum n)] (\<lambda>d. d\<lparr>dl_deadline := t, dl_attempt := n\<rparr>)"
  "changes_to now [(''deliveryAttempt'', JNum n), (''ackDeadline'', JStr t)] (\<lambda>d. d\<lparr>dl_deadline := t, dl_attempt := n\<rparr>)"
  "changes_to now [(''ackDeadline'', JStr t)] (\<lambda>d. d\<lparr>dl_deadline := t\<rparr>)"
  "changes_to now [(''ackStatus'', JStr ''ACKED'')] (\<lambda>d. d\<lparr>dl_acked := True\<rparr>)"
  by (simp_all add: changes_to_def delivery_ok_def delivery_of_def field_of_updated is_text_def str_field_def num_field_def)

lemma due_matches:
  "delivery_ok e \<Longrightarrow> matches_filter (rt_platform rt) \<lparr>qf_conditions = due_conditions sub now, qf_operator = None\<rparr> (snd e)
     = deliverable rt now sub (delivery_of (snd e))"
  by (simp add: due_conditions_def delivery_fields deliverable_def is_due_def)

section \<open>Each method implements its operation on the log\<close>

lemma eligible_rows:
  assumes "tables_hold rt s lg M D"
  shows "\<exists>s'. find_rows rt delivered_table (due_conditions sub now) (Some \<lparr>pg_limit = Some l, pg_offset = Some 0\<rparr>) s =
      (Inr (map snd (window l (filter (\<lambda>e. deliverable rt now sub (delivery_of (snd e))) D))), s') \<and> tables_hold rt s' lg M D"
  using find_deliveries [OF assms due_matches, of sub now "Some l"] by (simp add: page_window_def)

lemma find_row_message:
  assumes "tables_hold rt s lg M D"
  shows "find_message lg mid = map_option (\<lambda>m. message_of (snd m)) (List.find (\<lambda>m. pm_id (message_of (snd m)) = mid) M)"
proof -
  have "List.find (\<lambda>m. pm_id m = mid) (map (\<lambda>e. message_of (snd e)) M) =
      map_option (\<lambda>m. message_of (snd m)) (List.find (\<lambda>m. pm_id (message_of (snd m)) = mid) M)"
    by (induction M) simp_all
  then show ?thesis using assms by (simp add: find_message_def tables_hold_def)
qed

lemma received_row:
  assumes "tables_hold rt s lg M D" and "delivery_ok e"
    and "List.find (\<lambda>m. pm_id (message_of (snd m)) = dl_message (delivery_of (snd e))) M = Some m"
  shows "received (str_field ''ackId'' (snd e)) (num_field ''deliveryAttempt'' (snd e) + 1) (snd m) = Inr (receive lg (delivery_of (snd e)))"
proof -
  have "m \<in> set M" using assms(3) by (auto simp: find_Some_iff)
  then obtain a where "parse_attributes (snd m) = Inr a" using assms(1) by (auto simp: tables_hold_def list_all_iff message_ok_def)
  then show ?thesis
    using find_row_message [OF assms(1), of "dl_message (delivery_of (snd e))"] assms(3)
    by (simp add: received_def receive_def message_of_def delivery_of_def)
qed

text \<open>The loop of \<open>pullMessages\<close>: one touch per delivery whose message is still there.\<close>

definition touch :: "string \<Rightarrow> delivery \<Rightarrow> msg_log \<Rightarrow> msg_log" where
  "touch deadline h = change_deliveries (\<lambda>d. dl_row d = dl_row h) (\<lambda>d. d\<lparr>dl_deadline := deadline, dl_attempt := dl_attempt h + 1\<rparr>)"

lemma pull_loop_refines:
  assumes "tables_hold rt s lg M D" and "\<And>e. e \<in> set es \<Longrightarrow> delivery_ok e \<and> fst e \<in> set (jm_keys D)"
    and "find_message lg = find_message lg0"
  defines "hits \<equiv> filter (\<lambda>d. find_message lg0 (dl_message d) \<noteq> None) (map (\<lambda>e. delivery_of (snd e)) es)"
  shows "\<exists>s'. pull_loop rt now secs (map snd es) acc s = (Inr (acc @ map (receive lg0) hits), s') \<and>
    holds rt s' (fold (touch (later now secs)) hits lg)"
  using assms(1-3) unfolding hits_def
proof (induction es arbitrary: s lg D acc)
  case Nil
  then show ?case by (auto simp: done_with_def intro: holdsI)
next
  case (Cons e es)
  let ?d = "delivery_of (snd e)"
  have e: "delivery_ok e" "fst e \<in> set (jm_keys D)" using Cons.prems(2) by auto
  obtain s1 where f: "message_of_delivery rt (snd e) s =
      (Inr (map_option snd (List.find (\<lambda>m. pm_id (message_of (snd m)) = dl_message ?d) M)), s1)"
      and h1: "tables_hold rt s1 lg M D"
    using find_message_row [OF Cons.prems(1) e(1)] by blast
  have fm: "find_message lg0 (dl_message ?d) =
      map_option (\<lambda>m. message_of (snd m)) (List.find (\<lambda>m. pm_id (message_of (snd m)) = dl_message ?d) M)"
    using find_row_message [OF Cons.prems(1)] Cons.prems(3) by metis
  show ?case
  proof (cases "List.find (\<lambda>m. pm_id (message_of (snd m)) = dl_message ?d) M")
    case None
    then show ?thesis
      using Cons.IH [OF h1 _ Cons.prems(3), of acc] Cons.prems(2) f fm by (simp add: and_then_Inr)
  next
    case (Some m)
    have row: "id_of (rt_platform rt) (snd e) = dl_row ?d" "dl_row ?d = fst e"
      using e(1) delivery_ok_row [OF e(1)] by (simp_all add: id_of_def delivery_ok_def)
    have n: "num_field ''deliveryAttempt'' (snd e) = dl_attempt ?d" by (simp add: delivery_of_def)
    obtain s2 D' where u: "update_row rt now delivered_table (dl_row ?d)
          [(''ackDeadline'', JStr (later now secs)), (''deliveryAttempt'', JNum (dl_attempt ?d + 1))] s1 = (Inr (), s2)"
        and h2: "tables_hold rt s2 (touch (later now secs) ?d lg) M D'" and k: "jm_keys D' = jm_keys D"
      using update_row_change [OF h1 _ changes(1), of "dl_row ?d" now "later now secs" "dl_attempt ?d + 1"] e(2) row(2)
      by (auto simp: touch_def)
    have lg0: "find_message (touch (later now secs) ?d lg) = find_message lg0" using Cons.prems(3) by (simp add: touch_def)
    have "receive lg = receive lg0" using Cons.prems(3) by (simp add: receive_def fun_eq_iff)
    then have r: "received (str_field ''ackId'' (snd e)) (dl_attempt ?d + 1) (snd m) = Inr (receive lg0 ?d)"
      using received_row [OF h1 e(1) Some] n by simp
    have "\<And>x. x \<in> set es \<Longrightarrow> delivery_ok x \<and> fst x \<in> set (jm_keys D')" using Cons.prems(2) k by auto
    from Cons.IH [OF h2 this lg0, of "acc @ [receive lg0 ?d]"] show ?thesis
      using f u r fm Some by (simp add: and_then_Inr row(1) n Let_def)
  qed
qed

lemma fold_touch:
  assumes "distinct (map dl_row (lg_deliveries lg))" and "set hits \<subseteq> set (lg_deliveries lg)" and "distinct hits"
  shows "fold (touch t) hits lg =
    change_deliveries (\<lambda>d. d \<in> set hits) (\<lambda>d. d\<lparr>dl_deadline := t, dl_attempt := dl_attempt d + 1\<rparr>) lg"
proof -
  let ?f = "\<lambda>h d. if dl_row d = dl_row h then d\<lparr>dl_deadline := t, dl_attempt := dl_attempt h + 1\<rparr> else d"
  have fold_map: "fold (touch t) hs l = l\<lparr>lg_deliveries := map (\<lambda>d. fold ?f hs d) (lg_deliveries l)\<rparr>" for hs l
    by (induction hs arbitrary: l) (auto simp: touch_def change_deliveries_def)
  have inj: "dl_row x = dl_row y \<longleftrightarrow> x = y" if "x \<in> set (lg_deliveries lg)" "y \<in> set (lg_deliveries lg)" for x y
    using assms(1) that by (auto simp: distinct_map dest: inj_onD)
  have none: "fold ?f hs d = d" if "dl_row d \<notin> dl_row ` set hs" for hs d
    using that by (induction hs) auto
  have "fold ?f hs d = (if d \<in> set hs then d\<lparr>dl_deadline := t, dl_attempt := dl_attempt d + 1\<rparr> else d)"
    if "set hs \<subseteq> set (lg_deliveries lg)" "distinct hs" "d \<in> set (lg_deliveries lg)" for hs d
    using that
  proof (induction hs)
    case (Cons h hs)
    show ?case
    proof (cases "d = h")
      case True
      have "dl_row h \<notin> dl_row ` set hs" using Cons.prems inj by auto
      then show ?thesis using True none [of "h\<lparr>dl_deadline := t, dl_attempt := dl_attempt h + 1\<rparr>" hs] by simp
    next
      case False
      then have "dl_row d \<noteq> dl_row h" using inj Cons.prems by auto
      then show ?thesis using Cons False by simp
    qed
  qed simp
  then show ?thesis using assms(2,3) by (simp add: fold_map change_deliveries_def)
qed

lemma tables_rows_distinct:
  assumes "tables_hold rt s lg M D"
  shows "distinct (map dl_row (lg_deliveries lg))" and "map dl_row (lg_deliveries lg) = jm_keys D"
proof -
  show keys: "map dl_row (lg_deliveries lg) = jm_keys D"
    using assms by (auto simp: tables_hold_def list_all_iff delivery_ok_row)
  show "distinct (map dl_row (lg_deliveries lg))" unfolding keys using assms by (simp add: tables_hold_def)
qed

lemma eligible_deliveries:
  assumes "tables_hold rt s lg M D"
  shows "map (\<lambda>e. delivery_of (snd e)) (window l (filter (\<lambda>e. P (delivery_of (snd e))) D)) = window l (filter P (lg_deliveries lg))"
proof -
  have "lg_deliveries lg = map (\<lambda>e. delivery_of (snd e)) D" using assms by (simp add: tables_hold_def)
  then show ?thesis by (simp add: filter_map o_def)
qed

lemma pull_refines:
  assumes "holds rt s lg"
  shows "\<exists>s'. pull_messages rt now sub limit secs s = (Inr (fst (log_pull rt now sub limit secs lg)), s') \<and>
    holds rt s' (snd (log_pull rt now sub limit secs lg))"
proof -
  obtain M D where h: "tables_hold rt s lg M D" using assms by (rule holdsE)
  let ?es = "window limit (filter (\<lambda>e. deliverable rt now sub (delivery_of (snd e))) D)"
  let ?hits = "log_eligible rt now sub limit lg"
  obtain s1 where f: "find_rows rt delivered_table (due_conditions sub now) (Some \<lparr>pg_limit = Some limit, pg_offset = Some 0\<rparr>) s =
      (Inr (map snd ?es), s1)" and h1: "tables_hold rt s1 lg M D"
    using eligible_rows [OF h] by blast
  have ok: "delivery_ok e \<and> fst e \<in> set (jm_keys D)" if "e \<in> set ?es" for e
    using that set_window [of limit "filter (\<lambda>e. deliverable rt now sub (delivery_of (snd e))) D"] h
    by (auto simp: tables_hold_def list_all_iff)
  have hits: "filter (\<lambda>d. find_message lg (dl_message d) \<noteq> None) (map (\<lambda>e. delivery_of (snd e)) ?es) = ?hits"
    unfolding log_eligible_def eligible_deliveries [OF h, of limit "deliverable rt now sub"] ..
  obtain s2 where p: "pull_loop rt now secs (map snd ?es) [] s1 = (Inr (map (receive lg) ?hits), s2)"
      and h2: "holds rt s2 (fold (touch (later now secs)) ?hits lg)"
    using pull_loop_refines [where es = ?es and now = now and secs = secs and acc = "[]", OF h1 ok refl] unfolding hits by auto
  have "set ?hits \<subseteq> set (lg_deliveries lg)" "distinct ?hits"
    using tables_rows_distinct(1) [OF h] set_window [of limit "filter (deliverable rt now sub) (lg_deliveries lg)"]
    by (auto simp: log_eligible_def distinct_map intro!: distinct_filter distinct_window)
  from h2 [unfolded fold_touch [OF tables_rows_distinct(1) [OF h] this]]
  show ?thesis by (auto simp: pull_messages_def and_then_Inr f p log_pull_def Let_def)
qed

lemma ack_matches:
  "delivery_ok e \<Longrightarrow> matches_filter (rt_platform rt) \<lparr>qf_conditions = ack_conditions a sub, qf_operator = None\<rparr> (snd e)
     = (dl_ack (delivery_of (snd e)) = a \<and> dl_sub (delivery_of (snd e)) = sub)"
  by (simp add: ack_conditions_def delivery_fields)

lemma change_twice:
  assumes "\<And>d. g (g d) = g d" and "\<And>d. Q (g d) = Q d"
  shows "change_deliveries Q g (change_deliveries P g lg) = change_deliveries (\<lambda>d. Q d \<or> P d) g lg"
proof -
  have "(\<lambda>d. if Q d then g d else d) \<circ> (\<lambda>d. if P d then g d else d) = (\<lambda>d. if Q d \<or> P d then g d else d)"
    by (auto simp: fun_eq_iff assms)
  then show ?thesis by (simp add: change_deliveries_def)
qed

lemma change_where_loop:
  assumes "holds rt s lg" and "changes_to now data g"
    and "\<And>d. g (g d) = g d" and "\<And>d. dl_sub (g d) = dl_sub d" and "\<And>d. dl_ack (g d) = dl_ack d"
  shows "\<exists>s'. for_each (\<lambda>a. update_rows_where rt now delivered_table (ack_conditions a sub) data) acks s = (Inr (), s') \<and>
    holds rt s' (change_deliveries (\<lambda>d. dl_sub d = sub \<and> dl_ack d \<in> set acks) g lg)"
proof -
  have step: "\<exists>s'. update_rows_where rt now delivered_table (ack_conditions a sub) data s = (Inr (), s') \<and>
      holds rt s' (change_deliveries (\<lambda>d. dl_ack d = a \<and> dl_sub d = sub) g l)" if h: "holds rt s l" for a s l
  proof -
    obtain M D where "tables_hold rt s l M D" using h by (rule holdsE)
    from update_where_change [OF this assms(2) ack_matches, of a sub] show ?thesis by (blast intro: holdsI)
  qed
  have "fold (\<lambda>a. change_deliveries (\<lambda>d. dl_ack d = a \<and> dl_sub d = sub) g) acks l =
      change_deliveries (\<lambda>d. dl_sub d = sub \<and> dl_ack d \<in> set acks) g l" for l
  proof (induction acks arbitrary: l)
    case Nil
    then show ?case by (simp add: change_deliveries_def)
  next
    case (Cons a acks)
    then show ?case
      using change_twice [of g "\<lambda>d. dl_sub d = sub \<and> dl_ack d \<in> set acks" "\<lambda>d. dl_ack d = a \<and> dl_sub d = sub" l] assms(3-5)
      by (simp add: conj_disj_distribL conj_commute disj_commute)
  qed
  then show ?thesis
    using for_each_simulates [of "holds rt" s lg acks "\<lambda>a. update_rows_where rt now delivered_table (ack_conditions a sub) data"
        "\<lambda>a. change_deliveries (\<lambda>d. dl_ack d = a \<and> dl_sub d = sub) g"] assms(1) step by simp
qed

lemma ack_refines:
  "holds rt s lg \<Longrightarrow> \<exists>s'. acknowledge_messages rt now sub acks s = (Inr (), s') \<and> holds rt s' (log_ack sub acks lg)"
  unfolding acknowledge_messages_def log_ack_def by (rule change_where_loop [OF _ changes(4)]) simp_all

lemma modify_refines:
  "holds rt s lg \<Longrightarrow> \<exists>s'. modify_ack_deadline rt now sub acks secs s = (Inr (), s') \<and>
     holds rt s' (log_modify sub acks (later now secs) lg)"
  unfolding modify_ack_deadline_def log_modify_def by (rule change_where_loop [OF _ changes(3)]) simp_all

lemma increment_refines:
  assumes "holds rt s lg"
  shows "\<exists>s'. increment_delivery_attempt rt now i t s = (Inr (), s') \<and> holds rt s' (log_increment i t lg)"
proof -
  obtain M D where h: "tables_hold rt s lg M D" using assms by (rule holdsE)
  let ?es = "filter (\<lambda>e. dl_row (delivery_of (snd e)) = i) D"
  have "delivery_ok e \<Longrightarrow> matches_filter (rt_platform rt) \<lparr>qf_conditions = [where_eq ''id'' i], qf_operator = None\<rparr> (snd e)
     = (dl_row (delivery_of (snd e)) = i)" for e by (simp add: delivery_fields)
  from find_deliveries [where l = None, OF h this]
  obtain s1 where f: "find_rows rt delivered_table [where_eq ''id'' i] None s = (Inr (map snd ?es), s1)"
      and h1: "tables_hold rt s1 lg M D"
    by (auto simp: page_window_def)
  show ?thesis
  proof (cases ?es)
    case Nil
    have "lg_deliveries lg = map (\<lambda>e. delivery_of (snd e)) D" using h by (simp add: tables_hold_def)
    then have "map (\<lambda>d. if dl_row d = i then d\<lparr>dl_deadline := t, dl_attempt := dl_attempt d + 1\<rparr> else d) (lg_deliveries lg) = lg_deliveries lg"
      using Nil by (auto simp: filter_empty_conv intro!: map_idI)
    then have "log_increment i t lg = lg" by (simp add: log_increment_def change_deliveries_def)
    then show ?thesis using Nil h1 by (auto simp: increment_delivery_attempt_def and_then_Inr f done_with_def intro: holdsI)
  next
    case (Cons e es)
    then have "e \<in> set ?es" by simp
    then have e: "e \<in> set D" "dl_row (delivery_of (snd e)) = i" by simp_all
    have ok: "delivery_ok e" using e(1) h by (auto simp: tables_hold_def list_all_iff)
    then have i: "i = fst e" using delivery_ok_row e(2) by simp
    have n: "num_field ''deliveryAttempt'' (snd e) = dl_attempt (delivery_of (snd e))" by (simp add: delivery_of_def)
    obtain s2 D' where u: "update_row rt now delivered_table i
          [(''deliveryAttempt'', JNum (dl_attempt (delivery_of (snd e)) + 1)), (''ackDeadline'', JStr t)] s1 = (Inr (), s2)"
        and h2: "tables_hold rt s2 (change_deliveries (\<lambda>d. dl_row d = i)
            (\<lambda>d. d\<lparr>dl_deadline := t, dl_attempt := dl_attempt (delivery_of (snd e)) + 1\<rparr>) lg) M D'"
      using update_row_change [OF h1 _ changes(2), of i now "dl_attempt (delivery_of (snd e)) + 1" t] e(1) i by auto
    have mem: "delivery_of (snd e) \<in> set (lg_deliveries lg)" using e(1) h by (auto simp: tables_hold_def)
    have inj: "inj_on dl_row (set (lg_deliveries lg))" using tables_rows_distinct(1) [OF h] by (simp only: distinct_map)
    have "d = delivery_of (snd e)" if "d \<in> set (lg_deliveries lg)" "dl_row d = i" for d
      by (rule inj_onD [OF inj _ that(1) mem]) (simp add: that(2) e(2))
    then have "log_increment i t lg = change_deliveries (\<lambda>d. dl_row d = i)
            (\<lambda>d. d\<lparr>dl_deadline := t, dl_attempt := dl_attempt (delivery_of (snd e)) + 1\<rparr>) lg"
      by (auto simp: log_increment_def change_deliveries_def)
    then show ?thesis using Cons h2
      by (auto simp: increment_delivery_attempt_def and_then_Inr f u n intro: holdsI)
  qed
qed

lemma cleanup_refines:
  assumes "holds rt s lg"
  shows "\<exists>s'. cleanup_acked_messages rt now s = (Inr (fst (log_cleanup lg)), s') \<and> holds rt s' (snd (log_cleanup lg))"
proof -
  obtain M D where h: "tables_hold rt s lg M D" using assms by (rule holdsE)
  let ?es = "filter (\<lambda>e. dl_acked (delivery_of (snd e))) D"
  have m: "delivery_ok e \<Longrightarrow> matches_filter (rt_platform rt) \<lparr>qf_conditions = [where_eq ''ackStatus'' ''ACKED''], qf_operator = None\<rparr> (snd e)
     = dl_acked (delivery_of (snd e))" for e by (simp add: delivery_fields)
  from find_deliveries [where l = None, OF h m]
  obtain s1 where f: "find_rows rt delivered_table [where_eq ''ackStatus'' ''ACKED''] None s = (Inr (map snd ?es), s1)"
      and h1: "tables_hold rt s1 lg M D"
    by (auto simp: page_window_def)
  from delete_where_filter [OF h1 m]
  obtain s2 D' where d: "delete_rows_where rt now delivered_table [where_eq ''ackStatus'' ''ACKED''] s1 = (Inr (), s2)"
      and h2: "tables_hold rt s2 (lg\<lparr>lg_deliveries := filter (\<lambda>d. \<not> dl_acked d) (lg_deliveries lg)\<rparr>) M D'"
    by blast
  have dels: "lg_deliveries lg = map (\<lambda>e. delivery_of (snd e)) D" using h by (simp add: tables_hold_def)
  then have n: "length (filter dl_acked (lg_deliveries lg)) = length ?es" by (simp add: filter_map o_def)
  show ?thesis
  proof (cases "?es = []")
    case True
    then have "filter (\<lambda>d. \<not> dl_acked d) (lg_deliveries lg) = lg_deliveries lg"
      using dels by (auto simp: filter_empty_conv filter_id_conv)
    then show ?thesis using h1 True n
      by (auto simp: cleanup_acked_messages_def and_then_Inr f done_with_def log_cleanup_def intro: holdsI)
  next
    case False
    then show ?thesis using h2 n
      by (auto simp: cleanup_acked_messages_def and_then_Inr f d done_with_def log_cleanup_def intro: holdsI)
  qed
qed

lemma drop_subscription_refines:
  assumes "holds rt s lg"
  shows "\<exists>s'. delete_by_subscription rt now sub s = (Inr (), s') \<and> holds rt s' (log_drop_subscription sub lg)"
proof -
  obtain M D where h: "tables_hold rt s lg M D" using assms by (rule holdsE)
  have "delivery_ok e \<Longrightarrow> matches_filter (rt_platform rt) \<lparr>qf_conditions = [where_eq ''subscriptionName'' sub], qf_operator = None\<rparr> (snd e)
     = (dl_sub (delivery_of (snd e)) = sub)" for e by (simp add: delivery_fields)
  from delete_where_filter [OF h this] show ?thesis
    unfolding delete_by_subscription_def log_drop_subscription_def by (blast intro: holdsI)
qed

text \<open>Seeking: one reset per pending delivery of a message that is old enough.\<close>

lemma reset_loop_refines:
  fixes before :: string
  assumes "tables_hold rt s lg M D" and "\<And>e. e \<in> set es \<Longrightarrow> delivery_ok e \<and> fst e \<in> set (jm_keys D)"
    and "find_message lg = find_message lg0"
  defines "old \<equiv> (\<lambda>d. case find_message lg0 (dl_message d) of None \<Rightarrow> False | Some m \<Rightarrow> pm_time m \<le> before)"
  defines "hits \<equiv> filter old (map (\<lambda>e. delivery_of (snd e)) es)"
  shows "\<exists>s'. reset_loop rt now before (map snd es) n s = (Inr (n + length hits), s') \<and>
    holds rt s' (change_deliveries (\<lambda>d. dl_row d \<in> dl_row ` set hits) (\<lambda>d. d\<lparr>dl_deadline := epoch_text\<rparr>) lg)"
  using assms(1-3) unfolding hits_def
proof (induction es arbitrary: s lg D n)
  case Nil
  then have "change_deliveries (\<lambda>d. False) (\<lambda>d. d\<lparr>dl_deadline := epoch_text\<rparr>) lg = lg" by (simp add: change_deliveries_def)
  with Nil show ?case by (auto simp: done_with_def intro: holdsI)
next
  case (Cons e es)
  let ?d = "delivery_of (snd e)"
  have e: "delivery_ok e" "fst e \<in> set (jm_keys D)" using Cons.prems(2) by auto
  obtain s1 where f: "message_of_delivery rt (snd e) s =
      (Inr (map_option snd (List.find (\<lambda>m. pm_id (message_of (snd m)) = dl_message ?d) M)), s1)"
      and h1: "tables_hold rt s1 lg M D"
    using find_message_row [OF Cons.prems(1) e(1)] by blast
  have "find_message lg0 (dl_message ?d) =
      map_option (\<lambda>m. message_of (snd m)) (List.find (\<lambda>m. pm_id (message_of (snd m)) = dl_message ?d) M)"
    using find_row_message [OF Cons.prems(1)] Cons.prems(3) by metis
  then have old: "old ?d \<longleftrightarrow> (\<exists>m. List.find (\<lambda>m. pm_id (message_of (snd m)) = dl_message ?d) M = Some m \<and>
      str_field ''publishTime'' (snd m) \<le> before)"
    by (auto simp: old_def message_of_def split: option.splits)
  show ?case
  proof (cases "old ?d")
    case False
    then show ?thesis
      using Cons.IH [OF h1 _ Cons.prems(3), of n] Cons.prems(2) f old by (auto simp: and_then_Inr split: option.splits)
  next
    case True
    have row: "id_of (rt_platform rt) (snd e) = dl_row ?d" "dl_row ?d = fst e"
      using e(1) delivery_ok_row [OF e(1)] by (simp_all add: id_of_def delivery_ok_def)
    let ?g = "\<lambda>d. d\<lparr>dl_deadline := epoch_text\<rparr>"
    obtain s2 D' where u: "update_row rt now delivered_table (dl_row ?d) [(''ackDeadline'', JStr epoch_text)] s1 = (Inr (), s2)"
        and h2: "tables_hold rt s2 (change_deliveries (\<lambda>d. dl_row d = dl_row ?d) ?g lg) M D'" and k: "jm_keys D' = jm_keys D"
      using update_row_change [OF h1 _ changes(3), of "dl_row ?d" now epoch_text] e(2) row(2) by auto
    have "\<And>x. x \<in> set es \<Longrightarrow> delivery_ok x \<and> fst x \<in> set (jm_keys D')" using Cons.prems(2) k by auto
    from Cons.IH [OF h2 this, of "Suc n"] Cons.prems(3) True u f old
      change_twice [of ?g "\<lambda>d. dl_row d \<in> dl_row ` set (filter old (map (\<lambda>e. delivery_of (snd e)) es))" "\<lambda>d. dl_row d = dl_row ?d" lg]
    show ?thesis by (auto simp: and_then_Inr row(1) disj_commute)
  qed
qed

lemma reset_refines:
  assumes "holds rt s lg"
  shows "\<exists>s'. reset_delivered_by_time rt now sub before s = (Inr (fst (log_reset sub before lg)), s') \<and>
    holds rt s' (snd (log_reset sub before lg))"
proof -
  obtain M D where h: "tables_hold rt s lg M D" using assms by (rule holdsE)
  let ?P = "\<lambda>d. dl_sub d = sub \<and> \<not> dl_acked d"
  let ?es = "filter (\<lambda>e. ?P (delivery_of (snd e))) D"
  have "delivery_ok e \<Longrightarrow> matches_filter (rt_platform rt)
      \<lparr>qf_conditions = [where_eq ''subscriptionName'' sub, where_eq ''ackStatus'' ''PENDING''], qf_operator = None\<rparr> (snd e)
     = ?P (delivery_of (snd e))" for e by (simp add: delivery_fields)
  from find_deliveries [where l = None, OF h this]
  obtain s1 where f: "find_rows rt delivered_table [where_eq ''subscriptionName'' sub, where_eq ''ackStatus'' ''PENDING''] None s =
      (Inr (map snd ?es), s1)" and h1: "tables_hold rt s1 lg M D"
    by (auto simp: page_window_def)
  have dels: "lg_deliveries lg = map (\<lambda>e. delivery_of (snd e)) D" using h by (simp add: tables_hold_def)
  have inj: "inj_on dl_row (set (lg_deliveries lg))" using tables_rows_distinct(1) [OF h] by (simp only: distinct_map)
  let ?old = "\<lambda>d. case find_message lg (dl_message d) of None \<Rightarrow> False | Some m \<Rightarrow> pm_time m \<le> before"
  have "map (\<lambda>e. delivery_of (snd e)) ?es = filter ?P (lg_deliveries lg)" using dels by (simp add: filter_map o_def)
  then have hits: "filter ?old (map (\<lambda>e. delivery_of (snd e)) ?es) = filter (resettable lg sub before) (lg_deliveries lg)"
    by (simp add: resettable_def [abs_def] conj_ac)
  have ok: "delivery_ok e \<and> fst e \<in> set (jm_keys D)" if "e \<in> set ?es" for e
    using that h by (auto simp: tables_hold_def list_all_iff)
  obtain s2 where p: "reset_loop rt now before (map snd ?es) 0 s1 =
        (Inr (length (filter (resettable lg sub before) (lg_deliveries lg))), s2)"
      and h2: "holds rt s2 (change_deliveries (\<lambda>d. dl_row d \<in> dl_row ` set (filter (resettable lg sub before) (lg_deliveries lg)))
        (\<lambda>d. d\<lparr>dl_deadline := epoch_text\<rparr>) lg)"
    using reset_loop_refines [where es = ?es and now = now and n = 0, OF h1 ok refl, of before] unfolding hits by auto
  have "change_deliveries (\<lambda>d. dl_row d \<in> dl_row ` set (filter (resettable lg sub before) (lg_deliveries lg))) g lg =
      change_deliveries (resettable lg sub before) g lg" for g
    using inj by (auto simp: change_deliveries_def dest: inj_onD intro!: arg_cong [of _ _ "\<lambda>x. lg\<lparr>lg_deliveries := x\<rparr>"])
  with h2 show ?thesis by (auto simp: reset_delivered_by_time_def and_then_Inr f p log_reset_def)
qed

lemma message_fields:
  assumes "message_ok e"
  shows "matches_condition pf (snd e) (where_eq ''topicName'' topic) \<longleftrightarrow> pm_topic (message_of (snd e)) = topic"
    and "field_of (snd e) ''messageId'' = JStr (pm_id (message_of (snd e)))"
  using assms by (auto simp: message_ok_def message_of_def matches_condition_def str_field_def elim!: is_textE)

lemma drop_topic_refines:
  assumes "holds rt s lg"
  shows "\<exists>s'. delete_by_topic rt now topic s = (Inr (), s') \<and> holds rt s' (log_drop_topic topic lg)"
proof -
  obtain M D where h: "tables_hold rt s lg M D" using assms by (rule holdsE)
  let ?c = "[where_eq ''topicName'' topic]" let ?f = "\<lparr>qf_conditions = ?c, qf_operator = None\<rparr>"
  let ?Q = "matches_filter (rt_platform rt) ?f" let ?P = "\<lambda>m. pm_topic m = topic"
  have M: "table_rows (ms_storage s) messages_table = Some M" "distinct (jm_keys M)" "list_all message_ok M"
      "lg_messages lg = map (\<lambda>e. message_of (snd e)) M"
    using h by (auto simp: tables_hold_def)
  have Q: "?Q (snd e) = ?P (message_of (snd e))" if "e \<in> set M" for e
    using message_fields(1) M(3) that by (auto simp: list_all_iff)
  let ?es = "filter (\<lambda>e. ?P (message_of (snd e))) M"
  have es: "filter ?Q (map snd M) = map snd ?es"
    using Q by (auto simp: filter_map o_def intro!: arg_cong [of _ _ "map snd"] filter_cong)
  obtain m1 where c: "mg_find (rt_platform rt) (rt_duration rt) messages_table
        \<lparr>qo_filter = Some ?f, qo_sort = None, qo_pagination = None\<rparr> (ms_storage s) = (Inr (page_of None (map snd ?es)), m1)"
      and m1: "table_rows m1 = table_rows (ms_storage s)"
    using row_find [OF M(1), of "rt_platform rt" "rt_duration rt" ?f None] unfolding es by blast
  let ?s1 = "s\<lparr>ms_storage := m1\<rparr>"
  have f: "find_rows rt messages_table ?c None s = (Inr (map snd ?es), ?s1)"
    by (simp add: find_rows_def and_then_def storage_call_Inr c done_with_def page_of_def)
  have h1: "tables_hold rt ?s1 lg M D" using h m1 by (simp add: tables_hold_def)
  let ?keep = "\<lambda>(r :: jsobj) l. l\<lparr>lg_deliveries := filter (\<lambda>d. dl_message d \<noteq> pm_id (message_of r)) (lg_deliveries l)\<rparr>"
  let ?R = "\<lambda>s l. \<exists>D. tables_hold rt s l M D"
  have step: "\<exists>s'. delete_rows_where rt now delivered_table [\<lparr>qc_field = ''messageId'', qc_operator = QEq, qc_value = field_of r ''messageId''\<rparr>] s
        = (Inr (), s') \<and> ?R s' (?keep r l)" if mem: "r \<in> set (map snd ?es)" and rel: "?R s l" for r s l
  proof -
    have r: "field_of r ''messageId'' = JStr (pm_id (message_of r))" using mem message_fields(2) M(3) by (auto simp: list_all_iff)
    obtain D' where "tables_hold rt s l M D'" using rel by blast
    from delete_where_filter [OF this, of "[where_eq ''messageId'' (pm_id (message_of r))]" "\<lambda>d. dl_message d = pm_id (message_of r)"]
    show ?thesis unfolding r by (auto simp: delivery_fields)
  qed
  obtain s2 where l: "for_each (\<lambda>msg. delete_rows_where rt now delivered_table
        [\<lparr>qc_field = ''messageId'', qc_operator = QEq, qc_value = field_of msg ''messageId''\<rparr>]) (map snd ?es) ?s1 = (Inr (), s2)"
      and h2: "?R s2 (fold ?keep (map snd ?es) lg)"
    using for_each_simulates [of ?R ?s1 lg "map snd ?es" "\<lambda>msg. delete_rows_where rt now delivered_table
        [\<lparr>qc_field = ''messageId'', qc_operator = QEq, qc_value = field_of msg ''messageId''\<rparr>]" ?keep] h1 step by blast
  have fold: "fold ?keep rs l = l\<lparr>lg_deliveries := filter (\<lambda>d. dl_message d \<notin> (\<lambda>r. pm_id (message_of r)) ` set rs) (lg_deliveries l)\<rparr>"
    for rs l by (induction rs arbitrary: l) (auto intro!: arg_cong2 [of _ _ _ _ filter] simp: conj_commute)
  let ?l2 = "lg\<lparr>lg_deliveries := filter (\<lambda>d. dl_message d \<notin> (\<lambda>r. pm_id (message_of r)) ` set (map snd ?es)) (lg_deliveries lg)\<rparr>"
  obtain D2 where h2: "tables_hold rt s2 ?l2 M D2" using h2 unfolding fold by blast
  have M2: "table_rows (ms_storage s2) messages_table = Some M" using h2 by (simp add: tables_hold_def)
  let ?M = "filter (\<lambda>(i, r). \<not> ?Q r) M"
  obtain n m3 where d: "mg_delete_many (rt_platform rt) (rt_duration rt) now messages_table ?f (ms_storage s2) = (Inr n, m3)"
      and m3: "table_rows m3 = (table_rows (ms_storage s2))(messages_table \<mapsto> ?M)"
    using row_delete_many [OF M2 M(2)] by blast
  have msgs: "filter (\<lambda>m. pm_topic m \<noteq> topic) (lg_messages lg) = map (\<lambda>e. message_of (snd e)) ?M"
    using Q by (auto simp: M(4) filter_map o_def intro!: arg_cong [of _ _ "map _"] filter_cong)
  have ids: "(\<lambda>r. pm_id (message_of r)) ` set (map snd ?es) = set (map pm_id (filter ?P (lg_messages lg)))"
    by (auto simp: M(4))
  have lg': "log_drop_topic topic lg = ?l2\<lparr>lg_messages := filter (\<lambda>m. pm_topic m \<noteq> topic) (lg_messages lg)\<rparr>"
    unfolding ids by (simp add: log_drop_topic_def Let_def)
  have pm: "\<forall>m \<in> set (lg_messages lg). pm_id m \<in> drawn rt (ms_uuids s2)" using h2 by (simp add: tables_hold_def)
  have keys: "distinct (jm_keys ?M)" "set (jm_keys ?M) \<subseteq> set (jm_keys M)" using M(2) by (auto simp: distinct_map_filter)
  define l2 where "l2 = ?l2"
  have ok: "list_all message_ok ?M" using M(3) by (auto simp: list_all_iff)
  have sub: "set (jm_keys ?M) \<subseteq> drawn rt (ms_uuids s2)" using keys(2) h2 unfolding tables_hold_def by blast
  have pm2: "\<forall>m \<in> set (filter (\<lambda>m. pm_topic m \<noteq> topic) (lg_messages lg)). pm_id m \<in> drawn rt (ms_uuids s2)" using pm by simp
  have "tables_hold rt (s2\<lparr>ms_storage := m3\<rparr>) (l2\<lparr>lg_messages := filter (\<lambda>m. pm_topic m \<noteq> topic) (lg_messages lg)\<rparr>) ?M D2"
    using h2 [folded l2_def] m3 pm2 keys(1) sub ok msgs by (simp only: tables_hold_def msg_log.simps message_store.simps fun_upd_apply table_names if_True if_False) simp
  then have "tables_hold rt (s2\<lparr>ms_storage := m3\<rparr>) (log_drop_topic topic lg) ?M D2" unfolding lg' l2_def .
  moreover have "delete_rows_where rt now messages_table ?c s2 = (Inr (), s2\<lparr>ms_storage := m3\<rparr>)"
    by (simp add: delete_rows_where_def and_then_def storage_call_Inr d done_with_def)
  then have "delete_by_topic rt now topic s = (Inr (), s2\<lparr>ms_storage := m3\<rparr>)"
    by (simp add: delete_by_topic_def and_then_Inr f l)
  ultimately show ?thesis by (auto intro: holdsI)
qed

text \<open>The delivery engine's query returns rows; what they stand for is the delivery and its message.\<close>

lemma deliverable_loop_refines:
  assumes "tables_hold rt s lg M D" and "\<And>e. e \<in> set es \<Longrightarrow> delivery_ok e"
  defines "hits \<equiv> filter (\<lambda>d. find_message lg (dl_message d) \<noteq> None) (map (\<lambda>e. delivery_of (snd e)) es)"
  shows "\<exists>s' rs. deliverable_loop rt (map snd es) acc s = (Inr (acc @ rs), s') \<and> tables_hold rt s' lg M D \<and>
    set rs \<subseteq> (snd ` set es) \<times> (snd ` set M) \<and>
    map (map_prod delivery_of message_of) rs = map (\<lambda>d. (d, the (find_message lg (dl_message d)))) hits"
  using assms(1,2) unfolding hits_def
proof (induction es arbitrary: s acc)
  case (Cons e es)
  let ?d = "delivery_of (snd e)"
  have e: "delivery_ok e" using Cons.prems(2) by auto
  let ?m = "List.find (\<lambda>m. pm_id (message_of (snd m)) = dl_message ?d) M"
  obtain s1 where f: "message_of_delivery rt (snd e) s = (Inr (map_option snd ?m), s1)" and h1: "tables_hold rt s1 lg M D"
    using find_message_row [OF Cons.prems(1) e] by blast
  have fm: "find_message lg (dl_message ?d) = map_option (\<lambda>m. message_of (snd m)) ?m"
    using find_row_message [OF Cons.prems(1)] .
  show ?case
  proof (cases ?m)
    case None
    then show ?thesis using Cons.IH [OF h1, of acc] Cons.prems(2) f fm by (fastforce simp: and_then_Inr)
  next
    case (Some m)
    from Cons.IH [OF h1, of "acc @ [(snd e, snd m)]"] Cons.prems(2) obtain s2 rs where
      "deliverable_loop rt (map snd es) ((acc @ [(snd e, snd m)])) s1 = (Inr ((acc @ [(snd e, snd m)]) @ rs), s2)"
      "tables_hold rt s2 lg M D" "set rs \<subseteq> (snd ` set es) \<times> (snd ` set M)" "map (map_prod delivery_of message_of) rs =
        map (\<lambda>d. (d, the (find_message lg (dl_message d)))) (filter (\<lambda>d. find_message lg (dl_message d) \<noteq> None) (map (\<lambda>e. delivery_of (snd e)) es))"
      by auto
    moreover have "m \<in> set M" using Some by (auto simp: find_Some_iff)
    ultimately show ?thesis using f fm Some
      by (intro exI [of _ s2] exI [of _ "(snd e, snd m) # rs"]) (auto simp: and_then_Inr)
  qed
qed (simp add: done_with_def)

definition log_find_push :: "runtime \<Rightarrow> int \<Rightarrow> string \<Rightarrow> int \<Rightarrow> msg_log \<Rightarrow> (delivery \<times> message) list" where
  "log_find_push rt now sub limit lg =
     map (\<lambda>d. (d, the (find_message lg (dl_message d)))) (log_eligible rt now sub limit lg)"

lemma find_push_refines:
  assumes "holds rt s lg"
  shows "\<exists>s' rs. find_push_deliverable rt now sub limit s = (Inr rs, s') \<and> holds rt s' lg \<and>
    (\<forall>(dm, msg) \<in> set rs. \<exists>i j. delivery_ok (i, dm) \<and> message_ok (j, msg)) \<and>
    map (map_prod delivery_of message_of) rs = log_find_push rt now sub limit lg"
proof -
  obtain M D where h: "tables_hold rt s lg M D" using assms by (rule holdsE)
  let ?es = "window limit (filter (\<lambda>e. deliverable rt now sub (delivery_of (snd e))) D)"
  obtain s1 where f: "find_rows rt delivered_table (due_conditions sub now) (Some \<lparr>pg_limit = Some limit, pg_offset = Some 0\<rparr>) s =
      (Inr (map snd ?es), s1)" and h1: "tables_hold rt s1 lg M D"
    using eligible_rows [OF h] by blast
  have ok: "delivery_ok e" if "e \<in> set ?es" for e
    using that set_window [of limit "filter (\<lambda>e. deliverable rt now sub (delivery_of (snd e))) D"] h
    by (auto simp: tables_hold_def list_all_iff)
  have hits: "filter (\<lambda>d. find_message lg (dl_message d) \<noteq> None) (map (\<lambda>e. delivery_of (snd e)) ?es) =
      log_eligible rt now sub limit lg"
    unfolding log_eligible_def eligible_deliveries [OF h, of limit "deliverable rt now sub"] ..
  from deliverable_loop_refines [where es = ?es and acc = "[]", OF h1 ok] obtain s2 rs where
      rs: "deliverable_loop rt (map snd ?es) [] s1 = (Inr rs, s2)" "tables_hold rt s2 lg M D"
        "set rs \<subseteq> (snd ` set ?es) \<times> (snd ` set M)" "map (map_prod delivery_of message_of) rs = log_find_push rt now sub limit lg"
    unfolding hits log_find_push_def by auto
  have "\<exists>i j. delivery_ok (i, dm) \<and> message_ok (j, msg)" if "(dm, msg) \<in> set rs" for dm msg
  proof -
    have "dm \<in> snd ` set ?es" "msg \<in> snd ` set M" using that rs(3) by blast+
    then obtain e m where "e \<in> set ?es" "dm = snd e" "m \<in> set M" "msg = snd m" by blast
    moreover then have "message_ok m" using h by (auto simp: tables_hold_def list_all_iff)
    ultimately show ?thesis using ok by (metis prod.collapse)
  qed
  with rs show ?thesis by (auto simp: find_push_deliverable_def and_then_Inr f intro: holdsI)
qed

section \<open>Sequences of operations\<close>

datatype msg_op =
    OpPublish int string "publish_input list" "string list"
  | OpPull int string int int
  | OpAck int string "string list"
  | OpModify int string "string list" int
  | OpFindPush int string int
  | OpIncrement int string string
  | OpCleanup int
  | OpReset int string string
  | OpDropSubscription int string
  | OpDropTopic int string

datatype msg_out =
    OutIds "pubsub_error + string list"
  | OutReceived "pubsub_error + received_message list"
  | OutUnit "pubsub_error + unit"
  | OutPush "pubsub_error + (delivery \<times> message) list"
  | OutNumber "pubsub_error + nat"

fun msg_exec :: "runtime \<Rightarrow> msg_op \<Rightarrow> message_store \<Rightarrow> msg_out \<times> message_store" where
  "msg_exec rt (OpPublish now topic msgs subs) s = apfst OutIds (publish_messages rt now topic msgs subs s)"
| "msg_exec rt (OpPull now sub limit secs) s = apfst OutReceived (pull_messages rt now sub limit secs s)"
| "msg_exec rt (OpAck now sub acks) s = apfst OutUnit (acknowledge_messages rt now sub acks s)"
| "msg_exec rt (OpModify now sub acks secs) s = apfst OutUnit (modify_ack_deadline rt now sub acks secs s)"
| "msg_exec rt (OpFindPush now sub limit) s =
     apfst (\<lambda>r. OutPush (map_sum id (map (map_prod delivery_of message_of)) r)) (find_push_deliverable rt now sub limit s)"
| "msg_exec rt (OpIncrement now i t) s = apfst OutUnit (increment_delivery_attempt rt now i t s)"
| "msg_exec rt (OpCleanup now) s = apfst OutNumber (cleanup_acked_messages rt now s)"
| "msg_exec rt (OpReset now sub before) s = apfst OutNumber (reset_delivered_by_time rt now sub before s)"
| "msg_exec rt (OpDropSubscription now sub) s = apfst OutUnit (delete_by_subscription rt now sub s)"
| "msg_exec rt (OpDropTopic now topic) s = apfst OutUnit (delete_by_topic rt now topic s)"

fun log_exec :: "runtime \<Rightarrow> msg_op \<Rightarrow> msg_log \<Rightarrow> msg_out \<times> msg_log" where
  "log_exec rt (OpPublish now topic msgs subs) lg = apfst (\<lambda>x. OutIds (Inr x)) (log_publish rt (iso_string now) topic subs msgs lg)"
| "log_exec rt (OpPull now sub limit secs) lg = apfst (\<lambda>x. OutReceived (Inr x)) (log_pull rt now sub limit secs lg)"
| "log_exec rt (OpAck now sub acks) lg = (OutUnit (Inr ()), log_ack sub acks lg)"
| "log_exec rt (OpModify now sub acks secs) lg = (OutUnit (Inr ()), log_modify sub acks (later now secs) lg)"
| "log_exec rt (OpFindPush now sub limit) lg = (OutPush (Inr (log_find_push rt now sub limit lg)), lg)"
| "log_exec rt (OpIncrement now i t) lg = (OutUnit (Inr ()), log_increment i t lg)"
| "log_exec rt (OpCleanup now) lg = apfst (\<lambda>x. OutNumber (Inr x)) (log_cleanup lg)"
| "log_exec rt (OpReset now sub before) lg = apfst (\<lambda>x. OutNumber (Inr x)) (log_reset sub before lg)"
| "log_exec rt (OpDropSubscription now sub) lg = (OutUnit (Inr ()), log_drop_subscription sub lg)"
| "log_exec rt (OpDropTopic now topic) lg = (OutUnit (Inr ()), log_drop_topic topic lg)"

fun msg_op_ok :: "msg_op \<Rightarrow> bool" where
  "msg_op_ok (OpPublish now topic msgs subs) = list_all attributes_ok msgs"
| "msg_op_ok _ = True"

lemma msg_step:
  assumes "inj (rt_uuid rt) \<and> holds rt s lg" and "msg_op_ok x"
  shows "\<exists>s'. msg_exec rt x s = (fst (log_exec rt x lg), s') \<and> inj (rt_uuid rt) \<and> holds rt s' (snd (log_exec rt x lg))"
proof (cases x)
  case (OpPublish now topic msgs subs)
  then show ?thesis using publish_loop_refines [of rt s lg msgs now topic subs "[]"] assms
    by (auto simp: publish_messages_def)
next
  case (OpPull now sub limit secs)
  then show ?thesis using pull_refines [of rt s lg now sub limit secs] assms by auto
next
  case (OpAck now sub acks)
  then show ?thesis using ack_refines [of rt s lg now sub acks] assms by auto
next
  case (OpModify now sub acks secs)
  then show ?thesis using modify_refines [of rt s lg now sub acks secs] assms by auto
next
  case (OpFindPush now sub limit)
  then show ?thesis using find_push_refines [of rt s lg now sub limit] assms by auto
next
  case (OpIncrement now i t)
  then show ?thesis using increment_refines [of rt s lg now i t] assms by auto
next
  case (OpCleanup now)
  then show ?thesis using cleanup_refines [of rt s lg now] assms by auto
next
  case (OpReset now sub before)
  then show ?thesis using reset_refines [of rt s lg now sub before] assms by auto
next
  case (OpDropSubscription now sub)
  then show ?thesis using drop_subscription_refines [of rt s lg now sub] assms by auto
next
  case (OpDropTopic now topic)
  then show ?thesis using drop_topic_refines [of rt s lg now topic] assms by auto
qed

interpretation messages: step_refinement "msg_exec rt" "log_exec rt" "\<lambda>s lg. inj (rt_uuid rt) \<and> holds rt s lg" msg_op_ok for rt
  by unfold_locales (rule msg_step)

end
