(* ===== verification/Pubsub_Guarantees.thy ===== *)
theory Pubsub_Guarantees
  imports Pubsub_Log
begin

text \<open>
  What subscribers of Cloud Pub/Sub can rely on: an acknowledged message is not delivered again, a message that
  was handed out stays reserved until its deadline, and a published message reaches every subscription. The
  arguments are on the log of \<open>Pubsub_Log\<close>; the theorems speak of the code's methods.
\<close>

section \<open>The initial tables\<close>

definition empty_log :: msg_log where
  "empty_log = \<lparr>lg_messages = [], lg_deliveries = [], lg_drawn = 0\<rparr>"

definition fresh_store :: "runtime \<Rightarrow> cache_settings option \<Rightarrow> int \<Rightarrow> message_store" where
  "fresh_store rt cfg now =
     snd (initialize_messages rt now \<lparr>ms_storage = mg_initialize now cfg new_manager, ms_uuids = 0\<rparr>)"

lemma initialize_tables: "pv_tables (initialize_provider cfg p) = pv_tables p"
  by (simp add: initialize_provider_def split: option.splits)

lemma fresh_store_holds: "holds rt (fresh_store rt cfg now) empty_log"
proof (rule holdsI)
  show "tables_hold rt (fresh_store rt cfg now) empty_log [] []"
    by (simp add: tables_hold_def fresh_store_def initialize_messages_def and_then_def storage_call_def mg_create_table_def
        mg_initialize_def emit_event_def new_manager_def table_rows_def create_table_def initialize_tables new_provider_def
        empty_log_def)
qed

section \<open>The log stays well-formed\<close>

definition log_wf :: "runtime \<Rightarrow> msg_log \<Rightarrow> bool" where
  "log_wf rt lg \<longleftrightarrow> inj (rt_uuid rt) \<and> distinct (map dl_ack (lg_deliveries lg)) \<and> distinct (map pm_id (lg_messages lg)) \<and>
     (\<forall>d \<in> set (lg_deliveries lg). dl_ack d \<in> drawn rt (lg_drawn lg)) \<and>
     (\<forall>m \<in> set (lg_messages lg). pm_id m \<in> drawn rt (lg_drawn lg))"

lemma drawn_mono: "k \<le> l \<Longrightarrow> x \<in> drawn rt k \<Longrightarrow> x \<in> drawn rt l"
  by (auto simp: drawn_def)

lemma wf_new_delivery: "log_wf rt lg \<Longrightarrow> log_wf rt (new_delivery rt mid sub lg)"
  using drawn_fresh [of rt "lg_drawn lg"] by (auto simp: log_wf_def new_delivery_def numeral_2_eq_2)

lemma wf_new_message: "log_wf rt lg \<Longrightarrow> log_wf rt (new_message rt topic msg t lg)"
  using drawn_fresh [of rt "lg_drawn lg"] by (auto simp: log_wf_def new_message_def numeral_2_eq_2)

lemma wf_fold_delivery: "log_wf rt lg \<Longrightarrow> log_wf rt (fold (new_delivery rt mid) subs lg)"
  by (induction subs arbitrary: lg) (auto intro: wf_new_delivery)

lemma wf_publish: "log_wf rt lg \<Longrightarrow> log_wf rt (snd (log_publish rt t topic subs msgs lg))"
  by (induction rt t topic subs msgs lg rule: log_publish.induct)
     (auto simp: Let_def split_beta intro: wf_fold_delivery wf_new_message)

lemma wf_change: "log_wf rt lg \<Longrightarrow> (\<And>d. dl_ack (g d) = dl_ack d) \<Longrightarrow> log_wf rt (change_deliveries P g lg)"
proof -
  assume "log_wf rt lg" and g: "\<And>d. dl_ack (g d) = dl_ack d"
  moreover have "map dl_ack (lg_deliveries (change_deliveries P g lg)) = map dl_ack (lg_deliveries lg)"
    by (simp add: change_deliveries_def g)
  moreover have "\<forall>d \<in> set (lg_deliveries (change_deliveries P g lg)). \<exists>d' \<in> set (lg_deliveries lg). dl_ack d = dl_ack d'"
    by (auto simp: change_deliveries_def g)
  ultimately show ?thesis by (fastforce simp: log_wf_def)
qed

lemma wf_filter:
  "log_wf rt lg \<Longrightarrow> log_wf rt (lg\<lparr>lg_deliveries := filter P (lg_deliveries lg), lg_messages := filter Q (lg_messages lg)\<rparr>)"
  "log_wf rt lg \<Longrightarrow> log_wf rt (lg\<lparr>lg_deliveries := filter P (lg_deliveries lg)\<rparr>)"
  by (auto simp: log_wf_def distinct_map_filter)

lemma wf_message_exec: "log_wf rt lg \<Longrightarrow> log_wf rt (snd (log_exec rt x lg))"
  by (cases x) (auto simp: log_pull_def log_ack_def log_modify_def log_increment_def log_cleanup_def log_reset_def
      log_drop_subscription_def log_drop_topic_def Let_def intro!: wf_publish wf_change wf_filter)

lemma wf_message_run: "log_wf rt lg \<Longrightarrow> log_wf rt (snd (run_ops (log_exec rt) xs lg))"
  using run_ops_invariant [of "log_wf rt" lg xs "log_exec rt" "\<lambda>_ _. True"] wf_message_exec by blast

lemma wf_empty: "inj (rt_uuid rt) \<Longrightarrow> log_wf rt empty_log"
  by (simp add: log_wf_def empty_log_def)

text \<open>
  A property of single deliveries with a given acknowledgement id is kept by an operation when changes keep it
  and ids drawn before are not drawn again.
\<close>

definition about :: "runtime \<Rightarrow> string \<Rightarrow> (delivery \<Rightarrow> bool) \<Rightarrow> msg_log \<Rightarrow> bool" where
  "about rt a P lg \<longleftrightarrow> inj (rt_uuid rt) \<and> a \<in> drawn rt (lg_drawn lg) \<and> (\<forall>d \<in> set (lg_deliveries lg). dl_ack d = a \<longrightarrow> P d)"

lemma about_new_delivery: "about rt a P lg \<Longrightarrow> about rt a P (new_delivery rt mid sub lg)"
  using drawn_fresh [of rt "lg_drawn lg"] by (auto simp: about_def new_delivery_def numeral_2_eq_2)

lemma about_new_message: "about rt a P lg \<Longrightarrow> about rt a P (new_message rt topic msg t lg)"
  by (auto simp: about_def new_message_def numeral_2_eq_2)

lemma about_fold_delivery: "about rt a P lg \<Longrightarrow> about rt a P (fold (new_delivery rt mid) subs lg)"
  by (induction subs arbitrary: lg) (auto intro: about_new_delivery)

lemma about_publish: "about rt a P lg \<Longrightarrow> about rt a P (snd (log_publish rt t topic subs msgs lg))"
  by (induction rt t topic subs msgs lg rule: log_publish.induct)
     (auto simp: Let_def split_beta intro: about_fold_delivery about_new_message)

lemma about_change:
  assumes "about rt a P lg" and "\<And>d. dl_ack (g d) = dl_ack d"
    and "\<And>d. d \<in> set (lg_deliveries lg) \<Longrightarrow> Q d \<Longrightarrow> dl_ack d = a \<Longrightarrow> P d \<Longrightarrow> P (g d)"
  shows "about rt a P (change_deliveries Q g lg)"
  using assms by (auto simp: about_def change_deliveries_def)

lemma about_filter:
  "about rt a P lg \<Longrightarrow> about rt a P (lg\<lparr>lg_deliveries := filter F (lg_deliveries lg), lg_messages := ms\<rparr>)"
  "about rt a P lg \<Longrightarrow> about rt a P (lg\<lparr>lg_deliveries := filter F (lg_deliveries lg)\<rparr>)"
  by (auto simp: about_def)

lemmas about_intros = about_publish about_change about_filter

text \<open>The acknowledgement ids an output hands out.\<close>

fun handed_out :: "msg_out \<Rightarrow> string set" where
  "handed_out (OutReceived (Inr rs)) = rm_ack ` set rs"
| "handed_out (OutPush (Inr ps)) = (\<lambda>p. dl_ack (fst p)) ` set ps"
| "handed_out _ = {}"

lemma eligible_subset: "d \<in> set (log_eligible rt now sub l lg) \<Longrightarrow> d \<in> set (lg_deliveries lg) \<and> deliverable rt now sub d"
  using set_window [of l "filter (deliverable rt now sub) (lg_deliveries lg)"] by (auto simp: log_eligible_def)

lemma receive_ack [simp]: "rm_ack (receive lg d) = dl_ack d" "rm_attempt (receive lg d) = dl_attempt d + 1"
  by (simp_all add: receive_def Let_def)

text \<open>An operation hands out only deliverable deliveries.\<close>

lemma handed_out_deliverable:
  assumes "a \<in> handed_out (fst (log_exec rt x lg))"
  shows "\<exists>now sub d. d \<in> set (lg_deliveries lg) \<and> dl_ack d = a \<and> deliverable rt now sub d \<and>
    ((\<exists>l secs. x = OpPull now sub l secs) \<or> (\<exists>l. x = OpFindPush now sub l))"
  using assms by (cases x) (auto simp: log_pull_def log_find_push_def Let_def dest: eligible_subset)

section \<open>Acknowledged messages\<close>

lemma acked_step: "about rt a dl_acked lg \<Longrightarrow> about rt a dl_acked (snd (log_exec rt x lg)) \<and> a \<notin> handed_out (fst (log_exec rt x lg))"
proof
  assume a: "about rt a dl_acked lg"
  then show "about rt a dl_acked (snd (log_exec rt x lg))"
    by (cases x) (auto simp: log_pull_def log_ack_def log_modify_def log_increment_def log_cleanup_def log_reset_def
      log_drop_subscription_def log_drop_topic_def Let_def intro!: about_intros)
  show "a \<notin> handed_out (fst (log_exec rt x lg))"
    using a handed_out_deliverable [of a rt x lg] by (auto simp: about_def deliverable_def)
qed

lemma owner_step: "about rt a (\<lambda>d. dl_sub d = sub) lg \<Longrightarrow> about rt a (\<lambda>d. dl_sub d = sub) (snd (log_exec rt x lg))"
  by (cases x) (auto simp: log_pull_def log_ack_def log_modify_def log_increment_def log_cleanup_def log_reset_def
      log_drop_subscription_def log_drop_topic_def Let_def intro!: about_intros)

lemma pulled_owner:
  assumes "log_wf rt lg" and "r \<in> set (fst (log_pull rt now sub l secs lg))"
  shows "about rt (rm_ack r) (\<lambda>d. dl_sub d = sub) lg"
proof -
  obtain d where d: "d \<in> set (lg_deliveries lg)" "dl_ack d = rm_ack r" "dl_sub d = sub"
    using assms(2) eligible_subset by (fastforce simp: log_pull_def Let_def deliverable_def)
  have "x = d" if "x \<in> set (lg_deliveries lg)" "dl_ack x = rm_ack r" for x
  proof -
    have "inj_on dl_ack (set (lg_deliveries lg))" using assms(1) by (simp add: log_wf_def distinct_map)
    from inj_onD [OF this _ that(1) d(1)] show ?thesis by (simp only: that(2) d(2))
  qed
  then have "\<forall>x \<in> set (lg_deliveries lg). dl_ack x = rm_ack r \<longrightarrow> dl_sub x = sub" using d(3) by blast
  moreover have "dl_ack d \<in> drawn rt (lg_drawn lg)" using assms(1) d(1) by (simp add: log_wf_def)
  ultimately show ?thesis using assms(1) d(2) by (simp add: about_def log_wf_def)
qed

lemma pulled_in_run:
  assumes "log_wf rt lg" and "run_ops (log_exec rt) xs lg = (outs, lg')"
    and "(OpPull now sub l secs, OutReceived (Inr rs)) \<in> set (zip xs outs)" and "r \<in> set rs"
  shows "about rt (rm_ack r) (\<lambda>d. dl_sub d = sub) lg'"
  using assms
proof (induction xs arbitrary: lg outs)
  case (Cons x xs)
  obtain out lg1 where x: "log_exec rt x lg = (out, lg1)" by fastforce
  obtain outs1 where rest: "run_ops (log_exec rt) xs lg1 = (outs1, lg')" "outs = out # outs1"
    using Cons.prems(2) x by (auto split: prod.splits)
  have wf: "log_wf rt lg1" using wf_message_exec [OF Cons.prems(1), of x] x by simp
  from Cons.prems(3) rest(2) consider "x = OpPull now sub l secs" "out = OutReceived (Inr rs)"
    | "(OpPull now sub l secs, OutReceived (Inr rs)) \<in> set (zip xs outs1)" by auto
  then show ?case
  proof cases
    case 1
    then have rs: "rs = fst (log_pull rt now sub l secs lg)" using arg_cong [OF x, of fst] by simp
    have "about rt (rm_ack r) (\<lambda>d. dl_sub d = sub) lg" using Cons.prems(1,4) unfolding rs by (rule pulled_owner)
    then have "about rt (rm_ack r) (\<lambda>d. dl_sub d = sub) lg1" using owner_step [of rt "rm_ack r" sub lg x] x by simp
    then show ?thesis
      using run_ops_invariant [of "about rt (rm_ack r) (\<lambda>d. dl_sub d = sub)" lg1 xs "log_exec rt" "\<lambda>_ _. True"] owner_step rest(1)
      by fastforce
  next
    case 2
    then show ?thesis using Cons.IH [OF wf rest(1)] Cons.prems(4) by blast
  qed
qed simp

text \<open>C27: A message a subscriber received and acknowledged is never delivered again: after a pull on a
  subscription returned it and an acknowledgement on that subscription named its acknowledgement id, no later
  operation hands that delivery out, neither a pull nor the delivery engine's query, on any subscription,
  whatever publishes, deadlines, seeks, clean-ups and deletions come in between.\<close>

theorem acked_never_redelivered:
  assumes "inj (rt_uuid rt)" and "list_all msg_op_ok earlier" and "list_all msg_op_ok afterwards"
    and "run_ops (msg_exec rt) earlier (fresh_store rt cfg t) = (outs, s1)"
    and "(OpPull now sub l secs, OutReceived (Inr rs)) \<in> set (zip earlier outs)" and "r \<in> set rs"
    and "rm_ack r \<in> set acks"
    and "run_ops (msg_exec rt) (OpAck now' sub acks # afterwards) s1 = (outs', s2)"
  shows "\<forall>out \<in> set outs'. rm_ack r \<notin> handed_out out"
proof -
  have start: "inj (rt_uuid rt) \<and> holds rt (fresh_store rt cfg t) empty_log" using assms(1) fresh_store_holds by blast
  obtain lg1 where lg1: "run_ops (log_exec rt) earlier empty_log = (outs, lg1)" and h1: "inj (rt_uuid rt) \<and> holds rt s1 lg1"
    using messages.run [OF start assms(2)] assms(4) by (cases "run_ops (log_exec rt) earlier empty_log") auto
  have owner: "about rt (rm_ack r) (\<lambda>d. dl_sub d = sub) lg1"
    by (rule pulled_in_run [OF wf_empty [OF assms(1)] lg1 assms(5,6)])
  have acked: "about rt (rm_ack r) dl_acked (log_ack sub acks lg1)"
    using owner assms(7) by (auto simp: about_def log_ack_def change_deliveries_def)
  have "list_all msg_op_ok (OpAck now' sub acks # afterwards)" using assms(3) by simp
  from messages.outputs [OF h1 this] assms(8)
  have outs': "outs' = OutUnit (Inr ()) # fst (run_ops (log_exec rt) afterwards (log_ack sub acks lg1))"
    by (simp add: split_beta)
  let ?outs = "fst (run_ops (log_exec rt) afterwards (log_ack sub acks lg1))"
  have "\<forall>(x, y) \<in> set (zip afterwards ?outs). rm_ack r \<notin> handed_out y"
    using run_ops_invariant [of "about rt (rm_ack r) dl_acked" "log_ack sub acks lg1" afterwards "log_exec rt"
        "\<lambda>_ y. rm_ack r \<notin> handed_out y"] acked acked_step by blast
  then have "rm_ack r \<notin> handed_out y" if "y \<in> set ?outs" for y
    using that run_ops_length [of "log_exec rt" afterwards] by (fastforce simp: in_set_conv_nth set_zip)
  then show ?thesis by (auto simp: outs')
qed

section \<open>Reserved messages\<close>

text \<open>
  \<open>localeCompare\<close> orders two timestamps of \<open>toISOString\<close> as their characters do: digits collate by value and
  both texts have the same punctuation at the same places.
\<close>

definition iso_collation :: "platform \<Rightarrow> bool" where
  "iso_collation pf \<longleftrightarrow> (\<forall>a b. pf_locale_compare pf (iso_string a) (iso_string b) \<le> 0 \<longleftrightarrow> iso_string a \<le> iso_string b)"

lemma iso_collation_due:
  assumes "iso_collation (rt_platform rt)" and "iso_range u" and "iso_range now" and "dl_deadline d = iso_string u"
  shows "is_due rt now d \<longleftrightarrow> u \<le> now"
  using assms iso_string_le_iff [OF assms(2,3)] by (simp add: is_due_def iso_collation_def)

text \<open>The operations that leave the reservation of a delivery until a time alone.\<close>

fun respects_lease :: "string \<Rightarrow> int \<Rightarrow> msg_op \<Rightarrow> bool" where
  "respects_lease a u (OpPull now sub l secs) = (iso_range now \<and> now < u)"
| "respects_lease a u (OpFindPush now sub l) = (iso_range now \<and> now < u)"
| "respects_lease a u (OpModify now sub acks secs) = (a \<notin> set acks)"
| "respects_lease a u (OpIncrement now i t) = False"
| "respects_lease a u (OpReset now sub before) = False"
| "respects_lease a u _ = True"

definition leased :: "int \<Rightarrow> delivery \<Rightarrow> bool" where
  "leased u d \<longleftrightarrow> dl_acked d \<or> dl_deadline d = iso_string u"

lemma lease_step:
  assumes "about rt a (leased u) lg" and "iso_collation (rt_platform rt)" and "iso_range u" and "respects_lease a u x"
  shows "about rt a (leased u) (snd (log_exec rt x lg)) \<and> a \<notin> handed_out (fst (log_exec rt x lg))"
proof
  have early: "\<not> deliverable rt now sub d" if "d \<in> set (lg_deliveries lg)" "dl_ack d = a" "iso_range now" "now < u" for now sub d
    using assms(1) that iso_collation_due [OF assms(2,3) that(3), of d] by (auto simp: about_def leased_def deliverable_def)
  show "about rt a (leased u) (snd (log_exec rt x lg))"
  proof (cases x)
    case (OpPull now sub l secs)
    have no: "dl_ack d \<noteq> a" if "d \<in> set (log_eligible rt now sub l lg)" for d
      using eligible_subset [OF that] early [of d now sub] assms(4) OpPull by auto
    show ?thesis using assms(1) OpPull by (auto simp: log_pull_def Let_def intro!: about_change dest: no)
  qed (use assms in \<open>auto simp: log_ack_def log_modify_def log_cleanup_def leased_def
      log_drop_subscription_def log_drop_topic_def Let_def intro!: about_intros\<close>)
  show "a \<notin> handed_out (fst (log_exec rt x lg))"
  proof
    assume "a \<in> handed_out (fst (log_exec rt x lg))"
    then obtain now sub d where "d \<in> set (lg_deliveries lg)" "dl_ack d = a" "deliverable rt now sub d"
      "(\<exists>l secs. x = OpPull now sub l secs) \<or> (\<exists>l. x = OpFindPush now sub l)"
      using handed_out_deliverable by blast
    with early assms(4) show False by auto
  qed
qed

lemma pulled_leased:
  assumes "log_wf rt lg" and "r \<in> set (fst (log_pull rt now sub l secs lg))"
  shows "about rt (rm_ack r) (leased (now + secs * 1000)) (snd (log_pull rt now sub l secs lg))"
proof -
  let ?hits = "log_eligible rt now sub l lg"
  obtain d where d: "d \<in> set ?hits" "dl_ack d = rm_ack r" using assms(2) by (auto simp: log_pull_def Let_def)
  have mem: "d \<in> set (lg_deliveries lg)" using d(1) eligible_subset by blast
  have inj: "inj_on dl_ack (set (lg_deliveries lg))" using assms(1) by (simp add: log_wf_def distinct_map)
  have only: "x = d" if "x \<in> set (lg_deliveries lg)" "dl_ack x = rm_ack r" for x
    by (rule inj_onD [OF inj _ that(1) mem]) (simp add: that(2) d(2))
  have "dl_ack d \<in> drawn rt (lg_drawn lg)" using assms(1) mem by (simp add: log_wf_def)
  then have drawn: "rm_ack r \<in> drawn rt (lg_drawn lg)" using d(2) by simp
  have "leased (now + secs * 1000) y"
    if y: "y \<in> set (lg_deliveries (snd (log_pull rt now sub l secs lg)))" "dl_ack y = rm_ack r" for y
  proof -
    obtain x where x: "x \<in> set (lg_deliveries lg)"
        "y = (if x \<in> set ?hits then x\<lparr>dl_deadline := later now secs, dl_attempt := dl_attempt x + 1\<rparr> else x)"
      using y(1) by (auto simp: log_pull_def change_deliveries_def Let_def)
    then have "dl_ack x = rm_ack r" using y(2) by (auto split: if_splits)
    then have "x \<in> set ?hits" using only [OF x(1)] d(1) by blast
    then show ?thesis using x(2) by (simp add: leased_def later_def)
  qed
  then show ?thesis using assms(1) drawn by (auto simp: about_def log_wf_def log_pull_def Let_def)
qed


section \<open>Delivery\<close>

lemma find_message_iff:
  "log_wf rt lg \<Longrightarrow> find_message lg mid = Some m \<longleftrightarrow> m \<in> set (lg_messages lg) \<and> pm_id m = mid"
proof -
  have "distinct (map pm_id ms) \<Longrightarrow> List.find (\<lambda>m. pm_id m = mid) ms = Some m \<longleftrightarrow> m \<in> set ms \<and> pm_id m = mid" for ms
    by (induction ms) (auto simp: rev_image_eqI)
  then show "log_wf rt lg \<Longrightarrow> ?thesis" by (simp add: log_wf_def find_message_def)
qed

lemma fold_delivery_extends:
  "lg_messages (fold (new_delivery rt mid) subs lg) = lg_messages lg"
  "set (lg_deliveries lg) \<subseteq> set (lg_deliveries (fold (new_delivery rt mid) subs lg))"
  by (induction subs arbitrary: lg) (auto simp: new_delivery_def subset_iff)

lemma fold_delivery_reaches:
  "sub \<in> set subs \<Longrightarrow> \<exists>d \<in> set (lg_deliveries (fold (new_delivery rt mid) subs lg)).
     dl_sub d = sub \<and> dl_message d = mid \<and> \<not> dl_acked d \<and> dl_deadline d = epoch_text"
proof (induction subs arbitrary: lg)
  case (Cons s subs)
  show ?case
  proof (cases "sub \<in> set subs")
    case False
    then have "s = sub" using Cons.prems by simp
    then have "\<exists>d \<in> set (lg_deliveries (new_delivery rt mid s lg)).
        dl_sub d = sub \<and> dl_message d = mid \<and> \<not> dl_acked d \<and> dl_deadline d = epoch_text"
      by (simp add: new_delivery_def)
    then show ?thesis using fold_delivery_extends(2) [of "new_delivery rt mid s lg" rt mid subs] by auto
  qed (use Cons in auto)
qed simp

lemma publish_extends:
  "set (lg_messages lg) \<subseteq> set (lg_messages (snd (log_publish rt t topic subs msgs lg)))"
  "set (lg_deliveries lg) \<subseteq> set (lg_deliveries (snd (log_publish rt t topic subs msgs lg)))"
proof (induction rt t topic subs msgs lg rule: log_publish.induct)
  case (2 rt t topic subs msg msgs lg)
  let ?lg = "fold (new_delivery rt (rt_uuid rt (lg_drawn lg))) subs (new_message rt topic msg t lg)"
  have "set (lg_messages lg) \<subseteq> set (lg_messages ?lg)" "set (lg_deliveries lg) \<subseteq> set (lg_deliveries ?lg)"
    using fold_delivery_extends(1) [of rt "rt_uuid rt (lg_drawn lg)" subs "new_message rt topic msg t lg"]
      fold_delivery_extends(2) [of "new_message rt topic msg t lg" rt "rt_uuid rt (lg_drawn lg)" subs]
    by (auto simp: new_message_def)
  with 2 [OF refl refl] show "set (lg_messages lg) \<subseteq> set (lg_messages (snd (log_publish rt t topic subs (msg # msgs) lg)))"
    "set (lg_deliveries lg) \<subseteq> set (lg_deliveries (snd (log_publish rt t topic subs (msg # msgs) lg)))"
    by (auto simp: Let_def split_beta)
qed simp_all

definition published :: "string \<Rightarrow> string \<Rightarrow> string \<Rightarrow> publish_input \<Rightarrow> message" where
  "published mid topic t msg =
     \<lparr>pm_id = mid, pm_topic = topic, pm_data = pi_data msg,
      pm_attributes = map_option (\<lambda>es. JObj (string_members es)) (pi_attributes msg), pm_key = pi_ordering_key msg, pm_time = t\<rparr>"

lemma publish_reaches:
  assumes "(mid, msg) \<in> set (zip (fst (log_publish rt t topic subs msgs lg)) msgs)" and "sub \<in> set subs"
  shows "published mid topic t msg \<in> set (lg_messages (snd (log_publish rt t topic subs msgs lg))) \<and>
    (\<exists>d \<in> set (lg_deliveries (snd (log_publish rt t topic subs msgs lg))).
      dl_sub d = sub \<and> dl_message d = mid \<and> \<not> dl_acked d \<and> dl_deadline d = epoch_text)"
  using assms
proof (induction rt t topic subs msgs lg rule: log_publish.induct)
  case (2 rt t topic subs m msgs lg)
  let ?mid = "rt_uuid rt (lg_drawn lg)"
  let ?lg = "fold (new_delivery rt ?mid) subs (new_message rt topic m t lg)"
  from 2(2) consider "mid = ?mid" "msg = m" | "(mid, msg) \<in> set (zip (fst (log_publish rt t topic subs msgs ?lg)) msgs)"
    by (auto simp: Let_def split_beta)
  then show ?case
  proof cases
    case 1
    have "published mid topic t msg \<in> set (lg_messages ?lg)"
      by (simp add: fold_delivery_extends(1) new_message_def published_def 1)
    moreover have "\<exists>d \<in> set (lg_deliveries ?lg). dl_sub d = sub \<and> dl_message d = mid \<and> \<not> dl_acked d \<and> dl_deadline d = epoch_text"
      using fold_delivery_reaches [OF 2(3)] 1(1) by simp
    ultimately show ?thesis using publish_extends [of ?lg rt t topic subs msgs] by (auto simp: Let_def split_beta)
  next
    case 2
    with "2.IH" [OF refl refl] \<open>sub \<in> set subs\<close> show ?thesis by (auto simp: Let_def split_beta)
  qed
qed simp

text \<open>A delivery that waits: it is due at the time \<open>now\<close>, and its message is there.\<close>

definition waiting :: "runtime \<Rightarrow> int \<Rightarrow> string \<Rightarrow> string \<Rightarrow> message \<Rightarrow> msg_log \<Rightarrow> bool" where
  "waiting rt now ack sub m lg \<longleftrightarrow> log_wf rt lg \<and> m \<in> set (lg_messages lg) \<and>
     (\<exists>d \<in> set (lg_deliveries lg). dl_ack d = ack \<and> dl_sub d = sub \<and> dl_message d = pm_id m \<and> \<not> dl_acked d \<and> is_due rt now d)"

text \<open>The operations after which the delivery still waits at that time.\<close>

fun leaves_waiting :: "int \<Rightarrow> string \<Rightarrow> string \<Rightarrow> string \<Rightarrow> msg_op \<Rightarrow> bool" where
  "leaves_waiting now ack sub topic (OpAck n s acks) = (s \<noteq> sub \<or> ack \<notin> set acks)"
| "leaves_waiting now ack sub topic (OpDropSubscription n s) = (s \<noteq> sub)"
| "leaves_waiting now ack sub topic (OpDropTopic n t) = (t \<noteq> topic)"
| "leaves_waiting now ack sub topic (OpPull n s l secs) = (iso_range (n + secs * 1000) \<and> n + secs * 1000 \<le> now)"
| "leaves_waiting now ack sub topic (OpModify n s acks secs) = (iso_range (n + secs * 1000) \<and> n + secs * 1000 \<le> now)"
| "leaves_waiting now ack sub topic (OpIncrement n i t) = (\<exists>u. t = iso_string u \<and> iso_range u \<and> u \<le> now)"
| "leaves_waiting now ack sub topic _ = True"

lemma waiting_change:
  assumes "waiting rt now ack sub m lg"
    and "\<And>d. dl_ack (g d) = dl_ack d" and "\<And>d. dl_sub (g d) = dl_sub d" and "\<And>d. dl_message (g d) = dl_message d"
    and "\<And>d. P d \<Longrightarrow> dl_ack d = ack \<Longrightarrow> dl_sub d = sub \<Longrightarrow> \<not> dl_acked d \<Longrightarrow> \<not> dl_acked (g d) \<and> is_due rt now (g d)"
  shows "waiting rt now ack sub m (change_deliveries P g lg)"
proof -
  obtain d where d: "d \<in> set (lg_deliveries lg)" "dl_ack d = ack" "dl_sub d = sub" "dl_message d = pm_id m" "\<not> dl_acked d" "is_due rt now d"
    using assms(1) by (auto simp: waiting_def)
  let ?d = "if P d then g d else d"
  have "?d \<in> set (lg_deliveries (change_deliveries P g lg))" using d(1) unfolding change_deliveries_def by auto
  moreover have "dl_ack ?d = ack \<and> dl_sub ?d = sub \<and> dl_message ?d = pm_id m \<and> \<not> dl_acked ?d \<and> is_due rt now ?d"
    using d assms(2-5) by simp
  moreover have "log_wf rt (change_deliveries P g lg)" using assms(1,2) by (auto simp: waiting_def intro: wf_change)
  ultimately show ?thesis using assms(1) unfolding waiting_def change_deliveries_simps by blast
qed

lemma due_text:
  assumes "iso_collation (rt_platform rt)" and "iso_range now" and "iso_range u" and "u \<le> now"
  shows "is_due rt now (d\<lparr>dl_deadline := iso_string u\<rparr>)" "is_due rt now (d\<lparr>dl_deadline := iso_string u, dl_attempt := n\<rparr>)"
  using iso_collation_due [OF assms(1,3,2)] assms(4) by simp_all

lemma waiting_step:
  assumes "waiting rt now ack sub m lg" and "leaves_waiting now ack sub (pm_topic m) x"
    and "iso_collation (rt_platform rt)" and "iso_range now"
  shows "waiting rt now ack sub m (snd (log_exec rt x lg))"
proof (cases x)
  case (OpPublish n topic msgs subs)
  then show ?thesis
    using assms(1) wf_message_exec [of rt lg x] publish_extends [of lg rt "iso_string n" topic subs msgs]
    by (fastforce simp: waiting_def)
next
  case (OpCleanup n)
  then show ?thesis using assms(1) wf_message_exec [of rt lg x] by (fastforce simp: waiting_def log_cleanup_def)
next
  case (OpDropSubscription n s)
  then show ?thesis using assms(1,2) wf_message_exec [of rt lg x] by (fastforce simp: waiting_def log_drop_subscription_def)
next
  case (OpDropTopic n t)
  have t: "t \<noteq> pm_topic m" using assms(2) OpDropTopic by simp
  have wf: "log_wf rt lg" "m \<in> set (lg_messages lg)" using assms(1) by (auto simp: waiting_def)
  have "m' = m" if "m' \<in> set (lg_messages lg)" "pm_id m' = pm_id m" for m'
    using find_message_iff [OF wf(1), of "pm_id m"] that wf(2) by (metis option.inject)
  then have other: "pm_id m \<notin> set (map pm_id (filter (\<lambda>m. pm_topic m = t) (lg_messages lg)))" using t by auto
  obtain d where d: "d \<in> set (lg_deliveries lg)" "dl_ack d = ack" "dl_sub d = sub" "dl_message d = pm_id m" "\<not> dl_acked d" "is_due rt now d"
    using assms(1) by (auto simp: waiting_def)
  have "d \<in> set (lg_deliveries (log_drop_topic t lg))" "m \<in> set (lg_messages (log_drop_topic t lg))"
    using d(1,4) other wf(2) t by (simp_all add: log_drop_topic_def Let_def)
  then show ?thesis using d wf_message_exec [OF wf(1), of x] OpDropTopic by (auto simp: waiting_def)
next
  case (OpPull n s l secs)
  then show ?thesis using assms due_text(2) [OF assms(3,4)]
    by (auto simp: log_pull_def Let_def later_def intro!: waiting_change)
next
  case (OpAck n s acks)
  then show ?thesis using assms(1,2) by (auto simp: log_ack_def intro!: waiting_change)
next
  case (OpModify n s acks secs)
  then show ?thesis using assms due_text(1) [OF assms(3,4)] by (auto simp: log_modify_def later_def intro!: waiting_change)
next
  case (OpIncrement n i t)
  then show ?thesis using assms due_text(2) [OF assms(3,4)] by (auto simp: log_increment_def intro!: waiting_change)
next
  case (OpReset n s before)
  have "iso_range 0" "0 \<le> now" using assms(4) by (simp_all add: iso_range_def)
  then show ?thesis using assms(1) OpReset due_text(1) [OF assms(3,4), of 0]
    by (auto simp: log_reset_def epoch_text_def intro!: waiting_change)
qed (use assms(1) in simp_all)

lemma waiting_received:
  assumes "waiting rt now ack sub m lg"
  shows "\<exists>r \<in> set (fst (log_pull rt now sub 0 secs lg)). rm_ack r = ack \<and> rm_message_id r = pm_id m \<and> rm_publish_time r = pm_time m \<and>
    rm_data r = pm_data m \<and> rm_attributes r = pm_attributes m \<and> rm_ordering_key r = truthy_text (pm_key m)"
proof -
  obtain d where d: "d \<in> set (lg_deliveries lg)" "dl_ack d = ack" "dl_sub d = sub" "dl_message d = pm_id m" "\<not> dl_acked d" "is_due rt now d"
    using assms by (auto simp: waiting_def)
  have m: "find_message lg (pm_id m) = Some m" using assms find_message_iff by (auto simp: waiting_def)
  have "d \<in> set (log_eligible rt now sub 0 lg)" using d m by (simp add: log_eligible_def window_def deliverable_def)
  then have "receive lg d \<in> set (fst (log_pull rt now sub 0 secs lg))" by (simp add: log_pull_def Let_def)
  then show ?thesis using d m by (intro bexI [of _ "receive lg d"]) (simp_all add: receive_def)
qed


section \<open>Examples\<close>

definition demo_runtime :: runtime where
  "demo_runtime = \<lparr>rt_platform = demo_platform, rt_uuid = (\<lambda>n. replicate n CHR ''x''), rt_duration = 1\<rparr>"

lemma demo_inj: "inj (rt_uuid demo_runtime)"
  by (auto simp: demo_runtime_def inj_def dest: arg_cong [of _ _ length])

lemma demo_collation: "iso_collation (rt_platform demo_runtime)"
  by (auto simp: iso_collation_def demo_runtime_def demo_platform_def not_less)

definition demo_input :: publish_input where
  "demo_input = \<lparr>pi_data = Some ''aGk'', pi_attributes = Some [(''k'', ''v'')], pi_ordering_key = None\<rparr>"

lemma demo_input_ok: "list_all attributes_ok [demo_input]"
  by code_simp

definition demo_publish :: msg_op where
  "demo_publish = OpPublish 1000 ''t'' [demo_input] [''s'']"

definition demo_received :: received_message where
  "demo_received = \<lparr>rm_ack = ''xx'', rm_attempt = 1, rm_message_id = [], rm_publish_time = iso_string 1000,
     rm_data = Some ''aGk'', rm_attributes = Some (JObj [(''k'', JStr ''v'')]), rm_ordering_key = None\<rparr>"

lemma demo_log:
  "fst (run_ops (log_exec demo_runtime) [demo_publish, OpPull 2000 ''s'' 0 10] empty_log) =
     [OutIds (Inr [[]]), OutReceived (Inr [demo_received])]"
  by code_simp

lemma demo_message_run:
  obtains s1 where "run_ops (msg_exec demo_runtime) [demo_publish, OpPull 2000 ''s'' 0 10] (fresh_store demo_runtime None 0) =
    ([OutIds (Inr [[]]), OutReceived (Inr [demo_received])], s1)"
proof -
  have "list_all msg_op_ok [demo_publish, OpPull 2000 ''s'' 0 10]" using demo_input_ok by (simp add: demo_publish_def)
  with messages.run [of demo_runtime "fresh_store demo_runtime None 0" empty_log] demo_inj fresh_store_holds demo_log that
  show thesis by metis
qed

theorem acked_never_redelivered_witness:
  "\<exists>s1 outs' s2. run_ops (msg_exec demo_runtime) [demo_publish, OpPull 2000 ''s'' 0 10] (fresh_store demo_runtime None 0) =
       ([OutIds (Inr [[]]), OutReceived (Inr [demo_received])], s1) \<and>
     run_ops (msg_exec demo_runtime) [OpAck 3000 ''s'' [''xx''], OpPull 90000 ''s'' 0 10] s1 = (outs', s2) \<and>
     (\<forall>out \<in> set outs'. ''xx'' \<notin> handed_out out)"
proof -
  obtain s1 where s1: "run_ops (msg_exec demo_runtime) [demo_publish, OpPull 2000 ''s'' 0 10] (fresh_store demo_runtime None 0) =
    ([OutIds (Inr [[]]), OutReceived (Inr [demo_received])], s1)" by (rule demo_message_run)
  obtain outs' s2 where s2: "run_ops (msg_exec demo_runtime) (OpAck 3000 ''s'' [''xx''] # [OpPull 90000 ''s'' 0 10]) s1 = (outs', s2)"
    by fastforce
  have ok: "list_all msg_op_ok [demo_publish, OpPull 2000 ''s'' 0 10]" "list_all msg_op_ok [OpPull 90000 ''s'' 0 10]"
    using demo_input_ok by (simp_all add: demo_publish_def)
  have "(OpPull 2000 ''s'' 0 10, OutReceived (Inr [demo_received])) \<in>
      set (zip [demo_publish, OpPull 2000 ''s'' 0 10] [OutIds (Inr [[]]), OutReceived (Inr [demo_received])])" by simp
  from acked_never_redelivered [OF demo_inj ok s1 this _ _ s2]
  have "\<forall>out \<in> set outs'. ''xx'' \<notin> handed_out out" by (simp add: demo_received_def)
  with s1 s2 show ?thesis by blast
qed



section \<open>The repository and the log\<close>

text \<open>C30: Every sequence of operations of the message repository on the two tables, starting from the tables
  \<open>initialize\<close> creates and with any cache settings, returns what the log of messages and deliveries prescribes.\<close>

theorem message_repository_refines_log:
  assumes "inj (rt_uuid rt)" and "list_all msg_op_ok ops"
  shows "fst (run_ops (msg_exec rt) ops (fresh_store rt cfg t)) = fst (run_ops (log_exec rt) ops empty_log)"
  by (rule messages.outputs) (use assms fresh_store_holds in simp_all)

theorem message_repository_refines_log_witness:
  "fst (run_ops (msg_exec demo_runtime) [demo_publish, OpPull 2000 ''s'' 0 10] (fresh_store demo_runtime None 0)) =
     [OutIds (Inr [[]]), OutReceived (Inr [demo_received])]"
proof -
  have "list_all msg_op_ok [demo_publish, OpPull 2000 ''s'' 0 10]" using demo_input_ok by (simp add: demo_publish_def)
  from message_repository_refines_log [OF demo_inj this] show ?thesis using demo_log by simp
qed

end
