(* ===== verification/Pubsub_World.thy ===== *)
theory Pubsub_World
  imports Pubsub_Subscriptions Pubsub_Guarantees
begin

text \<open>
  The state the services of Pub/Sub share, seen abstractly: a catalog of named records per table and the log of
  messages. \<open>runs rt w f r w'\<close> says that a method, started in any store that represents \<open>w\<close>, returns \<open>r\<close> and
  leaves a store that represents \<open>w'\<close>; it composes along \<open>and_then\<close>, so that the effect of a service follows from
  those of the calls it makes.
\<close>

section \<open>Calls leave the other tables alone\<close>

text \<open>\<open>touches X f\<close>: whatever becomes of \<open>f\<close>, only the tables of \<open>X\<close> can change.\<close>

definition touches :: "string set \<Rightarrow> 'a pubsub \<Rightarrow> bool" where
  "touches X f \<longleftrightarrow> (\<forall>s T. T \<notin> X \<longrightarrow> table_rows (ms_storage (snd (f s))) T = table_rows (ms_storage s) T)"

named_theorems touches_intros

lemma touchesI: "(\<And>s T. T \<notin> X \<Longrightarrow> table_rows (ms_storage (snd (f s))) T = table_rows (ms_storage s) T) \<Longrightarrow> touches X f"
  by (simp add: touches_def)

lemma touches_basic [touches_intros]: "touches X (done_with a)" "touches X (fails_with e)" "touches X (random_uuid rt)" "touches X (of_result r)"
  by (auto simp: touches_def done_with_def fails_with_def random_uuid_def of_result_def split: sum.splits)

lemma touches_and_then [touches_intros]:
  assumes "touches X f" and "\<And>a. touches X (g a)"
  shows "touches X (and_then f g)"
proof (rule touchesI)
  fix s T assume T: "T \<notin> X"
  obtain r s1 where f: "f s = (r, s1)" by fastforce
  with assms(1) T have "table_rows (ms_storage s1) T = table_rows (ms_storage s) T" by (metis touches_def snd_conv)
  with f assms(2) T show "table_rows (ms_storage (snd (and_then f g s))) T = table_rows (ms_storage s) T"
    by (auto simp: and_then_def touches_def split: sum.splits)
qed

lemma touches_for_each [touches_intros]: "(\<And>x. touches X (f x)) \<Longrightarrow> touches X (for_each f xs)"
  by (induction xs) (auto intro: touches_intros)

lemma find_frame: "find_records pf T opts p = (r, q) \<Longrightarrow> q = p"
  by (auto simp: find_records_def split: sum.splits)

lemma find_first_frame: "find_first pf T opts p = (r, q) \<Longrightarrow> q = p"
  by (auto simp: find_first_def Let_def dest: find_frame split: sum.splits prod.splits)

lemma manager_frames:
  "table_rows (snd (mg_find pf dur T opts m)) = table_rows m"
  "table_rows (snd (mg_find_first pf dur T opts m)) = table_rows m"
  "T' \<noteq> T \<Longrightarrow> table_rows (snd (mg_create dur now i T data m)) T' = table_rows m T'"
  "T' \<noteq> T \<Longrightarrow> table_rows (snd (mg_update_by_id dur now T i data m)) T' = table_rows m T'"
  "T' \<noteq> T \<Longrightarrow> table_rows (snd (mg_delete_by_id dur now T i m)) T' = table_rows m T'"
  by (auto simp: mg_find_def mg_find_first_def mg_create_def create_record_def mg_update_by_id_def update_by_id_def
      mg_delete_by_id_def delete_by_id_def Let_def put_record_def drop_record_def table_rows_def fun_eq_iff
      dest: find_frame find_first_frame split: option.splits sum.splits prod.splits bool.splits if_splits)

lemma update_many_frame:
  "update_many pf now T f data p = (r, q) \<Longrightarrow> T' \<noteq> T \<Longrightarrow> jm_get (pv_tables q) T' = jm_get (pv_tables p) T'"
  using update_loop_frame [of T' T pf now f data "mt_records (projr (get_table T p))" 0 p]
  by (auto simp: update_many_def split: sum.splits prod.splits)

lemma delete_many_frame:
  "delete_many pf T f p = (r, q) \<Longrightarrow> T' \<noteq> T \<Longrightarrow> jm_get (pv_tables q) T' = jm_get (pv_tables p) T'"
  using delete_loop_frame [of T' T] by (auto simp: delete_many_def Let_def split: sum.splits prod.splits) (metis snd_conv)

lemma many_frames:
  assumes "T' \<noteq> T"
  shows "table_rows (snd (mg_update_many pf dur now T f data m)) T' = table_rows m T'"
    and "table_rows (snd (mg_delete_many pf dur now T f m)) T' = table_rows m T'"
proof -
  show "table_rows (snd (mg_update_many pf dur now T f data m)) T' = table_rows m T'"
  proof (cases "mg_provider m")
    case (Some p)
    obtain r q where q: "update_many pf now T f data p = (r, q)" by fastforce
    with Some update_many_frame [OF q assms] show ?thesis
      by (auto simp: mg_update_many_def Let_def table_rows_def dest!: find_frame
          split: sum.splits prod.splits option.splits)
  qed (simp add: mg_update_many_def)
  show "table_rows (snd (mg_delete_many pf dur now T f m)) T' = table_rows m T'"
  proof (cases "mg_provider m")
    case (Some p)
    obtain r q where q: "delete_many pf T f p = (r, q)" by fastforce
    with Some delete_many_frame [OF q assms] show ?thesis
      by (auto simp: mg_delete_many_def Let_def table_rows_def split: sum.splits prod.splits option.splits)
  qed (simp add: mg_delete_many_def)
qed

lemma touches_storage_call:
  assumes "\<And>m T'. T' \<notin> X \<Longrightarrow> table_rows (snd (f m)) T' = table_rows m T'"
  shows "touches X (storage_call f)"
proof (rule touchesI)
  fix s :: message_store and T assume "T \<notin> X"
  then have "table_rows (snd (f (ms_storage s))) T = table_rows (ms_storage s) T" by (rule assms)
  then show "table_rows (ms_storage (snd (storage_call f s))) T = table_rows (ms_storage s) T"
    by (auto simp: storage_call_def split: prod.splits sum.splits)
qed

lemma touches_storage_table:
  assumes "\<And>m T'. T' \<noteq> T \<Longrightarrow> table_rows (snd (f m)) T' = table_rows m T'" and "T \<in> X"
  shows "touches X (storage_call f)"
proof (rule touches_storage_call)
  fix m T' assume "T' \<notin> X"
  with assms(2) have "T' \<noteq> T" by metis
  then show "table_rows (snd (f m)) T' = table_rows m T'" by (rule assms(1))
qed

lemma touches_row_reads [touches_intros]:
  "touches X (find_rows rt T cs pg)" "touches X (find_first_row rt T cs)" "touches X (find_by_name_order rt T cs)"
  unfolding find_rows_def find_first_row_def find_by_name_order_def
  by (rule touches_and_then touches_basic touches_storage_call fun_cong [OF manager_frames(1)] fun_cong [OF manager_frames(2)])+

lemma touches_row_writes [touches_intros]:
  assumes "T \<in> X"
  shows "touches X (create_row rt now T data)" and "touches X (update_row rt now T i data)"
    and "touches X (update_rows_where rt now T cs data)" and "touches X (delete_rows_where rt now T cs)"
  unfolding create_row_def update_row_def update_rows_where_def delete_rows_where_def
  by (rule touches_and_then touches_basic touches_storage_table [OF _ assms] manager_frames many_frames | assumption)+

abbreviation message_tables :: "string set" where
  "message_tables \<equiv> {messages_table, delivered_table}"

lemma touches_message_loops [touches_intros]:
  "touches message_tables (publish_loop rt now topic subs msgs ids)"
  "touches message_tables (pull_loop rt now secs rs acc)"
  "touches message_tables (reset_loop rt now before rs n)"
proof -
  show "touches message_tables (publish_loop rt now topic subs msgs ids)"
    by (induction rt now topic subs msgs ids rule: publish_loop.induct)
      (auto intro!: touches_intros simp: fan_out_def)
  show "touches message_tables (pull_loop rt now secs rs acc)"
    by (induction rt now secs rs acc rule: pull_loop.induct)
      (auto intro!: touches_intros simp: message_of_delivery_def Let_def split: option.splits sum.splits)
  show "touches message_tables (reset_loop rt now before rs n)"
    by (induction rt now before rs n rule: reset_loop.induct)
      (auto intro!: touches_intros simp: message_of_delivery_def Let_def split: option.splits sum.splits)
qed

lemma touches_messages [touches_intros]:
  "touches message_tables (publish_messages rt now topic msgs subs)"
  "touches message_tables (pull_messages rt now sub limit secs)"
  "touches message_tables (acknowledge_messages rt now sub acks)"
  "touches message_tables (modify_ack_deadline rt now sub acks secs)"
  "touches message_tables (reset_delivered_by_time rt now sub before)"
  "touches message_tables (delete_by_subscription rt now sub)"
  "touches message_tables (delete_by_topic rt now topic)"
  "touches message_tables (increment_delivery_attempt rt now i deadline)"
  "touches message_tables (cleanup_acked_messages rt now)"
  by (auto intro!: touches_intros simp: publish_messages_def pull_messages_def acknowledge_messages_def
      modify_ack_deadline_def reset_delivered_by_time_def delete_by_subscription_def delete_by_topic_def
      increment_delivery_attempt_def cleanup_acked_messages_def split: list.splits)

lemma touches_find_push [touches_intros]: "touches message_tables (find_push_deliverable rt now sub limit)"
proof -
  have "touches message_tables (deliverable_loop rt rs acc)" for rs acc
    by (induction rt rs acc rule: deliverable_loop.induct)
      (auto intro!: touches_intros simp: message_of_delivery_def split: option.splits)
  then show ?thesis by (auto intro!: touches_intros simp: find_push_deliverable_def)
qed

lemma repo_frames:
  assumes "T \<noteq> rr_table R"
  shows "table_rows (snd (rr_create pf dur now i R data m)) T = table_rows m T"
    and "table_rows (snd (rr_update pf dur now R name data m)) T = table_rows m T"
    and "table_rows (snd (rr_delete pf dur now R name m)) T = table_rows m T"
proof -
  have lift: "snd (lift_storage x) = snd x" for x :: "(storage_error + 'a) \<times> manager"
    by (cases x rule: lift_storage.cases) simp_all
  have get: "table_rows (snd (rr_get_by_name pf dur R v m)) = table_rows m" for v
    by (simp add: rr_get_by_name_def lift manager_frames)
  have get': "table_rows m' = table_rows m" if "rr_get_by_name pf dur R v m = (x, m')" for v x m'
    using get [of v] that by simp
  show "table_rows (snd (rr_create pf dur now i R data m)) T = table_rows m T"
    by (auto simp: rr_create_def lift manager_frames(3) [OF assms] dest!: get' split: prod.splits sum.splits option.splits)
  show "table_rows (snd (rr_update pf dur now R name data m)) T = table_rows m T"
    by (auto simp: rr_update_def lift manager_frames(4) [OF assms] dest!: get' split: prod.splits sum.splits option.splits)
  show "table_rows (snd (rr_delete pf dur now R name m)) T = table_rows m T"
    by (auto simp: rr_delete_def lift manager_frames(5) [OF assms] dest!: get' split: prod.splits sum.splits option.splits)
qed

lemma repo_call_Inr: "f (ms_storage s) = (Inr a, m) \<Longrightarrow> repo_call f s = (Inr a, s\<lparr>ms_storage := m\<rparr>)"
  by (simp add: repo_call_def)

section \<open>The abstract state\<close>

record world =
  w_cat :: "string \<Rightarrow> string \<Rightarrow> jsobj option"
  w_log :: msg_log

definition resource_repos :: "repository set" where
  "resource_repos = {topics, subscriptions, snapshots, schemas}"

abbreviation catalog :: "world \<Rightarrow> repository \<Rightarrow> string \<Rightarrow> jsobj option" where
  "catalog w R \<equiv> w_cat w (rr_table R)"

lemma repo_fields [simp]:
  "rr_table topics = ''pubsub_topics''" "rr_table subscriptions = ''pubsub_subscriptions''"
  "rr_table snapshots = ''pubsub_snapshots''" "rr_table schemas = ''pubsub_schemas''"
  "\<not> rr_reject_duplicates topics" "\<not> rr_reject_duplicates subscriptions"
  "\<not> rr_reject_duplicates snapshots" "\<not> rr_reject_duplicates schemas"
  by (simp_all add: topics_def subscriptions_def snapshots_def schemas_def new_repository_def)

lemma repo_members [simp]:
  "topics \<in> resource_repos" "subscriptions \<in> resource_repos" "snapshots \<in> resource_repos" "schemas \<in> resource_repos"
  by (simp_all add: resource_repos_def)

lemma repo_tables:
  assumes "R \<in> resource_repos"
  shows "rr_table R \<notin> message_tables" and "\<not> rr_reject_duplicates R"
    and "Q \<in> resource_repos \<Longrightarrow> rr_table Q = rr_table R \<Longrightarrow> Q = R"
  using assms by (auto simp: resource_repos_def messages_table_def delivered_table_def)

definition holds_catalog :: "runtime \<Rightarrow> message_store \<Rightarrow> repository \<Rightarrow> (string \<Rightarrow> jsobj option) \<Rightarrow> bool" where
  "holds_catalog rt s R c \<longleftrightarrow>
     (\<exists>rows. table_rows (ms_storage s) (rr_table R) = Some rows \<and> rows_wf rows \<and> catalog_of rows = c \<and>
             set (jm_keys rows) \<subseteq> drawn rt (ms_uuids s))"

definition represents :: "runtime \<Rightarrow> message_store \<Rightarrow> world \<Rightarrow> bool" where
  "represents rt s w \<longleftrightarrow>
     inj (rt_uuid rt) \<and> holds rt s (w_log w) \<and> (\<forall>R \<in> resource_repos. holds_catalog rt s R (catalog w R))"

definition runs :: "runtime \<Rightarrow> world \<Rightarrow> 'a pubsub \<Rightarrow> pubsub_error + 'a \<Rightarrow> world \<Rightarrow> bool" where
  "runs rt w f r w' \<longleftrightarrow> (\<forall>s. represents rt s w \<longrightarrow> (\<exists>s'. f s = (r, s') \<and> represents rt s' w'))"

lemma runsD: "runs rt w f r w' \<Longrightarrow> represents rt s w \<Longrightarrow> \<exists>s'. f s = (r, s') \<and> represents rt s' w'"
  by (simp add: runs_def)

lemma runs_then: "runs rt w f (Inr a) w1 \<Longrightarrow> runs rt w1 (g a) r w2 \<Longrightarrow> runs rt w (and_then f g) r w2"
  by (fastforce simp: runs_def and_then_def)

lemma runs_stops: "runs rt w f (Inl e) w1 \<Longrightarrow> runs rt w (and_then f g) (Inl e) w1"
  by (fastforce simp: runs_def and_then_def)

lemma runs_done: "runs rt w (done_with a) (Inr a) w"
  by (simp add: runs_def done_with_def)

lemma runs_fails: "runs rt w (fails_with e) (Inl e) w"
  by (simp add: runs_def fails_with_def)

lemma runs_result: "runs rt w (of_result r) r w"
  by (cases r) (simp_all add: of_result_def runs_done runs_fails)

lemma drawn_le: "k \<le> l \<Longrightarrow> drawn rt k \<subseteq> drawn rt l"
  by (auto simp: drawn_def)

lemma holds_catalog_frame:
  assumes "holds_catalog rt s R c" and "table_rows (ms_storage s') (rr_table R) = table_rows (ms_storage s) (rr_table R)"
    and "ms_uuids s \<le> ms_uuids s'"
  shows "holds_catalog rt s' R c"
  using assms drawn_le [OF assms(3), of rt] unfolding holds_catalog_def by (metis order_trans)

lemma holds_frame:
  assumes "holds rt s lg" and "table_rows (ms_storage s') messages_table = table_rows (ms_storage s) messages_table"
    and "table_rows (ms_storage s') delivered_table = table_rows (ms_storage s) delivered_table"
    and "ms_uuids s \<le> ms_uuids s'"
  shows "holds rt s' (lg\<lparr>lg_drawn := ms_uuids s'\<rparr>)"
proof -
  obtain M D where "tables_hold rt s lg M D" using assms(1) by (rule holdsE)
  then have "tables_hold rt s' (lg\<lparr>lg_drawn := ms_uuids s'\<rparr>) M D"
    using assms(2,3) subset_trans [OF _ drawn_le [OF assms(4), of rt]] drawn_mono [OF assms(4), of _ rt]
    by (simp add: tables_hold_def)
  then show ?thesis by (rule holdsI)
qed

text \<open>A step of the messages, a step of one repository, and a step that only reads.\<close>

lemma represents_messages:
  assumes "represents rt s w" and "touches message_tables f" and "f s = (r, s')" and "holds rt s' lg"
    and "lg_drawn (w_log w) \<le> lg_drawn lg"
  shows "represents rt s' (w\<lparr>w_log := lg\<rparr>)"
proof -
  have "ms_uuids s \<le> ms_uuids s'"
    using assms(1,4,5) holds_drawn [of rt s] holds_drawn [of rt s'] by (simp add: represents_def)
  moreover have "table_rows (ms_storage s') (rr_table R) = table_rows (ms_storage s) (rr_table R)"
    if "R \<in> resource_repos" for R
    using assms(2,3) repo_tables(1) [OF that] by (metis snd_conv touches_def)
  ultimately show ?thesis using assms(1,4) by (auto simp: represents_def intro: holds_catalog_frame)
qed

lemma represents_repo:
  assumes "represents rt s w" and R: "R \<in> resource_repos" and "touches {rr_table R} f" and "f s = (r, s')"
    and "holds_catalog rt s' R c" and "ms_uuids s \<le> ms_uuids s'"
  shows "represents rt s' (w\<lparr>w_cat := (w_cat w)(rr_table R := c), w_log := (w_log w)\<lparr>lg_drawn := ms_uuids s'\<rparr>\<rparr>)"
proof -
  have frame: "table_rows (ms_storage s') T = table_rows (ms_storage s) T" if "T \<noteq> rr_table R" for T
    using assms(3,4) that by (metis singletonD snd_conv touches_def)
  have "holds rt s' ((w_log w)\<lparr>lg_drawn := ms_uuids s'\<rparr>)"
    using assms(1,6) frame repo_tables(1) [OF R] by (intro holds_frame [of rt s]) (auto simp: represents_def)
  moreover have "holds_catalog rt s' Q (catalog w Q)" if "Q \<in> resource_repos" "rr_table Q \<noteq> rr_table R" for Q
    using assms(1,6) that frame by (auto simp: represents_def intro: holds_catalog_frame)
  ultimately show ?thesis using assms(1,5) repo_tables(3) [OF R] by (auto simp: represents_def)
qed

lemma represents_read:
  assumes "represents rt s w" and "table_rows (ms_storage s') = table_rows (ms_storage s)" and "ms_uuids s' = ms_uuids s"
  shows "represents rt s' w"
proof -
  have "holds rt s' ((w_log w)\<lparr>lg_drawn := ms_uuids s'\<rparr>)"
    using assms by (intro holds_frame [of rt s]) (auto simp: represents_def)
  moreover have "(w_log w)\<lparr>lg_drawn := ms_uuids s'\<rparr> = w_log w"
    using assms(1,3) holds_drawn [of rt s "w_log w"] by (simp add: represents_def)
  ultimately show ?thesis using assms by (auto simp: represents_def intro: holds_catalog_frame)
qed

section \<open>What the calls do to the abstract state\<close>

definition set_catalog :: "repository \<Rightarrow> (string \<Rightarrow> jsobj option) \<Rightarrow> world \<Rightarrow> world" where
  "set_catalog R c w = w\<lparr>w_cat := (w_cat w)(rr_table R := c)\<rparr>"

text \<open>Creating a resource draws one identifier.\<close>

definition draw :: "world \<Rightarrow> world" where
  "draw w = w\<lparr>w_log := (w_log w)\<lparr>lg_drawn := Suc (lg_drawn (w_log w))\<rparr>\<rparr>"

lemma world_simps [simp]:
  "catalog (set_catalog R c w) R = c" "w_log (set_catalog R c w) = w_log w" "w_cat (draw w) = w_cat w"
  "rr_table Q \<noteq> rr_table R \<Longrightarrow> catalog (set_catalog R c w) Q = catalog w Q"
  "lg_messages (w_log (draw w)) = lg_messages (w_log w)" "lg_deliveries (w_log (draw w)) = lg_deliveries (w_log w)"
  by (simp_all add: set_catalog_def draw_def)

lemma represents_uuids: "represents rt s w \<Longrightarrow> lg_drawn (w_log w) = ms_uuids s"
  by (auto simp: represents_def dest: holds_drawn)

lemma represents_catalog:
  assumes "represents rt s w" and "R \<in> resource_repos"
  obtains rows where "table_rows (ms_storage s) (rr_table R) = Some rows" "rows_wf rows" "catalog_of rows = catalog w R"
    "set (jm_keys rows) \<subseteq> drawn rt (ms_uuids s)"
  using assms by (auto simp: represents_def holds_catalog_def)

lemma touches_repo_call:
  assumes "\<And>m T. T \<noteq> rr_table R \<Longrightarrow> table_rows (snd (f m)) T = table_rows m T"
  shows "touches {rr_table R} (repo_call f)"
  using assms by (auto simp: touches_def repo_call_def split: prod.splits sum.splits) (metis snd_conv)+

lemma runs_get:
  assumes "R \<in> resource_repos"
  shows "runs rt w (get_in rt R (JStr n)) (Inr (catalog w R n)) w"
  unfolding runs_def
proof (intro allI impI)
  fix s assume s: "represents rt s w"
  obtain rows where rows: "table_rows (ms_storage s) (rr_table R) = Some rows" "rows_wf rows" "catalog_of rows = catalog w R"
    using s assms by (rule represents_catalog)
  have "matches_filter (rt_platform rt) \<lparr>qf_conditions = [where_eq ''name'' n], qf_operator = None\<rparr> =
      (\<lambda>r. field_of r ''name'' = JStr n)"
    by (rule ext) (simp add: matches_filter_def matches_condition_def)
  with row_find_first [OF rows(1), of "rt_platform rt" "rt_duration rt" "\<lparr>qf_conditions = [where_eq ''name'' n], qf_operator = None\<rparr>"]
  obtain m' where m': "rr_get_by_name (rt_platform rt) (rt_duration rt) R (JStr n) (ms_storage s) = (Inr (catalog w R n), m')"
      "table_rows m' = table_rows (ms_storage s)"
    using catalog_find [OF rows(2), of n] rows(3) by (auto simp: rr_get_by_name_def name_query_def empty_query_def)
  have "represents rt (s\<lparr>ms_storage := m'\<rparr>) w" using m'(2) by (intro represents_read [OF s]) simp_all
  then show "\<exists>s'. get_in rt R (JStr n) s = (Inr (catalog w R n), s') \<and> represents rt s' w"
    using m'(1) by (auto simp: get_in_def repo_call_Inr)
qed

lemma runs_uuid: "runs rt w (random_uuid rt) (Inr (rt_uuid rt (lg_drawn (w_log w)))) (draw w)"
  unfolding runs_def
proof (intro allI impI)
  fix s assume s: "represents rt s w"
  have "holds rt (s\<lparr>ms_uuids := Suc (ms_uuids s)\<rparr>) ((w_log w)\<lparr>lg_drawn := Suc (ms_uuids s)\<rparr>)"
    using s holds_frame [of rt s "w_log w" "s\<lparr>ms_uuids := Suc (ms_uuids s)\<rparr>"] by (simp add: represents_def)
  then show "\<exists>s'. random_uuid rt s = (Inr (rt_uuid rt (lg_drawn (w_log w))), s') \<and> represents rt s' (draw w)"
    using s represents_uuids [OF s] holds_catalog_frame [of rt s _ _ "s\<lparr>ms_uuids := Suc (ms_uuids s)\<rparr>"]
    by (auto simp: random_uuid_def represents_def draw_def)
qed

lemma runs_create:
  assumes R: "R \<in> resource_repos" and data: "op_ok (RoCreate now (rt_uuid rt (lg_drawn (w_log w))) data)"
    and n: "field_of data ''name'' = JStr n" and new: "catalog w R n = None"
  shows "runs rt w (create_in rt now R data) (Inr (new_record now (rt_uuid rt (lg_drawn (w_log w))) data))
           (draw (set_catalog R ((catalog w R)(n \<mapsto> new_record now (rt_uuid rt (lg_drawn (w_log w))) data)) w))"
  unfolding runs_def
proof (intro allI impI)
  fix s assume s: "represents rt s w"
  let ?i = "rt_uuid rt (ms_uuids s)" let ?r = "new_record now ?i data"
  note k = represents_uuids [OF s]
  obtain rows where rows: "table_rows (ms_storage s) (rr_table R) = Some rows" "rows_wf rows" "catalog_of rows = catalog w R"
      "set (jm_keys rows) \<subseteq> drawn rt (ms_uuids s)"
    using s R by (rule represents_catalog)
  have "?i \<notin> drawn rt (ms_uuids s)" using s by (intro drawn_fresh) (simp add: represents_def)
  then have fresh: "?i \<notin> set (jm_keys rows)" using rows(4) by blast
  obtain m' where m': "mg_create (rt_duration rt) now ?i (rr_table R) data (ms_storage s) = (Inr ?r, m')"
      "table_rows m' = (table_rows (ms_storage s))(rr_table R \<mapsto> jm_set rows ?i ?r)"
    using row_create [OF rows(1)] by blast
  define s' where "s' = s\<lparr>ms_uuids := Suc (ms_uuids s), ms_storage := m'\<rparr>"
  have run: "create_in rt now R data s = (Inr ?r, s')"
    using m'(1) repo_tables(2) [OF R]
    by (simp add: create_in_def and_then_def random_uuid_def repo_call_def rr_create_def s'_def)
  note cat = catalog_create [OF rows(2) data [unfolded k] fresh n] rows(3) new
  have "touches {rr_table R} (create_in rt now R data)"
    unfolding create_in_def by (intro touches_intros touches_repo_call repo_frames(1))
  moreover have "holds_catalog rt s' R ((catalog w R)(n \<mapsto> ?r))"
    using cat rows(3,4) m'(2) unfolding holds_catalog_def s'_def by (intro exI [of _ "rows @ [(?i, ?r)]"]) auto
  ultimately show "\<exists>s'. create_in rt now R data s = (Inr (new_record now (rt_uuid rt (lg_drawn (w_log w))) data), s') \<and>
      represents rt s' (draw (set_catalog R ((catalog w R)(n \<mapsto> new_record now (rt_uuid rt (lg_drawn (w_log w))) data)) w))"
    using represents_repo [of rt s w R "create_in rt now R data" "Inr ?r" s' "(catalog w R)(n \<mapsto> ?r)"] s R run k
    by (auto simp: s'_def draw_def set_catalog_def)
qed

lemma runs_repo_call:
  assumes R: "R \<in> resource_repos" and frame: "\<And>m T. T \<noteq> rr_table R \<Longrightarrow> table_rows (snd (f m)) T = table_rows m T"
    and eff: "\<And>m rows. rr_rows R m = Some rows \<Longrightarrow> rows_wf rows \<Longrightarrow> catalog_of rows = catalog w R \<Longrightarrow>
      \<exists>m' rows'. f m = (Inr a, m') \<and> rr_rows R m' = Some rows' \<and> rows_wf rows' \<and> catalog_of rows' = c \<and>
        set (jm_keys rows') \<subseteq> set (jm_keys rows)"
  shows "runs rt w (repo_call f) (Inr a) (set_catalog R c w)"
  unfolding runs_def
proof (intro allI impI)
  fix s assume s: "represents rt s w"
  obtain rows where rows: "table_rows (ms_storage s) (rr_table R) = Some rows" "rows_wf rows" "catalog_of rows = catalog w R"
      "set (jm_keys rows) \<subseteq> drawn rt (ms_uuids s)"
    using s R by (rule represents_catalog)
  obtain m' rows' where m': "f (ms_storage s) = (Inr a, m')" "rr_rows R m' = Some rows'" "rows_wf rows'" "catalog_of rows' = c"
      "set (jm_keys rows') \<subseteq> set (jm_keys rows)"
    using eff [of "ms_storage s" rows] rows by (auto simp: rr_rows_table)
  let ?s' = "s\<lparr>ms_storage := m'\<rparr>"
  have run: "repo_call f s = (Inr a, ?s')" using m'(1) by (rule repo_call_Inr)
  have "holds_catalog rt ?s' R c"
    using m' rows(4) unfolding holds_catalog_def by (intro exI [of _ rows']) (auto simp: rr_rows_table)
  from represents_repo [OF s R touches_repo_call [OF frame] run this] have
    "represents rt ?s' (w\<lparr>w_cat := (w_cat w)(rr_table R := c), w_log := (w_log w)\<lparr>lg_drawn := ms_uuids s\<rparr>\<rparr>)" by simp
  moreover have "(w_log w)\<lparr>lg_drawn := ms_uuids s\<rparr> = w_log w" using represents_uuids [OF s] by simp
  ultimately show "\<exists>s'. repo_call f s = (Inr a, s') \<and> represents rt s' (set_catalog R c w)"
    using run by (simp add: set_catalog_def)
qed

lemma out_eq [simp]:
  "map_prod OutOptional id x = (OutOptional a, m) \<longleftrightarrow> x = (a, m)" "map_prod OutBool id y = (OutBool b, m) \<longleftrightarrow> y = (b, m)"
  by (cases x; cases y; simp)+

lemma runs_update:
  assumes "R \<in> resource_repos" and "op_ok (RoUpdate now n data)" and "catalog w R n = Some r"
  shows "runs rt w (update_in rt now R n data) (Inr (Some (updated_record now r data)))
           (set_catalog R ((catalog w R)(n \<mapsto> updated_record now r data)) w)"
  unfolding update_in_def
proof (rule runs_repo_call [OF assms(1) repo_frames(2)])
  fix m rows assume "rr_rows R m = Some rows" "rows_wf rows" "catalog_of rows = catalog w R"
  then show "\<exists>m' rows'. rr_update (rt_platform rt) (rt_duration rt) now R (JStr n) data m =
        (Inr (Some (updated_record now r data)), m') \<and> rr_rows R m' = Some rows' \<and> rows_wf rows' \<and>
        catalog_of rows' = (catalog w R)(n \<mapsto> updated_record now r data) \<and> set (jm_keys rows') \<subseteq> set (jm_keys rows)"
    using sim_update [of R m rows now n data "rt_platform rt" "rt_duration rt"] assms(2,3) by auto
qed

lemma runs_update_missing:
  assumes "R \<in> resource_repos" and "op_ok (RoUpdate now n data)" and "catalog w R n = None"
  shows "runs rt w (update_in rt now R n data) (Inr None) w"
proof -
  have "runs rt w (update_in rt now R n data) (Inr None) (set_catalog R (catalog w R) w)"
    unfolding update_in_def
  proof (rule runs_repo_call [OF assms(1) repo_frames(2)])
    fix m rows assume "rr_rows R m = Some rows" "rows_wf rows" "catalog_of rows = catalog w R"
    then show "\<exists>m' rows'. rr_update (rt_platform rt) (rt_duration rt) now R (JStr n) data m = (Inr None, m') \<and>
        rr_rows R m' = Some rows' \<and> rows_wf rows' \<and> catalog_of rows' = catalog w R \<and>
        set (jm_keys rows') \<subseteq> set (jm_keys rows)"
      using sim_update [of R m rows now n data "rt_platform rt" "rt_duration rt"] assms(2,3) by auto
  qed
  then show ?thesis by (simp add: set_catalog_def)
qed

lemma runs_delete:
  assumes "R \<in> resource_repos"
  shows "runs rt w (delete_in rt now R n) (Inr (catalog w R n \<noteq> None)) (set_catalog R ((catalog w R)(n := None)) w)"
  unfolding delete_in_def
proof (rule runs_repo_call [OF assms repo_frames(3)])
  fix m rows assume "rr_rows R m = Some rows" "rows_wf rows" "catalog_of rows = catalog w R"
  then show "\<exists>m' rows'. rr_delete (rt_platform rt) (rt_duration rt) now R (JStr n) m =
        (Inr (catalog w R n \<noteq> None), m') \<and> rr_rows R m' = Some rows' \<and> rows_wf rows' \<and>
        catalog_of rows' = (catalog w R)(n := None) \<and> set (jm_keys rows') \<subseteq> set (jm_keys rows)"
    using sim_delete [of R m rows "rt_platform rt" "rt_duration rt" now n] by auto
qed

lemma runs_require:
  assumes "R \<in> resource_repos"
  shows "catalog w R n = Some r \<Longrightarrow> runs rt w (require rt R kind n) (Inr r) w"
    and "catalog w R n = None \<Longrightarrow> runs rt w (require rt R kind n) (Inl (missing kind n)) w"
  using runs_get [OF assms, of rt w n] unfolding require_def
  by (auto intro!: runs_then [of rt w _ _ w] runs_done runs_fails)

lemmas runs_missing = runs_stops [OF runs_require(2)]
lemmas runs_found = runs_then [OF runs_require(1)]

text \<open>The methods of the message repository, by their refinement of the log.\<close>

definition set_log :: "msg_log \<Rightarrow> world \<Rightarrow> world" where
  "set_log lg w = w\<lparr>w_log := lg\<rparr>"

lemma set_log_simps [simp]: "w_cat (set_log lg w) = w_cat w" "w_log (set_log lg w) = lg"
  by (simp_all add: set_log_def)

lemma runs_messages:
  assumes "touches message_tables f" and "lg_drawn (w_log w) \<le> lg_drawn lg"
    and "\<And>s. inj (rt_uuid rt) \<Longrightarrow> holds rt s (w_log w) \<Longrightarrow> \<exists>s'. f s = (r, s') \<and> holds rt s' lg"
  shows "runs rt w f r (set_log lg w)"
  unfolding runs_def
proof (intro allI impI)
  fix s assume s: "represents rt s w"
  then obtain s' where s': "f s = (r, s')" "holds rt s' lg" using assms(3) by (auto simp: represents_def)
  with represents_messages [OF s assms(1) s'(1,2) assms(2)]
  show "\<exists>s'. f s = (r, s') \<and> represents rt s' (set_log lg w)" by (auto simp: set_log_def)
qed

lemma log_drawn_simps [simp]:
  "lg_drawn (snd (log_pull rt now sub limit secs lg)) = lg_drawn lg" "lg_drawn (log_ack sub acks lg) = lg_drawn lg"
  "lg_drawn (log_modify sub acks t lg) = lg_drawn lg" "lg_drawn (log_increment i t lg) = lg_drawn lg"
  "lg_drawn (snd (log_reset sub t lg)) = lg_drawn lg" "lg_drawn (log_drop_subscription sub lg) = lg_drawn lg"
  "lg_drawn (log_drop_topic topic lg) = lg_drawn lg" "lg_drawn (snd (log_cleanup lg)) = lg_drawn lg"
  by (simp_all add: log_pull_def Let_def log_ack_def log_modify_def log_increment_def log_reset_def
      log_drop_subscription_def log_drop_topic_def log_cleanup_def)

lemma fold_delivery_drawn: "lg_drawn (fold (new_delivery rt mid) subs lg) = lg_drawn lg + 2 * length subs"
  by (induction subs arbitrary: lg) (simp_all add: new_delivery_def)

lemma publish_drawn: "lg_drawn lg \<le> lg_drawn (snd (log_publish rt now topic subs msgs lg))"
proof (induction rt now topic subs msgs lg rule: log_publish.induct)
  case (2 rt now topic subs msg msgs lg)
  have "lg_drawn lg \<le> lg_drawn (fold (new_delivery rt (rt_uuid rt (lg_drawn lg))) subs (new_message rt topic msg now lg))"
    by (simp add: fold_delivery_drawn new_message_def)
  with 2 [OF refl refl] show ?case by (auto simp: Let_def split: prod.splits)
qed simp

lemma runs_publish_messages:
  assumes "list_all attributes_ok msgs"
  shows "runs rt w (publish_messages rt now topic msgs subs)
           (Inr (fst (log_publish rt (iso_string now) topic subs msgs (w_log w))))
           (set_log (snd (log_publish rt (iso_string now) topic subs msgs (w_log w))) w)"
  using publish_loop_refines [of rt _ "w_log w" msgs now topic subs "[]"] assms publish_drawn
  by (intro runs_messages touches_messages) (auto simp: publish_messages_def)

lemma runs_pull_messages:
  "runs rt w (pull_messages rt now sub limit secs) (Inr (fst (log_pull rt now sub limit secs (w_log w))))
     (set_log (snd (log_pull rt now sub limit secs (w_log w))) w)"
  by (intro runs_messages touches_messages) (use pull_refines in auto)

lemma runs_acknowledge:
  "runs rt w (acknowledge_messages rt now sub acks) (Inr ()) (set_log (log_ack sub acks (w_log w)) w)"
  by (intro runs_messages touches_messages) (use ack_refines in auto)

lemma runs_drop_subscription:
  "runs rt w (delete_by_subscription rt now sub) (Inr ()) (set_log (log_drop_subscription sub (w_log w)) w)"
  by (intro runs_messages touches_messages) (use drop_subscription_refines in auto)

lemma runs_drop_topic:
  "runs rt w (delete_by_topic rt now topic) (Inr ()) (set_log (log_drop_topic topic (w_log w)) w)"
  by (intro runs_messages touches_messages) (use drop_topic_refines in auto)

lemma runs_increment:
  "runs rt w (increment_delivery_attempt rt now i t) (Inr ()) (set_log (log_increment i t (w_log w)) w)"
  by (intro runs_messages touches_messages) (use increment_refines in auto)

lemma runs_reset:
  "runs rt w (reset_delivered_by_time rt now sub before) (Inr (fst (log_reset sub before (w_log w))))
     (set_log (snd (log_reset sub before (w_log w))) w)"
  by (intro runs_messages touches_messages) (use reset_refines in auto)

section \<open>Listings\<close>

lemma catalog_filter_rows:
  assumes "distinct (map name_of (map snd rows))"
  shows "catalog_of (filter (\<lambda>(i, r). P r) rows) n =
    (case catalog_of rows n of Some r \<Rightarrow> if P r then Some r else None | None \<Rightarrow> None)"
  using assms
proof (induction rows)
  case (Cons e rows)
  obtain i r where e: "e = (i, r)" by (cases e)
  have "catalog_of rows (name_of r) = None" using Cons.prems e dom_catalog [of rows] by (auto simp: domIff)
  with Cons e show ?case by (auto split: option.splits)
qed simp

definition matching_names :: "(string \<Rightarrow> jsobj option) \<Rightarrow> (jsobj \<Rightarrow> bool) \<Rightarrow> string list" where
  "matching_names c P = sorted_list_of_set {n. \<exists>r. c n = Some r \<and> P r}"

lemma select_by_name_order:
  assumes "rows_wf rows" and "mt_records t = rows"
  shows "select_records pf \<lparr>qo_filter = Some f, qo_sort = Some by_name, qo_pagination = pg\<rparr> t =
    map (\<lambda>n. the (catalog_of rows n)) (matching_names (catalog_of rows) (matches_filter pf f))"
proof -
  let ?P = "matches_filter pf f" let ?rows = "filter (\<lambda>(i, r). ?P r) rows" let ?rs = "filter ?P (map snd rows)"
  have rs: "?rs = map snd ?rows" by (simp add: filter_map o_def case_prod_unfold)
  have wf: "rows_wf ?rows" using assms(1) by (rule rows_wf_filter)
  have "\<forall>r \<in> set ?rs. \<exists>x. field_of r ''name'' = JStr x" using rows_wf_name [OF assms(1)] by auto
  note srt = sort_by_str_field [OF this, of pf]
  have names: "distinct (map name_of (map snd rows))" using assms(1) unfolding rows_wf_def by blast
  have cat: "catalog_of ?rows n = (case catalog_of rows n of Some r \<Rightarrow> if ?P r then Some r else None | None \<Rightarrow> None)" for n
    by (rule catalog_filter_rows [OF names])
  then have dom: "dom (catalog_of ?rows) = {n. \<exists>r. catalog_of rows n = Some r \<and> ?P r}"
    by (auto split: option.splits if_splits)
  have "finite (dom (catalog_of ?rows))" by (simp add: dom_catalog)
  then have "the (catalog_of ?rows n) = the (catalog_of rows n)" if "n \<in> set (sorted_list_of_set (dom (catalog_of ?rows)))" for n
    using that cat [of n] by (auto split: option.splits if_splits)
  then have "sort_key name_of (map snd ?rows) =
      map (\<lambda>n. the (catalog_of rows n)) (matching_names (catalog_of rows) ?P)"
    unfolding sort_by_name_catalog [OF wf] matching_names_def dom [symmetric] by (intro map_cong) simp_all
  then show ?thesis
    using assms(2) by (simp add: select_records_def by_name_def srt rs [symmetric] Let_def del: compare_records.simps)
qed

lemma runs_list:
  assumes "R \<in> resource_repos"
  shows "runs rt w (find_by_name_order rt (rr_table R) cs)
    (Inr (map (\<lambda>n. the (catalog w R n))
       (matching_names (catalog w R) (matches_filter (rt_platform rt) \<lparr>qf_conditions = cs, qf_operator = None\<rparr>)))) w"
  unfolding runs_def
proof (intro allI impI)
  fix s assume s: "represents rt s w"
  let ?f = "\<lparr>qf_conditions = cs, qf_operator = None\<rparr>"
  let ?opts = "\<lparr>qo_filter = Some ?f, qo_sort = Some by_name, qo_pagination = None\<rparr>"
  let ?ns = "matching_names (catalog w R) (matches_filter (rt_platform rt) ?f)"
  obtain rows where rows: "table_rows (ms_storage s) (rr_table R) = Some rows" "rows_wf rows" "catalog_of rows = catalog w R"
    using s assms by (rule represents_catalog)
  obtain m' t where m': "mg_find (rt_platform rt) (rt_duration rt) (rr_table R) ?opts (ms_storage s) =
        (Inr (page_of None (select_records (rt_platform rt) ?opts t)), m')" "mt_records t = rows" "table_rows m' = table_rows (ms_storage s)"
    using row_find_sorted [OF rows(1), of "rt_platform rt" "rt_duration rt" ?opts] by auto
  have sel: "select_records (rt_platform rt) ?opts t = map (\<lambda>n. the (catalog w R n)) ?ns"
    unfolding select_by_name_order [OF rows(2) m'(2)] rows(3) ..
  have "represents rt (s\<lparr>ms_storage := m'\<rparr>) w" using m'(3) by (intro represents_read [OF s]) simp_all
  with m'(1) sel show "\<exists>s'. find_by_name_order rt (rr_table R) cs s = (Inr (map (\<lambda>n. the (catalog w R n)) ?ns), s') \<and> represents rt s' w"
    by (auto simp: find_by_name_order_def and_then_def storage_call_def done_with_def page_of_def)
qed

text \<open>The names in a listing are those of the records, since a catalog files a record under its name.\<close>

definition named :: "(string \<Rightarrow> jsobj option) \<Rightarrow> bool" where
  "named c \<longleftrightarrow> finite (dom c) \<and> (\<forall>n r. c n = Some r \<longrightarrow> field_of r ''name'' = JStr n)"

lemma catalog_named: "rows_wf rows \<Longrightarrow> named (catalog_of rows)"
  using catalog_Some [of rows] by (auto simp: named_def dom_catalog)

lemma represents_named: "represents rt s w \<Longrightarrow> R \<in> resource_repos \<Longrightarrow> named (catalog w R)"
  by (metis represents_catalog catalog_named)

lemma matching_names_set: "named c \<Longrightarrow> set (matching_names c P) = {n. \<exists>r. c n = Some r \<and> P r}"
proof -
  assume "named c"
  then have "finite (dom c)" by (simp add: named_def)
  moreover have "{n. \<exists>r. c n = Some r \<and> P r} \<subseteq> dom c" by auto
  ultimately have "finite {n. \<exists>r. c n = Some r \<and> P r}" by (rule rev_finite_subset)
  then show ?thesis by (simp add: matching_names_def)
qed

lemma matching_names_distinct: "distinct (matching_names c P)"
  by (simp add: matching_names_def)

lemma listed_names:
  assumes "named c"
  shows "map (\<lambda>r. field_of r ''name'') (map (\<lambda>n. the (c n)) (matching_names c P)) = map JStr (matching_names c P)"
    and "map (str_field ''name'') (map (\<lambda>n. the (c n)) (matching_names c P)) = matching_names c P"
proof -
  have "field_of (the (c n)) ''name'' = JStr n" if "n \<in> set (matching_names c P)" for n
    using that matching_names_set [OF assms, of P] assms unfolding named_def by fastforce
  then show "map (\<lambda>r. field_of r ''name'') (map (\<lambda>n. the (c n)) (matching_names c P)) = map JStr (matching_names c P)"
    and "map (str_field ''name'') (map (\<lambda>n. the (c n)) (matching_names c P)) = matching_names c P"
    by (simp_all add: str_field_def map_idI)
qed

section \<open>The empty state\<close>

definition empty_world :: world where
  "empty_world = \<lparr>w_cat = \<lambda>_ _. None, w_log = empty_log\<rparr>"

definition fresh_pubsub :: "runtime \<Rightarrow> cache_settings option \<Rightarrow> int \<Rightarrow> message_store" where
  "fresh_pubsub rt cfg now =
     snd (initialize_pubsub rt now \<lparr>ms_storage = mg_initialize now cfg new_manager, ms_uuids = 0\<rparr>)"

lemma table_names_distinct [simp]:
  "messages_table = ''pubsub_messages''" "delivered_table = ''pubsub_delivered_messages''"
  by (simp_all add: messages_table_def delivered_table_def)

lemma fresh_pubsub_represents:
  assumes "inj (rt_uuid rt)"
  shows "represents rt (fresh_pubsub rt cfg now) empty_world"
proof -
  let ?s = "fresh_pubsub rt cfg now"
  have "ms_uuids ?s = 0"
    by (auto simp: fresh_pubsub_def initialize_pubsub_def initialize_messages_def and_then_def storage_call_def
        repo_call_def split: prod.splits sum.splits)
  moreover have tabs: "table_rows (ms_storage ?s) T = Some []"
    if "T \<in> {''pubsub_topics'', ''pubsub_subscriptions'', ''pubsub_messages'', ''pubsub_delivered_messages'', ''pubsub_snapshots'', ''pubsub_schemas''}" for T
    using that by (auto simp: fresh_pubsub_def initialize_pubsub_def initialize_messages_def and_then_def storage_call_def
        repo_call_def rr_initialize_def mg_list_tables_def list_tables_def mg_create_table_def
        mg_initialize_def emit_event_def new_manager_def table_rows_def create_table_def initialize_tables new_provider_def)
  ultimately have "tables_hold rt ?s empty_log [] []"
    by (simp add: tables_hold_def empty_log_def)
  then have "holds rt ?s empty_log" by (rule holdsI)
  moreover have wf: "rows_wf []" by (simp add: rows_wf_def)
  have cats: "holds_catalog rt ?s R Map.empty" if "R \<in> resource_repos" for R
  proof -
    have "rr_table R \<in> {''pubsub_topics'', ''pubsub_subscriptions'', ''pubsub_snapshots'', ''pubsub_schemas''}"
      using that by (simp add: resource_repos_def) (elim disjE, simp_all)
    then have "table_rows (ms_storage ?s) (rr_table R) = Some []" by (intro tabs) auto
    then show ?thesis using wf by (simp add: holds_catalog_def)
  qed
  ultimately show ?thesis using assms by (simp add: represents_def empty_world_def cats)
qed

end
