(* ===== verification/Pubsub_Service_Facts.thy ===== *)
theory Pubsub_Service_Facts
  imports Pubsub_World
begin

text \<open>
  What the services of Pub/Sub promise, on any store that represents a state of catalogs and log: whom a
  publication reaches, what a subscription can do after it is detached or deleted, and what an update mask
  changes.
\<close>

section \<open>Publishing\<close>

definition active_for :: "string \<Rightarrow> jsobj \<Rightarrow> bool" where
  "active_for t r \<longleftrightarrow> field_of r ''topic'' = JStr t \<and> field_of r ''detached'' = JNum 0"

definition active_names :: "world \<Rightarrow> string \<Rightarrow> string list" where
  "active_names w t = matching_names (catalog w subscriptions) (active_for t)"

lemma matches_active: "matches_filter pf \<lparr>qf_conditions = [where_eq ''topic'' t, not_detached], qf_operator = None\<rparr> = active_for t"
proof (rule ext)
  fix r
  have "strict_eq v (JNum n) \<longleftrightarrow> v = JNum n" for v n by (cases v) auto
  then show "matches_filter pf \<lparr>qf_conditions = [where_eq ''topic'' t, not_detached], qf_operator = None\<rparr> r = active_for t r"
    by (simp add: matches_filter_def matches_condition_def active_for_def)
qed

text \<open>The deliveries of a publication: each message once for each subscription, in that order.\<close>

definition undelivered :: "delivery \<Rightarrow> bool" where
  "undelivered d \<longleftrightarrow> \<not> dl_acked d \<and> dl_attempt d = 0 \<and> dl_deadline d = epoch_text"

definition fans_out :: "string list \<Rightarrow> string list \<Rightarrow> delivery list \<Rightarrow> bool" where
  "fans_out ids subs ds \<longleftrightarrow>
     map (\<lambda>d. (dl_message d, dl_sub d)) ds = List.product ids subs \<and> list_all undelivered ds"

lemma fold_delivery_shape:
  "\<exists>ds. lg_deliveries (fold (new_delivery rt mid) subs lg) = lg_deliveries lg @ ds \<and>
     map (\<lambda>d. (dl_message d, dl_sub d)) ds = map (Pair mid) subs \<and> list_all undelivered ds"
proof (induction subs arbitrary: lg)
  case (Cons sub subs)
  let ?d = "\<lparr>dl_row = rt_uuid rt (Suc (lg_drawn lg)), dl_ack = rt_uuid rt (lg_drawn lg), dl_sub = sub, dl_message = mid,
       dl_attempt = 0, dl_deadline = epoch_text, dl_acked = False\<rparr>"
  have d: "lg_deliveries (new_delivery rt mid sub lg) = lg_deliveries lg @ [?d]" by (simp add: new_delivery_def)
  obtain ds where "lg_deliveries (fold (new_delivery rt mid) subs (new_delivery rt mid sub lg)) =
        lg_deliveries (new_delivery rt mid sub lg) @ ds"
      "map (\<lambda>d. (dl_message d, dl_sub d)) ds = map (Pair mid) subs" "list_all undelivered ds"
    using Cons.IH by blast
  moreover have "undelivered ?d" by (simp add: undelivered_def)
  ultimately show ?case using d by (intro exI [of _ "?d # ds"]) simp
qed simp

lemma publish_shape:
  "case log_publish rt now t subs msgs lg of (ids, lg') \<Rightarrow>
     length ids = length msgs \<and>
     lg_messages lg' = lg_messages lg @ map (\<lambda>(i, m). published i t now m) (zip ids msgs) \<and>
     (\<exists>ds. lg_deliveries lg' = lg_deliveries lg @ ds \<and> fans_out ids subs ds)"
proof (induction rt now t subs msgs lg rule: log_publish.induct)
  case (1 rt now t subs lg)
  then show ?case by (auto simp: fans_out_def)
next
  case (2 rt now t subs msg msgs lg)
  let ?mid = "rt_uuid rt (lg_drawn lg)"
  let ?lg1 = "fold (new_delivery rt ?mid) subs (new_message rt t msg now lg)"
  obtain ids lg2 where pub: "log_publish rt now t subs msgs ?lg1 = (ids, lg2)" by fastforce
  have new: "lg_deliveries (new_message rt t msg now lg) = lg_deliveries lg"
      "lg_messages (new_message rt t msg now lg) = lg_messages lg @ [published ?mid t now msg]"
    by (simp_all add: new_message_def published_def)
  obtain ds where ds: "lg_deliveries ?lg1 = lg_deliveries lg @ ds"
      "map (\<lambda>d. (dl_message d, dl_sub d)) ds = map (Pair ?mid) subs" "list_all undelivered ds"
    using fold_delivery_shape [of rt ?mid subs "new_message rt t msg now lg"] new(1) by auto
  have lg1: "lg_messages ?lg1 = lg_messages lg @ [published ?mid t now msg]" "lg_deliveries ?lg1 = lg_deliveries lg @ ds"
    using ds(1) new(2) by (simp_all add: fold_delivery_extends(1))
  from 2 [OF refl refl] pub lg1 obtain es where es: "length ids = length msgs"
      "lg_messages lg2 = lg_messages lg @ published ?mid t now msg # map (\<lambda>(i, m). published i t now m) (zip ids msgs)"
      "lg_deliveries lg2 = lg_deliveries lg @ ds @ es" "fans_out ids subs es"
    by auto
  then have "fans_out (?mid # ids) subs (ds @ es)" using ds(2,3) by (simp add: fans_out_def)
  with es pub show ?case by (auto simp: Let_def)
qed

lemma runs_active:
  assumes "named (catalog w subscriptions)"
  obtains rs where "runs rt w (find_active rt t) (Inr rs) w" and "map (str_field ''name'') rs = active_names w t"
proof
  show "runs rt w (find_active rt t) (Inr (map (\<lambda>n. the (catalog w subscriptions n)) (active_names w t))) w"
    using runs_list [of subscriptions rt w "[where_eq ''topic'' t, not_detached]"]
    unfolding find_active_def active_names_def matches_active by simp
  show "map (str_field ''name'') (map (\<lambda>n. the (catalog w subscriptions n)) (active_names w t)) = active_names w t"
    unfolding active_names_def by (rule listed_names(2) [OF assms])
qed

lemma runs_publish:
  assumes "catalog w topics t = Some tr" and "vl_publish vl (coalesce body (JObj [])) = Inr msgs"
    and "list_all attributes_ok msgs" and "named (catalog w subscriptions)"
  shows "runs rt w (publish vl rt now t body) (Inr (fst (log_publish rt (iso_string now) t (active_names w t) msgs (w_log w))))
    (set_log (snd (log_publish rt (iso_string now) t (active_names w t) msgs (w_log w))) w)"
proof -
  obtain rs where rs: "runs rt w (find_active rt t) (Inr rs) w" "map (str_field ''name'') rs = active_names w t"
    using runs_active [OF assms(4)] by blast
  have "runs rt w (and_then (find_active rt t) (\<lambda>subs. publish_messages rt now t msgs (map (str_field ''name'') subs)))
     (Inr (fst (log_publish rt (iso_string now) t (active_names w t) msgs (w_log w))))
     (set_log (snd (log_publish rt (iso_string now) t (active_names w t) msgs (w_log w))) w)"
    using rs by (intro runs_then [OF rs(1)]) (simp add: runs_publish_messages [OF assms(3)])
  then show ?thesis unfolding publish_def assms(2) sum.case by (rule runs_found [OF repo_members(1) assms(1)])
qed

section \<open>Detached subscriptions\<close>

lemma op_ok_update [simp]: "op_ok (RoUpdate now n [(f, v)]) \<longleftrightarrow> f \<noteq> ''name'' \<and> f \<noteq> ''id''"
  by auto

lemma named_update:
  assumes "named c" and "c n = Some r" and "op_ok (RoUpdate now n data)"
  shows "named (c(n \<mapsto> updated_record now r data))"
  using assms by (auto simp: named_def field_of_updated)

lemma runs_detach:
  assumes "catalog w subscriptions n = Some r"
  shows "runs rt w (detach_subscription rt now n) (Inr ())
    (set_catalog subscriptions ((catalog w subscriptions)(n \<mapsto> updated_record now r [(''detached'', JNum 1)])) w)"
  unfolding detach_subscription_def
  by (rule runs_found [OF repo_members(2) assms])
    (rule runs_then [OF runs_update [OF repo_members(2) _ assms] runs_done], simp)

text \<open>A subscription whose \<open>detached\<close> is truthy is refused by \<open>pull\<close> and is not among the active ones.\<close>

lemma runs_pull_detached:
  assumes "catalog w subscriptions n = Some r" and "truthy (field_of r ''detached'')"
  shows "runs rt w (pull rt now n body override) (Inl (detached_error n)) w"
  unfolding pull_def using assms(2)
  by (intro runs_found [OF repo_members(2) assms(1)]) (simp add: runs_fails)

lemma detached_not_active:
  assumes "named (catalog w subscriptions)" and "catalog w subscriptions n = Some r" and "truthy (field_of r ''detached'')"
  shows "n \<notin> set (active_names w t)"
  using assms by (auto simp: active_names_def matching_names_set active_for_def)

lemma not_reached:
  assumes "fans_out ids subs ds" and "n \<notin> set subs"
  shows "\<forall>d \<in> set ds. dl_sub d \<noteq> n"
proof
  fix d assume "d \<in> set ds"
  then have "(dl_message d, dl_sub d) \<in> set (map (\<lambda>d. (dl_message d, dl_sub d)) ds)" by force
  then have "dl_sub d \<in> set subs" using assms(1) by (simp add: fans_out_def del: set_map)
  with assms(2) show "dl_sub d \<noteq> n" by blast
qed

text \<open>Publishing leaves the deliveries of a subscription that is not active as they are.\<close>

lemma publish_skips:
  assumes "n \<notin> set subs"
  shows "filter (\<lambda>d. dl_sub d = n) (lg_deliveries (snd (log_publish rt now t subs msgs lg))) =
    filter (\<lambda>d. dl_sub d = n) (lg_deliveries lg)"
proof -
  obtain ids lg' where pub: "log_publish rt now t subs msgs lg = (ids, lg')" by fastforce
  then obtain ds where "lg_deliveries lg' = lg_deliveries lg @ ds" "fans_out ids subs ds"
    using publish_shape [where rt = rt and now = now and t = t and subs = subs and msgs = msgs and lg = lg] by auto
  with not_reached [OF _ assms] pub show ?thesis by simp
qed

section \<open>Update masks\<close>

text \<open>A mask changes only the columns its paths start with.\<close>

lemma whole_fields:
  "f \<noteq> g \<Longrightarrow> jm_get (topic_field data g u) f = jm_get u f" "f \<noteq> g \<Longrightarrow> jm_get (subscription_field data g u) f = jm_get u f"
  by (auto simp: topic_field_def subscription_field_def put_json_def)

lemma nested_update_get:
  "apply_nested_sub_update rt g p data existing u = Inr u' \<Longrightarrow> f \<noteq> g \<Longrightarrow> jm_get u' f = jm_get u f"
  by (auto simp: apply_nested_sub_update_def Let_def split: if_splits sum.splits)

lemma nested_update_distinct:
  "apply_nested_sub_update rt g p data existing u = Inr u' \<Longrightarrow> distinct (jm_keys u) \<Longrightarrow> distinct (jm_keys u')"
  by (auto simp: apply_nested_sub_update_def Let_def split: if_splits sum.splits)

lemma whole_distinct:
  assumes "distinct (jm_keys u)"
  shows "distinct (jm_keys (topic_field data g u))" and "distinct (jm_keys (subscription_field data g u))"
  unfolding topic_field_def subscription_field_def put_json_def using distinct_jm_set [OF assms] assms by simp_all

lemma top_of_plain: "\<not> nested_path f \<Longrightarrow> top_of f = f"
  by (auto simp: nested_path_def top_of_def takeWhile_eq_all_conv)

lemma mask_frame:
  assumes "apply_mask rt whole data existing fs u = Inr u'"
    and "\<And>g u f. f \<noteq> g \<Longrightarrow> jm_get (whole g u) f = jm_get u f"
    and "\<forall>g \<in> set fs. top_of g \<noteq> f"
  shows "jm_get u' f = jm_get u f"
  using assms(1,3)
proof (induction fs arbitrary: u)
  case (Cons g fs)
  show ?case
  proof (cases "nested_path g")
    case True
    with Cons.prems obtain v where v: "apply_nested_sub_update rt (top_of g) (rest_of g) data existing u = Inr v"
        "apply_mask rt whole data existing fs v = Inr u'"
      by (auto split: sum.splits)
    have "f \<noteq> top_of g" using Cons.prems(2) by auto
    with Cons.IH [OF v(2)] Cons.prems(2) nested_update_get [OF v(1)] show ?thesis by simp
  next
    case False
    then have "f \<noteq> g" using Cons.prems(2) top_of_plain by auto
    with Cons.prems Cons.IH [of "whole g u"] assms(2) False show ?thesis by simp
  qed
qed simp

lemma mask_distinct:
  assumes "apply_mask rt whole data existing fs u = Inr u'" and "distinct (jm_keys u)"
    and "\<And>g u. distinct (jm_keys u) \<Longrightarrow> distinct (jm_keys (whole g u))"
  shows "distinct (jm_keys u')"
  using assms(1,2)
proof (induction fs arbitrary: u)
  case (Cons g fs)
  then show ?case
    by (cases "nested_path g") (auto split: sum.splits dest: nested_update_distinct intro: assms(3))
qed simp

lemma jm_has_Some: "jm_has u f \<longleftrightarrow> jm_get u f \<noteq> None"
  by (simp add: jm_has_get)

text \<open>The updates are computed from the stored record; without a nested path it is not read.\<close>

lemma mask_unread: "list_all (\<lambda>f. \<not> nested_path f) fs \<Longrightarrow> apply_mask rt whole data e fs u = apply_mask rt whole data e' fs u"
  by (induction fs arbitrary: u) auto

lemma runs_masked:
  assumes "R \<in> resource_repos" and "catalog w R n = Some r" and "mask_fields um = Inr fs"
  shows "runs rt w (masked_updates rt R kind whole n data um) (apply_mask rt (whole data) data r fs []) w"
proof -
  define e where "e = (if list_ex nested_path fs then r else [])"
  have "runs rt w (if list_ex nested_path fs then require rt R kind n else done_with []) (Inr e) w"
    unfolding e_def using runs_require(1) [OF assms(1,2)] by (simp add: runs_done)
  moreover have "apply_mask rt (whole data) data e fs [] = apply_mask rt (whole data) data r fs []"
    unfolding e_def by (cases "list_ex nested_path fs") (auto intro: mask_unread simp: list_all_iff list_ex_iff)
  then have "runs rt w (of_result (apply_mask rt (whole data) data e fs [])) (apply_mask rt (whole data) data r fs []) w"
    using runs_result by metis
  ultimately have "runs rt w (and_then (if list_ex nested_path fs then require rt R kind n else done_with [])
      (\<lambda>existing. of_result (apply_mask rt (whole data) data existing fs []))) (apply_mask rt (whole data) data r fs []) w"
    by (rule runs_then)
  then show ?thesis unfolding masked_updates_def assms(3) by (rule runs_then [OF runs_result])
qed

lemma mask_update_ok:
  assumes "apply_mask rt (subscription_field data) data r fs [] = Inr u"
    and "\<forall>f \<in> set fs. top_of f \<noteq> ''name'' \<and> top_of f \<noteq> ''id''"
  shows "op_ok (RoUpdate now n u)"
proof -
  have "jm_get u f = None" if "f = ''name'' \<or> f = ''id''" for f
    using mask_frame [OF assms(1) whole_fields(2), of f] assms(2) that by auto
  moreover have "distinct (jm_keys u)" by (rule mask_distinct [OF assms(1) _ whole_distinct(2)]) simp_all
  ultimately show ?thesis by (simp add: jm_has_Some)
qed

lemma runs_update_subscription:
  assumes "catalog w subscriptions n = Some r" and "mask_fields (opt_prop body ''updateMask'') = Inr fs"
    and "apply_mask rt (subscription_field (coalesce (opt_prop body ''subscription'') (JObj [])))
      (coalesce (opt_prop body ''subscription'') (JObj [])) r fs [] = Inr u"
    and "\<forall>f \<in> set fs. top_of f \<noteq> ''name'' \<and> top_of f \<noteq> ''id''"
  shows "runs rt w (update_subscription rt now n body) (subscription_response (updated_record now r u))
    (set_catalog subscriptions ((catalog w subscriptions)(n \<mapsto> updated_record now r u)) w)"
proof -
  note ok = mask_update_ok [OF assms(3,4)]
  have masked: "runs rt w (masked_updates rt subscriptions ''Subscription'' subscription_field n
      (coalesce (opt_prop body ''subscription'') (JObj [])) (opt_prop body ''updateMask'')) (Inr u) w"
    by (rule runs_masked [OF repo_members(2) assms(1,2), where rt = rt and whole = subscription_field
        and data = "coalesce (opt_prop body ''subscription'') (JObj [])", unfolded assms(3)])
  have stored: "runs rt w (and_then (update_in rt now subscriptions n u) (\<lambda>updated.
      (case updated of None \<Rightarrow> fails_with (missing ''Subscription'' n) | Some r \<Rightarrow> of_result (subscription_response r))))
      (subscription_response (updated_record now r u))
      (set_catalog subscriptions ((catalog w subscriptions)(n \<mapsto> updated_record now r u)) w)"
    by (rule runs_then [OF runs_update [OF repo_members(2) ok assms(1)]], unfold option.case) (rule runs_result)
  show ?thesis unfolding update_subscription_def by (rule runs_then [OF masked]) (rule stored)
qed

end
