(* ===== verification/Pubsub_Promises.thy ===== *)
theory Pubsub_Promises
  imports Pubsub_Service_Facts
begin

text \<open>
  The promises of the Pub/Sub services as theorems on the stores the code runs on, with a worked example: a topic
  and a subscription created through the services on a fresh store.
\<close>

section \<open>Creating and deleting\<close>

lemma set_catalog_at: "w_cat (set_catalog R c w) T = (if T = rr_table R then c else w_cat w T)"
  by (simp add: set_catalog_def)

lemma row_names [simp]:
  "field_of (topic_row name data rt) ''name'' = JStr name" "field_of (subscription_row name data) ''name'' = JStr name"
  by (simp_all add: topic_row_def subscription_row_def)

lemma row_ok:
  "op_ok (RoCreate now i (topic_row name data rt))" "op_ok (RoCreate now i (subscription_row name data))"
  by (simp_all add: topic_row_def subscription_row_def)

lemma runs_create_topic:
  assumes "vl_topic vl (coalesce body (JObj [])) = Inr data" and "catalog w topics (build_topic_name p t) = None"
  shows "let r = new_record now (rt_uuid rt (lg_drawn (w_log w))) (topic_row (build_topic_name p t) data rt)
    in runs rt w (create_topic vl rt now p t body) (topic_response r)
      (draw (set_catalog topics ((catalog w topics)(build_topic_name p t \<mapsto> r)) w))"
  unfolding create_topic_def assms(1) sum.case Let_def
  by (rule runs_then [OF runs_get [OF repo_members(1)]], unfold assms(2) option.case,
      rule runs_then [OF runs_create [OF repo_members(1) row_ok(1) row_names(1) assms(2)]], rule runs_result)

lemma runs_create_subscription:
  assumes "vl_subscription vl (coalesce body (JObj [])) = Inr data"
    and "catalog w topics (str_field ''topic'' data) = Some tr"
    and "catalog w subscriptions (build_subscription_name p n) = None"
  shows "let r = new_record now (rt_uuid rt (lg_drawn (w_log w))) (subscription_row (build_subscription_name p n) data)
    in runs rt w (create_subscription vl rt now p n body) (subscription_response r)
      (draw (set_catalog subscriptions ((catalog w subscriptions)(build_subscription_name p n \<mapsto> r)) w))"
  unfolding create_subscription_def assms(1) sum.case Let_def
  by (rule runs_found [OF repo_members(1) assms(2)], rule runs_then [OF runs_get [OF repo_members(2)]],
      unfold assms(3) option.case,
      rule runs_then [OF runs_create [OF repo_members(2) row_ok(2) row_names(2) assms(3)]], rule runs_result)

lemma runs_create_duplicate:
  assumes "vl_subscription vl (coalesce body (JObj [])) = Inr data"
    and "catalog w topics (str_field ''topic'' data) = Some tr"
    and "catalog w subscriptions (build_subscription_name p n) = Some r"
  shows "runs rt w (create_subscription vl rt now p n body) (Inl (present ''Subscription'' (build_subscription_name p n))) w"
  unfolding create_subscription_def assms(1) sum.case Let_def
  by (rule runs_found [OF repo_members(1) assms(2)], rule runs_then [OF runs_get [OF repo_members(2)]],
      unfold assms(3) option.case, rule runs_fails)

lemma runs_get_subscription:
  "catalog w subscriptions n = Some r \<Longrightarrow> runs rt w (get_subscription rt n) (subscription_response r) w"
  "catalog w subscriptions n = None \<Longrightarrow> runs rt w (get_subscription rt n) (Inl (missing ''Subscription'' n)) w"
  unfolding get_subscription_def
  by (rule runs_found [OF repo_members(2)], assumption, rule runs_result) (rule runs_missing [OF repo_members(2)])

lemma runs_delete_subscription:
  assumes "catalog w subscriptions n = Some r"
  shows "runs rt w (delete_subscription rt now n) (Inr ())
    (set_log (log_drop_subscription n (w_log w)) (set_catalog subscriptions ((catalog w subscriptions)(n := None)) w))"
proof -
  let ?w = "set_catalog subscriptions ((catalog w subscriptions)(n := None)) w"
  have "runs rt w (delete_in rt now subscriptions n) (Inr True) ?w"
    using runs_delete [OF repo_members(2), of rt w now n] assms by simp
  then show ?thesis unfolding delete_subscription_def
    by (rule runs_then) (use runs_drop_subscription [of rt ?w now n] in simp)
qed

section \<open>Exact JSON after an update\<close>

lemma dec_print_value:
  "list_all is_digit s \<Longrightarrow> s \<noteq> [] \<Longrightarrow> s = ''0'' \<or> hd s \<noteq> CHR ''0'' \<Longrightarrow> nat_to_dec (dec_value s) = s"
proof (induction s rule: rev_induct)
  case (snoc c s)
  have c: "digit_value c < 10" "digit_char (digit_value c) = c"
  proof -
    have n: "48 \<le> unit_of c" "unit_of c \<le> 57" using snoc.prems(1) by (auto simp: is_digit_def less_eq_char_def)
    then show "digit_value c < 10" "digit_char (digit_value c) = c" by (simp_all add: digit_value_def digit_char_def)
  qed
  show ?case
  proof (cases "s = []")
    case True
    then show ?thesis using c by (subst nat_to_dec.simps) (simp add: dec_value_def)
  next
    case False
    then have hd: "hd s \<noteq> CHR ''0''" using snoc.prems(3) by (cases s) auto
    then have s: "nat_to_dec (dec_value s) = s" using snoc False by simp
    have "dec_value s \<noteq> 0"
    proof
      assume "dec_value s = 0"
      then have "s = nat_to_dec 0" using s by simp
      also have "nat_to_dec 0 = ''0''" by code_simp
      finally show False using hd by simp
    qed
    then show ?thesis using c s by (subst nat_to_dec.simps) (simp add: dec_value_snoc)
  qed
qed simp

lemma index_key_dec: "index_key j \<Longrightarrow> index_key k \<Longrightarrow> dec_value j = dec_value k \<Longrightarrow> j = k"
  by (metis index_key_def dec_print_value)

lemma canonical_put:
  assumes "canonical m"
  shows "canonical (js_put m k v)"
proof (cases "index_key k \<and> \<not> jm_has m k")
  case True
  let ?P = "\<lambda>e. index_key (fst e) \<and> dec_value (fst e) < dec_value k"
  let ?Q = "\<lambda>j. index_key j \<and> dec_value j < dec_value k"
  have keys: "jm_keys (takeWhile ?P m) = takeWhile ?Q (jm_keys m)" "jm_keys (dropWhile ?P m) = dropWhile ?Q (jm_keys m)"
    by (induction m) auto
  let ?ks = "jm_keys m"
  have srt: "sorted_wrt key_order ?ks" and dis: "distinct ?ks" using assms by (auto simp: canonical_def)
  have "\<forall>j \<in> set (takeWhile ?Q ?ks). key_order j k" by (auto simp: key_order_def dest: set_takeWhileD)
  moreover have "\<forall>j \<in> set (dropWhile ?Q ?ks). key_order k j"
  proof (cases "dropWhile ?Q ?ks")
    case (Cons h t)
    then have nq: "\<not> ?Q h" using hd_dropWhile [of ?Q ?ks] by force
    have hk: "h \<noteq> k" using True Cons set_dropWhileD [of h ?Q ?ks] by (auto simp: jm_has_def)
    have "sorted_wrt key_order (h # t)" using srt Cons by (metis sorted_wrt_append takeWhile_dropWhile_id)
    moreover have "key_order k h"
    proof -
      have "dec_value h \<noteq> dec_value k" if "index_key h"
        using that True hk index_key_dec by metis
      then show ?thesis using nq True by (auto simp: key_order_def)
    qed
    ultimately show ?thesis unfolding Cons by (auto simp: key_order_def)
  next
    case Nil
    show ?thesis unfolding Nil by simp
  qed
  moreover have "sorted_wrt key_order (takeWhile ?Q ?ks @ dropWhile ?Q ?ks)" using srt by simp
  note parts = this [unfolded sorted_wrt_append]
  ultimately have "sorted_wrt key_order (takeWhile ?Q ?ks @ k # dropWhile ?Q ?ks)"
    using parts unfolding sorted_wrt_append by simp
  moreover have "distinct (takeWhile ?Q ?ks @ k # dropWhile ?Q ?ks)"
  proof -
    have "distinct (takeWhile ?Q ?ks @ dropWhile ?Q ?ks)" using dis by simp
    note parts = this [unfolded distinct_append]
    have "k \<notin> set ?ks" using True by (auto simp: jm_has_def)
    then have "k \<notin> set (takeWhile ?Q ?ks)" "k \<notin> set (dropWhile ?Q ?ks)" by (metis set_takeWhileD, metis set_dropWhileD)
    with parts show ?thesis unfolding distinct_append by simp
  qed
  ultimately show ?thesis using True keys by (simp add: canonical_def js_put_def)
next
  case False
  have "key_order j k" if "\<not> jm_has m k" for j using that False by (auto simp: key_order_def)
  then show ?thesis using False assms distinct_jm_set [of m k v]
    by (auto simp: js_put_def canonical_def jm_keys_set jm_has_def sorted_wrt_append)
qed

lemma plain_put: "plain_members m \<Longrightarrow> json_plain v \<Longrightarrow> plain_members (js_put m k v)"
proof -
  assume m: "plain_members m" and v: "json_plain v"
  have "set (js_put m k v) \<subseteq> insert (k, v) (set m)"
    using set_jm_set_subset [of m k v] by (auto simp: js_put_def dest: set_takeWhileD set_dropWhileD)
  then show ?thesis using m v by (auto simp: plain_members_iff)
qed

lemma plain_field: "plain_members m \<Longrightarrow> json_plain (object_or_new (field_of m k))"
proof -
  assume "plain_members m"
  then have "json_plain v" if "jm_get m k = Some v" for v
    using map_of_SomeD [OF that] by (force simp: plain_members_iff)
  moreover have "json_plain (JObj [])" by (simp add: canonical_def)
  ultimately show ?thesis
    by (auto simp: field_of_def object_or_new_def split: option.splits jsval.splits)
qed

lemma set_nested_plain:
  "set_nested b ks x = Inr v \<Longrightarrow> json_plain b \<Longrightarrow> json_plain x \<Longrightarrow> json_plain v"
proof (induction b ks x arbitrary: v rule: set_nested.induct)
  case (2 b k ks x)
  obtain m where b: "b = JObj m" using "2.prems"(1) by (cases b) auto
  show ?case
  proof (cases "ks = []")
    case True
    then show ?thesis using "2.prems" b by (auto simp: canonical_put plain_put split: if_splits)
  next
    case False
    then obtain u where u: "set_nested (object_or_new (field_of m k)) ks x = Inr u" "v = JObj (js_put m k u)"
      using "2.prems"(1) b by (auto split: if_splits sum.splits)
    have "json_plain u"
      using "2.IH" [OF b _ False u(1)] "2.prems"(1,2,3) b plain_field [of m k] by (auto split: if_splits)
    then show ?thesis using u(2) "2.prems"(2) b by (simp add: canonical_put plain_put)
  qed
qed simp

section \<open>The promises\<close>

lemma represents_active:
  assumes "represents rt s w"
  shows "distinct (active_names w t)" and "n \<in> set (active_names w t) \<longleftrightarrow> (\<exists>r. catalog w subscriptions n = Some r \<and> active_for t r)"
  using matching_names_set [OF represents_named [OF assms repo_members(2)], of "active_for t"] matching_names_distinct
  unfolding active_names_def by auto


text \<open>C32: After a subscription is detached, every pull on it fails with FAILED_PRECONDITION and no publication
  adds a delivery for it.\<close>

theorem detached_subscription_is_inert:
  assumes "represents rt s w" and "catalog w subscriptions n = Some r"
  shows "\<exists>s1 w1. detach_subscription rt now n s = (Inr (), s1) \<and> represents rt s1 w1 \<and> w_log w1 = w_log w \<and>
    (\<forall>now' body override. fst (pull rt now' n body override s1) = Inl (detached_error n)) \<and>
    (\<forall>vl now' t body msgs ids s2. catalog w topics t \<noteq> None \<longrightarrow> vl_publish vl (coalesce body (JObj [])) = Inr msgs \<longrightarrow>
       list_all attributes_ok msgs \<longrightarrow> publish vl rt now' t body s1 = (Inr ids, s2) \<longrightarrow>
       (\<exists>lg. represents rt s2 (set_log lg w1) \<and>
          filter (\<lambda>d. dl_sub d = n) (lg_deliveries lg) = filter (\<lambda>d. dl_sub d = n) (lg_deliveries (w_log w))))"
proof -
  let ?r = "updated_record now r [(''detached'', JNum 1)]"
  let ?w = "set_catalog subscriptions ((catalog w subscriptions)(n \<mapsto> ?r)) w"
  have r: "truthy (field_of ?r ''detached'')" by (simp add: field_of_updated)
  have cat: "catalog ?w subscriptions n = Some ?r" by (simp del: repo_fields)
  obtain s1 where s1: "detach_subscription rt now n s = (Inr (), s1)" "represents rt s1 ?w"
    using runsD [OF runs_detach [OF assms(2)] assms(1)] by blast
  have nm: "named (catalog ?w subscriptions)" using s1(2) by (rule represents_named) simp
  have pull: "fst (pull rt now' n body override s1) = Inl (detached_error n)" for now' body override
  proof -
    obtain s' where "pull rt now' n body override s1 = (Inl (detached_error n), s')"
      using runsD [OF runs_pull_detached [OF cat r] s1(2)] by blast
    then show ?thesis by simp
  qed
  have out: "n \<notin> set (active_names ?w t)" for t using detached_not_active [OF nm cat r] .
  have "\<exists>lg. represents rt s2 (set_log lg ?w) \<and>
      filter (\<lambda>d. dl_sub d = n) (lg_deliveries lg) = filter (\<lambda>d. dl_sub d = n) (lg_deliveries (w_log w))"
    if t: "catalog w topics t \<noteq> None" and "vl_publish vl (coalesce body (JObj [])) = Inr msgs" "list_all attributes_ok msgs"
      and run: "publish vl rt now' t body s1 = (Inr ids, s2)" for vl now' t body msgs ids s2
  proof -
    obtain tr where "catalog ?w topics t = Some tr" using t by (auto simp: set_catalog_at)
    from runsD [OF runs_publish [OF this that(2,3) nm, of rt now'] s1(2)] run
    have "represents rt s2 (set_log (snd (log_publish rt (iso_string now') t (active_names ?w t) msgs (w_log ?w))) ?w)" by auto
    with publish_skips [OF out] show ?thesis by (metis world_simps(2))
  qed
  then show ?thesis using s1 pull by (intro exI [of _ s1] exI [of _ ?w]) simp
qed

text \<open>The columns an update mask does not name keep their values, whatever the request carries.\<close>

theorem masked_update_keeps_rest:
  assumes "represents rt s w" and "catalog w subscriptions n = Some r" and "mask_fields (opt_prop body ''updateMask'') = Inr fs"
    and "apply_mask rt (subscription_field (coalesce (opt_prop body ''subscription'') (JObj [])))
      (coalesce (opt_prop body ''subscription'') (JObj [])) r fs [] = Inr u"
    and "\<forall>f \<in> set fs. top_of f \<noteq> ''name'' \<and> top_of f \<noteq> ''id''"
  shows "\<exists>s' r'. update_subscription rt now n body s = (subscription_response r', s') \<and>
    represents rt s' (set_catalog subscriptions ((catalog w subscriptions)(n \<mapsto> r')) w) \<and>
    (\<forall>f. f \<noteq> ''updatedAt'' \<longrightarrow> f \<notin> top_of ` set fs \<longrightarrow> field_of r' f = field_of r f)"
proof -
  let ?r = "updated_record now r u"
  have dis: "distinct (jm_keys u)" by (rule mask_distinct [OF assms(4) _ whole_distinct(2)]) simp_all
  have "field_of ?r f = field_of r f" if "f \<noteq> ''updatedAt''" "f \<notin> top_of ` set fs" for f
  proof -
    have "jm_get u f = None" using mask_frame [OF assms(4) whole_fields(2), of f] that(2) by auto
    then show ?thesis using that(1) field_of_updated [OF dis] by (simp add: jm_has_Some)
  qed
  with runsD [OF runs_update_subscription [OF assms(2-5)] assms(1)] show ?thesis by blast
qed

text \<open>C34: A mask with a path into a JSON column writes the value at that path and keeps everything that lies
  beside the path, also through the text in which the column is stored.\<close>

theorem nested_mask_merges:
  assumes "represents rt s w" and "catalog w subscriptions n = Some r" and "mask_fields (opt_prop body ''updateMask'') = Inr [p]"
    and "nested_path p" and "top_of p \<notin> {''name'', ''id'', ''updatedAt''} \<union> inherited_names"
    and "field_of r (top_of p) = JStr old" and "json_stringify base = Some old" and "json_plain base"
    and "opt_prop body ''subscription'' = JObj data"
    and "get_nested (coalesce (field_of data (top_of p)) (JObj [])) (split_char (CHR ''.'') (rest_of p)) = Inr x" and "json_plain x"
    and "set_nested base (split_char (CHR ''.'') (rest_of p)) x = Inr v"
  shows "\<exists>s' r'. snd (update_subscription rt now n body s) = s' \<and>
    represents rt s' (set_catalog subscriptions ((catalog w subscriptions)(n \<mapsto> r')) w) \<and>
    parse_json_field (field_of r' (top_of p)) = Inr v \<and> get_nested v (split_char (CHR ''.'') (rest_of p)) = Inr x \<and>
    (\<forall>q. parted (split_char (CHR ''.'') (rest_of p)) q \<longrightarrow> plain_path q \<longrightarrow> get_nested v q = get_nested base q)"
proof -
  let ?segs = "split_char (CHR ''.'') (rest_of p)"
  obtain t0 where "json_stringify base = Some t0" "t0 \<noteq> []" "json_parse t0 = Done base" using json_roundtrip [OF assms(8)] by blast
  then have old: "old \<noteq> []" "json_parse old = Done base" using assms(7) by simp_all
  have "json_plain v" using assms(12,8,11) by (rule set_nested_plain)
  then obtain t where t: "json_stringify v = Some t" "t \<noteq> []" "json_parse t = Done v" using json_roundtrip by blast
  have upd: "apply_mask rt (subscription_field (JObj data)) (JObj data) r [p] [] = Inr [(top_of p, JStr t)]"
    using assms(4-6,10,12) old t
    by (simp add: apply_nested_sub_update_def is_array_def parse_base_def opt_prop_def json_text_def coalesce_def [of "JStr old"])
  have body: "coalesce (opt_prop body ''subscription'') (JObj []) = JObj data" by (simp add: assms(9) coalesce_def)
  let ?r = "updated_record now r [(top_of p, JStr t)]"
  have "\<forall>f \<in> set [p]. top_of f \<noteq> ''name'' \<and> top_of f \<noteq> ''id''" using assms(5) by simp
  from runsD [OF runs_update_subscription [OF assms(2,3) _ this, unfolded body, OF upd] assms(1), of now]
  obtain s' where s': "snd (update_subscription rt now n body s) = s'"
      "represents rt s' (set_catalog subscriptions ((catalog w subscriptions)(n \<mapsto> ?r)) w)" by auto
  have col: "parse_json_field (field_of ?r (top_of p)) = Inr v"
    using t(3) assms(5) by (simp add: field_of_updated parse_json_field_def)
  have ne: "?segs \<noteq> []" by (cases "rest_of p") (auto split: list.splits)
  have "get_nested v q = get_nested base q" if "parted ?segs q" "plain_path q" for q
    using nested.put_other [OF assms(12) that] .
  with s' col nested_put_get [OF assms(12) ne] show ?thesis by blast
qed

text \<open>C35: A mask with a path below \<open>detached\<close> detaches the subscription: a field that the mask may not name is
  written through a path below it, the column gets the text \<open>{}\<close>, and from then on pulls fail and publications skip
  the subscription. The mask \<open>detached\<close> itself leaves the column alone.\<close>

theorem nested_mask_detaches:
  assumes "represents rt s w" and "catalog w subscriptions n = Some r" and "field_of r ''detached'' = JNum 0"
  shows "(\<exists>s1 w1. snd (update_subscription rt now n (JObj [(''updateMask'', JStr ''detached.reason'')]) s) = s1 \<and>
      represents rt s1 w1 \<and> fst (pull rt now' n body override s1) = Inl (detached_error n) \<and>
      (\<forall>t. n \<notin> set (active_names w1 t))) \<and>
    (\<exists>s2 w2 r2. snd (update_subscription rt now n (JObj [(''updateMask'', JStr ''detached'')]) s) = s2 \<and>
      represents rt s2 w2 \<and> catalog w2 subscriptions n = Some r2 \<and> field_of r2 ''detached'' = JNum 0)"
    (is "?nested \<and> ?whole")
proof -
  let ?b = "JObj [(''updateMask'', JStr ''detached.reason'')]" let ?c = "JObj [(''updateMask'', JStr ''detached'')]"
  have sub: "coalesce (opt_prop ?b ''subscription'') (JObj []) = JObj []" "coalesce (opt_prop ?c ''subscription'') (JObj []) = JObj []"
    by code_simp+
  have fs: "mask_fields (opt_prop ?b ''updateMask'') = Inr [''detached.reason'']"
    "mask_fields (opt_prop ?c ''updateMask'') = Inr [''detached'']" by code_simp+
  have top: "nested_path ''detached.reason''" "top_of ''detached.reason'' = ''detached''" "rest_of ''detached.reason'' = ''reason''"
    "\<not> nested_path ''detached''" "top_of ''detached'' = ''detached''" "split_char (CHR ''.'') ''reason'' = [''reason'']"
    "''detached'' \<notin> inherited_names" by code_simp+
  have val: "get_nested (coalesce (opt_prop (JObj []) ''detached'') (JObj [])) [''reason''] = Inr JUndef"
    "set_nested (JObj []) [''reason''] JUndef = Inr (JObj [(''reason'', JUndef)])"
    "json_text (JObj [(''reason'', JUndef)]) = JStr ''{}''" by code_simp+
  have base: "parse_base rt (JNum 0) = Inr (JObj [])" by (simp add: parse_base_def)
  have upd: "apply_mask rt (subscription_field (JObj [])) (JObj []) r [''detached.reason''] [] = Inr [(''detached'', JStr ''{}'')]"
    using top val base assms(3) by (simp add: apply_nested_sub_update_def is_array_def coalesce_def [of "JNum 0"])
  let ?r = "updated_record now r [(''detached'', JStr ''{}'')]"
  have ok: "\<forall>f \<in> set [''detached.reason'']. top_of f \<noteq> ''name'' \<and> top_of f \<noteq> ''id''" using top by simp
  let ?w = "set_catalog subscriptions ((catalog w subscriptions)(n \<mapsto> ?r)) w"
  obtain s1 where s1: "snd (update_subscription rt now n ?b s) = s1" "represents rt s1 ?w"
    using runsD [OF runs_update_subscription [OF assms(2) fs(1) _ ok, unfolded sub, OF upd, of now] assms(1)] by auto
  have cat: "catalog ?w subscriptions n = Some ?r" by (simp add: set_catalog_at)
  have r: "truthy (field_of ?r ''detached'')" by (simp add: field_of_updated)
  have nm: "named (catalog ?w subscriptions)" using s1(2) by (rule represents_named) simp
  have "fst (pull rt now' n body override s1) = Inl (detached_error n)"
    using runsD [OF runs_pull_detached [OF cat r] s1(2)] by (metis fst_conv)
  with s1 detached_not_active [OF nm cat r] have nested: ?nested by blast
  have upd2: "apply_mask rt (subscription_field (JObj [])) (JObj []) r [''detached''] [] = Inr []"
    using top by (simp add: subscription_field_def)
  have ok2: "\<forall>f \<in> set [''detached'']. top_of f \<noteq> ''name'' \<and> top_of f \<noteq> ''id''" using top by simp
  let ?r2 = "updated_record now r []"
  let ?w2 = "set_catalog subscriptions ((catalog w subscriptions)(n \<mapsto> ?r2)) w"
  have "catalog ?w2 subscriptions n = Some ?r2" "field_of ?r2 ''detached'' = JNum 0"
    using assms(3) by (simp_all add: set_catalog_at field_of_updated)
  then have ?whole
    using runsD [OF runs_update_subscription [OF assms(2) fs(2) _ ok2, unfolded sub, OF upd2, of now] assms(1)]
    by (metis snd_conv)
  with nested show ?thesis by blast
qed

text \<open>C33: A created subscription is read back with the response of its creation, its name cannot be taken again,
  and after its deletion it is not found and none of its deliveries is left.\<close>

theorem subscription_lifecycle:
  assumes "represents rt s w" and "vl_subscription vl (coalesce body (JObj [])) = Inr data"
    and "catalog w topics (str_field ''topic'' data) = Some tr"
    and "catalog w subscriptions (build_subscription_name p n) = None"
  shows "\<exists>resp s1 s2 w2. create_subscription vl rt now p n body s = (resp, s1) \<and>
    fst (get_subscription rt (build_subscription_name p n) s1) = resp \<and>
    fst (create_subscription vl rt now' p n body s1) = Inl (present ''Subscription'' (build_subscription_name p n)) \<and>
    delete_subscription rt now' (build_subscription_name p n) s1 = (Inr (), s2) \<and> represents rt s2 w2 \<and>
    fst (get_subscription rt (build_subscription_name p n) s2) = Inl (missing ''Subscription'' (build_subscription_name p n)) \<and>
    filter (\<lambda>d. dl_sub d = build_subscription_name p n) (lg_deliveries (w_log w2)) = []"
proof -
  let ?n = "build_subscription_name p n"
  let ?r = "new_record now (rt_uuid rt (lg_drawn (w_log w))) (subscription_row ?n data)"
  let ?w = "draw (set_catalog subscriptions ((catalog w subscriptions)(?n \<mapsto> ?r)) w)"
  let ?w2 = "set_log (log_drop_subscription ?n (w_log ?w)) (set_catalog subscriptions ((catalog ?w subscriptions)(?n := None)) ?w)"
  have cat: "catalog ?w subscriptions ?n = Some ?r" by (simp add: set_catalog_at)
  have top: "catalog ?w topics (str_field ''topic'' data) = Some tr" using assms(3) by (simp add: set_catalog_at)
  have gone: "catalog ?w2 subscriptions ?n = None" by (simp add: set_catalog_at)
  obtain s1 where s1: "create_subscription vl rt now p n body s = (subscription_response ?r, s1)" "represents rt s1 ?w"
    using runsD [OF runs_create_subscription [OF assms(2-4), unfolded Let_def] assms(1)] by blast
  obtain s2 where s2: "delete_subscription rt now' ?n s1 = (Inr (), s2)" "represents rt s2 ?w2"
    using runsD [OF runs_delete_subscription [OF cat] s1(2)] by blast
  have "fst (get_subscription rt ?n s1) = subscription_response ?r"
    using runsD [OF runs_get_subscription(1) [OF cat] s1(2)] by auto
  moreover have "fst (create_subscription vl rt now' p n body s1) = Inl (present ''Subscription'' ?n)"
    using runsD [OF runs_create_duplicate [OF assms(2) top cat, where now = now'] s1(2)] by auto
  moreover have "fst (get_subscription rt ?n s2) = Inl (missing ''Subscription'' ?n)"
    using runsD [OF runs_get_subscription(2) [OF gone] s2(2)] by auto
  moreover have "filter (\<lambda>d. dl_sub d = ?n) (lg_deliveries (w_log ?w2)) = []"
    by (simp add: log_drop_subscription_def)
  ultimately show ?thesis using s1(1) s2 by blast
qed

section \<open>A worked example\<close>

text \<open>A topic and a subscription with a label, created through the services on a fresh store.\<close>

definition demo_topic_name :: string where
  "demo_topic_name = build_topic_name ''p'' ''t''"

definition demo_sub_name :: string where
  "demo_sub_name = build_subscription_name ''p'' ''s''"

definition demo_labels :: jsval where
  "demo_labels = JObj [(''a'', JStr ''1'')]"

definition demo_data :: jsobj where
  "demo_data = [(''topic'', JStr demo_topic_name), (''labels'', demo_labels)]"

definition demo_validation :: validation where
  "demo_validation =
     \<lparr>vl_topic = \<lambda>_. Inr [], vl_subscription = \<lambda>_. Inr demo_data, vl_publish = \<lambda>_. Inr [demo_input]\<rparr>"

definition demo_topic_record :: jsobj where
  "demo_topic_record = new_record 0 (rt_uuid demo_runtime 0) (topic_row demo_topic_name [] demo_runtime)"

definition demo_sub_record :: jsobj where
  "demo_sub_record = new_record 0 (rt_uuid demo_runtime 1) (subscription_row demo_sub_name demo_data)"

definition demo_topic_world :: world where
  "demo_topic_world = draw (set_catalog topics [demo_topic_name \<mapsto> demo_topic_record] empty_world)"

definition demo_world :: world where
  "demo_world = draw (set_catalog subscriptions [demo_sub_name \<mapsto> demo_sub_record] demo_topic_world)"

definition demo_topic_store :: message_store where
  "demo_topic_store = snd (create_topic demo_validation demo_runtime 0 ''p'' ''t'' JUndef (fresh_pubsub demo_runtime None 0))"

definition demo_store :: message_store where
  "demo_store = snd (create_subscription demo_validation demo_runtime 0 ''p'' ''s'' JUndef demo_topic_store)"

lemma demo_validation_simps [simp]:
  "vl_topic demo_validation v = Inr []" "vl_subscription demo_validation v = Inr demo_data"
  "vl_publish demo_validation v = Inr [demo_input]"
  by (simp_all add: demo_validation_def)

lemma demo_topic_of_data [simp]: "str_field ''topic'' demo_data = demo_topic_name"
  by (simp add: str_field_def field_of_def demo_data_def)

lemma demo_topic_represents: "represents demo_runtime demo_topic_store demo_topic_world"
proof -
  have "catalog empty_world topics (build_topic_name ''p'' ''t'') = None" by (simp add: empty_world_def)
  from runsD [OF runs_create_topic [OF demo_validation_simps(1) this, unfolded Let_def] fresh_pubsub_represents [OF demo_inj], of 0 JUndef None 0]
  show ?thesis
    by (auto simp: demo_topic_store_def demo_topic_world_def demo_topic_record_def demo_topic_name_def empty_world_def empty_log_def)
qed

lemma demo_catalogs:
  "catalog demo_topic_world topics demo_topic_name = Some demo_topic_record"
  "catalog demo_world topics demo_topic_name = Some demo_topic_record"
  "catalog demo_topic_world subscriptions = Map.empty"
  "catalog demo_world subscriptions = [demo_sub_name \<mapsto> demo_sub_record]"
  by (simp_all add: demo_world_def demo_topic_world_def set_catalog_at empty_world_def)

lemma demo_represents: "represents demo_runtime demo_store demo_world"
proof -
  have "catalog demo_topic_world subscriptions (build_subscription_name ''p'' ''s'') = None" by (simp only: demo_catalogs)
  from runsD [OF runs_create_subscription [where vl = demo_validation, OF demo_validation_simps(2) _ this, unfolded Let_def demo_topic_of_data, OF demo_catalogs(1)]
      demo_topic_represents, of 0 JUndef]
  show ?thesis
    by (auto simp: demo_store_def demo_world_def demo_sub_record_def demo_sub_name_def demo_topic_world_def demo_catalogs empty_world_def empty_log_def draw_def set_catalog_def)
qed

lemma demo_sub_fields:
  "field_of demo_sub_record ''topic'' = JStr demo_topic_name" "field_of demo_sub_record ''detached'' = JNum 0"
  "field_of demo_sub_record ''labels'' = json_text demo_labels" "json_text demo_labels = JStr (the (json_stringify demo_labels))"
  "json_stringify demo_labels = Some (the (json_stringify demo_labels))"
proof -
  have "truthy demo_labels" by (simp add: demo_labels_def)
  then show "field_of demo_sub_record ''topic'' = JStr demo_topic_name" "field_of demo_sub_record ''detached'' = JNum 0"
    "field_of demo_sub_record ''labels'' = json_text demo_labels"
    by (simp_all add: demo_sub_record_def new_record_def subscription_row_def field_of_def jm_get_spread demo_data_def json_or_null_def)
  show "json_text demo_labels = JStr (the (json_stringify demo_labels))"
    "json_stringify demo_labels = Some (the (json_stringify demo_labels))" by code_simp+
qed


lemma detached_subscription_is_inert_witness:
  "\<exists>s1. detach_subscription demo_runtime 5000 demo_sub_name demo_store = (Inr (), s1) \<and>
     fst (pull demo_runtime 6000 demo_sub_name JUndef JUndef s1) = Inl (detached_error demo_sub_name)"
  using detached_subscription_is_inert [OF demo_represents, of demo_sub_name demo_sub_record 5000]
  by (simp add: demo_catalogs del: repo_fields) blast

lemma nested_mask_detaches_witness:
  "fst (pull demo_runtime 6000 demo_sub_name JUndef JUndef (snd (update_subscription demo_runtime 5000 demo_sub_name
     (JObj [(''updateMask'', JStr ''detached.reason'')]) demo_store))) = Inl (detached_error demo_sub_name)"
proof -
  have "catalog demo_world subscriptions demo_sub_name = Some demo_sub_record" by (simp only: demo_catalogs) simp
  from nested_mask_detaches [OF demo_represents this demo_sub_fields(2), of 5000 6000 JUndef JUndef] show ?thesis by auto
qed

lemma masked_update_keeps_rest_witness:
  "\<exists>s' r'. update_subscription demo_runtime 5000 demo_sub_name
      (JObj [(''subscription'', JObj [(''ackDeadlineSeconds'', JNum 30)]), (''updateMask'', JStr ''ackDeadlineSeconds'')]) demo_store =
      (subscription_response r', s') \<and> field_of r' ''labels'' = json_text demo_labels"
proof -
  let ?b = "JObj [(''subscription'', JObj [(''ackDeadlineSeconds'', JNum 30)]), (''updateMask'', JStr ''ackDeadlineSeconds'')]"
  have cat: "catalog demo_world subscriptions demo_sub_name = Some demo_sub_record" by (simp only: demo_catalogs) simp
  have fs: "mask_fields (opt_prop ?b ''updateMask'') = Inr [''ackDeadlineSeconds'']"
    "coalesce (opt_prop ?b ''subscription'') (JObj []) = JObj [(''ackDeadlineSeconds'', JNum 30)]"
    "\<not> nested_path ''ackDeadlineSeconds''" "top_of ''ackDeadlineSeconds'' = ''ackDeadlineSeconds''" by code_simp+
  have upd: "apply_mask demo_runtime (subscription_field (coalesce (opt_prop ?b ''subscription'') (JObj [])))
      (coalesce (opt_prop ?b ''subscription'') (JObj [])) demo_sub_record [''ackDeadlineSeconds''] [] =
      Inr [(''ackDeadlineSeconds'', JNum 30)]"
    unfolding fs(2) using fs(3) by (simp add: subscription_field_def is_nullish_def opt_prop_def field_of_def)
  have "\<forall>f \<in> set [''ackDeadlineSeconds'']. top_of f \<noteq> ''name'' \<and> top_of f \<noteq> ''id''" using fs(4) by simp
  from masked_update_keeps_rest [OF demo_represents cat fs(1) upd this, of 5000]
  obtain s' r' where run: "update_subscription demo_runtime 5000 demo_sub_name ?b demo_store = (subscription_response r', s')"
    and "\<forall>f. f \<noteq> ''updatedAt'' \<longrightarrow> f \<notin> top_of ` set [''ackDeadlineSeconds''] \<longrightarrow> field_of r' f = field_of demo_sub_record f" by blast
  moreover have "''labels'' \<notin> top_of ` set [''ackDeadlineSeconds'']" using fs(4) by simp
  ultimately have "field_of r' ''labels'' = json_text demo_labels" using demo_sub_fields(3) by simp
  with run show ?thesis by blast
qed

lemma nested_mask_merges_witness:
  "\<exists>s' w' r'. snd (update_subscription demo_runtime 5000 demo_sub_name
      (JObj [(''subscription'', JObj [(''labels'', JObj [(''b'', JStr ''2'')])]), (''updateMask'', JStr ''labels.b'')]) demo_store) = s' \<and>
     represents demo_runtime s' w' \<and> catalog w' subscriptions demo_sub_name = Some r' \<and>
     parse_json_field (field_of r' ''labels'') = Inr (JObj [(''a'', JStr ''1''), (''b'', JStr ''2'')])"
proof -
  let ?d = "JObj [(''labels'', JObj [(''b'', JStr ''2'')])]"
  let ?b = "JObj [(''subscription'', ?d), (''updateMask'', JStr ''labels.b'')]"
  let ?v = "JObj [(''a'', JStr ''1''), (''b'', JStr ''2'')]"
  have cat: "catalog demo_world subscriptions demo_sub_name = Some demo_sub_record" by (simp only: demo_catalogs) simp
  have fs: "mask_fields (opt_prop ?b ''updateMask'') = Inr [''labels.b'']" "nested_path ''labels.b''"
    "top_of ''labels.b'' = ''labels''" "rest_of ''labels.b'' = ''b''" "split_char (CHR ''.'') ''b'' = [''b'']"
    "opt_prop ?b ''subscription'' = ?d" "''labels'' \<notin> {''name'', ''id'', ''updatedAt''} \<union> inherited_names"
    "json_plain (JStr ''2'')"
    "get_nested (coalesce (field_of [(''labels'', JObj [(''b'', JStr ''2'')])] ''labels'') (JObj [])) [''b''] = Inr (JStr ''2'')"
    "set_nested demo_labels [''b''] (JStr ''2'') = Inr ?v" by code_simp+
  have plain: "json_plain demo_labels" by (simp add: demo_labels_def canonical_def)
  have old: "field_of demo_sub_record (top_of ''labels.b'') = JStr (the (json_stringify demo_labels))"
    unfolding fs(3) using demo_sub_fields(3,4) by simp
  have top: "top_of ''labels.b'' \<notin> {''name'', ''id'', ''updatedAt''} \<union> inherited_names" unfolding fs(3) by (rule fs(7))
  from nested_mask_merges [OF demo_represents cat fs(1,2) top old demo_sub_fields(5) plain fs(6), unfolded fs(3,4,5), OF fs(9,8,10), of 5000]
  obtain s' r' where r': "snd (update_subscription demo_runtime 5000 demo_sub_name ?b demo_store) = s'"
      "represents demo_runtime s' (set_catalog subscriptions ((catalog demo_world subscriptions)(demo_sub_name \<mapsto> r')) demo_world)"
      "parse_json_field (field_of r' ''labels'') = Inr ?v" by blast
  have "catalog (set_catalog subscriptions ((catalog demo_world subscriptions)(demo_sub_name \<mapsto> r')) demo_world) subscriptions
      demo_sub_name = Some r'" by (simp add: set_catalog_at)
  with r' show ?thesis by blast
qed

lemma subscription_lifecycle_witness:
  "\<exists>resp s1. create_subscription demo_validation demo_runtime 0 ''p'' ''s'' JUndef demo_topic_store = (resp, s1) \<and>
     fst (get_subscription demo_runtime demo_sub_name s1) = resp"
proof -
  have new: "catalog demo_topic_world subscriptions (build_subscription_name ''p'' ''s'') = None" by (simp only: demo_catalogs)
  have top: "catalog demo_topic_world topics (str_field ''topic'' demo_data) = Some demo_topic_record" by (simp only: demo_topic_of_data demo_catalogs)
  from subscription_lifecycle [OF demo_topic_represents, where vl = demo_validation, OF demo_validation_simps(2) top new, of 0 JUndef]
  show ?thesis unfolding demo_sub_name_def by blast
qed

end
