(* ===== verification/Durations.thy ===== *)
theory Durations
  imports Js_Json
begin

text \<open>
  The durations of \<open>src/src/shared/utils/duration.ts\<close>, which the services of Cloud Tasks and Cloud Pub/Sub read as
  the bounds of their backoff.
\<close>

text \<open>\<open>parseDurationSeconds\<close>: the pattern \<open>/^(\d+(?:\.\d+)?)s$/\<close>; a failure is \<open>None\<close>.\<close>

definition parse_duration_seconds :: "string \<Rightarrow> rat option" where
  "parse_duration_seconds s =
     (if \<not> ends_with s ''s'' then None
      else
        let t = take (length s - 1) s; whole = takeWhile is_digit t; r = drop (length whole) t
        in if whole = [] then None
           else if r = [] then Some (decimal_value t)
           else if hd r = CHR ''.'' \<and> tl r \<noteq> [] \<and> list_all is_digit (tl r) then Some (decimal_value t)
           else None)"

lemma decimal_value_nonneg: "\<not> starts_with s ''-'' \<Longrightarrow> 0 \<le> decimal_value s"
  by (simp add: decimal_value_def Let_def)

lemma parse_duration_nonneg:
  assumes "parse_duration_seconds s = Some v"
  shows "0 \<le> v"
proof -
  let ?t = "take (length s - 1) s"
  have "takeWhile is_digit ?t \<noteq> []" "v = decimal_value ?t"
    using assms by (auto simp: parse_duration_seconds_def Let_def split: if_splits)
  moreover from this have "\<not> starts_with ?t ''-''"
    by (cases ?t) (auto simp: starts_with_def is_digit_def split: if_splits)
  ultimately show ?thesis using decimal_value_nonneg by simp
qed

text \<open>A whole number of seconds, printed, is read back.\<close>

lemma parse_duration_whole: "parse_duration_seconds (nat_to_dec n @ ''s'') = Some (of_nat n)"
proof -
  have d: "list_all is_digit (nat_to_dec n)" "nat_to_dec n \<noteq> []" "dec_value (nat_to_dec n) = n"
    using nat_to_dec_digits [of n] by (simp_all add: list_all_iff)
  then have w: "takeWhile is_digit (nat_to_dec n) = nat_to_dec n" by (simp add: list_all_iff takeWhile_eq_all_conv)
  have "\<not> starts_with (nat_to_dec n) ''-''"
    using d(1,2) by (cases "nat_to_dec n") (auto simp: starts_with_def is_digit_def)
  moreover have "dec_value [] = 0" by (simp add: dec_value_def)
  ultimately have "decimal_value (nat_to_dec n) = of_nat n" by (simp add: decimal_value_def Let_def w)
  moreover have "ends_with (nat_to_dec n @ ''s'') ''s''" by (simp add: ends_with_def starts_with_def)
  ultimately show ?thesis by (simp add: parse_duration_seconds_def Let_def w d)
qed

end
