(* ===== verification/Pubsub_Delivery.thy ===== *)
theory Pubsub_Delivery
  imports Pubsub_Subscriptions Durations
begin

text \<open>
  Push delivery: the delivery engine of \<open>src/src/services/pubsub/delivery-engine.ts\<close> with the \<open>publishFn\<close> that
  \<open>index.ts\<close> gives it. A tick is one step on one clock reading. The HTTP client is a parameter: what it answers to
  a request of that tick (a request names the subscription and the message, so no two of a tick are alike). The
  requests sent are kept in the order of the calls.
\<close>

section \<open>State\<close>

datatype http_outcome = Answered int | Unreachable string

type_synonym http_client = "jsval \<Rightarrow> string \<Rightarrow> http_outcome"

record engine =
  en_store :: message_store
  en_sent :: "(jsval \<times> string) list"
  en_timer :: bool
  en_running :: bool
  en_counter :: int
  en_interval :: int

type_synonym 'a engine_op = "engine \<Rightarrow> (pubsub_error + 'a) \<times> engine"

definition new_engine :: "int option \<Rightarrow> message_store \<Rightarrow> engine" where
  "new_engine interval s =
     \<lparr>en_store = s, en_sent = [], en_timer = False, en_running = False, en_counter = 0,
      en_interval = (case interval of None \<Rightarrow> 60 | Some n \<Rightarrow> n)\<rparr>"

definition start_engine :: "engine \<Rightarrow> engine" where
  "start_engine e = (if en_timer e then e else e\<lparr>en_timer := True\<rparr>)"

text \<open>A call of a repository.\<close>

definition on_store :: "'a pubsub \<Rightarrow> 'a engine_op" where
  "on_store f e = (case f (en_store e) of (r, s) \<Rightarrow> (r, e\<lparr>en_store := s\<rparr>))"

text \<open>\<open>try { f } catch { g }\<close>; what the model does not decide is no exception of the code.\<close>

definition or_else :: "'a engine_op \<Rightarrow> 'a engine_op \<Rightarrow> 'a engine_op" where
  "or_else f g e =
     (case f e of
        (Inl err, e') \<Rightarrow> if err = OutsideModel then (Inl err, e') else g e'
      | (Inr a, e') \<Rightarrow> (Inr a, e'))"

section \<open>Requests\<close>

text \<open>Attributes that do not parse are skipped.\<close>

definition push_attributes :: "jsobj \<Rightarrow> pubsub_error + jsobj" where
  "push_attributes msg =
     (if truthy (field_of msg ''attributes'')
      then (case field_of msg ''attributes'' of
              JStr t \<Rightarrow>
                (case json_parse t of
                   Done v \<Rightarrow> Inr [(''attributes'', v)] | Malformed \<Rightarrow> Inr [] | Beyond \<Rightarrow> Inl OutsideModel)
            | _ \<Rightarrow> Inl OutsideModel)
      else Inr [])"

definition push_payload :: "string \<Rightarrow> jsobj \<Rightarrow> pubsub_error + jsval" where
  "push_payload sub msg =
     chain (push_attributes msg) (\<lambda>attrs.
       Inr (JObj [(''message'', JObj
          ([(''messageId'', field_of msg ''messageId''), (''publishTime'', field_of msg ''publishTime'')]
           @ (if is_nullish (field_of msg ''data'') then [] else [(''data'', field_of msg ''data'')])
           @ attrs
           @ (if truthy (field_of msg ''orderingKey'') then [(''orderingKey'', field_of msg ''orderingKey'')] else []))),
         (''subscription'', JStr sub)]))"

definition send :: "http_client \<Rightarrow> jsval \<Rightarrow> string \<Rightarrow> int engine_op" where
  "send http endpoint body e =
     (let e' = e\<lparr>en_sent := en_sent e @ [(endpoint, body)]\<rparr>
      in case http endpoint body of Answered status \<Rightarrow> (Inr status, e') | Unreachable t \<Rightarrow> (Inl (PlainError t), e'))"

definition response_ok :: "int \<Rightarrow> bool" where
  "response_ok status = (200 \<le> status \<and> status \<le> 299)"

section \<open>Backoff\<close>

text \<open>
  \<open>Math.min(lo * 2 ** attempt, hi)\<close> for doubles that are not negative: from \<open>2 ** 1024\<close> on the power is \<open>Infinity\<close>,
  and \<open>0 * Infinity\<close> is not a number (\<open>None\<close>), nor is its minimum with anything.
\<close>

definition capped_backoff :: "rat \<Rightarrow> nat \<Rightarrow> rat \<Rightarrow> rat option" where
  "capped_backoff lo attempt hi =
     (if attempt < 1024 then Some (min (lo * 2 ^ attempt) hi) else if lo = 0 then None else Some hi)"

definition backoff_setting :: "jsval \<Rightarrow> string \<Rightarrow> rat \<Rightarrow> pubsub_error + rat" where
  "backoff_setting rp f standard =
     (let v = opt_prop rp f
      in if \<not> truthy v then Inr standard
         else case v of
           JStr t \<Rightarrow> (case parse_duration_seconds t of
                        None \<Rightarrow> Inl (PlainError (''Invalid duration format: '' @ t)) | Some n \<Rightarrow> Inr n)
         | _ \<Rightarrow> Inl JsTypeError)"

definition compute_backoff :: "nat \<Rightarrow> jsval \<Rightarrow> pubsub_error + rat option" where
  "compute_backoff attempt rp =
     chain (backoff_setting rp ''minimumBackoff'' 10) (\<lambda>lo.
       chain (backoff_setting rp ''maximumBackoff'' 600) (\<lambda>hi. Inr (capped_backoff lo attempt hi)))"

definition push_backoff :: "nat \<Rightarrow> jsval \<Rightarrow> rat option" where
  "push_backoff attempt rp =
     (case compute_backoff attempt rp of Inl _ \<Rightarrow> capped_backoff 10 attempt 600 | Inr b \<Rightarrow> b)"

text \<open>\<open>new Date(...).toISOString()\<close>, for whole seconds and the years to 9999; it throws on what is not a number.\<close>

definition retry_deadline :: "int \<Rightarrow> rat option \<Rightarrow> pubsub_error + string" where
  "retry_deadline now b =
     (case b of
        None \<Rightarrow> Inl JsRangeError
      | Some secs \<Rightarrow>
          if secs = of_int \<lfloor>secs\<rfloor> \<and> now + \<lfloor>secs\<rfloor> * 1000 < 253402300800000
          then Inr (later now \<lfloor>secs\<rfloor>) else Inl OutsideModel)"

definition attempts_made :: "jsobj \<Rightarrow> nat" where
  "attempts_made dm = nat \<lfloor>num_field ''deliveryAttempt'' dm\<rfloor>"

definition handle_push_failure :: "runtime \<Rightarrow> int \<Rightarrow> jsobj \<Rightarrow> jsval \<Rightarrow> unit engine_op" where
  "handle_push_failure rt now dm rp =
     and_then (on_store (of_result (retry_deadline now (push_backoff (attempts_made dm) rp)))) (\<lambda>deadline.
       on_store (increment_delivery_attempt rt now (id_of (rt_platform rt) dm) deadline))"

section \<open>One delivery\<close>

definition push_message ::
  "http_client \<Rightarrow> runtime \<Rightarrow> int \<Rightarrow> jsval \<Rightarrow> string \<Rightarrow> jsval \<Rightarrow> jsobj \<Rightarrow> jsobj \<Rightarrow> unit engine_op" where
  "push_message http rt now endpoint sub rp dm msg =
     and_then (on_store (of_result (push_payload sub msg))) (\<lambda>payload.
       or_else
         (and_then (send http endpoint (the (json_stringify payload))) (\<lambda>status.
            if response_ok status then on_store (acknowledge_messages rt now sub [str_field ''ackId'' dm])
            else handle_push_failure rt now dm rp))
         (handle_push_failure rt now dm rp))"

text \<open>The attributes of a stored message are texts under names.\<close>

fun member_texts :: "jsobj \<Rightarrow> (string \<times> string) list option" where
  "member_texts [] = Some []"
| "member_texts ((k, v) # m) =
     (case v of JStr t \<Rightarrow> map_option ((#) (k, t)) (member_texts m) | _ \<Rightarrow> None)"

definition attribute_texts :: "jsval option \<Rightarrow> pubsub_error + (string \<times> string) list option" where
  "attribute_texts v =
     (case v of
        None \<Rightarrow> Inr None
      | Some (JObj m) \<Rightarrow> (case member_texts m of None \<Rightarrow> Inl OutsideModel | Some es \<Rightarrow> Inr (Some es))
      | Some _ \<Rightarrow> Inl OutsideModel)"

definition dead_letter_input :: "jsobj \<Rightarrow> pubsub_error + publish_input" where
  "dead_letter_input msg =
     chain (parse_attributes msg) (\<lambda>v. chain (attribute_texts v) (\<lambda>attrs.
       Inr \<lparr>pi_data = text_option ''data'' msg, pi_attributes = attrs, pi_ordering_key = text_option ''orderingKey'' msg\<rparr>))"

text \<open>\<open>publishFn\<close> of \<open>index.ts\<close>.\<close>

definition publish_fn :: "runtime \<Rightarrow> int \<Rightarrow> string \<Rightarrow> publish_input list \<Rightarrow> unit pubsub" where
  "publish_fn rt now topic msgs =
     and_then (find_active rt topic) (\<lambda>subs.
       and_then (publish_messages rt now topic msgs (map (str_field ''name'') subs)) (\<lambda>_. done_with ()))"

definition route_to_dead_letter :: "runtime \<Rightarrow> int \<Rightarrow> jsval \<Rightarrow> jsobj \<Rightarrow> string \<Rightarrow> string \<Rightarrow> unit engine_op" where
  "route_to_dead_letter rt now dlp msg ack sub =
     (let topic = opt_prop dlp ''deadLetterTopic''; acknowledged = on_store (acknowledge_messages rt now sub [ack])
      in if \<not> truthy topic then acknowledged
         else or_else
           (and_then (on_store (of_result (dead_letter_input msg))) (\<lambda>input.
              and_then (on_store (case topic of JStr t \<Rightarrow> publish_fn rt now t [input] | _ \<Rightarrow> fails_with OutsideModel))
                (\<lambda>_. acknowledged)))
           acknowledged)"

section \<open>A tick\<close>

definition parse_policy :: "jsval \<Rightarrow> pubsub_error + jsval" where
  "parse_policy raw =
     (if \<not> truthy raw then Inr JUndef
      else case raw of
        JStr t \<Rightarrow> (case json_parse t of Done v \<Rightarrow> Inr v | Malformed \<Rightarrow> Inr JUndef | Beyond \<Rightarrow> Inl OutsideModel)
      | _ \<Rightarrow> Inl OutsideModel)"

definition attempts_spent :: "jsval \<Rightarrow> rat \<Rightarrow> pubsub_error + bool" where
  "attempts_spent dlp attempts =
     (case opt_prop dlp ''maxDeliveryAttempts'' of
        JUndef \<Rightarrow> Inr False | JNull \<Rightarrow> Inr False | JNum n \<Rightarrow> Inr (n \<le> attempts) | _ \<Rightarrow> Inl OutsideModel)"

definition deliver_one ::
  "http_client \<Rightarrow> runtime \<Rightarrow> int \<Rightarrow> jsval \<Rightarrow> string \<Rightarrow> jsval \<Rightarrow> jsval \<Rightarrow> jsobj \<times> jsobj \<Rightarrow> unit engine_op" where
  "deliver_one http rt now endpoint sub dlp rp pair =
     (case pair of (dm, msg) \<Rightarrow>
        and_then (on_store (of_result (attempts_spent dlp (num_field ''deliveryAttempt'' dm)))) (\<lambda>spent.
          if spent then route_to_dead_letter rt now dlp msg (str_field ''ackId'' dm) sub
          else push_message http rt now endpoint sub rp dm msg))"

definition batch_size :: int where
  "batch_size = 10"

definition deliver_to :: "http_client \<Rightarrow> runtime \<Rightarrow> int \<Rightarrow> jsobj \<Rightarrow> unit engine_op" where
  "deliver_to http rt now r =
     and_then (on_store (of_result (parse_policy (field_of r ''pushConfig'')))) (\<lambda>cfg.
       let endpoint = opt_prop cfg ''pushEndpoint'' in
       if \<not> truthy endpoint then done_with ()
       else
         and_then (on_store (of_result (parse_policy (field_of r ''deadLetterPolicy'')))) (\<lambda>dlp.
           and_then (on_store (of_result (parse_policy (field_of r ''retryPolicy'')))) (\<lambda>rp.
             and_then (on_store (find_push_deliverable rt now (str_field ''name'' r) batch_size))
               (for_each (deliver_one http rt now endpoint (str_field ''name'' r) dlp rp)))))"

definition clean_up :: "runtime \<Rightarrow> int \<Rightarrow> unit engine_op" where
  "clean_up rt now e =
     (let e' = e\<lparr>en_counter := en_counter e + 1\<rparr>
      in if en_counter e' \<ge> en_interval e'
         then or_else (and_then (on_store (cleanup_acked_messages rt now)) (\<lambda>_. done_with ())) (done_with ())
                (e'\<lparr>en_counter := 0\<rparr>)
         else (Inr (), e'))"

text \<open>An error ends the tick and is logged; a tick while another runs does nothing.\<close>

definition tick :: "http_client \<Rightarrow> runtime \<Rightarrow> int \<Rightarrow> unit engine_op" where
  "tick http rt now e =
     (if en_running e then (Inr (), e)
      else
        case or_else
          (and_then (and_then (on_store (find_push rt)) (for_each (deliver_to http rt now))) (\<lambda>_. clean_up rt now))
          (done_with ()) (e\<lparr>en_running := True\<rparr>) of
          (r, e') \<Rightarrow> (r, e'\<lparr>en_running := False\<rparr>))"

end
