(* ===== verification/Pubsub_Push.thy ===== *)
theory Pubsub_Push
  imports Pubsub_Promises Pubsub_Delivery
begin

text \<open>
  What the delivery engine does to the log of messages: the fates of the deliveries of a batch and their effects, the
  growth of the backoff, and the ticks; with a push subscription on a fresh store as the worked example.
\<close>

section \<open>The contract of a batch\<close>

text \<open>What becomes of a delivery of the batch: the endpoint accepts it, it is tried again later, or its attempts are
  spent and it goes to the dead-letter topic, if there is one.\<close>

datatype fate = Accepted | Retried string | Buried "string option"

definition payload_of :: "string \<Rightarrow> message \<Rightarrow> jsval" where
  "payload_of sub m =
     JObj [(''message'', JObj
        ([(''messageId'', JStr (pm_id m)), (''publishTime'', JStr (pm_time m))]
         @ (case pm_data m of None \<Rightarrow> [] | Some t \<Rightarrow> [(''data'', JStr t)])
         @ (case pm_attributes m of None \<Rightarrow> [] | Some v \<Rightarrow> [(''attributes'', v)])
         @ (case truthy_text (pm_key m) of None \<Rightarrow> [] | Some t \<Rightarrow> [(''orderingKey'', JStr t)]))),
       (''subscription'', JStr sub)]"

definition push_body :: "string \<Rightarrow> message \<Rightarrow> string" where
  "push_body sub m = the (json_stringify (payload_of sub m))"

definition accepts :: "http_client \<Rightarrow> jsval \<Rightarrow> string \<Rightarrow> bool" where
  "accepts http endpoint body =
     (case http endpoint body of Answered status \<Rightarrow> response_ok status | Unreachable _ \<Rightarrow> False)"

definition fate_of ::
  "http_client \<Rightarrow> int \<Rightarrow> jsval \<Rightarrow> string \<Rightarrow> jsval \<Rightarrow> jsval \<Rightarrow> delivery \<times> message \<Rightarrow> pubsub_error + fate" where
  "fate_of http now endpoint sub dlp rp x =
     chain (attempts_spent dlp (dl_attempt (fst x))) (\<lambda>spent.
       if spent then
         (let topic = opt_prop dlp ''deadLetterTopic''
          in if \<not> truthy topic then Inr (Buried None)
             else case topic of JStr t \<Rightarrow> Inr (Buried (Some t)) | _ \<Rightarrow> Inl OutsideModel)
       else if accepts http endpoint (push_body sub (snd x)) then Inr Accepted
       else chain (retry_deadline now (push_backoff (nat \<lfloor>dl_attempt (fst x)\<rfloor>) rp)) (\<lambda>t. Inr (Retried t)))"

definition reissue :: "message \<Rightarrow> publish_input" where
  "reissue m =
     \<lparr>pi_data = pm_data m,
      pi_attributes = (case pm_attributes m of Some (JObj es) \<Rightarrow> member_texts es | _ \<Rightarrow> None), pi_ordering_key = pm_key m\<rparr>"

text \<open>Its effect on the log, and the request it takes.\<close>

fun log_fate ::
  "runtime \<Rightarrow> int \<Rightarrow> (string \<Rightarrow> string list) \<Rightarrow> string \<Rightarrow> (delivery \<times> message) \<times> fate \<Rightarrow> msg_log \<Rightarrow> msg_log" where
  "log_fate rt now active sub ((d, m), Accepted) lg = log_ack sub [dl_ack d] lg"
| "log_fate rt now active sub ((d, m), Retried t) lg = log_increment (dl_row d) t lg"
| "log_fate rt now active sub ((d, m), Buried None) lg = log_ack sub [dl_ack d] lg"
| "log_fate rt now active sub ((d, m), Buried (Some topic)) lg =
     log_ack sub [dl_ack d] (snd (log_publish rt (iso_string now) topic (active topic) [reissue m] lg))"

fun request_of :: "jsval \<Rightarrow> string \<Rightarrow> (delivery \<times> message) \<times> fate \<Rightarrow> (jsval \<times> string) list" where
  "request_of endpoint sub ((d, m), Buried _) = []"
| "request_of endpoint sub ((d, m), _) = [(endpoint, push_body sub m)]"

section \<open>Rows and what they stand for\<close>

lemma delivery_row:
  assumes "delivery_ok (i, dm)"
  shows "id_of pf dm = dl_row (delivery_of dm)" "str_field ''ackId'' dm = dl_ack (delivery_of dm)"
    "num_field ''deliveryAttempt'' dm = dl_attempt (delivery_of dm)" "attempts_made dm = nat \<lfloor>dl_attempt (delivery_of dm)\<rfloor>"
  using assms by (simp_all add: delivery_ok_def delivery_of_def id_of_def str_field_def attempts_made_def)

lemma member_texts_strings [simp]: "member_texts (string_members es) = Some es"
  by (induction es) (auto simp: string_members_def)

lemma message_row:
  assumes "message_ok (j, msg)"
  shows "push_payload sub msg = Inr (payload_of sub (message_of msg))"
    and "dead_letter_input msg = Inr (reissue (message_of msg))" and "attributes_ok (reissue (message_of msg))"
proof -
  obtain a where a: "parse_attributes msg = Inr (map_option (\<lambda>es. JObj (string_members es)) a)"
      "\<forall>es. a = Some es \<longrightarrow> make_object (string_members es) = string_members es"
    using assms by (auto simp: message_ok_def)
  have texts: "field_of msg f = text_or_null (text_option f msg)" if "f \<in> {''data'', ''attributes'', ''orderingKey''}" for f
    using assms that unfolding message_ok_def by auto
  have ids: "field_of msg ''messageId'' = JStr (pm_id (message_of msg))" "field_of msg ''publishTime'' = JStr (pm_time (message_of msg))"
    using assms by (auto simp: message_ok_def message_of_def intro: str_field_JStr)
  have vals: "pm_data (message_of msg) = text_option ''data'' msg" "pm_key (message_of msg) = text_option ''orderingKey'' msg"
      "pm_attributes (message_of msg) = map_option (\<lambda>es. JObj (string_members es)) a"
    by (simp_all add: message_of_def a)
  have "push_attributes msg = Inr (case pm_attributes (message_of msg) of None \<Rightarrow> [] | Some v \<Rightarrow> [(''attributes'', v)])"
    using texts [of "''attributes''"] a(1) unfolding vals(3)
    by (cases "text_option ''attributes'' msg"; cases a)
      (auto simp: push_attributes_def parse_attributes_def text_or_null_def split: if_splits outcome.splits option.splits)
  moreover have "(if is_nullish (field_of msg ''data'') then [] else [(''data'', field_of msg ''data'')]) =
      (case pm_data (message_of msg) of None \<Rightarrow> [] | Some t \<Rightarrow> [(''data'', JStr t)])"
    using texts [of "''data''"] unfolding vals by (simp add: text_or_null_def is_nullish_def split: option.splits)
  moreover have "(if truthy (field_of msg ''orderingKey'') then [(''orderingKey'', field_of msg ''orderingKey'')] else []) =
      (case truthy_text (pm_key (message_of msg)) of None \<Rightarrow> [] | Some t \<Rightarrow> [(''orderingKey'', JStr t)])"
    using texts [of "''orderingKey''"] unfolding vals by (simp add: text_or_null_def truthy_text_def split: option.splits)
  ultimately show "push_payload sub msg = Inr (payload_of sub (message_of msg))"
    by (simp add: push_payload_def payload_of_def chain_def ids)
  show "dead_letter_input msg = Inr (reissue (message_of msg))" "attributes_ok (reissue (message_of msg))"
    using a by (cases a; simp add: dead_letter_input_def chain_def attribute_texts_def reissue_def vals attributes_ok_def)+
qed

section \<open>Running an engine\<close>

definition drives :: "runtime \<Rightarrow> world \<Rightarrow> 'a engine_op \<Rightarrow> pubsub_error + 'a \<Rightarrow> world \<Rightarrow> (jsval \<times> string) list \<Rightarrow> bool" where
  "drives rt w f r w' sent \<longleftrightarrow>
     (\<forall>e. represents rt (en_store e) w \<longrightarrow>
        (\<exists>s'. f e = (r, e\<lparr>en_store := s', en_sent := en_sent e @ sent\<rparr>) \<and> represents rt s' w'))"

lemma drivesD:
  "drives rt w f r w' sent \<Longrightarrow> represents rt (en_store e) w \<Longrightarrow>
   \<exists>s'. f e = (r, e\<lparr>en_store := s', en_sent := en_sent e @ sent\<rparr>) \<and> represents rt s' w'"
  by (simp add: drives_def)

lemma drives_same:
  assumes "\<And>e. f e = (r, e\<lparr>en_sent := en_sent e @ q\<rparr>)"
  shows "drives rt w f r w q"
  unfolding drives_def
proof (intro allI impI)
  fix e :: engine assume "represents rt (en_store e) w"
  then show "\<exists>s'. f e = (r, e\<lparr>en_store := s', en_sent := en_sent e @ q\<rparr>) \<and> represents rt s' w"
    using assms [of e] by (intro exI [of _ "en_store e"]) simp
qed

lemma drives_store: "runs rt w f r w' \<Longrightarrow> drives rt w (on_store f) r w' []"
  by (fastforce simp: runs_def drives_def on_store_def)

lemma drives_then:
  assumes "drives rt w f (Inr a) w1 q1" and "drives rt w1 (g a) r w2 q2"
  shows "drives rt w (and_then f g) r w2 (q1 @ q2)"
  unfolding drives_def
proof (intro allI impI)
  fix e :: engine assume "represents rt (en_store e) w"
  then obtain s1 where s1: "f e = (Inr a, e\<lparr>en_store := s1, en_sent := en_sent e @ q1\<rparr>)" "represents rt s1 w1"
    using drivesD [OF assms(1)] by blast
  then obtain s2 where "g a (e\<lparr>en_store := s1, en_sent := en_sent e @ q1\<rparr>) =
      (r, e\<lparr>en_store := s2, en_sent := en_sent e @ q1 @ q2\<rparr>)" "represents rt s2 w2"
    using drivesD [OF assms(2), of "e\<lparr>en_store := s1, en_sent := en_sent e @ q1\<rparr>"] by auto
  with s1 show "\<exists>s'. and_then f g e = (r, e\<lparr>en_store := s', en_sent := en_sent e @ q1 @ q2\<rparr>) \<and> represents rt s' w2"
    by (auto simp: and_then_Inr)
qed

lemma drives_after: "runs rt w f (Inr a) w1 \<Longrightarrow> drives rt w1 (g a) r w2 q \<Longrightarrow> drives rt w (and_then (on_store f) g) r w2 q"
  using drives_then [OF drives_store, of rt w f a w1 g r w2 q] by simp

lemma drives_result: "x = Inr a \<Longrightarrow> drives rt w (g a) r w' q \<Longrightarrow> drives rt w (and_then (on_store (of_result x)) g) r w' q"
  by (simp add: drives_after [OF runs_result])

lemma drives_done: "drives rt w (done_with a) (Inr a) w []"
  by (rule drives_same) (simp add: done_with_def)

lemma drives_or_else_ok: "drives rt w f (Inr a) w' q \<Longrightarrow> drives rt w (or_else f g) (Inr a) w' q"
  by (fastforce simp: drives_def or_else_def)

lemma drives_or_else_caught:
  assumes "drives rt w f (Inl err) w1 q1" and "err \<noteq> OutsideModel" and "drives rt w1 g r w2 q2"
  shows "drives rt w (or_else f g) r w2 (q1 @ q2)"
  unfolding drives_def
proof (intro allI impI)
  fix e :: engine assume "represents rt (en_store e) w"
  then obtain s1 where s1: "f e = (Inl err, e\<lparr>en_store := s1, en_sent := en_sent e @ q1\<rparr>)" "represents rt s1 w1"
    using drivesD [OF assms(1)] by blast
  then obtain s2 where "g (e\<lparr>en_store := s1, en_sent := en_sent e @ q1\<rparr>) =
      (r, e\<lparr>en_store := s2, en_sent := en_sent e @ q1 @ q2\<rparr>)" "represents rt s2 w2"
    using drivesD [OF assms(3), of "e\<lparr>en_store := s1, en_sent := en_sent e @ q1\<rparr>"] by auto
  with s1 assms(2) show "\<exists>s'. or_else f g e = (r, e\<lparr>en_store := s', en_sent := en_sent e @ q1 @ q2\<rparr>) \<and> represents rt s' w2"
    by (auto simp: or_else_def)
qed

lemma drives_send:
  "http endpoint body = Answered status \<Longrightarrow> drives rt w (send http endpoint body) (Inr status) w [(endpoint, body)]"
  "http endpoint body = Unreachable t \<Longrightarrow> drives rt w (send http endpoint body) (Inl (PlainError t)) w [(endpoint, body)]"
  by (rule drives_same, simp add: send_def)+

lemma drives_stops: "drives rt w f (Inl err) w' q \<Longrightarrow> drives rt w (and_then f g) (Inl err) w' q"
  by (fastforce simp: drives_def and_then_def)

lemma drives_for_each:
  assumes "\<And>x w. x \<in> set xs \<Longrightarrow> I w \<Longrightarrow> drives rt w (f x) (Inr ()) (h x w) (q x) \<and> I (h x w)" and "I w"
  shows "drives rt w (for_each f xs) (Inr ()) (fold h xs w) (concat (map q xs))"
  using assms
proof (induction xs arbitrary: w)
  case (Cons x xs)
  then have "drives rt w (f x) (Inr ()) (h x w) (q x)" "I (h x w)" by simp_all
  moreover from this Cons have "drives rt (h x w) (for_each f xs) (Inr ()) (fold h xs (h x w)) (concat (map q xs))" by simp
  ultimately show ?case by (simp add: drives_then)
qed (simp add: drives_done)

section \<open>A delivery meets its fate\<close>

lemma drives_acknowledge:
  "drives rt w (on_store (acknowledge_messages rt now sub acks)) (Inr ()) (set_log (log_ack sub acks (w_log w)) w) []"
  by (rule drives_store [OF runs_acknowledge])

lemma drives_failure:
  assumes "delivery_ok (i, dm)" and "retry_deadline now (push_backoff (nat \<lfloor>dl_attempt (delivery_of dm)\<rfloor>) rp) = Inr t"
  shows "drives rt w (handle_push_failure rt now dm rp) (Inr ()) (set_log (log_increment (dl_row (delivery_of dm)) t (w_log w)) w) []"
  unfolding handle_push_failure_def delivery_row [OF assms(1)]
  by (rule drives_result [OF assms(2)]) (rule drives_store [OF runs_increment])

lemma drives_answered:
  "http endpoint body = Answered st \<Longrightarrow> drives rt w (g st) r w' [] \<Longrightarrow>
   drives rt w (and_then (send http endpoint body) g) r w' [(endpoint, body)]"
  using drives_then [of rt w "send http endpoint body" st w "[(endpoint, body)]" g r w' "[]"] drives_send(1) by simp

lemma drives_unreachable:
  "http endpoint body = Unreachable t \<Longrightarrow>
   drives rt w (and_then (send http endpoint body) g) (Inl (PlainError t)) w [(endpoint, body)]"
  by (rule drives_stops, rule drives_send(2))

lemma drives_attempt:
  assumes "delivery_ok (i, dm)" and "message_ok (j, msg)"
    and "drives rt w (or_else (and_then (send http endpoint (push_body sub (message_of msg)))
        (\<lambda>status. if response_ok status then on_store (acknowledge_messages rt now sub [dl_ack (delivery_of dm)])
          else handle_push_failure rt now dm rp)) (handle_push_failure rt now dm rp)) r w' q"
  shows "drives rt w (push_message http rt now endpoint sub rp dm msg) r w' q"
  unfolding push_message_def using assms(3)
  by (intro drives_result [OF message_row(1) [OF assms(2)]]) (simp add: push_body_def delivery_row(2) [OF assms(1)] cong: if_cong)

text \<open>A failing attempt, whatever handling the failure gives.\<close>

lemma drives_refused:
  assumes "delivery_ok (i, dm)" and "message_ok (j, msg)" and "\<not> accepts http endpoint (push_body sub (message_of msg))"
    and "drives rt w (handle_push_failure rt now dm rp) r w' []" and "r = Inr () \<or> (r = Inl err \<and> err \<noteq> OutsideModel \<and> w' = w)"
  shows "drives rt w (push_message http rt now endpoint sub rp dm msg) r w' [(endpoint, push_body sub (message_of msg))]"
proof (rule drives_attempt [OF assms(1,2)], cases "http endpoint (push_body sub (message_of msg))")
  let ?body = "push_body sub (message_of msg)"
  let ?answer = "\<lambda>status. if response_ok status then on_store (acknowledge_messages rt now sub [dl_ack (delivery_of dm)])
      else handle_push_failure rt now dm rp"
  case (Answered st)
  then have "\<not> response_ok st" using assms(3) by (simp add: accepts_def)
  then have one: "drives rt w (and_then (send http endpoint ?body) ?answer) r w' [(endpoint, ?body)]"
    by (intro drives_answered [of http endpoint ?body st, OF Answered]) (simp add: assms(4))
  from assms(5) show "drives rt w (or_else (and_then (send http endpoint ?body) ?answer) (handle_push_failure rt now dm rp))
      r w' [(endpoint, ?body)]"
  proof
    assume "r = Inr ()"
    with one show ?thesis by (simp add: drives_or_else_ok)
  next
    assume r: "r = Inl err \<and> err \<noteq> OutsideModel \<and> w' = w"
    with drives_or_else_caught [of rt w _ err w "[(endpoint, ?body)]" "handle_push_failure rt now dm rp" r w' "[]"] one assms(4)
    show ?thesis by simp
  qed
next
  case (Unreachable t)
  from drives_or_else_caught [OF drives_unreachable [of http endpoint _ t, OF Unreachable] _ assms(4)]
  show "drives rt w (or_else (and_then (send http endpoint (push_body sub (message_of msg)))
        (\<lambda>status. if response_ok status then on_store (acknowledge_messages rt now sub [dl_ack (delivery_of dm)])
          else handle_push_failure rt now dm rp)) (handle_push_failure rt now dm rp)) r w' [(endpoint, push_body sub (message_of msg))]"
    by simp
qed

lemma drives_push:
  assumes "delivery_ok (i, dm)" and "message_ok (j, msg)"
  defines "d \<equiv> delivery_of dm" and "m \<equiv> message_of msg"
  shows "accepts http endpoint (push_body sub m) \<Longrightarrow>
      drives rt w (push_message http rt now endpoint sub rp dm msg) (Inr ())
        (set_log (log_ack sub [dl_ack d] (w_log w)) w) [(endpoint, push_body sub m)]"
    and "\<not> accepts http endpoint (push_body sub m) \<Longrightarrow> retry_deadline now (push_backoff (nat \<lfloor>dl_attempt d\<rfloor>) rp) = Inr t \<Longrightarrow>
      drives rt w (push_message http rt now endpoint sub rp dm msg) (Inr ())
        (set_log (log_increment (dl_row d) t (w_log w)) w) [(endpoint, push_body sub m)]"
proof -
  show "drives rt w (push_message http rt now endpoint sub rp dm msg) (Inr ())
      (set_log (log_ack sub [dl_ack d] (w_log w)) w) [(endpoint, push_body sub m)]" if acc: "accepts http endpoint (push_body sub m)"
  proof -
    obtain st where st: "http endpoint (push_body sub m) = Answered st" "response_ok st"
      using acc by (auto simp: accepts_def split: http_outcome.splits)
    show ?thesis
      by (rule drives_attempt [OF assms(1,2)], rule drives_or_else_ok, fold m_def,
          rule drives_answered [of http endpoint "push_body sub m" st, OF st(1)]) (simp add: st(2) drives_acknowledge d_def)
  qed
  show "drives rt w (push_message http rt now endpoint sub rp dm msg) (Inr ())
      (set_log (log_increment (dl_row d) t (w_log w)) w) [(endpoint, push_body sub m)]"
    if "\<not> accepts http endpoint (push_body sub m)" and "retry_deadline now (push_backoff (nat \<lfloor>dl_attempt d\<rfloor>) rp) = Inr t"
    using drives_refused [OF assms(1,2)] drives_failure [OF assms(1), of now rp t rt w] that unfolding d_def m_def by blast
qed

lemma runs_publish_fn:
  assumes "named (catalog w subscriptions)" and "list_all attributes_ok msgs"
  shows "runs rt w (publish_fn rt now t msgs) (Inr ())
    (set_log (snd (log_publish rt (iso_string now) t (active_names w t) msgs (w_log w))) w)"
proof -
  obtain rs where rs: "runs rt w (find_active rt t) (Inr rs) w" "map (str_field ''name'') rs = active_names w t"
    using runs_active [OF assms(1)] by blast
  show ?thesis unfolding publish_fn_def
    by (rule runs_then [OF rs(1)], unfold rs(2), rule runs_then [OF runs_publish_messages [OF assms(2)] runs_done])
qed

lemma drives_bury:
  assumes "message_ok (j, msg)" and "named (catalog w subscriptions)"
  defines "m \<equiv> message_of msg"
  shows "\<not> truthy (opt_prop dlp ''deadLetterTopic'') \<Longrightarrow>
      drives rt w (route_to_dead_letter rt now dlp msg ack sub) (Inr ()) (set_log (log_ack sub [ack] (w_log w)) w) []"
    and "opt_prop dlp ''deadLetterTopic'' = JStr t \<Longrightarrow> t \<noteq> [] \<Longrightarrow>
      drives rt w (route_to_dead_letter rt now dlp msg ack sub) (Inr ())
        (set_log (log_ack sub [ack] (snd (log_publish rt (iso_string now) t (active_names w t) [reissue m] (w_log w)))) w) []"
proof -
  show "drives rt w (route_to_dead_letter rt now dlp msg ack sub) (Inr ()) (set_log (log_ack sub [ack] (w_log w)) w) []"
    if "\<not> truthy (opt_prop dlp ''deadLetterTopic'')"
    using that by (simp add: route_to_dead_letter_def drives_acknowledge)
  let ?w = "set_log (snd (log_publish rt (iso_string now) t (active_names w t) [reissue m] (w_log w))) w"
  have pub: "runs rt w (publish_fn rt now t [reissue m]) (Inr ()) ?w"
    unfolding m_def by (rule runs_publish_fn [OF assms(2)]) (simp add: message_row(3) [OF assms(1)])
  have again: "set_log lg (set_log lg' w) = set_log lg w" for lg lg' by (simp add: set_log_def)
  show "drives rt w (route_to_dead_letter rt now dlp msg ack sub) (Inr ())
      (set_log (log_ack sub [ack] (snd (log_publish rt (iso_string now) t (active_names w t) [reissue m] (w_log w)))) w) []"
    if t: "opt_prop dlp ''deadLetterTopic'' = JStr t" "t \<noteq> []"
    unfolding route_to_dead_letter_def Let_def t(1)
    using drives_after [OF pub, of "\<lambda>_. on_store (acknowledge_messages rt now sub [ack])"] drives_acknowledge [of rt ?w now sub "[ack]"] t(2)
    by (auto intro!: drives_or_else_ok drives_result [OF message_row(2) [OF assms(1)]] simp: m_def again)
qed

text \<open>One delivery of the batch, whatever its fate.\<close>

lemma drives_fate:
  assumes "delivery_ok (i, dm)" and "message_ok (j, msg)" and "named (catalog w subscriptions)"
    and "fate_of http now endpoint sub dlp rp (delivery_of dm, message_of msg) = Inr x"
  shows "drives rt w (deliver_one http rt now endpoint sub dlp rp (dm, msg)) (Inr ())
    (set_log (log_fate rt now (active_names w) sub ((delivery_of dm, message_of msg), x) (w_log w)) w)
    (request_of endpoint sub ((delivery_of dm, message_of msg), x))"
proof -
  let ?d = "delivery_of dm" let ?m = "message_of msg" let ?topic = "opt_prop dlp ''deadLetterTopic''"
  obtain b where spent: "attempts_spent dlp (dl_attempt ?d) = Inr b"
    using assms(4) by (auto simp: fate_of_def chain_def split: sum.splits)
  have one: "drives rt w (deliver_one http rt now endpoint sub dlp rp (dm, msg)) r w' q"
    if "drives rt w (if b then route_to_dead_letter rt now dlp msg (dl_ack ?d) sub
          else push_message http rt now endpoint sub rp dm msg) r w' q" for r w' q
    unfolding deliver_one_def prod.case delivery_row [OF assms(1)] by (rule drives_result [OF spent]) (rule that)
  show ?thesis
  proof (rule one, cases b)
    case True
    with assms(4) spent consider "\<not> truthy ?topic" "x = Buried None"
      | t where "?topic = JStr t" "t \<noteq> []" "x = Buried (Some t)"
      by (auto simp: fate_of_def chain_def Let_def split: if_splits jsval.splits)
    then show "drives rt w (if b then route_to_dead_letter rt now dlp msg (dl_ack ?d) sub
          else push_message http rt now endpoint sub rp dm msg) (Inr ())
      (set_log (log_fate rt now (active_names w) sub ((?d, ?m), x) (w_log w)) w) (request_of endpoint sub ((?d, ?m), x))"
      using True drives_bury [OF assms(2,3)] by cases simp_all
  next
    case False
    with assms(4) spent consider "accepts http endpoint (push_body sub ?m)" "x = Accepted"
      | t where "\<not> accepts http endpoint (push_body sub ?m)"
          "retry_deadline now (push_backoff (nat \<lfloor>dl_attempt ?d\<rfloor>) rp) = Inr t" "x = Retried t"
      by (auto simp: fate_of_def chain_def split: if_splits sum.splits)
    then show "drives rt w (if b then route_to_dead_letter rt now dlp msg (dl_ack ?d) sub
          else push_message http rt now endpoint sub rp dm msg) (Inr ())
      (set_log (log_fate rt now (active_names w) sub ((?d, ?m), x) (w_log w)) w) (request_of endpoint sub ((?d, ?m), x))"
      using False drives_push [OF assms(1,2)] by cases simp_all
  qed
qed

section \<open>A batch\<close>

lemma represents_deliverable:
  assumes "represents rt s w"
  shows "\<exists>s' rs. find_push_deliverable rt now sub limit s = (Inr rs, s') \<and> represents rt s' w \<and>
    (\<forall>(dm, msg) \<in> set rs. \<exists>i j. delivery_ok (i, dm) \<and> message_ok (j, msg)) \<and>
    map (map_prod delivery_of message_of) rs = log_find_push rt now sub limit (w_log w)"
proof -
  have "holds rt s (w_log w)" using assms by (simp add: represents_def)
  from find_push_refines [OF this, of now sub limit] obtain s' rs where
    s': "find_push_deliverable rt now sub limit s = (Inr rs, s')" "holds rt s' (w_log w)"
      "\<forall>(dm, msg) \<in> set rs. \<exists>i j. delivery_ok (i, dm) \<and> message_ok (j, msg)"
      "map (map_prod delivery_of message_of) rs = log_find_push rt now sub limit (w_log w)" by blast
  with represents_messages [OF assms touches_find_push s'(1,2)] show ?thesis by simp
qed

lemma drives_batch:
  assumes "\<forall>(dm, msg) \<in> set rs. \<exists>i j. delivery_ok (i, dm) \<and> message_ok (j, msg)" and "named (catalog w subscriptions)"
    and "map (map_prod delivery_of message_of) rs = hits" and "map (fate_of http now endpoint sub dlp rp) hits = map Inr xs"
  shows "drives rt w (for_each (deliver_one http rt now endpoint sub dlp rp) rs) (Inr ())
    (set_log (fold (log_fate rt now (active_names w) sub) (zip hits xs) (w_log w)) w)
    (concat (map (request_of endpoint sub) (zip hits xs)))"
  using assms
proof (induction rs arbitrary: w hits xs)
  case (Cons row rs)
  obtain dm msg where row: "row = (dm, msg)" by (cases row)
  obtain i j where ok: "delivery_ok (i, dm)" "message_ok (j, msg)" using Cons.prems(1) row by auto
  let ?x = "(delivery_of dm, message_of msg)"
  obtain hits' where hits: "hits = ?x # hits'" "map (map_prod delivery_of message_of) rs = hits'" using Cons.prems(3) row by auto
  obtain y ys where xs: "xs = y # ys" "fate_of http now endpoint sub dlp rp ?x = Inr y"
      "map (fate_of http now endpoint sub dlp rp) hits' = map Inr ys"
    using Cons.prems(4) hits(1) by (cases xs) auto
  let ?w = "set_log (log_fate rt now (active_names w) sub (?x, y) (w_log w)) w"
  have same: "active_names ?w = active_names w" "\<And>lg. set_log lg ?w = set_log lg w"
    by (simp_all add: active_names_def set_log_def fun_eq_iff)
  have nm: "named (catalog ?w subscriptions)" using Cons.prems(2) by simp
  from Cons.IH [OF _ nm hits(2) xs(3)] Cons.prems(1)
  have "drives rt ?w (for_each (deliver_one http rt now endpoint sub dlp rp) rs) (Inr ())
      (set_log (fold (log_fate rt now (active_names ?w) sub) (zip hits' ys) (w_log ?w)) ?w)
      (concat (map (request_of endpoint sub) (zip hits' ys)))" by auto
  from drives_then [OF drives_fate [OF ok Cons.prems(2) xs(2)] this] show ?case
    unfolding same by (simp add: row hits(1) xs(1))
qed (simp add: drives_done set_log_def)

text \<open>C36: Serving a push subscription sends one request for each of at most ten due deliveries whose attempts are not
  spent, in order, and does to the log of messages what their fates say: a delivery the endpoint accepts is
  acknowledged, one it refuses gets one attempt more and a later deadline, and one whose attempts are spent is
  acknowledged and published to the dead-letter topic, if the policy names one.\<close>

theorem push_batch_refines:
  assumes "represents rt (en_store e) w" and "parse_policy (field_of r ''pushConfig'') = Inr cfg"
    and "truthy (opt_prop cfg ''pushEndpoint'')" and "parse_policy (field_of r ''deadLetterPolicy'') = Inr dlp"
    and "parse_policy (field_of r ''retryPolicy'') = Inr rp" and "log_find_push rt now (str_field ''name'' r) 10 (w_log w) = hits"
    and "map (fate_of http now (opt_prop cfg ''pushEndpoint'') (str_field ''name'' r) dlp rp) hits = map Inr xs"
  shows "length hits \<le> 10 \<and> (\<exists>s'. deliver_to http rt now r e =
      (Inr (), e\<lparr>en_store := s', en_sent := en_sent e @
         concat (map (request_of (opt_prop cfg ''pushEndpoint'') (str_field ''name'' r)) (zip hits xs))\<rparr>) \<and>
    represents rt s' (set_log (fold (log_fate rt now (active_names w) (str_field ''name'' r)) (zip hits xs) (w_log w)) w))"
proof
  have "length (window 10 ys) \<le> 10" for ys :: "delivery list" by (simp add: window_def js_slice_def slice_bound_def Let_def)
  then show "length hits \<le> 10" unfolding assms(6) [symmetric] log_find_push_def log_eligible_def
    by (simp, metis (no_types, lifting) length_filter_le order_trans)
next
  let ?n = "str_field ''name'' r" let ?url = "opt_prop cfg ''pushEndpoint''"
  obtain s1 rs where s1: "find_push_deliverable rt now ?n batch_size (en_store e) = (Inr rs, s1)" "represents rt s1 w"
      "\<forall>(dm, msg) \<in> set rs. \<exists>i j. delivery_ok (i, dm) \<and> message_ok (j, msg)"
      "map (map_prod delivery_of message_of) rs = hits"
    using represents_deliverable [OF assms(1), of now ?n batch_size] assms(6) unfolding batch_size_def by auto
  have nm: "named (catalog w subscriptions)" using assms(1) by (rule represents_named) simp
  have "deliver_to http rt now r e = for_each (deliver_one http rt now ?url ?n dlp rp) rs (e\<lparr>en_store := s1\<rparr>)"
    using assms(2-5) s1(1) by (simp add: deliver_to_def of_result_def on_store_def and_then_def done_with_def)
  with drivesD [OF drives_batch [OF s1(3) nm s1(4) assms(7)], of rt "e\<lparr>en_store := s1\<rparr>"] s1(2)
  show "\<exists>s'. deliver_to http rt now r e = (Inr (), e\<lparr>en_store := s', en_sent := en_sent e @
         concat (map (request_of ?url ?n) (zip hits xs))\<rparr>) \<and>
    represents rt s' (set_log (fold (log_fate rt now (active_names w) ?n) (zip hits xs) (w_log w)) w)"
    by simp
qed

section \<open>Backoff\<close>

lemma backoff_setting_nonneg: "backoff_setting rp f standard = Inr x \<Longrightarrow> 0 \<le> standard \<Longrightarrow> 0 \<le> x"
  by (auto simp: backoff_setting_def Let_def split: if_splits jsval.splits option.splits dest: parse_duration_nonneg)

lemma capped_backoff_range:
  assumes "0 \<le> lo" and "m \<le> n" and "n < 1024"
  shows "\<exists>a b. capped_backoff lo m hi = Some a \<and> capped_backoff lo n hi = Some b \<and> min lo hi \<le> a \<and> a \<le> b \<and> b \<le> hi"
proof -
  have "(2 :: rat) ^ m \<le> 2 ^ n" using assms(2) by (intro power_increasing) auto
  then have "lo * 2 ^ m \<le> lo * 2 ^ n" using assms(1) by (rule mult_left_mono)
  moreover have "lo * 1 \<le> lo * 2 ^ m" using assms(1) by (intro mult_left_mono one_le_power) auto
  ultimately show ?thesis using assms(2,3) by (auto simp: capped_backoff_def min_def)
qed

definition backoff_limits :: "jsval \<Rightarrow> rat \<times> rat" where
  "backoff_limits rp =
     (case (backoff_setting rp ''minimumBackoff'' 10, backoff_setting rp ''maximumBackoff'' 600) of
        (Inr lo, Inr hi) \<Rightarrow> (lo, hi) | _ \<Rightarrow> (10, 600))"

lemma push_backoff_capped: "push_backoff n rp = capped_backoff (fst (backoff_limits rp)) n (snd (backoff_limits rp))"
  by (auto simp: push_backoff_def compute_backoff_def chain_def backoff_limits_def split: sum.splits)

lemma backoff_limits_nonneg: "0 \<le> fst (backoff_limits rp)"
  using backoff_setting_nonneg [of rp "''minimumBackoff''" 10] by (auto simp: backoff_limits_def split: sum.splits)



section \<open>Ticks\<close>

lemma represents_attached:
  assumes "represents rt s w"
  shows "\<exists>s' rs. find_rows rt (rr_table subscriptions) [not_detached] None s = (Inr rs, s') \<and> represents rt s' w \<and>
    distinct (map name_of rs) \<and> set rs = {r. \<exists>n. catalog w subscriptions n = Some r \<and> field_of r ''detached'' = JNum 0}"
proof -
  let ?f = "\<lparr>qf_conditions = [not_detached], qf_operator = None\<rparr>"
  obtain rows where rows: "table_rows (ms_storage s) (rr_table subscriptions) = Some rows" "rows_wf rows"
      "catalog_of rows = catalog w subscriptions"
    using assms repo_members(2) by (rule represents_catalog)
  have "strict_eq v (JNum n) \<longleftrightarrow> v = JNum n" for v n by (cases v) auto
  then have flt: "matches_filter (rt_platform rt) ?f = (\<lambda>r. field_of r ''detached'' = JNum 0)"
    by (simp add: fun_eq_iff matches_filter_def matches_condition_def)
  let ?rs = "filter (\<lambda>r. field_of r ''detached'' = JNum 0) (map snd rows)"
  obtain m' where m': "mg_find (rt_platform rt) (rt_duration rt) (rr_table subscriptions)
        \<lparr>qo_filter = Some ?f, qo_sort = None, qo_pagination = None\<rparr> (ms_storage s) = (Inr (page_of None ?rs), m')"
      "table_rows m' = table_rows (ms_storage s)"
    using row_find [OF rows(1), of "rt_platform rt" "rt_duration rt" ?f None] unfolding flt by blast
  have "find_rows rt (rr_table subscriptions) [not_detached] None s = (Inr ?rs, s\<lparr>ms_storage := m'\<rparr>)"
    unfolding find_rows_def and_then_def storage_call_def m'(1) by (simp add: page_of_def done_with_def)
  moreover have "represents rt (s\<lparr>ms_storage := m'\<rparr>) w" using m'(2) by (intro represents_read [OF assms]) simp_all
  moreover have "distinct (map name_of ?rs)" using rows(2) by (intro distinct_map_filter) (simp add: rows_wf_def)
  moreover have "r \<in> set (map snd rows) \<longleftrightarrow> (\<exists>n. catalog w subscriptions n = Some r)" for r
  proof
    assume "r \<in> set (map snd rows)"
    then obtain i where "(i, r) \<in> set rows" by auto
    then have "(name_of r, r) \<in> set (map (\<lambda>(i, r). (name_of r, r)) rows)" by force
    moreover have "distinct (map fst (map (\<lambda>(i, r). (name_of r, r)) rows))" using rows(2) by (simp add: rows_wf_def o_def case_prod_unfold)
    ultimately have "catalog_of rows (name_of r) = Some r" unfolding catalog_of_def by (intro map_of_is_SomeI)
    then show "\<exists>n. catalog w subscriptions n = Some r" using rows(3) by auto
  next
    assume "\<exists>n. catalog w subscriptions n = Some r"
    then show "r \<in> set (map snd rows)" using catalog_Some [OF rows(2)] rows(3) by force
  qed
  ultimately show ?thesis by (intro exI [of _ "s\<lparr>ms_storage := m'\<rparr>"] exI [of _ ?rs]) auto
qed

lemma find_push_represents:
  assumes "represents rt s w" and "find_push rt s = (x, s')"
  shows "represents rt s' w"
  using represents_attached [OF assms(1)] assms(2)
  by (auto simp: find_push_def and_then_def of_result_def done_with_def fails_with_def split: sum.splits)

text \<open>A tick never throws, whatever the endpoints do, ends with the engine free for the next one, leaves the timer,
  and does nothing while another tick runs.\<close>

theorem tick_settles:
  "(en_running e \<longrightarrow> tick http rt now e = (Inr (), e)) \<and>
   (\<not> en_running e \<longrightarrow> fst (tick http rt now e) \<in> {Inr (), Inl OutsideModel} \<and> \<not> en_running (snd (tick http rt now e)))"
  by (auto simp: tick_def or_else_def done_with_def split: prod.splits sum.splits if_splits)

lemma drives_wedged:
  assumes "delivery_ok (i, dm)" and "message_ok (j, msg)" and "\<not> accepts http endpoint (push_body sub (message_of msg))"
    and "retry_deadline now (push_backoff (nat \<lfloor>dl_attempt (delivery_of dm)\<rfloor>) rp) = Inl JsRangeError"
  shows "drives rt w (push_message http rt now endpoint sub rp dm msg) (Inl JsRangeError) w
    [(endpoint, push_body sub (message_of msg))]"
proof -
  have "drives rt w (handle_push_failure rt now dm rp) (Inl JsRangeError) w []"
    unfolding handle_push_failure_def delivery_row [OF assms(1)] assms(4)
    by (rule drives_stops, rule drives_store, rule runs_result)
  from drives_refused [OF assms(1-3) this, of JsRangeError] show ?thesis by simp
qed

text \<open>C38: With a minimum backoff of zero seconds, a push that has failed 1024 times and fails again ends the tick: the
  computed deadline is not a number, its conversion throws, the throw leaves both handlers, and the tick serves no
  other delivery or subscription, changes nothing in the store and does not count towards the clean-up, so the next
  tick meets the same delivery again.\<close>

theorem zero_backoff_wedges:
  assumes "represents rt (en_store e) w" and "\<not> en_running e" and "find_push rt (en_store e) = (Inr (r # rs), s1)"
    and "parse_policy (field_of r ''pushConfig'') = Inr cfg" and "truthy (opt_prop cfg ''pushEndpoint'')"
    and "parse_policy (field_of r ''deadLetterPolicy'') = Inr dlp" and "parse_policy (field_of r ''retryPolicy'') = Inr rp"
    and "log_find_push rt now (str_field ''name'' r) 10 (w_log w) = (d, m) # later_hits" and "attempts_spent dlp (dl_attempt d) = Inr False"
    and "backoff_limits rp = (0, hi)" and "1024 \<le> dl_attempt d"
    and "\<not> accepts http (opt_prop cfg ''pushEndpoint'') (push_body (str_field ''name'' r) m)"
  shows "\<exists>s'. tick http rt now e = (Inr (), e\<lparr>en_store := s',
      en_sent := en_sent e @ [(opt_prop cfg ''pushEndpoint'', push_body (str_field ''name'' r) m)]\<rparr>) \<and> represents rt s' w"
proof -
  let ?n = "str_field ''name'' r" let ?url = "opt_prop cfg ''pushEndpoint''" let ?e = "e\<lparr>en_running := True\<rparr>"
  have s1: "represents rt s1 w" using assms(1,3) by (rule find_push_represents)
  obtain s2 rows where s2: "find_push_deliverable rt now ?n batch_size s1 = (Inr rows, s2)" "represents rt s2 w"
      "\<forall>(dm, msg) \<in> set rows. \<exists>i j. delivery_ok (i, dm) \<and> message_ok (j, msg)"
      "map (map_prod delivery_of message_of) rows = (d, m) # later_hits"
    using represents_deliverable [OF s1, of now ?n batch_size] assms(8) unfolding batch_size_def by auto
  then obtain dm msg rest where rows: "rows = (dm, msg) # rest" "delivery_of dm = d" "message_of msg = m" by (cases rows) auto
  then obtain i j where ok: "delivery_ok (i, dm)" "message_ok (j, msg)" using s2(3) by auto
  have "1024 \<le> nat \<lfloor>dl_attempt d\<rfloor>" using assms(11) by (simp add: nat_le_iff le_floor_iff le_nat_iff)
  then have dead: "retry_deadline now (push_backoff (nat \<lfloor>dl_attempt d\<rfloor>) rp) = Inl JsRangeError"
    using assms(10) by (simp add: push_backoff_capped capped_backoff_def retry_deadline_def)
  have one: "drives rt w (deliver_one http rt now ?url ?n dlp rp (dm, msg)) (Inl JsRangeError) w [(?url, push_body ?n m)]"
    unfolding deliver_one_def prod.case delivery_row [OF ok(1)]
    using drives_wedged [OF ok, of http ?url ?n now rp rt w] assms(9,12) dead rows
    by (intro drives_result [of _ False]) simp_all
  from drivesD [OF one, of "?e\<lparr>en_store := s2\<rparr>"] s2(2) obtain s' where
    s': "deliver_one http rt now ?url ?n dlp rp (dm, msg) (?e\<lparr>en_store := s2\<rparr>) =
        (Inl JsRangeError, ?e\<lparr>en_store := s', en_sent := en_sent e @ [(?url, push_body ?n m)]\<rparr>)" "represents rt s' w" by auto
  have "deliver_to http rt now r (?e\<lparr>en_store := s1\<rparr>) =
      (Inl JsRangeError, ?e\<lparr>en_store := s', en_sent := en_sent e @ [(?url, push_body ?n m)]\<rparr>)"
    using assms(4-7) s2(1) s'(1) by (simp add: deliver_to_def of_result_def on_store_def and_then_def done_with_def rows(1))
  then have "tick http rt now e = (Inr (), (?e\<lparr>en_store := s', en_sent := en_sent e @ [(?url, push_body ?n m)]\<rparr>)\<lparr>en_running := False\<rparr>)"
    using assms(2,3) by (simp add: tick_def or_else_def on_store_def and_then_def done_with_def)
  moreover have "(?e\<lparr>en_store := s', en_sent := en_sent e @ [(?url, push_body ?n m)]\<rparr>)\<lparr>en_running := False\<rparr> =
      e\<lparr>en_store := s', en_sent := en_sent e @ [(?url, push_body ?n m)]\<rparr>" using assms(2) by (cases e) simp
  ultimately show ?thesis using s'(2) by (intro exI [of _ s']) simp
qed

section \<open>A worked example\<close>

text \<open>A push subscription without a minimum backoff, and a message whose push was tried \<open>n\<close> times.\<close>

definition demo_push_config :: jsval where
  "demo_push_config = JObj [(''pushEndpoint'', JStr ''http://e'')]"

definition demo_retry_policy :: jsval where
  "demo_retry_policy = JObj [(''minimumBackoff'', JStr ''0s'')]"

definition demo_push_data :: jsobj where
  "demo_push_data = [(''topic'', JStr demo_topic_name), (''pushConfig'', demo_push_config), (''retryPolicy'', demo_retry_policy)]"

definition demo_push_validation :: validation where
  "demo_push_validation = demo_validation\<lparr>vl_subscription := \<lambda>_. Inr demo_push_data\<rparr>"

definition demo_push_record :: jsobj where
  "demo_push_record = new_record 0 (rt_uuid demo_runtime 1) (subscription_row demo_sub_name demo_push_data)"

definition demo_message :: message where
  "demo_message = published (rt_uuid demo_runtime 2) demo_topic_name (iso_string 0) demo_input"

definition demo_delivery :: "nat \<Rightarrow> delivery" where
  "demo_delivery n =
     \<lparr>dl_row = rt_uuid demo_runtime 5, dl_ack = rt_uuid demo_runtime 4, dl_sub = demo_sub_name,
      dl_message = rt_uuid demo_runtime 2, dl_attempt = of_nat n, dl_deadline = epoch_text, dl_acked = False\<rparr>"

definition demo_tried_log :: "nat \<Rightarrow> msg_log" where
  "demo_tried_log n = \<lparr>lg_messages = [demo_message], lg_deliveries = [demo_delivery n], lg_drawn = 6\<rparr>"

definition demo_push_world :: world where
  "demo_push_world = draw (set_catalog subscriptions [demo_sub_name \<mapsto> demo_push_record] demo_topic_world)"

definition demo_tried_world :: "nat \<Rightarrow> world" where
  "demo_tried_world n = set_log (demo_tried_log n) demo_push_world"

lemma demo_push_fields:
  "field_of demo_push_record ''pushConfig'' = json_text demo_push_config"
  "field_of demo_push_record ''retryPolicy'' = json_text demo_retry_policy"
  "field_of demo_push_record ''deadLetterPolicy'' = JNull" "field_of demo_push_record ''topic'' = JStr demo_topic_name"
  "field_of demo_push_record ''detached'' = JNum 0" "field_of demo_push_record ''name'' = JStr demo_sub_name"
proof -
  have "truthy demo_push_config" "truthy demo_retry_policy" by (simp_all add: demo_push_config_def demo_retry_policy_def)
  then show "field_of demo_push_record ''pushConfig'' = json_text demo_push_config"
    "field_of demo_push_record ''retryPolicy'' = json_text demo_retry_policy"
    "field_of demo_push_record ''deadLetterPolicy'' = JNull" "field_of demo_push_record ''topic'' = JStr demo_topic_name"
    "field_of demo_push_record ''detached'' = JNum 0" "field_of demo_push_record ''name'' = JStr demo_sub_name"
    by (simp_all add: demo_push_record_def new_record_def subscription_row_def field_of_def jm_get_spread
        demo_push_data_def json_or_null_def)
qed

lemma demo_policies:
  "parse_policy (json_text demo_push_config) = Inr demo_push_config"
  "parse_policy (json_text demo_retry_policy) = Inr demo_retry_policy" "parse_policy JNull = Inr JUndef"
proof -
  have plain: "json_plain demo_push_config" "json_plain demo_retry_policy"
    by (simp_all add: demo_push_config_def demo_retry_policy_def canonical_def)
  have "parse_policy (json_text v) = Inr v" if "json_plain v" for v
    using json_roundtrip [OF that] by (auto simp: parse_policy_def json_text_def)
  with plain show "parse_policy (json_text demo_push_config) = Inr demo_push_config"
    "parse_policy (json_text demo_retry_policy) = Inr demo_retry_policy" by blast+
qed (simp add: parse_policy_def)

lemma demo_push_catalogs:
  "catalog demo_push_world topics demo_topic_name = Some demo_topic_record"
  "catalog demo_push_world subscriptions = [demo_sub_name \<mapsto> demo_push_record]"
  by (simp_all add: demo_push_world_def demo_topic_world_def set_catalog_at empty_world_def)

lemma demo_push_store:
  obtains s where "represents demo_runtime s demo_push_world"
proof -
  have vl: "vl_subscription demo_push_validation v = Inr demo_push_data" for v by (simp add: demo_push_validation_def)
  have t: "str_field ''topic'' demo_push_data = demo_topic_name" by (simp add: str_field_def field_of_def demo_push_data_def)
  have "catalog demo_topic_world subscriptions (build_subscription_name ''p'' ''s'') = None" by (simp only: demo_catalogs)
  from runsD [OF runs_create_subscription [where vl = demo_push_validation, OF vl _ this, unfolded Let_def t, OF demo_catalogs(1)]
      demo_topic_represents, of 0 JUndef]
  obtain s where "represents demo_runtime s demo_push_world"
    by (auto simp: demo_push_world_def demo_push_record_def demo_sub_name_def demo_topic_world_def demo_catalogs empty_world_def
        empty_log_def draw_def set_catalog_def)
  then show ?thesis by (rule that)
qed

lemma demo_active: "active_names demo_push_world demo_topic_name = [demo_sub_name]"
proof -
  have "(\<exists>r. [demo_sub_name \<mapsto> demo_push_record] n = Some r \<and> active_for demo_topic_name r) \<longleftrightarrow> n = demo_sub_name" for n
    by (auto simp: active_for_def demo_push_fields)
  then have "{n. \<exists>r. [demo_sub_name \<mapsto> demo_push_record] n = Some r \<and> active_for demo_topic_name r} = {demo_sub_name}" by blast
  then show ?thesis unfolding active_names_def matching_names_def demo_push_catalogs by simp
qed

lemma demo_published: "snd (log_publish demo_runtime (iso_string 0) demo_topic_name [demo_sub_name] [demo_input] (w_log demo_push_world)) =
    demo_tried_log 0"
  by (simp add: demo_push_world_def demo_topic_world_def empty_world_def empty_log_def draw_def set_catalog_def Let_def new_message_def
      new_delivery_def demo_tried_log_def demo_message_def demo_delivery_def published_def eval_nat_numeral)

lemma demo_tried_store:
  obtains s where "represents demo_runtime s (demo_tried_world n)"
proof -
  have "\<exists>s. represents demo_runtime s (demo_tried_world n)"
  proof (induction n)
    case 0
    obtain s where s: "represents demo_runtime s demo_push_world" by (rule demo_push_store)
    from runsD [OF runs_publish_messages [OF demo_input_ok] s, of 0 demo_topic_name "[demo_sub_name]"]
    show ?case unfolding demo_published demo_tried_world_def by blast
  next
    case (Suc n)
    then obtain s where s: "represents demo_runtime s (demo_tried_world n)" by blast
    have "set_log (log_increment (rt_uuid demo_runtime 5) epoch_text (w_log (demo_tried_world n))) (demo_tried_world n) =
        demo_tried_world (Suc n)"
      by (simp add: demo_tried_world_def demo_tried_log_def set_log_def log_increment_def change_deliveries_def demo_delivery_def)
    with runsD [OF runs_increment s, of 0 "rt_uuid demo_runtime 5" epoch_text] show ?case by auto
  qed
  with that show ?thesis by blast
qed

lemma demo_due: "log_find_push demo_runtime 0 demo_sub_name 10 (demo_tried_log n) = [(demo_delivery n, demo_message)]"
proof -
  have "deliverable demo_runtime 0 demo_sub_name (demo_delivery n)"
    by (simp add: deliverable_def demo_delivery_def is_due_def epoch_text_def demo_runtime_def demo_platform_def)
  moreover have "find_message (demo_tried_log n) (dl_message (demo_delivery n)) = Some demo_message"
    by (simp add: find_message_def demo_tried_log_def demo_delivery_def demo_message_def published_def)
  ultimately show ?thesis
    by (simp add: log_find_push_def log_eligible_def demo_tried_log_def window_def js_slice_def slice_bound_def)
qed

lemma demo_find_push:
  assumes "represents demo_runtime s (demo_tried_world n)"
  obtains s1 where "find_push demo_runtime s = (Inr [demo_push_record], s1)"
proof -
  obtain s1 rs where s1: "find_rows demo_runtime (rr_table subscriptions) [not_detached] None s = (Inr rs, s1)"
      "distinct (map name_of rs)" "set rs = {r. \<exists>n'. catalog (demo_tried_world n) subscriptions n' = Some r \<and> field_of r ''detached'' = JNum 0}"
    using represents_attached [OF assms] by blast
  have "catalog (demo_tried_world n) subscriptions = [demo_sub_name \<mapsto> demo_push_record]"
    unfolding demo_tried_world_def set_log_simps by (rule demo_push_catalogs(2))
  then have "set rs = {demo_push_record}" using s1(3) demo_push_fields(5) by (auto split: if_splits)
  moreover have "distinct rs" using s1(2) by (simp add: distinct_map)
  ultimately have rs: "rs = [demo_push_record]"
    by (cases rs) (auto simp: subset_singleton_iff)
  have "json_plain demo_push_config" by (simp add: demo_push_config_def canonical_def)
  then obtain t where t: "json_text demo_push_config = JStr t" "t \<noteq> []" "json_parse t = Done demo_push_config"
    using json_roundtrip [of demo_push_config] by (auto simp: json_text_def)
  have "truthy (opt_prop demo_push_config ''pushEndpoint'')" by (simp add: demo_push_config_def opt_prop_def field_of_def)
  then have "pushes demo_push_record = Inr True" by (simp add: pushes_def demo_push_fields t)
  then have "find_push demo_runtime s = (Inr [demo_push_record], s1)"
    unfolding find_push_def and_then_def s1(1) rs
    by (simp add: chain_def of_result_def done_with_def)
  then show ?thesis by (rule that)
qed

definition demo_engine :: "message_store \<Rightarrow> engine" where
  "demo_engine s = start_engine (new_engine None s)"

lemma demo_engine_simps [simp]: "en_store (demo_engine s) = s" "\<not> en_running (demo_engine s)" "en_sent (demo_engine s) = []"
  by (simp_all add: demo_engine_def start_engine_def new_engine_def)

lemma demo_endpoint: "opt_prop demo_push_config ''pushEndpoint'' = JStr ''http://e''"
  by (simp add: demo_push_config_def opt_prop_def field_of_def)

lemma demo_unlimited: "attempts_spent JUndef x = Inr False"
  by (simp add: attempts_spent_def opt_prop_def)

lemma demo_name: "str_field ''name'' demo_push_record = demo_sub_name"
  by (simp add: str_field_def demo_push_fields)

lemma push_batch_refines_witness:
  "\<exists>s s'. represents demo_runtime s (demo_tried_world 3) \<and>
     deliver_to (\<lambda>_ _. Answered 200) demo_runtime 0 demo_push_record (demo_engine s) =
       (Inr (), (demo_engine s)\<lparr>en_store := s', en_sent := [(JStr ''http://e'', push_body demo_sub_name demo_message)]\<rparr>) \<and>
     represents demo_runtime s' (set_log (log_ack demo_sub_name [rt_uuid demo_runtime 4] (demo_tried_log 3)) (demo_tried_world 3))"
proof -
  obtain s where s: "represents demo_runtime s (demo_tried_world 3)" by (rule demo_tried_store)
  then have rep: "represents demo_runtime (en_store (demo_engine s)) (demo_tried_world 3)" by simp
  have cfg: "parse_policy (field_of demo_push_record ''pushConfig'') = Inr demo_push_config"
    "parse_policy (field_of demo_push_record ''deadLetterPolicy'') = Inr JUndef"
    "parse_policy (field_of demo_push_record ''retryPolicy'') = Inr demo_retry_policy"
    unfolding demo_push_fields by (fact demo_policies)+
  have url: "truthy (opt_prop demo_push_config ''pushEndpoint'')" by (simp add: demo_endpoint)
  have hits: "log_find_push demo_runtime 0 (str_field ''name'' demo_push_record) 10 (w_log (demo_tried_world 3)) =
      [(demo_delivery 3, demo_message)]"
    unfolding demo_name by (simp add: demo_tried_world_def demo_due)
  have fate: "map (fate_of (\<lambda>_ _. Answered 200) 0 (opt_prop demo_push_config ''pushEndpoint'')
      (str_field ''name'' demo_push_record) JUndef demo_retry_policy) [(demo_delivery 3, demo_message)] = map Inr [Accepted]"
    by (simp add: fate_of_def chain_def demo_unlimited accepts_def response_ok_def)
  from push_batch_refines [OF rep cfg(1) url cfg(2,3) hits fate]
  obtain s' where "deliver_to (\<lambda>_ _. Answered 200) demo_runtime 0 demo_push_record (demo_engine s) =
       (Inr (), (demo_engine s)\<lparr>en_store := s', en_sent := [(JStr ''http://e'', push_body demo_sub_name demo_message)]\<rparr>)"
      "represents demo_runtime s' (set_log (log_ack demo_sub_name [dl_ack (demo_delivery 3)] (demo_tried_log 3)) (demo_tried_world 3))"
    by (auto simp: demo_endpoint demo_name demo_tried_world_def)
  moreover have "dl_ack (demo_delivery 3) = rt_uuid demo_runtime 4" by (simp add: demo_delivery_def)
  ultimately show ?thesis using s by metis
qed

lemma zero_backoff_wedges_witness:
  "\<exists>s s'. represents demo_runtime s (demo_tried_world 1024) \<and>
     tick (\<lambda>_ _. Answered 503) demo_runtime 0 (demo_engine s) =
       (Inr (), (demo_engine s)\<lparr>en_store := s', en_sent := [(JStr ''http://e'', push_body demo_sub_name demo_message)]\<rparr>) \<and>
     represents demo_runtime s' (demo_tried_world 1024)"
proof -
  obtain s where s: "represents demo_runtime s (demo_tried_world 1024)" by (rule demo_tried_store)
  then have rep: "represents demo_runtime (en_store (demo_engine s)) (demo_tried_world 1024)" by simp
  obtain s1 where "find_push demo_runtime s = (Inr [demo_push_record], s1)" using s by (rule demo_find_push)
  then have find: "find_push demo_runtime (en_store (demo_engine s)) = (Inr [demo_push_record], s1)" by simp
  have cfg: "parse_policy (field_of demo_push_record ''pushConfig'') = Inr demo_push_config"
    "parse_policy (field_of demo_push_record ''deadLetterPolicy'') = Inr JUndef"
    "parse_policy (field_of demo_push_record ''retryPolicy'') = Inr demo_retry_policy"
    unfolding demo_push_fields by (fact demo_policies)+
  have url: "truthy (opt_prop demo_push_config ''pushEndpoint'')" by (simp add: demo_endpoint)
  have hits: "log_find_push demo_runtime 0 (str_field ''name'' demo_push_record) 10 (w_log (demo_tried_world 1024)) =
      [(demo_delivery 1024, demo_message)]"
    unfolding demo_name by (simp add: demo_tried_world_def demo_due)
  have dur: "parse_duration_seconds ''0s'' = Some 0" by code_simp
  have limits: "backoff_limits demo_retry_policy = (0, 600)"
    by (simp add: backoff_limits_def backoff_setting_def demo_retry_policy_def opt_prop_def field_of_def dur)
  have tries: "1024 \<le> dl_attempt (demo_delivery 1024)" by (simp add: demo_delivery_def)
  have refused: "\<not> accepts (\<lambda>_ _. Answered 503) (opt_prop demo_push_config ''pushEndpoint'')
      (push_body (str_field ''name'' demo_push_record) demo_message)" by (simp add: accepts_def response_ok_def)
  from zero_backoff_wedges [OF rep demo_engine_simps(2) find cfg(1) url cfg(2,3) hits demo_unlimited limits tries refused]
  obtain s' where "tick (\<lambda>_ _. Answered 503) demo_runtime 0 (demo_engine s) =
       (Inr (), (demo_engine s)\<lparr>en_store := s', en_sent := [(JStr ''http://e'', push_body demo_sub_name demo_message)]\<rparr>)"
      "represents demo_runtime s' (demo_tried_world 1024)"
    by (auto simp: demo_endpoint demo_name)
  with s show ?thesis by metis
qed

end
