(* ===== verification/Armor_Types.thy ===== *)
theory Armor_Types
  imports Js_Value
begin

text \<open>
  The data of the request filter, \<open>src/src/services/compute/armor/types.ts\<close>: policies and rules as they are
  configured, the view of a request a rule sees, and the result of an evaluation. An optional field is an
  \<open>option\<close>. Header names and values and the attributes of a request are strings of 8-bit code units.
\<close>

section \<open>Policies\<close>

definition default_rule_priority :: int where "default_rule_priority = 2147483647"

datatype body_inspection_size = Size8KB | Size16KB | Size32KB | Size48KB | Size64KB

fun request_body_inspection_bytes :: "body_inspection_size \<Rightarrow> nat" where
  "request_body_inspection_bytes Size8KB = 8 * 1024"
| "request_body_inspection_bytes Size16KB = 16 * 1024"
| "request_body_inspection_bytes Size32KB = 32 * 1024"
| "request_body_inspection_bytes Size48KB = 48 * 1024"
| "request_body_inspection_bytes Size64KB = 64 * 1024"

datatype json_parsing = JsonDisabled | JsonStandard | JsonStandardWithGraphql

record advanced_options =
  json_parsing_mode :: "json_parsing option"
  inspection_size :: "body_inspection_size option"
  user_ip_headers :: "string list option"

record src_ip_config =
  src_ip_ranges :: "string list option"

record expr_match =
  expression_text :: "string option"

record policy_match =
  versioned_expr :: "string option"
  match_config :: "src_ip_config option"
  match_expr :: "expr_match option"

record threshold =
  threshold_count :: "rat option"
  interval_sec :: "rat option"

record enforce_on_key_config =
  enforce_on_key_type :: "string option"
  enforce_on_key_config_name :: "string option"

record redirect_options =
  redirect_type :: "string option"
  redirect_target :: "string option"

record rate_limit_options =
  rate_limit_threshold :: "threshold option"
  ban_threshold :: "threshold option"
  ban_duration_sec :: "rat option"
  conform_action :: "string option"
  exceed_action :: "string option"
  enforce_on_key :: "string option"
  enforce_on_key_name :: "string option"
  enforce_on_key_configs :: "enforce_on_key_config list option"
  exceed_redirect :: "redirect_options option"

record request_header_to_add =
  header_name :: "string option"
  header_value :: "string option"

record header_action =
  headers_to_add :: "request_header_to_add list option"

record policy_rule =
  priority :: rat
  rule_action :: string
  rule_preview :: "bool option"
  rule_description :: "string option"
  rule_match :: "policy_match option"
  rate_limit_opts :: "rate_limit_options option"
  rule_header_action :: "header_action option"
  rule_redirect :: "redirect_options option"

record security_policy =
  policy_name :: "string option"
  policy_rules :: "policy_rule list option"
  advanced_opts :: "advanced_options option"

section \<open>Requests\<close>

record origin_attributes =
  origin_ip :: string
  user_ip :: string
  user_ip_resolved :: bool
  region_code :: string
  asn :: rat
  tls_ja3 :: string
  tls_ja4 :: string

record http_attributes =
  req_headers :: "(string, string) jsmap"
  req_method :: string
  req_path :: string
  req_query :: string
  req_scheme :: string
  req_body :: string
  req_params :: jsobj

record waf_match =
  rule_set :: string
  signature_id :: string

record request_attributes =
  origin_attrs :: origin_attributes
  http_attrs :: http_attributes
  sni :: string
  waf_matches :: "waf_match list"
  adaptive_match :: bool

text \<open>A header of the input is absent, one value, or a list of values.\<close>

datatype header_input = HeaderAbsent | HeaderOne string | HeaderMany "string list"

record attribute_input =
  in_method :: string
  in_path :: string
  in_origin_ip :: string
  in_query :: "string option"
  in_headers :: "(string, header_input) jsmap option"
  in_body :: "string option"
  in_scheme :: "string option"
  in_asn :: "rat option"
  in_region_code :: "string option"
  in_ja3 :: "string option"
  in_ja4 :: "string option"
  in_sni :: "string option"
  in_waf :: "waf_match list option"
  in_adaptive :: "bool option"
  in_user_ip_headers :: "string list option"
  in_json_parsing :: "json_parsing option"
  in_params :: "jsobj option"

section \<open>Results\<close>

record matched_rule =
  matched_name :: "string option"
  matched_priority :: rat
  matched_action :: string
  matched_outcome :: string

record evaluation_result =
  enforced :: "matched_rule option"
  previewed :: "matched_rule option"

datatype expression_evaluation = Evaluated bool | EvaluationFailed string

end
