(* ===== verification/Ip_Address.thy ===== *)
theory Ip_Address
  imports Js_Value "HOL-Library.Word"
begin

text \<open>
  IP addresses and CIDR blocks of \<open>src/src/services/compute/armor/request.ts\<close>: parsing of IPv4 and IPv6
  text, the canonical form, and membership of an address in a block. An IPv4 address is a 32-bit word
  where the code computes with \<open>>>> 0\<close>; an IPv6 address is an unbounded integer, as its \<open>bigint\<close>.
\<close>

unbundle bit_operations_syntax

section \<open>Textual helpers\<close>

text \<open>\<open>s.split(sep)\<close> for a non-empty separator: occurrences are taken from the left.\<close>

function split_str :: "string \<Rightarrow> string \<Rightarrow> string list" where
  "split_str sep s =
     (if sep = [] \<or> s = [] then [s]
      else if starts_with s sep then [] # split_str sep (drop (length sep) s)
      else case split_str sep (tl s) of [] \<Rightarrow> [s] | p # ps \<Rightarrow> (hd s # p) # ps)"
  by pat_completeness auto
termination
  by (relation "measure (\<lambda>(sep, s). length s)") (auto simp: neq_Nil_conv)

declare split_str.simps [simp del]

definition strip_brackets :: "string \<Rightarrow> string" where
  "strip_brackets v =
     (if starts_with v ''['' \<and> ends_with v '']'' then substring v 1 (length v - 1) else v)"

definition strip_zone :: "string \<Rightarrow> string" where
  "strip_zone v = (case index_of v (CHR ''%'') of None \<Rightarrow> v | Some n \<Rightarrow> take n v)"

definition is_hex :: "char \<Rightarrow> bool" where
  "is_hex c = (is_digit c \<or> (CHR ''a'' \<le> c \<and> c \<le> CHR ''f'') \<or> (CHR ''A'' \<le> c \<and> c \<le> CHR ''F''))"

definition hex_digit_value :: "char \<Rightarrow> nat" where
  "hex_digit_value c =
     (if is_digit c then of_char c - 48 else if CHR ''a'' \<le> c then of_char c - 87 else of_char c - 55)"

definition hex_value :: "string \<Rightarrow> nat" where
  "hex_value s = foldl (\<lambda>a c. a * 16 + hex_digit_value c) 0 s"

text \<open>\<open>n.toString(16)\<close>.\<close>

fun nat_to_hex :: "nat \<Rightarrow> string" where
  "nat_to_hex n = (if n < 16 then [hex_digit n] else nat_to_hex (n div 16) @ [hex_digit (n mod 16)])"

declare nat_to_hex.simps [simp del]

section \<open>Addresses\<close>

type_synonym ipv4 = "nat \<times> nat \<times> nat \<times> nat"

datatype armor_error = ArmorError string

text \<open>One octet: the regular expression asks for one to three digits.\<close>

definition parse_octet :: "string \<Rightarrow> nat option" where
  "parse_octet raw =
     (if raw = [] \<or> length raw > 3 \<or> \<not> list_all is_digit raw then None
      else if length raw > 1 \<and> starts_with raw ''0'' then None
      else if dec_value raw > 255 then None else Some (dec_value raw))"

definition parse_ipv4 :: "string \<Rightarrow> ipv4 option" where
  "parse_ipv4 value =
     (case split_char (CHR ''.'') value of
        [p, q, r, s] \<Rightarrow>
          (case (parse_octet p, parse_octet q, parse_octet r, parse_octet s) of
             (Some a, Some b, Some c, Some d) \<Rightarrow> Some (a, b, c, d)
           | _ \<Rightarrow> None)
      | _ \<Rightarrow> None)"

definition parse_hex_groups :: "string list \<Rightarrow> nat list option" where
  "parse_hex_groups parts =
     (if list_all (\<lambda>p. p \<noteq> [] \<and> length p \<le> 4 \<and> list_all is_hex p) parts \<and> length parts = 8
      then Some (map hex_value parts) else None)"

text \<open>The part of \<open>parseIpv6Groups\<close> after the test for a dotted tail.\<close>

definition parse_colon_groups :: "string \<Rightarrow> nat list option" where
  "parse_colon_groups ip =
     (if includes_str ip '':::'' \<or> length (split_str ''::'' ip) > 2 then None
      else if \<not> includes_str ip ''::'' then
        (let parts = split_char (CHR '':'') ip
         in if length parts \<noteq> 8 then None else parse_hex_groups parts)
      else
        (let halves = split_str ''::'' ip;
             left = (if hd halves = [] then [] else split_char (CHR '':'') (hd halves));
             right = (if tl halves = [] \<or> hd (tl halves) = [] then []
                      else split_char (CHR '':'') (hd (tl halves)))
         in if [] \<in> set left \<or> [] \<in> set right then None
            else if length left + length right > 7 then None
            else parse_hex_groups (left @ replicate (8 - length left - length right) ''0'' @ right)))"

function parse_ipv6_groups :: "string \<Rightarrow> nat list option" where
  "parse_ipv6_groups value =
     (let ip = strip_zone (strip_brackets value)
      in if CHR ''.'' \<in> set ip then
           (case last_index_of ip (CHR '':'') of
              None \<Rightarrow> None
            | Some k \<Rightarrow>
                (case parse_ipv4 (drop (Suc k) ip) of
                   None \<Rightarrow> None
                 | Some (a, b, c, d) \<Rightarrow>
                     (case parse_ipv6_groups (take k ip @ '':0:0'') of
                        None \<Rightarrow> None
                      | Some g \<Rightarrow> Some (g[6 := push_bit 8 a OR b, 7 := push_bit 8 c OR d]))))
         else parse_colon_groups ip)"
  by pat_completeness auto

definition dots :: "string \<Rightarrow> nat" where
  "dots s = length (filter (\<lambda>c. c = CHR ''.'') s)"

lemma dots_append [simp]: "dots (a @ b) = dots a + dots b"
  by (simp add: dots_def)

lemma dots_take: "dots (take n s) \<le> dots s"
  by (metis append_take_drop_id dots_append le_add1)

lemma dots_drop: "dots (drop n s) \<le> dots s"
  by (metis append_take_drop_id dots_append le_add2)

lemma dots_substring: "dots (substring s i j) \<le> dots s"
  unfolding substring_def using dots_take [of "j - i" "drop i s"] dots_drop [of i s] by linarith

lemma dots_strip: "dots (strip_zone (strip_brackets v)) \<le> dots v"
proof -
  have "dots (strip_brackets v) \<le> dots v"
    by (auto simp: strip_brackets_def intro: dots_substring)
  moreover have "dots (strip_zone w) \<le> dots w" for w
    by (auto simp: strip_zone_def intro: dots_take split: option.splits)
  ultimately show ?thesis by (meson order_trans)
qed

lemma dots_ipv4: "parse_ipv4 s = Some v \<Longrightarrow> 0 < dots s"
  unfolding parse_ipv4_def dots_def
  by (cases "CHR ''.'' \<in> set s") (auto simp: split_char_no_sep filter_empty_conv)

termination parse_ipv6_groups
proof (relation "measure dots")
  fix s ip k v a r b r2 c d
  assume ip: "ip = strip_zone (strip_brackets s)" and v: "parse_ipv4 (drop (Suc k) ip) = Some v"
  have "dots ip = dots (take (Suc k) ip) + dots (drop (Suc k) ip)"
    by (metis append_take_drop_id dots_append)
  moreover have "dots (take k ip) \<le> dots (take (Suc k) ip)"
    by (metis dots_take min.absorb1 le_SucI order_refl take_take)
  moreover have "dots ip \<le> dots s" unfolding ip by (rule dots_strip)
  ultimately have "dots (take k ip) < dots s" using dots_ipv4 [OF v] by linarith
  then show "(take k ip @ '':0:0'', s) \<in> measure dots" by (simp add: dots_def)
qed simp

declare parse_ipv6_groups.simps [simp del]

definition is_valid_ip :: "string \<Rightarrow> bool" where
  "is_valid_ip v = (parse_ipv4 v \<noteq> None \<or> parse_ipv6_groups v \<noteq> None)"

text \<open>The loop of \<open>formatIpv6\<close> over the positions 0 to 8, with its four variables.\<close>

definition run_step :: "nat list \<Rightarrow> nat \<Rightarrow> int \<times> nat \<times> int \<times> nat \<Rightarrow> int \<times> nat \<times> int \<times> nat" where
  "run_step gs i st =
     (case st of (best_start, best_len, cur_start, cur_len) \<Rightarrow>
        if i < 8 \<and> gs ! i = 0 then
          (if cur_start = -1 then (best_start, best_len, int i, 1)
           else (best_start, best_len, cur_start, cur_len + 1))
        else if cur_len > best_len then (cur_start, cur_len, -1, 0)
        else (best_start, best_len, -1, 0))"

definition zero_run :: "nat list \<Rightarrow> int \<times> nat \<times> int \<times> nat" where
  "zero_run gs = fold (run_step gs) [0..<9] (-1, 0, -1, 0)"

definition format_groups :: "nat list \<Rightarrow> string" where
  "format_groups gs = join_str '':'' (map nat_to_hex gs)"

definition format_ipv4 :: "ipv4 \<Rightarrow> string" where
  "format_ipv4 v = (case v of (a, b, c, d) \<Rightarrow>
     join_str ''.'' [nat_to_dec a, nat_to_dec b, nat_to_dec c, nat_to_dec d])"

definition format_ipv6 :: "nat list \<Rightarrow> string" where
  "format_ipv6 gs =
     (if gs ! 0 = 0 \<and> gs ! 1 = 0 \<and> gs ! 2 = 0 \<and> gs ! 3 = 0 \<and> gs ! 4 = 0 \<and> gs ! 5 = 0xffff
      then ''::ffff:'' @ format_ipv4 (drop_bit 8 (gs ! 6) AND 0xff, gs ! 6 AND 0xff,
                                     drop_bit 8 (gs ! 7) AND 0xff, gs ! 7 AND 0xff)
      else case zero_run gs of (best_start, best_len, cur_start, cur_len) \<Rightarrow>
        (if best_len < 2 then format_groups gs
         else format_groups (take (nat best_start) gs) @ ''::'' @
              format_groups (drop (nat best_start + best_len) gs)))"

definition canonicalize_ip :: "string \<Rightarrow> armor_error + string" where
  "canonicalize_ip value =
     (let trimmed = strip_zone (strip_brackets (trim_str value))
      in case parse_ipv4 trimmed of
           Some v \<Rightarrow> Inr (format_ipv4 v)
         | None \<Rightarrow>
             (case parse_ipv6_groups trimmed of
                None \<Rightarrow> Inl (ArmorError (''Invalid IP address: '' @ value))
              | Some gs \<Rightarrow> Inr (format_ipv6 gs)))"

fun first_valid_ip :: "string list \<Rightarrow> string option" where
  "first_valid_ip [] = None"
| "first_valid_ip (part # parts) =
     (let candidate = strip_brackets (trim_str part)
      in if candidate = [] then first_valid_ip parts
         else if is_valid_ip candidate
              then (case canonicalize_ip candidate of Inr s \<Rightarrow> Some s | Inl e \<Rightarrow> None)
              else first_valid_ip parts)"

definition parse_first_valid_ip :: "string \<Rightarrow> string option" where
  "parse_first_valid_ip value = first_valid_ip (split_char (CHR '','') value)"

section \<open>CIDR blocks\<close>

datatype cidr =
    Cidr4 "32 word" nat
  | Cidr6 int nat

definition ipv4_to_int :: "ipv4 \<Rightarrow> 32 word" where
  "ipv4_to_int v = (case v of (a, b, c, d) \<Rightarrow>
     push_bit 24 (of_nat a) + push_bit 16 (of_nat b) + push_bit 8 (of_nat c) + of_nat d)"

definition ipv6_to_bigint :: "nat list \<Rightarrow> int" where
  "ipv6_to_bigint gs = fold (\<lambda>g n. push_bit 16 n + int g) gs 0"

definition parse_prefix_length :: "string option \<Rightarrow> nat \<Rightarrow> nat option" where
  "parse_prefix_length raw mx =
     (case raw of
        None \<Rightarrow> Some mx
      | Some r \<Rightarrow>
          (if r = [] \<or> \<not> list_all is_digit r then None
           else if dec_value r > mx then None else Some (dec_value r)))"

definition parse_cidr :: "string \<Rightarrow> cidr option" where
  "parse_cidr text =
     (let trimmed = trim_str text;
          slash = last_index_of trimmed (CHR ''/'');
          addr = (case slash of None \<Rightarrow> trimmed | Some k \<Rightarrow> take k trimmed);
          raw = (case slash of None \<Rightarrow> None | Some k \<Rightarrow> Some (drop (Suc k) trimmed))
      in case parse_ipv4 addr of
           Some v \<Rightarrow> map_option (Cidr4 (ipv4_to_int v)) (parse_prefix_length raw 32)
         | None \<Rightarrow>
             (case parse_ipv6_groups addr of
                Some gs \<Rightarrow> map_option (Cidr6 (ipv6_to_bigint gs)) (parse_prefix_length raw 128)
              | None \<Rightarrow> None))"

definition is_valid_cidr :: "string \<Rightarrow> bool" where
  "is_valid_cidr block = (parse_cidr block \<noteq> None)"

definition mask4 :: "nat \<Rightarrow> 32 word" where
  "mask4 p = (if p = 0 then 0 else push_bit (32 - p) (NOT 0))"

definition mask6 :: "nat \<Rightarrow> int" where
  "mask6 p = (if p = 0 then 0 else if 128 \<le> p then push_bit 128 1 - 1
              else push_bit (128 - p) (push_bit p 1 - 1))"

definition ip_in_cidr :: "string \<Rightarrow> string \<Rightarrow> bool" where
  "ip_in_cidr ip block =
     (case parse_cidr block of
        None \<Rightarrow> False
      | Some (Cidr4 network p) \<Rightarrow>
          (case parse_ipv4 (strip_brackets (trim_str ip)) of
             None \<Rightarrow> False
           | Some v \<Rightarrow> ipv4_to_int v AND mask4 p = network AND mask4 p)
      | Some (Cidr6 network p) \<Rightarrow>
          (case parse_ipv6_groups (strip_zone (strip_brackets (trim_str ip))) of
             None \<Rightarrow> False
           | Some gs \<Rightarrow> ipv6_to_bigint gs AND mask6 p = network AND mask6 p))"

section \<open>Numerals\<close>

lemma list_all_upt: "list_all P [0..<n] \<Longrightarrow> i < n \<Longrightarrow> P i"
  by (simp add: list_all_iff)

lemma hex_digit_ok:
  assumes "d < 16"
  shows "is_hex (hex_digit d) \<and> hex_digit_value (hex_digit d) = d \<and> hex_digit d \<notin> set '':.[]% ''"
proof -
  have "list_all (\<lambda>d. is_hex (hex_digit d) \<and> hex_digit_value (hex_digit d) = d \<and> hex_digit d \<notin> set '':.[]% '') [0..<16]"
    by code_simp
  from list_all_upt [OF this assms] show ?thesis .
qed

lemma nat_to_hex_ne [simp]: "nat_to_hex n \<noteq> []"
  by (subst nat_to_hex.simps) simp

lemma hex_value_nat_to_hex [simp]: "hex_value (nat_to_hex n) = n"
proof (induction n rule: nat_to_hex.induct)
  case (1 n)
  show ?case
  proof (cases "n < 16")
    case True
    then show ?thesis by (subst nat_to_hex.simps) (simp add: hex_value_def hex_digit_ok)
  next
    case False
    with 1 show ?thesis by (subst nat_to_hex.simps) (simp add: hex_value_def hex_digit_ok)
  qed
qed

lemma nat_to_hex_chars: "\<forall>c \<in> set (nat_to_hex n). is_hex c \<and> c \<notin> set '':.[]% ''"
proof (induction n rule: nat_to_hex.induct)
  case (1 n)
  then show ?case using hex_digit_ok [of n] hex_digit_ok [of "n mod 16"]
    by (subst nat_to_hex.simps) (auto split: if_splits)
qed

lemma nat_to_hex_length: "n < 16 ^ Suc k \<Longrightarrow> length (nat_to_hex n) \<le> Suc k"
proof (induction k arbitrary: n)
  case 0
  then show ?case by (subst nat_to_hex.simps) simp
next
  case (Suc k)
  then have "n div 16 < 16 ^ Suc k" by (simp add: less_mult_imp_div_less)
  with Suc.IH [of "n div 16"] show ?case by (subst nat_to_hex.simps) auto
qed

lemma digit_char_zero: "d < 10 \<Longrightarrow> digit_char d = CHR ''0'' \<longleftrightarrow> d = 0"
proof -
  assume "d < 10"
  then have "digit_value (digit_char d) = d" by simp
  moreover have "digit_value (CHR ''0'') = 0" "digit_char 0 = CHR ''0''" by code_simp+
  ultimately show ?thesis by auto
qed

lemma nat_to_dec_leading: "hd (nat_to_dec n) = CHR ''0'' \<longleftrightarrow> n = 0"
proof (induction n rule: nat_to_dec.induct)
  case (1 n)
  then show ?case by (subst nat_to_dec.simps) (auto simp: digit_char_zero)
qed

lemma parse_octet_print:
  assumes "n \<le> 255"
  shows "parse_octet (nat_to_dec n) = Some n"
proof -
  have len: "length (nat_to_dec n) \<le> 3" using nat_to_dec_length [of n 3] assms by simp
  have dig: "list_all is_digit (nat_to_dec n)" using nat_to_dec_digits [of n] by (simp add: list_all_iff)
  have zero: "\<not> (1 < length (nat_to_dec n) \<and> starts_with (nat_to_dec n) ''0'')"
  proof (cases "n = 0")
    case True
    then show ?thesis by (subst nat_to_dec.simps) simp
  next
    case False
    then have "hd (nat_to_dec n) \<noteq> CHR ''0''" by (simp add: nat_to_dec_leading)
    then show ?thesis by (cases "nat_to_dec n") (auto simp: starts_with_def)
  qed
  show ?thesis
    unfolding parse_octet_def using len dig zero assms by auto
qed

section \<open>Round trips\<close>

fun ipv4_ok :: "ipv4 \<Rightarrow> bool" where
  "ipv4_ok (a, b, c, d) = (a \<le> 255 \<and> b \<le> 255 \<and> c \<le> 255 \<and> d \<le> 255)"

definition groups_ok :: "nat list \<Rightarrow> bool" where
  "groups_ok gs = (length gs = 8 \<and> (\<forall>g \<in> set gs. g < 65536))"

lemma digit_not_dot: "is_digit c \<Longrightarrow> c \<noteq> CHR ''.''"
  by (auto simp: is_digit_def less_eq_char_def)

lemma parse_format_ipv4:
  assumes "ipv4_ok v"
  shows "parse_ipv4 (format_ipv4 v) = Some v"
proof -
  obtain a b c d where v: "v = (a, b, c, d)" by (cases v)
  let ?ps = "[nat_to_dec a, nat_to_dec b, nat_to_dec c, nat_to_dec d]"
  have "\<forall>p \<in> set ?ps. CHR ''.'' \<notin> set p"
    using nat_to_dec_digits digit_not_dot by fastforce
  then have "split_char (CHR ''.'') (join_str ''.'' ?ps) = ?ps"
    by (intro split_char_join) auto
  with assms v show ?thesis
    by (simp add: parse_ipv4_def format_ipv4_def parse_octet_print)
qed

lemma parse_octet_bound: "parse_octet s = Some n \<Longrightarrow> n \<le> 255 \<and> list_all is_digit s"
  by (auto simp: parse_octet_def split: if_splits)

lemma parse_ipv4_shape:
  assumes "parse_ipv4 s = Some v"
  shows "ipv4_ok v \<and> (\<forall>c \<in> set s. is_digit c \<or> c = CHR ''.'')"
proof -
  obtain p q r t where ps: "split_char (CHR ''.'') s = [p, q, r, t]"
    using assms by (auto simp: parse_ipv4_def split: list.splits)
  then obtain a b c d where oct: "parse_octet p = Some a" "parse_octet q = Some b" "parse_octet r = Some c"
      "parse_octet t = Some d" "v = (a, b, c, d)"
    using assms by (auto simp: parse_ipv4_def split: option.splits)
  have "s = join_str ''.'' [p, q, r, t]" using join_split_char [of "CHR ''.''" s] ps by simp
  then show ?thesis
    using oct(5) parse_octet_bound [OF oct(1)] parse_octet_bound [OF oct(2)] parse_octet_bound [OF oct(3)]
      parse_octet_bound [OF oct(4)]
    by (auto simp: list_all_iff)
qed

text \<open>Where the compressed form splits.\<close>

lemma split_char_append: "split_char c (a @ c # b) = split_char c a @ split_char c b"
  by (induction a) (auto split: list.splits)

lemma not_includes_after:
  assumes "ps \<noteq> []" and "[] \<notin> set ps" and "\<forall>p \<in> set ps. c \<notin> set p"
  shows "\<not> includes_str (join_str [c] ps @ [c]) [c, c]" and "\<not> includes_str (c # join_str [c] ps) [c, c]"
proof -
  have split: "split_char c (join_str [c] ps) = ps" using assms(1,3) by (rule split_char_join)
  show "\<not> includes_str (join_str [c] ps @ [c]) [c, c]"
  proof
    assume "includes_str (join_str [c] ps @ [c]) [c, c]"
    then obtain a b where ab: "join_str [c] ps @ [c] = a @ c # c # b" by (auto simp: includes_str_conv)
    have "split_char c (join_str [c] ps @ [c]) = ps @ [[]]"
      using split_char_append [of c "join_str [c] ps" "[]"] split by simp
    moreover have "split_char c (a @ c # c # b) = split_char c a @ [] # split_char c b"
      using split_char_append [of c a "c # b"] by simp
    ultimately have "ps @ [[]] = split_char c a @ [] # split_char c b" using ab by simp
    then have "butlast (ps @ [[]]) = split_char c a @ butlast ([] # split_char c b)"
      by (simp add: butlast_append)
    then have "[] \<in> set ps" by (simp add: split_char_ne)
    with assms(2) show False by simp
  qed
  show "\<not> includes_str (c # join_str [c] ps) [c, c]"
  proof
    assume "includes_str (c # join_str [c] ps) [c, c]"
    then obtain a b where ab: "c # join_str [c] ps = a @ c # c # b" unfolding includes_str_conv by auto
    have "split_char c (c # join_str [c] ps) = [] # ps" using split by simp
    moreover have "split_char c (a @ c # c # b) = split_char c a @ [] # split_char c b"
      using split_char_append [of c a "c # b"] by simp
    ultimately have "[] # ps = split_char c a @ [] # split_char c b" using ab by simp
    then have "[] \<in> set ps" by (cases "split_char c a") (auto simp: Cons_eq_append_conv)
    with assms(2) show False by simp
  qed
qed

lemma includes_mono: "includes_str s p \<Longrightarrow> includes_str (a @ s @ b) p"
  unfolding includes_str_conv by (metis append_assoc)

lemma split_str_absent: "\<not> includes_str s sep \<Longrightarrow> sep \<noteq> [] \<Longrightarrow> split_str sep s = [s]"
proof (induction s)
  case (Cons c s)
  then have "split_str sep s = [s]" "\<not> starts_with (c # s) sep" by auto
  with Cons.prems show ?case by (subst split_str.simps) simp
qed (subst split_str.simps, simp)

lemma double_split:
  assumes "\<not> includes_str (h @ [c]) [c, c]" and "\<not> includes_str (c # t) [c, c]"
  shows "split_str [c, c] (h @ [c, c] @ t) = [h, t]" and "\<not> includes_str (h @ [c, c] @ t) [c, c, c]"
proof -
  have t: "\<not> includes_str t [c, c]" "\<not> starts_with t [c]"
    using assms(2) by (auto simp: starts_with_def)
  have "split_str [c, c] (h @ [c, c] @ t) = [h, t] \<and> \<not> includes_str (h @ [c, c] @ t) [c, c, c]"
    using assms(1)
  proof (induction h)
    case Nil
    have "\<not> includes_str t [c, c, c]"
      using t(1) unfolding includes_str_conv by (metis append_Cons append_Nil append_assoc)
    moreover have "split_str [c, c] (c # c # t) = [] # split_str [c, c] t"
      by (subst split_str.simps) (simp add: starts_with_def)
    ultimately show ?case
      using t split_str_absent [OF t(1)] by (cases t) (auto simp: starts_with_def)
  next
    case (Cons d h)
    then have IH: "split_str [c, c] (h @ [c, c] @ t) = [h, t]" "\<not> includes_str (h @ [c, c] @ t) [c, c, c]"
      by auto
    have "\<not> starts_with (d # h @ [c, c] @ t) [c, c]"
      using Cons.prems by (cases h) (auto simp: starts_with_def)
    moreover from this have "\<not> starts_with (d # h @ [c, c] @ t) [c, c, c]"
      by (auto simp: starts_with_conv)
    ultimately show ?case using IH by (auto simp: split_str.simps [of _ "d # _"])
  qed
  then show "split_str [c, c] (h @ [c, c] @ t) = [h, t]" and "\<not> includes_str (h @ [c, c] @ t) [c, c, c]"
    by simp_all
qed

text \<open>The loop of the formatter finds a run of zero groups.\<close>

definition run_inv :: "nat list \<Rightarrow> nat \<Rightarrow> int \<times> nat \<times> int \<times> nat \<Rightarrow> bool" where
  "run_inv gs n st = (case st of (bs, bl, cs, cl) \<Rightarrow>
     (if cs = -1 then cl = 0
      else 0 \<le> cs \<and> nat cs + cl = n \<and> n \<le> 8 \<and> (\<forall>j. nat cs \<le> j \<and> j < n \<longrightarrow> gs ! j = 0)) \<and>
     (0 < bl \<longrightarrow> 0 \<le> bs \<and> nat bs + bl \<le> 8 \<and> (\<forall>j. nat bs \<le> j \<and> j < nat bs + bl \<longrightarrow> gs ! j = 0)))"

lemma run_inv_step: "run_inv gs n st \<Longrightarrow> run_inv gs (Suc n) (run_step gs n st)"
  by (cases st) (auto simp: run_inv_def run_step_def less_Suc_eq split: if_splits)

lemma run_inv_fold: "run_inv gs n (fold (run_step gs) [0..<n] (-1, 0, -1, 0))"
proof (induction n)
  case 0
  show ?case by (simp add: run_inv_def)
next
  case (Suc n)
  then show ?case using run_inv_step by (simp del: upt_Suc add: upt_Suc_append)
qed

lemma zero_run_slice:
  assumes "zero_run gs = (bs, bl, cs, cl)" and "2 \<le> bl" and "length gs = 8"
  shows "nat bs + bl \<le> 8 \<and> take (nat bs) gs @ replicate bl 0 @ drop (nat bs + bl) gs = gs"
proof -
  have inv: "nat bs + bl \<le> 8" "\<forall>j. nat bs \<le> j \<and> j < nat bs + bl \<longrightarrow> gs ! j = 0"
    using run_inv_fold [of gs 9] assms(1,2) unfolding zero_run_def by (auto simp: run_inv_def split: if_splits)
  have "take bl (drop (nat bs) gs) = replicate bl 0"
    using inv assms(3) by (intro nth_equalityI) auto
  then have "replicate bl 0 @ drop (nat bs + bl) gs = drop (nat bs) gs"
    by (metis append_take_drop_id drop_drop add.commute)
  with inv(1) show ?thesis by (metis append_take_drop_id)
qed

lemma hex_parts:
  shows "\<forall>p \<in> set (map nat_to_hex gs). CHR '':'' \<notin> set p" and "[] \<notin> set (map nat_to_hex gs)"
proof -
  have "CHR '':'' \<notin> set (nat_to_hex g)" for g
    using nat_to_hex_chars [of g] by (metis list.set_intros(1))
  then show "\<forall>p \<in> set (map nat_to_hex gs). CHR '':'' \<notin> set p" by simp
  show "[] \<notin> set (map nat_to_hex gs)" by (metis imageE list.set_map nat_to_hex_ne)
qed

lemma split_format_groups: "gs \<noteq> [] \<Longrightarrow> split_char (CHR '':'') (format_groups gs) = map nat_to_hex gs"
  unfolding format_groups_def by (rule split_char_join) (simp, rule hex_parts(1))

lemma set_join_str: "set (join_str sep ps) \<subseteq> set sep \<union> (\<Union>p \<in> set ps. set p)"
  by (induction sep ps rule: join_str.induct) auto

lemma format_groups_chars:
  assumes "c \<in> set (format_groups gs)"
  shows "c = CHR '':'' \<or> is_hex c \<and> c \<notin> set ''.[]% ''"
proof -
  consider "c = CHR '':''" | g where "c \<in> set (nat_to_hex g)"
    using assms set_join_str [of "'':''" "map nat_to_hex gs"] unfolding format_groups_def by auto
  then show ?thesis
  proof cases
    case 2
    with nat_to_hex_chars [of g] show ?thesis by (metis list.set_intros(2))
  qed simp
qed

lemma parse_hex_groups_print:
  assumes "length gs = 8" and "\<forall>g \<in> set gs. g < 65536"
  shows "parse_hex_groups (map nat_to_hex gs) = Some gs"
proof -
  have "length (nat_to_hex g) \<le> 4 \<and> list_all is_hex (nat_to_hex g)" if "g \<in> set gs" for g
    using nat_to_hex_length [of g 3] assms(2) that nat_to_hex_chars [of g] by (auto simp: list_all_iff)
  then show ?thesis
    using assms(1) by (auto simp: parse_hex_groups_def list_all_iff map_idI)
qed

lemma format_groups_single:
  "\<not> includes_str (format_groups gs @ '':'') ''::'' \<and> \<not> includes_str (CHR '':'' # format_groups gs) ''::''"
proof (cases "gs = []")
  case True
  then show ?thesis by (simp add: format_groups_def starts_with_def)
next
  case False
  then show ?thesis
    using not_includes_after [of "map nat_to_hex gs" "CHR '':''"] hex_parts [of gs]
    unfolding format_groups_def by (simp del: includes_str.simps)
qed

lemma parse_plain_groups:
  assumes "groups_ok gs"
  shows "parse_colon_groups (format_groups gs) = Some gs"
proof -
  have ne: "gs \<noteq> []" using assms by (auto simp: groups_ok_def)
  have no2: "\<not> includes_str (format_groups gs) ''::''"
    using format_groups_single [of gs] includes_mono [of "format_groups gs" "''::''" "[]" "'':''"] by auto
  then have no3: "\<not> includes_str (format_groups gs) '':::''"
    unfolding includes_str_conv by (metis append_Cons append_Nil)
  from no2 have "split_str ''::'' (format_groups gs) = [format_groups gs]" by (intro split_str_absent) auto
  with no2 no3 assms show ?thesis
    by (simp add: parse_colon_groups_def split_format_groups [OF ne] Let_def groups_ok_def parse_hex_groups_print)
qed

lemma map_hex_zeros: "replicate n ''0'' = map nat_to_hex (replicate n 0)"
proof -
  have "nat_to_hex 0 = ''0''" by code_simp
  then show ?thesis by simp
qed

lemma parse_halves:
  assumes "split_str ''::'' ip = [h, t]" and "\<not> includes_str ip '':::''" and "includes_str ip ''::''"
    and "(if h = [] then [] else split_char (CHR '':'') h) = l"
    and "(if t = [] then [] else split_char (CHR '':'') t) = r"
    and "[] \<notin> set l" and "[] \<notin> set r" and "length l + length r \<le> 7"
  shows "parse_colon_groups ip = parse_hex_groups (l @ replicate (8 - length l - length r) ''0'' @ r)"
proof -
  have l: "(if hd [h, t] = [] then [] else split_char (CHR '':'') (hd [h, t])) = l"
    and r: "(if tl [h, t] = [] \<or> hd (tl [h, t]) = [] then [] else split_char (CHR '':'') (hd (tl [h, t]))) = r"
    unfolding list.sel using assms(4,5) by (metis, metis list.distinct(1))
  show ?thesis
    unfolding parse_colon_groups_def Let_def assms(1) l r using assms(2,3,6-8) by simp
qed

lemma parse_compressed_groups:
  assumes "groups_ok gs" and "zero_run gs = (bs, bl, cs, cl)" and "2 \<le> bl"
  shows "parse_colon_groups (format_groups (take (nat bs) gs) @ ''::'' @ format_groups (drop (nat bs + bl) gs)) = Some gs"
proof -
  let ?l = "take (nat bs) gs" and ?r = "drop (nat bs + bl) gs"
  let ?ip = "format_groups ?l @ ''::'' @ format_groups ?r"
  have slice: "nat bs + bl \<le> 8" "?l @ replicate bl 0 @ ?r = gs" and len: "length gs = 8"
    using zero_run_slice [OF assms(2,3)] assms(1) by (auto simp: groups_ok_def)
  have dbl: "split_str ''::'' ?ip = [format_groups ?l, format_groups ?r]" "\<not> includes_str ?ip '':::''"
    using double_split [of "format_groups ?l" "CHR '':''" "format_groups ?r"] format_groups_single by auto
  have inc: "includes_str ?ip ''::''" by (auto simp: includes_str_conv)
  have part: "(if format_groups g = [] then [] else split_char (CHR '':'') (format_groups g)) = map nat_to_hex g" for g
  proof (cases g)
    case Nil
    then show ?thesis by (simp add: format_groups_def)
  next
    case (Cons x xs)
    then have "format_groups g \<noteq> []" by (cases xs) (auto simp: format_groups_def)
    with Cons show ?thesis by (simp add: split_format_groups)
  qed
  have "8 - length ?l - length ?r = bl" using slice(1) len by auto
  moreover have "length ?l + length ?r \<le> 7" using slice(1) len assms(3) by auto
  moreover have "parse_hex_groups (map nat_to_hex ?l @ replicate bl ''0'' @ map nat_to_hex ?r) = Some gs"
  proof -
    have "map nat_to_hex ?l @ replicate bl ''0'' @ map nat_to_hex ?r = map nat_to_hex gs"
      unfolding map_hex_zeros using arg_cong [OF slice(2), of "map nat_to_hex"] by simp
    then show ?thesis using assms(1) by (simp add: groups_ok_def parse_hex_groups_print)
  qed
  ultimately show ?thesis
    using parse_halves [OF dbl inc part part hex_parts(2) hex_parts(2)] by simp
qed

section \<open>Canonical forms\<close>

lemma index_of_absent: "c \<notin> set s \<Longrightarrow> index_of s c = None"
  by (induction s) auto

lemma index_of_here: "c \<notin> set a \<Longrightarrow> index_of (a @ c # b) c = Some (length a)"
  by (induction a) auto

lemma last_index_of_here: "c \<notin> set b \<Longrightarrow> last_index_of (a @ c # b) c = Some (length a)"
  unfolding last_index_of_def using index_of_here [of c "rev b" "rev a"] by simp

lemma strip_id:
  assumes "CHR ''['' \<notin> set s" and "CHR ''%'' \<notin> set s"
  shows "strip_zone (strip_brackets s) = s" and "strip_brackets s = s"
proof -
  have "\<not> starts_with s ''[''" using assms(1) by (auto simp: starts_with_conv)
  then show "strip_brackets s = s" by (simp add: strip_brackets_def)
  then show "strip_zone (strip_brackets s) = s" using assms(2) by (simp add: strip_zone_def index_of_absent)
qed

lemma trim_id: "\<forall>c \<in> set s. \<not> is_space c \<Longrightarrow> trim_str s = s"
proof -
  assume ns: "\<forall>c \<in> set s. \<not> is_space c"
  have "dropWhile is_space t = t" if "\<forall>c \<in> set t. \<not> is_space c" for t
    using that by (cases t) auto
  from this [of s] this [of "rev s"] ns show ?thesis by (simp add: trim_str_def)
qed

definition plain_text :: "string \<Rightarrow> bool" where
  "plain_text s = (\<forall>c \<in> set s. is_hex c \<or> c = CHR '':'' \<or> c = CHR ''.'')"

lemma is_hex_plain: "is_hex c \<Longrightarrow> \<not> is_space c \<and> c \<notin> set ''[]%:.,/''"
  by (auto simp: is_hex_def is_space_def is_digit_def less_eq_char_def)

lemma plain_char:
  "is_hex c \<or> c = CHR '':'' \<or> c = CHR ''.'' \<Longrightarrow> \<not> is_space c \<and> c \<noteq> CHR ''['' \<and> c \<noteq> CHR ''%''"
  by (elim disjE) (auto simp: is_hex_def is_space_def is_digit_def less_eq_char_def)

lemma plain_text_strip:
  assumes "plain_text s"
  shows "strip_zone (strip_brackets s) = s" and "strip_brackets s = s" and "trim_str s = s" and "strip_zone s = s"
proof -
  have "\<forall>c \<in> set s. \<not> is_space c \<and> c \<noteq> CHR ''['' \<and> c \<noteq> CHR ''%''"
    using assms plain_char unfolding plain_text_def by blast
  then have "CHR ''['' \<notin> set s" "CHR ''%'' \<notin> set s" "\<forall>c \<in> set s. \<not> is_space c" by auto
  then show "strip_zone (strip_brackets s) = s" and "strip_brackets s = s" and "trim_str s = s" and "strip_zone s = s"
    using strip_id [of s] trim_id [of s] by metis+
qed

lemma digit_is_hex: "is_digit c \<Longrightarrow> is_hex c" by (simp add: is_hex_def)

lemma format_ipv4_chars: "c \<in> set (format_ipv4 v) \<Longrightarrow> is_digit c \<or> c = CHR ''.''"
  using nat_to_dec_digits by (cases v) (auto simp: format_ipv4_def)

lemma format_ipv4_plain: "plain_text (format_ipv4 v)"
  using format_ipv4_chars digit_is_hex unfolding plain_text_def by blast

lemma format_ipv4_dot: "CHR ''.'' \<in> set (format_ipv4 v)"
  by (cases v) (simp add: format_ipv4_def)

lemma plain_text_simps [simp]:
  "plain_text []" "plain_text (c # s) \<longleftrightarrow> (is_hex c \<or> c = CHR '':'' \<or> c = CHR ''.'') \<and> plain_text s"
  "plain_text (a @ b) \<longleftrightarrow> plain_text a \<and> plain_text b"
  by (auto simp: plain_text_def)

lemma format_groups_plain [simp]: "plain_text (format_groups g)"
  using format_groups_chars unfolding plain_text_def by blast

lemma format_ipv6_plain: "plain_text (format_ipv6 gs)"
  using format_ipv4_plain
  by (simp add: format_ipv6_def is_hex_def less_eq_char_def split: prod.splits)

lemma no_ipv4_with_colon: "CHR '':'' \<in> set s \<Longrightarrow> parse_ipv4 s = None"
proof (rule ccontr)
  assume c: "CHR '':'' \<in> set s" and "parse_ipv4 s \<noteq> None"
  then obtain v where "parse_ipv4 s = Some v" by blast
  from parse_ipv4_shape [OF this] c have "is_digit (CHR '':'')" by auto
  then show False by (simp add: is_digit_def less_eq_char_def)
qed

lemma format_groups_colon: "2 \<le> length gs \<Longrightarrow> CHR '':'' \<in> set (format_groups gs)"
  by (cases gs; cases "tl gs") (auto simp: format_groups_def)

lemma format_ipv6_colon: "length gs = 8 \<Longrightarrow> CHR '':'' \<in> set (format_ipv6 gs)"
  using format_groups_colon [of gs] by (cases "zero_run gs") (auto simp: format_ipv6_def)

lemma byte_pair: "g < 65536 \<Longrightarrow> push_bit 8 (drop_bit 8 g AND 0xff) OR (g AND 0xff) = (g :: nat)"
proof (rule bit_eqI)
  fix n assume g: "g < 65536"
  have "take_bit 16 g = g" using g by (simp add: take_bit_nat_eq_self)
  then have "\<not> bit g m" if "16 \<le> m" for m
    using that by (metis bit_take_bit_iff not_less)
  moreover have ff: "(0xff :: nat) = mask 8" by (simp add: mask_eq_exp_minus_1)
  moreover have "n < 16" if "bit g n" using calculation(1) [of n] that by linarith
  then have "n < 8 \<or> n - 8 < 8" if "bit g n" using that by fastforce
  ultimately show "bit (push_bit 8 (drop_bit 8 g AND 0xff) OR (g AND 0xff)) n = bit g n"
    unfolding ff by (auto simp: bit_simps)
qed

text \<open>One unfolding suffices on text without a dotted tail.\<close>

lemma parse_ipv6_no_dot:
  assumes "plain_text s" and "CHR ''.'' \<notin> set s"
  shows "parse_ipv6_groups s = parse_colon_groups s"
  using assms(2) by (subst parse_ipv6_groups.simps) (simp add: plain_text_strip(1) [OF assms(1)] Let_def)

lemma parse_ipv6_dotted:
  assumes "plain_text s" and "CHR ''.'' \<in> set s" and "last_index_of s (CHR '':'') = Some k"
    and "parse_ipv4 (drop (Suc k) s) = Some (a, b, c, d)" and "parse_ipv6_groups (take k s @ '':0:0'') = Some g"
  shows "parse_ipv6_groups s = Some (g[6 := push_bit 8 a OR b, 7 := push_bit 8 c OR d])"
  using assms(2-) by (subst parse_ipv6_groups.simps) (simp add: plain_text_strip(1) [OF assms(1)] Let_def)

lemma nat_to_hex_ffff: "nat_to_hex 0xffff = ''ffff''" "nat_to_hex 0 = ''0''"
proof -
  have "hex_digit 15 = CHR ''f''" "hex_digit 0 = CHR ''0''" by code_simp+
  then show "nat_to_hex 0xffff = ''ffff''" "nat_to_hex 0 = ''0''" by (simp_all add: nat_to_hex.simps)
qed

lemma list8: "length xs = 8 \<Longrightarrow> \<exists>a b c d e f g h. xs = [a, b, c, d, e, f, g, h]"
  by (cases xs; cases "tl xs"; cases "tl (tl xs)"; cases "tl (tl (tl xs))"; cases "tl (tl (tl (tl xs)))";
      cases "tl (tl (tl (tl (tl xs))))"; cases "tl (tl (tl (tl (tl (tl xs)))))";
      cases "tl (tl (tl (tl (tl (tl (tl xs))))))") auto

lemma parse_format_ipv6:
  assumes "groups_ok gs"
  shows "parse_ipv6_groups (format_ipv6 gs) = Some gs"
proof -
  note strip = plain_text_strip(1) [OF format_ipv6_plain [of gs]]
  have len: "length gs = 8" using assms by (simp add: groups_ok_def)
  show ?thesis
  proof (cases "gs ! 0 = 0 \<and> gs ! 1 = 0 \<and> gs ! 2 = 0 \<and> gs ! 3 = 0 \<and> gs ! 4 = 0 \<and> gs ! 5 = 0xffff")
    case True
    define v where "v = (drop_bit 8 (gs ! 6) AND 0xff, gs ! 6 AND 0xff, drop_bit 8 (gs ! 7) AND 0xff, gs ! 7 AND (0xff :: nat))"
    have fmt: "format_ipv6 gs = ''::ffff'' @ CHR '':'' # format_ipv4 v"
      using True by (simp add: format_ipv6_def v_def)
    have "x AND 0xff \<le> (255 :: nat)" for x :: nat
      using take_bit_nat_less_exp [of 8 x] by (simp add: take_bit_eq_mask mask_eq_exp_minus_1)
    then have "ipv4_ok v" by (simp add: v_def)
    then have v4: "parse_ipv4 (format_ipv4 v) = Some v" by (rule parse_format_ipv4)
    have "CHR '':'' \<notin> set (format_ipv4 v)"
      using v4 no_ipv4_with_colon by fastforce
    then have "last_index_of (format_ipv6 gs) (CHR '':'') = Some (length ''::ffff'')"
      unfolding fmt by (rule last_index_of_here)
    moreover have "CHR ''.'' \<in> set (format_ipv6 gs)"
      using format_ipv4_dot [of v] by (simp add: fmt)
    moreover have "parse_ipv6_groups ''::ffff:0:0'' = Some [0, 0, 0, 0, 0, 0xffff, 0, 0]"
    proof -
      have "parse_ipv6_groups ''::ffff:0:0'' = parse_colon_groups ''::ffff:0:0''"
        by (rule parse_ipv6_no_dot) (simp_all add: is_hex_def is_digit_def less_eq_char_def)
      also have "''::ffff:0:0'' = format_groups [] @ ''::'' @ format_groups [0xffff, 0, 0]"
        by (simp add: format_groups_def nat_to_hex_ffff)
      also have "parse_colon_groups \<dots> = Some [0, 0, 0, 0, 0, 0xffff, 0, 0]"
      proof -
        have "zero_run [0, 0, 0, 0, 0, 0xffff, 0, 0] = (0, 5, -1, 0)"
          by (simp add: zero_run_def run_step_def upt_rec)
        from parse_compressed_groups [OF _ this] show ?thesis by (simp add: groups_ok_def)
      qed
      finally show ?thesis by (simp add: format_groups_def nat_to_hex_ffff)
    qed
    moreover have g67: "gs ! 6 < 65536" "gs ! 7 < 65536" using assms len by (simp_all add: groups_ok_def)
    moreover have gs_eq: "gs = [0, 0, 0, 0, 0, 0xffff, gs ! 6, gs ! 7]"
    proof -
      obtain g0 g1 g2 g3 g4 g5 g6 g7 where "gs = [g0, g1, g2, g3, g4, g5, g6, g7]"
        using list8 [OF len] by blast
      with True show ?thesis by simp
    qed
    moreover have "drop (Suc (length ''::ffff'')) (format_ipv6 gs) = format_ipv4 v"
      "take (length ''::ffff'') (format_ipv6 gs) @ '':0:0'' = ''::ffff:0:0''" by (simp_all add: fmt)
    ultimately have "parse_ipv6_groups (format_ipv6 gs) = Some ([0, 0, 0, 0, 0, 0xffff, 0, 0]
        [6 := push_bit 8 (drop_bit 8 (gs ! 6) AND 0xff) OR (gs ! 6 AND 0xff),
         7 := push_bit 8 (drop_bit 8 (gs ! 7) AND 0xff) OR (gs ! 7 AND 0xff)])"
      using v4 unfolding v_def by (intro parse_ipv6_dotted [OF format_ipv6_plain, where k = "length ''::ffff''"]) simp_all
    also have "\<dots> = Some [0, 0, 0, 0, 0, 0xffff, gs ! 6, gs ! 7]"
      using byte_pair [of "gs ! 6"] byte_pair [of "gs ! 7"] g67 by simp
    finally show ?thesis using gs_eq by simp
  next
    case False
    obtain bs bl cs cl where run: "zero_run gs = (bs, bl, cs, cl)" by (cases "zero_run gs")
    have fmt: "format_ipv6 gs = (if bl < 2 then format_groups gs
        else format_groups (take (nat bs) gs) @ ''::'' @ format_groups (drop (nat bs + bl) gs))"
      unfolding format_ipv6_def if_not_P [OF False] run prod.case ..
    have "CHR ''.'' \<notin> set (format_groups g)" for g
      using format_groups_chars [of "CHR ''.''" g] by auto
    then have "CHR ''.'' \<notin> set (format_ipv6 gs)" by (simp add: fmt)
    then have "parse_ipv6_groups (format_ipv6 gs) = parse_colon_groups (format_ipv6 gs)"
      by (subst parse_ipv6_groups.simps) (simp add: strip Let_def)
    also have "\<dots> = Some gs"
      using parse_plain_groups [OF assms] parse_compressed_groups [OF assms run] by (simp add: fmt)
    finally show ?thesis .
  qed
qed

lemma hex_value_bound:
  assumes "length p \<le> 4" and "list_all is_hex p"
  shows "hex_value p < 65536"
proof -
  have digit: "hex_digit_value c < 16" if "is_hex c" for c
    using that by (auto simp: is_hex_def hex_digit_value_def is_digit_def less_eq_char_def)
  have "hex_value q < 16 ^ length q" if "list_all is_hex q" for q
    using that
  proof (induction q rule: rev_induct)
    case (snoc c q)
    then have "hex_value q < 16 ^ length q" "hex_digit_value c < 16" using digit by simp_all
    then show ?case by (simp add: hex_value_def)
  qed (simp add: hex_value_def)
  with assms(2) have "hex_value p < 16 ^ length p" by blast
  also have "\<dots> \<le> 16 ^ 4" using assms(1) by (intro power_increasing) auto
  finally show ?thesis by simp
qed

lemma parse_hex_groups_ok: "parse_hex_groups ps = Some gs \<Longrightarrow> groups_ok gs"
  by (auto simp: parse_hex_groups_def groups_ok_def list_all_iff hex_value_bound split: if_splits)

lemma parse_ipv6_ok: "parse_ipv6_groups s = Some gs \<Longrightarrow> groups_ok gs"
proof (induction s arbitrary: gs rule: parse_ipv6_groups.induct)
  case (1 s)
  let ?ip = "strip_zone (strip_brackets s)"
  show ?case
  proof (cases "CHR ''.'' \<in> set ?ip")
    case False
    with 1(2) have "parse_colon_groups ?ip = Some gs"
      by (subst (asm) parse_ipv6_groups.simps) (simp add: Let_def)
    then show ?thesis
      by (auto simp: parse_colon_groups_def Let_def split: if_splits intro: parse_hex_groups_ok)
  next
    case True
    with 1(2) obtain k a b c d g where k: "last_index_of ?ip (CHR '':'') = Some k"
        "parse_ipv4 (drop (Suc k) ?ip) = Some (a, b, c, d)"
        "parse_ipv6_groups (take k ?ip @ '':0:0'') = Some g"
        "gs = g[6 := push_bit 8 a OR b, 7 := push_bit 8 c OR d]"
      by (subst (asm) parse_ipv6_groups.simps) (auto simp: Let_def split: option.splits prod.splits)
    have "groups_ok g"
      using 1(1) [OF refl True k(1) k(2) refl refl refl] k(3) by simp
    moreover have "push_bit 8 x OR y < 65536" if "x \<le> 255" "y \<le> 255" for x y :: nat
    proof -
      have "take_bit 16 (push_bit 8 x OR y) = push_bit 8 x OR y"
      proof -
        have "take_bit 16 (push_bit 8 x) = push_bit 8 x" "take_bit 16 y = y"
          using that by (simp_all add: take_bit_nat_eq_self push_bit_eq_mult)
        then show ?thesis by simp
      qed
      then show ?thesis using take_bit_nat_less_exp [of 16 "push_bit 8 x OR y"] by simp
    qed
    moreover have "a \<le> 255" "b \<le> 255" "c \<le> 255" "d \<le> 255" using parse_ipv4_shape [OF k(2)] by simp_all
    ultimately have "push_bit 8 a OR b < 65536" "push_bit 8 c OR d < 65536" by blast+
    moreover have "set gs \<subseteq> insert (push_bit 8 a OR b) (insert (push_bit 8 c OR d) (set g))"
      using set_update_subset_insert [of g 6 "push_bit 8 a OR b"]
        set_update_subset_insert [of "g[6 := push_bit 8 a OR b]" 7 "push_bit 8 c OR d"] k(4) by blast
    moreover have "length gs = 8" "\<forall>x \<in> set g. x < 65536"
      using \<open>groups_ok g\<close> k(4) by (simp_all add: groups_ok_def)
    ultimately show ?thesis unfolding groups_ok_def by blast
  qed
qed

section \<open>Membership as a prefix of bits\<close>

text \<open>The numeric value of the words and integers the code masks.\<close>

lemma and_high_mask_word:
  assumes "0 < k" and "k \<le> 32"
  shows "(a :: 32 word) AND push_bit (32 - k) (NOT 0) = b AND push_bit (32 - k) (NOT 0) \<longleftrightarrow>
         drop_bit (32 - k) a = drop_bit (32 - k) b"
proof -
  have bits: "bit (x AND push_bit (32 - k) (NOT 0)) n \<longleftrightarrow> bit x n \<and> 32 - k \<le> n" if "n < 32" for x :: "32 word" and n
    using that assms by (auto simp: bit_simps)
  show ?thesis
  proof
    assume eq: "a AND push_bit (32 - k) (NOT 0) = b AND push_bit (32 - k) (NOT 0)"
    show "drop_bit (32 - k) a = drop_bit (32 - k) b"
    proof (rule bit_eqI)
      fix n :: nat
      have "bit a (32 - k + n) = bit b (32 - k + n)"
      proof (cases "32 - k + n < 32")
        case True
        then show ?thesis using bits [OF True, of a] bits [OF True, of b] eq by simp
      next
        case False
        then show ?thesis by (auto dest: bit_imp_le_length)
      qed
      then show "bit (drop_bit (32 - k) a) n = bit (drop_bit (32 - k) b) n" by (simp add: bit_drop_bit_eq)
    qed
  next
    assume eq: "drop_bit (32 - k) a = drop_bit (32 - k) b"
    show "a AND push_bit (32 - k) (NOT 0) = b AND push_bit (32 - k) (NOT 0)"
    proof (rule bit_word_eqI)
      fix n assume "n < LENGTH(32)"
      then have n: "n < 32" by simp
      show "bit (a AND push_bit (32 - k) (NOT 0)) n = bit (b AND push_bit (32 - k) (NOT 0)) n"
      proof (cases "32 - k \<le> n")
        case True
        have "bit (drop_bit (32 - k) a) (n - (32 - k)) = bit (drop_bit (32 - k) b) (n - (32 - k))" using eq by simp
        with True have "bit a n = bit b n" by (simp add: bit_drop_bit_eq)
        then show ?thesis using bits [OF n] by simp
      next
        case False
        then show ?thesis using bits [OF n] by simp
      qed
    qed
  qed
qed

lemma mask4_prefix:
  assumes "k \<le> 32"
  shows "(a :: 32 word) AND mask4 k = b AND mask4 k \<longleftrightarrow> unat a div 2 ^ (32 - k) = unat b div 2 ^ (32 - k)"
proof (cases "k = 0")
  case True
  have "unat x < 2 ^ 32" for x :: "32 word" using unsigned_less [of x] by simp
  with True show ?thesis by (simp add: mask4_def)
next
  case False
  then have "a AND mask4 k = b AND mask4 k \<longleftrightarrow> drop_bit (32 - k) a = drop_bit (32 - k) b"
    using and_high_mask_word [of k a b] assms by (simp add: mask4_def)
  also have "\<dots> \<longleftrightarrow> unat (drop_bit (32 - k) a) = unat (drop_bit (32 - k) b)"
    by (simp add: word_unat_eq_iff)
  also have "\<dots> \<longleftrightarrow> unat a div 2 ^ (32 - k) = unat b div 2 ^ (32 - k)"
  proof -
    have "unat (drop_bit n x) = unat x div 2 ^ n" for n and x :: "32 word"
      unfolding unat_drop_bit_eq by (rule drop_bit_eq_div)
    then show ?thesis by simp
  qed
  finally show ?thesis .
qed

lemma and_high_mask_int:
  assumes "0 \<le> a" and "a < 2 ^ 128" and "k \<le> 128"
  shows "a AND push_bit (128 - k) (push_bit k 1 - 1) = push_bit (128 - k) (drop_bit (128 - k) (a :: int))"
proof (rule bit_eqI)
  fix n
  have hi: "\<not> bit a m" if "128 \<le> m" for m
  proof -
    have "take_bit 128 a = a" using assms(1,2) by (simp add: take_bit_int_eq_self_iff)
    then show ?thesis using that by (metis bit_take_bit_iff not_less)
  qed
  have "push_bit k 1 - 1 = (mask k :: int)" by (simp add: mask_eq_exp_minus_1 push_bit_eq_mult)
  then show "bit (a AND push_bit (128 - k) (push_bit k 1 - 1)) n = bit (push_bit (128 - k) (drop_bit (128 - k) a)) n"
    using hi [of n] assms(3) less_imp_le [of n 128] by (auto simp: bit_simps not_le) arith
qed

lemma mask6_prefix:
  assumes "0 \<le> a" and "a < 2 ^ 128" and "0 \<le> b" and "b < 2 ^ 128" and "k \<le> 128"
  shows "a AND mask6 k = b AND mask6 k \<longleftrightarrow> a div 2 ^ (128 - k) = b div 2 ^ (128 - k)"
proof (cases "k = 0")
  case True
  with assms show ?thesis by (simp add: mask6_def)
next
  case False
  have m: "mask6 k = push_bit (128 - k) (push_bit k 1 - 1)"
    using False assms(5) by (auto simp: mask6_def)
  have "push_bit n x = push_bit n y \<longleftrightarrow> x = y" for n and x y :: int by (simp add: push_bit_eq_mult)
  then show ?thesis
    unfolding m and_high_mask_int [OF assms(1,2,5)] and_high_mask_int [OF assms(3,4,5)]
    by (simp add: drop_bit_eq_div)
qed

lemma ipv4_to_int_value:
  assumes "ipv4_ok (a, b, c, d)"
  shows "unat (ipv4_to_int (a, b, c, d)) = a * 2 ^ 24 + b * 2 ^ 16 + c * 2 ^ 8 + d"
proof -
  have "ipv4_to_int (a, b, c, d) = of_nat (a * 2 ^ 24 + b * 2 ^ 16 + c * 2 ^ 8 + d)"
    by (simp add: ipv4_to_int_def push_bit_eq_mult)
  moreover have "a * 2 ^ 24 + b * 2 ^ 16 + c * 2 ^ 8 + d < 2 ^ 32" using assms by simp
  ultimately show ?thesis
    by (simp only: unat_of_nat) (rule mod_less, simp)
qed

lemma ipv6_fold_bounds:
  "\<forall>g \<in> set gs. g < 65536 \<Longrightarrow> 0 \<le> n \<Longrightarrow>
     0 \<le> fold (\<lambda>g n. push_bit 16 n + int g) gs n \<and>
     fold (\<lambda>g n. push_bit 16 n + int g) gs n < (n + 1) * 2 ^ (16 * length gs)"
proof (induction gs arbitrary: n)
  case (Cons g gs)
  let ?n = "push_bit 16 n + int g"
  have "0 \<le> ?n" "?n + 1 \<le> (n + 1) * 2 ^ 16"
    using Cons.prems by (auto simp: push_bit_eq_mult)
  with Cons.IH [of ?n] Cons.prems(1) have F:
      "0 \<le> fold (\<lambda>g n. push_bit 16 n + int g) gs ?n"
      "fold (\<lambda>g n. push_bit 16 n + int g) gs ?n < (?n + 1) * 2 ^ (16 * length gs)" by auto
  have B: "(?n + 1) * 2 ^ (16 * length gs) \<le> ((n + 1) * 2 ^ 16) * 2 ^ (16 * length gs)"
    using \<open>?n + 1 \<le> (n + 1) * 2 ^ 16\<close> by (intro mult_right_mono) auto
  have C: "((n + 1) * 2 ^ 16) * 2 ^ (16 * length gs) = (n + 1) * 2 ^ (16 * length (g # gs))"
    by (simp add: power_add)
  have "fold (\<lambda>g n. push_bit 16 n + int g) gs ?n < (n + 1) * 2 ^ (16 * length (g # gs))"
    using order_less_le_trans [OF F(2) B] unfolding C .
  with F(1) show ?case unfolding fold_simps(2) ..
qed simp

lemma ipv6_to_bigint_bounds: "groups_ok gs \<Longrightarrow> 0 \<le> ipv6_to_bigint gs \<and> ipv6_to_bigint gs < 2 ^ 128"
proof -
  assume "groups_ok gs"
  then have "\<forall>g \<in> set gs. g < 65536" and len: "16 * length gs = 128" by (simp_all add: groups_ok_def)
  from ipv6_fold_bounds [OF this(1) order_refl] show ?thesis
    unfolding len ipv6_to_bigint_def add_0 mult_1 .
qed

lemma parse_prefix_print: "p \<le> mx \<Longrightarrow> parse_prefix_length (Some (nat_to_dec p)) mx = Some p"
  using nat_to_dec_digits [of p] by (simp add: parse_prefix_length_def list_all_iff)

lemma nat_to_dec_plain: "plain_text (nat_to_dec n)"
  using nat_to_dec_digits digit_is_hex unfolding plain_text_def by blast

lemma parse_cidr_text:
  assumes "plain_text s"
  shows "parse_cidr (s @ ''/'' @ nat_to_dec p) =
     (case parse_ipv4 s of
        Some v \<Rightarrow> map_option (Cidr4 (ipv4_to_int v)) (parse_prefix_length (Some (nat_to_dec p)) 32)
      | None \<Rightarrow>
          (case parse_ipv6_groups s of
             Some gs \<Rightarrow> map_option (Cidr6 (ipv6_to_bigint gs)) (parse_prefix_length (Some (nat_to_dec p)) 128)
           | None \<Rightarrow> None))"
proof -
  have slash: "CHR ''/'' \<notin> set (nat_to_dec p)"
    using nat_to_dec_digits [of p] by (auto simp: is_digit_def less_eq_char_def)
  have "\<not> is_space c" if "c \<in> set (s @ ''/'' @ nat_to_dec p)" for c
  proof -
    consider "c \<in> set s" | "c = CHR ''/''" | "c \<in> set (nat_to_dec p)" using \<open>c \<in> set (s @ ''/'' @ nat_to_dec p)\<close> by auto
    then show ?thesis
    proof cases
      case 1
      then show ?thesis using assms plain_char unfolding plain_text_def by blast
    next
      case 2
      then show ?thesis by (simp add: is_space_def)
    next
      case 3
      then show ?thesis using nat_to_dec_plain plain_char unfolding plain_text_def by blast
    qed
  qed
  then have trim: "trim_str (s @ ''/'' @ nat_to_dec p) = s @ ''/'' @ nat_to_dec p" by (intro trim_id) blast
  have idx: "last_index_of (s @ ''/'' @ nat_to_dec p) (CHR ''/'') = Some (length s)"
    using last_index_of_here [OF slash, of s] by simp
  have parts: "take (length s) (s @ ''/'' @ nat_to_dec p) = s"
    "drop (Suc (length s)) (s @ ''/'' @ nat_to_dec p) = nat_to_dec p" by simp_all
  show ?thesis
    unfolding parse_cidr_def Let_def trim idx option.case parts ..
qed

section \<open>Valid texts are plain\<close>

lemma join_str_Cons: "ps \<noteq> [] \<Longrightarrow> join_str sep (p # ps) = p @ sep @ join_str sep ps"
  by (cases ps) auto

lemma split_str_ne [simp]: "split_str sep s \<noteq> []"
  by (subst split_str.simps) (auto split: list.splits)

lemma join_split_str: "join_str sep (split_str sep s) = s"
proof (induction sep s rule: split_str.induct)
  case (1 sep s)
  consider "sep = [] \<or> s = []" | "sep \<noteq> []" "s \<noteq> []" "starts_with s sep"
    | "sep \<noteq> []" "s \<noteq> []" "\<not> starts_with s sep" by blast
  then show ?case
  proof cases
    case 1
    then show ?thesis by (subst split_str.simps) auto
  next
    case 2
    then have "split_str sep s = [] # split_str sep (drop (length sep) s)" by (subst split_str.simps) simp
    moreover have "join_str sep (split_str sep (drop (length sep) s)) = drop (length sep) s"
      using 1(1) 2 by simp
    moreover have "s = sep @ drop (length sep) s"
      using 2 by (metis append_take_drop_id starts_with_def)
    ultimately show ?thesis by (simp add: join_str_Cons)
  next
    case 3
    obtain p ps where ps: "split_str sep (tl s) = p # ps" by (cases "split_str sep (tl s)") auto
    then have "split_str sep s = (hd s # p) # ps" using 3 by (subst split_str.simps) simp
    moreover have "join_str sep (p # ps) = tl s" using 1(2) 3 ps by simp
    ultimately show ?thesis using 3(2) by (cases ps) auto
  qed
qed

lemma plain_join: "(\<forall>p \<in> set ps. plain_text p) \<Longrightarrow> plain_text sep \<Longrightarrow> plain_text (join_str sep ps)"
  using set_join_str [of sep ps] unfolding plain_text_def by blast

lemma parse_hex_groups_plain: "parse_hex_groups ps = Some gs \<Longrightarrow> p \<in> set ps \<Longrightarrow> plain_text p"
  by (auto simp: parse_hex_groups_def list_all_iff plain_text_def split: if_splits)

lemma plain_split: "\<forall>p \<in> set (split_char (CHR '':'') s). plain_text p \<Longrightarrow> plain_text s"
  using plain_join [of "split_char (CHR '':'') s" "'':''"] by (simp add: join_split_char)

lemma parse_colon_groups_plain:
  assumes "parse_colon_groups ip = Some gs"
  shows "plain_text ip \<and> ip \<noteq> []"
proof (cases "includes_str ip ''::''")
  case False
  with assms have "length (split_char (CHR '':'') ip) = 8" "parse_hex_groups (split_char (CHR '':'') ip) = Some gs"
    by (auto simp: parse_colon_groups_def Let_def split: if_splits)
  then show ?thesis using parse_hex_groups_plain plain_split by fastforce
next
  case True
  let ?h = "hd (split_str ''::'' ip)" and ?rest = "tl (split_str ''::'' ip)"
  define left where "left = (if ?h = [] then [] else split_char (CHR '':'') ?h)"
  define right where "right = (if ?rest = [] \<or> hd ?rest = [] then [] else split_char (CHR '':'') (hd ?rest))"
  have "length (split_str ''::'' ip) \<le> 2"
    and "\<exists>n. parse_hex_groups (left @ replicate n ''0'' @ right) = Some gs"
    using assms True by (auto simp: parse_colon_groups_def Let_def left_def right_def split: if_splits)
  then obtain n where hex: "parse_hex_groups (left @ replicate n ''0'' @ right) = Some gs" by blast
  have "plain_text p" if "p \<in> set left \<union> set right" for p
    using parse_hex_groups_plain [OF hex] that by auto
  then have lr: "\<forall>p \<in> set left. plain_text p" "\<forall>p \<in> set right. plain_text p" by auto
  have h: "plain_text ?h" using lr(1) plain_split [of ?h] unfolding left_def by (cases "?h = []") auto
  have t: "plain_text (hd ?rest)" if "?rest \<noteq> []"
    using lr(2) plain_split [of "hd ?rest"] that unfolding right_def by (cases "hd ?rest = []") auto
  have "split_str ''::'' ip = ?h # ?rest" by simp
  with \<open>length (split_str ''::'' ip) \<le> 2\<close> have "split_str ''::'' ip = [?h] \<or> split_str ''::'' ip = [?h, hd ?rest]"
    by (cases "split_str ''::'' ip"; cases "tl (split_str ''::'' ip)") auto
  then have "\<forall>p \<in> set (split_str ''::'' ip). plain_text p"
    using h t by (metis empty_iff insert_iff list.sel(3) list.set(1) list.simps(15) not_Cons_self2)
  then have "plain_text (join_str ''::'' (split_str ''::'' ip))" by (intro plain_join) simp_all
  moreover have "ip \<noteq> []" using True by auto
  ultimately show ?thesis by (simp add: join_split_str)
qed

lemma last_index_of_split: "last_index_of s c = Some k \<Longrightarrow> s = take k s @ c # drop (Suc k) s"
proof -
  assume "last_index_of s c = Some k"
  then obtain j where j: "index_of (rev s) c = Some j" "k = length s - Suc j" by (auto simp: last_index_of_def)
  have "index_of t c = Some i \<Longrightarrow> i < length t \<and> t ! i = c" for t i
    by (induction t arbitrary: i) (auto split: if_splits)
  from this [OF j(1)] have "j < length s" "rev s ! j = c" by simp_all
  then have "k < length s" "s ! k = c" using j(2) by (simp_all add: rev_nth)
  then show "s = take k s @ c # drop (Suc k) s" using id_take_nth_drop [of k s] by simp
qed

lemma strip_zone_absent: "CHR ''%'' \<notin> set v \<Longrightarrow> strip_zone v = v"
  by (simp add: strip_zone_def index_of_absent)

lemma strip_zone_no_pct: "CHR ''%'' \<notin> set (strip_zone v)"
proof (cases "CHR ''%'' \<in> set v")
  case True
  then obtain a b where v: "v = a @ CHR ''%'' # b" "CHR ''%'' \<notin> set a" by (meson split_list_first)
  then show ?thesis by (simp add: strip_zone_def index_of_here)
qed (simp add: strip_zone_def index_of_absent)

lemma parse_ipv6_plain: "parse_ipv6_groups s = Some gs \<Longrightarrow>
    plain_text (strip_zone (strip_brackets s)) \<and> strip_zone (strip_brackets s) \<noteq> []"
proof (induction s arbitrary: gs rule: parse_ipv6_groups.induct)
  case (1 s)
  let ?ip = "strip_zone (strip_brackets s)"
  show ?case
  proof (cases "CHR ''.'' \<in> set ?ip")
    case False
    with 1(2) have "parse_colon_groups ?ip = Some gs"
      by (subst (asm) parse_ipv6_groups.simps) (simp add: Let_def)
    then show ?thesis by (rule parse_colon_groups_plain)
  next
    case True
    with 1(2) obtain k a b c d g where k: "last_index_of ?ip (CHR '':'') = Some k"
        "parse_ipv4 (drop (Suc k) ?ip) = Some (a, b, c, d)"
        "parse_ipv6_groups (take k ?ip @ '':0:0'') = Some g"
      by (subst (asm) parse_ipv6_groups.simps) (auto simp: Let_def split: option.splits prod.splits)
    let ?s = "take k ?ip @ '':0:0''"
    have pct: "CHR ''%'' \<notin> set (take k ?ip @ '':0:0'')"
      using strip_zone_no_pct [of "strip_brackets s"] by (auto dest: in_set_takeD)
    have "\<not> ends_with ?s '']''" by (simp add: ends_with_def starts_with_def)
    then have "strip_brackets ?s = ?s" unfolding strip_brackets_def by simp
    moreover have "strip_zone ?s = ?s" using pct by (rule strip_zone_absent)
    ultimately have "strip_zone (strip_brackets ?s) = ?s" by simp
    with 1(1) [OF refl True k(1) k(2) refl refl refl k(3)] have "plain_text (take k ?ip)" by simp
    moreover have "plain_text (drop (Suc k) ?ip)"
      using parse_ipv4_shape [OF k(2)] digit_is_hex unfolding plain_text_def by blast
    ultimately have "plain_text (take k ?ip @ CHR '':'' # drop (Suc k) ?ip)" by simp
    then show ?thesis using last_index_of_split [OF k(1)] True by auto
  qed
qed

lemma dropWhile_rev_keep:
  "\<not> is_space x \<Longrightarrow> \<exists>r'. rev (dropWhile is_space (rev (a @ x # r))) = a @ x # r'"
proof -
  assume x: "\<not> is_space x"
  have "dropWhile is_space (rev r @ x # rev a) = dropWhile is_space (rev r) @ x # rev a"
    using x by (induction r rule: rev_induct) auto
  then have "rev (dropWhile is_space (rev (a @ x # r))) = a @ x # rev (dropWhile is_space (rev r))" by simp
  then show ?thesis by blast
qed

lemma trim_keeps_zone:
  assumes "plain_text a" and "a \<noteq> []"
  shows "\<exists>r'. trim_str (a @ CHR ''%'' # r) = a @ CHR ''%'' # r'"
proof -
  obtain c b where a: "a = c # b" using assms(2) by (cases a) auto
  then have "\<not> is_space c" using assms(1) plain_char [of c] by simp
  then have "dropWhile is_space (a @ CHR ''%'' # r) = a @ CHR ''%'' # r" using a by simp
  then show ?thesis
    using dropWhile_rev_keep [of "CHR ''%''" a r] by (simp add: trim_str_def is_space_def)
qed

lemma parse_ipv6_strip: "plain_text (strip_zone (strip_brackets s)) \<Longrightarrow>
    parse_ipv6_groups (strip_zone (strip_brackets s)) = parse_ipv6_groups s"
  by (subst (1 2) parse_ipv6_groups.simps) (simp only: plain_text_strip(1))

lemma strip_after_trim:
  assumes "plain_text (strip_zone (strip_brackets s))" and "strip_zone (strip_brackets s) \<noteq> []"
  shows "strip_zone (strip_brackets (trim_str s)) = strip_zone (strip_brackets s)"
proof (cases "starts_with s ''['' \<and> ends_with s '']''")
  case True
  then obtain a where a: "s = CHR ''['' # a" by (auto simp: starts_with_conv)
  obtain b where b: "s = b @ '']''" using True by (auto simp: ends_with_conv)
  have "dropWhile is_space s = s" by (simp add: a is_space_def)
  moreover have "dropWhile is_space (rev s) = rev s" by (simp add: b is_space_def)
  ultimately have "trim_str s = s" by (simp add: trim_str_def)
  then show ?thesis by simp
next
  case False
  then have br: "strip_brackets s = s" unfolding strip_brackets_def by (rule if_not_P)
  show ?thesis
  proof (cases "CHR ''%'' \<in> set s")
    case False
    then have "strip_zone s = s" by (rule strip_zone_absent)
    with assms(1) br have "plain_text s" by simp
    then show ?thesis by (simp add: plain_text_strip(3))
  next
    case True
    then obtain a r where s: "s = a @ CHR ''%'' # r" "CHR ''%'' \<notin> set a" by (meson split_list_first)
    then have zone: "strip_zone s = a" by (simp add: strip_zone_def index_of_here)
    with assms br have a: "plain_text a" "a \<noteq> []" by simp_all
    obtain r' where t: "trim_str s = a @ CHR ''%'' # r'" using trim_keeps_zone [OF a, of r] s(1) by auto
    have "hd a \<noteq> CHR ''[''" using a by (cases a) (use plain_char in auto)
    then have "\<not> starts_with (trim_str s) ''[''" using a(2) unfolding t by (cases a) (auto simp: starts_with_def)
    then have "strip_brackets (trim_str s) = trim_str s" by (simp add: strip_brackets_def)
    then show ?thesis using s(2) zone br by (simp add: t strip_zone_def index_of_here)
  qed
qed

section \<open>Properties\<close>

text \<open>C10: Printing and parsing are inverse. Every IPv4 address and every sequence of eight 16-bit groups
  is recovered from its printed form, whichever of the three IPv6 layouts (dotted tail, compressed run of
  zeros, eight plain groups) the formatter chooses.\<close>

theorem ip_print_parse:
  "(ipv4_ok v \<longrightarrow> parse_ipv4 (format_ipv4 v) = Some v) \<and>
   (groups_ok gs \<longrightarrow> parse_ipv6_groups (format_ipv6 gs) = Some gs)"
  by (simp add: parse_format_ipv4 parse_format_ipv6)

theorem ip_print_parse_witness:
  "parse_ipv4 (format_ipv4 (10, 0, 0, 255)) = Some (10, 0, 0, 255) \<and>
   parse_ipv6_groups (format_ipv6 [0x2001, 0xdb8, 0, 0, 0, 0, 0, 1]) = Some [0x2001, 0xdb8, 0, 0, 0, 0, 0, 1]"
  using ip_print_parse [of "(10, 0, 0, 255)" "[0x2001, 0xdb8, 0, 0, 0, 0, 0, 1]"]
  by (simp add: groups_ok_def)

text \<open>C9: Canonical forms. The canonical form of an address text is itself canonical, and it denotes
  the address the text denotes: the same octets or the same groups.\<close>

theorem canonicalize_idempotent:
  assumes "canonicalize_ip text = Inr s"
  shows "canonicalize_ip s = Inr s \<and>
    (case parse_ipv4 (strip_zone (strip_brackets (trim_str text))) of
       Some v \<Rightarrow> parse_ipv4 s = Some v
     | None \<Rightarrow> parse_ipv4 s = None \<and>
         parse_ipv6_groups s = parse_ipv6_groups (strip_zone (strip_brackets (trim_str text))))"
proof (cases "parse_ipv4 (strip_zone (strip_brackets (trim_str text)))")
  case (Some v)
  with assms have s: "s = format_ipv4 v" by (simp add: canonicalize_ip_def Let_def)
  have "parse_ipv4 (format_ipv4 v) = Some v"
    using parse_ipv4_shape [OF Some] by (intro parse_format_ipv4) simp
  with Some s show ?thesis
    by (simp add: canonicalize_ip_def Let_def plain_text_strip [OF format_ipv4_plain])
next
  case None
  with assms obtain gs where gs: "parse_ipv6_groups (strip_zone (strip_brackets (trim_str text))) = Some gs"
      "s = format_ipv6 gs"
    by (auto simp: canonicalize_ip_def Let_def split: option.splits)
  have ok: "groups_ok gs" using parse_ipv6_ok [OF gs(1)] .
  have "parse_ipv4 s = None"
    using format_ipv6_colon [of gs] ok gs(2) by (auto simp: groups_ok_def intro: no_ipv4_with_colon)
  with None gs parse_format_ipv6 [OF ok] show ?thesis
    by (simp add: canonicalize_ip_def Let_def plain_text_strip [OF format_ipv6_plain])
qed

theorem canonicalize_idempotent_witness:
  "canonicalize_ip ''10.0.0.1'' = Inr ''10.0.0.1'' \<and> parse_ipv4 ''10.0.0.1'' = Some (10, 0, 0, 1)"
proof -
  have "canonicalize_ip ''[10.0.0.1] '' = Inr ''10.0.0.1''" by code_simp
  moreover have "parse_ipv4 (strip_zone (strip_brackets (trim_str ''[10.0.0.1] ''))) = Some (10, 0, 0, 1)"
    by code_simp
  ultimately show ?thesis using canonicalize_idempotent [of "''[10.0.0.1] ''" "''10.0.0.1''"] by simp
qed

text \<open>No late surprise. A text accepted as a valid address always has a canonical form, so the search
  for the first valid address in a header never fails on the address it picked; what it returns is
  canonical.\<close>

theorem valid_ip_canonicalizes:
  assumes "is_valid_ip text"
  shows "\<exists>s. canonicalize_ip text = Inr s"
proof (cases "parse_ipv4 text")
  case (Some v)
  then have "plain_text text"
    using parse_ipv4_shape [OF Some] digit_is_hex unfolding plain_text_def by blast
  with Some show ?thesis by (simp add: canonicalize_ip_def Let_def plain_text_strip)
next
  case None
  with assms obtain gs where gs: "parse_ipv6_groups text = Some gs" by (auto simp: is_valid_ip_def)
  let ?t = "strip_zone (strip_brackets (trim_str text))"
  note plain = parse_ipv6_plain [OF gs]
  have "?t = strip_zone (strip_brackets text)" using plain by (intro strip_after_trim) simp_all
  then have "parse_ipv6_groups ?t = Some gs" using parse_ipv6_strip plain gs by simp
  then show ?thesis by (cases "parse_ipv4 ?t") (simp_all add: canonicalize_ip_def Let_def)
qed

theorem valid_ip_canonicalizes_witness: "\<exists>s. canonicalize_ip ''192.168.0.1'' = Inr s"
proof -
  have "is_valid_ip ''192.168.0.1''" unfolding is_valid_ip_def
    by (rule disjI1) (simp add: parse_ipv4_def parse_octet_def is_digit_def less_eq_char_def starts_with_def
        dec_value_def digit_value_def)
  then show ?thesis by (rule valid_ip_canonicalizes)
qed

fun ipv4_value :: "ipv4 \<Rightarrow> nat" where
  "ipv4_value (a, b, c, d) = a * 2 ^ 24 + b * 2 ^ 16 + c * 2 ^ 8 + d"

text \<open>C11: Membership in an IPv4 block is agreement of the leading bits: an address is in
  \<open>network/p\<close> exactly when the two 32-bit values agree after their last \<open>32 - p\<close> bits are dropped.\<close>

theorem ipv4_block_membership:
  assumes "ipv4_ok v" and "ipv4_ok n" and "p \<le> 32"
  shows "ip_in_cidr (format_ipv4 v) (format_ipv4 n @ ''/'' @ nat_to_dec p) \<longleftrightarrow>
         ipv4_value v div 2 ^ (32 - p) = ipv4_value n div 2 ^ (32 - p)"
proof -
  have val: "unat (ipv4_to_int w) = ipv4_value w" if "ipv4_ok w" for w
    using ipv4_to_int_value that by (cases w) (simp del: ipv4_ok.simps)
  have "parse_cidr (format_ipv4 n @ ''/'' @ nat_to_dec p) = Some (Cidr4 (ipv4_to_int n) p)"
    using parse_cidr_text [OF format_ipv4_plain, of n p] parse_format_ipv4 [OF assms(2)] parse_prefix_print [OF assms(3)]
    by simp
  then show ?thesis
    using parse_format_ipv4 [OF assms(1)] mask4_prefix [OF assms(3)] val [OF assms(1)] val [OF assms(2)]
    by (simp add: ip_in_cidr_def plain_text_strip [OF format_ipv4_plain])
qed

theorem ipv4_block_membership_witness:
  "ip_in_cidr (format_ipv4 (10, 1, 2, 3)) (format_ipv4 (10, 0, 0, 0) @ ''/'' @ nat_to_dec 8) \<and>
   \<not> ip_in_cidr (format_ipv4 (11, 1, 2, 3)) (format_ipv4 (10, 0, 0, 0) @ ''/'' @ nat_to_dec 8)"
  using ipv4_block_membership [of "(10, 1, 2, 3)" "(10, 0, 0, 0)" 8]
    ipv4_block_membership [of "(11, 1, 2, 3)" "(10, 0, 0, 0)" 8] by simp

text \<open>C12: Membership in an IPv6 block is agreement of the leading bits of the 128-bit values.\<close>

theorem ipv6_block_membership:
  assumes "groups_ok gs" and "groups_ok ns" and "p \<le> 128"
  shows "ip_in_cidr (format_ipv6 gs) (format_ipv6 ns @ ''/'' @ nat_to_dec p) \<longleftrightarrow>
         ipv6_to_bigint gs div 2 ^ (128 - p) = ipv6_to_bigint ns div 2 ^ (128 - p)"
proof -
  have "parse_ipv4 (format_ipv6 ns) = None"
    using assms(2) by (auto simp: groups_ok_def intro!: no_ipv4_with_colon format_ipv6_colon)
  then have "parse_cidr (format_ipv6 ns @ ''/'' @ nat_to_dec p) = Some (Cidr6 (ipv6_to_bigint ns) p)"
    using parse_cidr_text [OF format_ipv6_plain, of ns p] parse_format_ipv6 [OF assms(2)] parse_prefix_print [OF assms(3)]
    by simp
  then show ?thesis
    using parse_format_ipv6 [OF assms(1)] ipv6_to_bigint_bounds [OF assms(1)] ipv6_to_bigint_bounds [OF assms(2)]
      mask6_prefix [of "ipv6_to_bigint gs" "ipv6_to_bigint ns" p] assms(3)
    by (simp add: ip_in_cidr_def plain_text_strip [OF format_ipv6_plain])
qed

theorem ipv6_block_membership_witness:
  "ip_in_cidr (format_ipv6 [0x2001, 0xdb8, 1, 2, 3, 4, 5, 6])
     (format_ipv6 [0x2001, 0xdb8, 0, 0, 0, 0, 0, 0] @ ''/'' @ nat_to_dec 32)"
  using ipv6_block_membership [of "[0x2001, 0xdb8, 1, 2, 3, 4, 5, 6]" "[0x2001, 0xdb8, 0, 0, 0, 0, 0, 0]" 32]
  by (simp add: groups_ok_def ipv6_to_bigint_def push_bit_eq_mult)

end
