(* ===== verification/Armor_Request.thy ===== *)
theory Armor_Request
  imports Armor_Types Ip_Address Js_Json
begin

text \<open>
  Building the view of a request that rules see, \<open>buildRequestAttributes\<close> and \<open>withInspectedBody\<close> of
  \<open>src/src/services/compute/armor/request.ts\<close>, with the scanner for a JSON body cut off by the inspection
  limit. Plain objects are ordered maps; assigning a string to \<open>__proto__\<close> leaves no key, and reading
  \<open>constructor\<close> finds the inherited function, whose text is the parameter \<open>object_text\<close>. Header names
  given in a configuration are neither of the two.
\<close>

section \<open>Headers\<close>

definition set_prop :: "(string, 'a) jsmap \<Rightarrow> string \<Rightarrow> 'a \<Rightarrow> (string, 'a) jsmap" where
  "set_prop m k v = (if k = ''__proto__'' then m else jm_set m k v)"

definition header_piece :: "header_input \<Rightarrow> string option" where
  "header_piece v = (case v of HeaderAbsent \<Rightarrow> None | HeaderOne s \<Rightarrow> Some s | HeaderMany ss \<Rightarrow> Some (join_str '','' ss))"

text \<open>One pass of the loop of \<open>normalizeHeaders\<close>.\<close>

definition add_header :: "string \<Rightarrow> string \<times> header_input \<Rightarrow> (string, string) jsmap \<Rightarrow> (string, string) jsmap" where
  "add_header object_text en headers =
     (case header_piece (snd en) of
        None \<Rightarrow> headers
      | Some piece \<Rightarrow>
          let key = lower_str (fst en);
              existing = (case jm_get headers key of
                            Some v \<Rightarrow> Some v
                          | None \<Rightarrow> if key = ''constructor'' then Some object_text else None)
          in (case existing of
                Some v \<Rightarrow> set_prop headers key (v @ '','' @ piece)
              | None \<Rightarrow> set_prop headers key piece))"

definition normalize_headers :: "string \<Rightarrow> (string, header_input) jsmap \<Rightarrow> (string, string) jsmap" where
  "normalize_headers object_text inp = fold (add_header object_text) inp []"

fun find_user_ip :: "(string, string) jsmap \<Rightarrow> string list \<Rightarrow> string option" where
  "find_user_ip headers [] = None"
| "find_user_ip headers (name # names) =
     (case jm_get headers (lower_str name) of
        None \<Rightarrow> find_user_ip headers names
      | Some v \<Rightarrow>
          if v = [] then find_user_ip headers names
          else (case parse_first_valid_ip v of None \<Rightarrow> find_user_ip headers names | Some ip \<Rightarrow> Some ip))"

definition resolve_user_ip :: "(string, string) jsmap \<Rightarrow> string list option \<Rightarrow> string option" where
  "resolve_user_ip headers names =
     (case names of None \<Rightarrow> None | Some ns \<Rightarrow> if ns = [] then None else find_user_ip headers ns)"

section \<open>Parameters\<close>

definition content_media_type :: "string \<Rightarrow> string" where
  "content_media_type content_type =
     lower_str (trim_str (case index_of content_type (CHR '';'') of None \<Rightarrow> content_type | Some i \<Rightarrow> substring content_type 0 i))"

definition json_parsing_enabled :: "json_parsing option \<Rightarrow> bool" where
  "json_parsing_enabled jp = (jp = Some JsonStandard \<or> jp = Some JsonStandardWithGraphql)"

definition strip_query_prefix :: "string \<Rightarrow> string" where
  "strip_query_prefix query = (if starts_with query ''?'' then drop 1 query else query)"

definition decode_form_component :: "string \<Rightarrow> string outcome" where
  "decode_form_component v =
     (case decode_uri_component (map (\<lambda>c. if c = CHR ''+'' then CHR '' '' else c) v) of
        Done t \<Rightarrow> Done t
      | Malformed \<Rightarrow> Done v
      | Beyond \<Rightarrow> Beyond)"

type_synonym form = "(string, string) jsmap"

definition form_part :: "string \<Rightarrow> string \<times> string" where
  "form_part part =
     (case index_of part (CHR ''='') of
        None \<Rightarrow> (part, [])
      | Some i \<Rightarrow> (substring part 0 i, drop (Suc i) part))"

fun parse_parts :: "string list \<Rightarrow> form \<Rightarrow> form outcome" where
  "parse_parts [] out = Done out"
| "parse_parts (part # parts) out =
     (if part = [] then parse_parts parts out
      else obind (decode_form_component (fst (form_part part))) (\<lambda>name.
             obind (decode_form_component (snd (form_part part))) (\<lambda>v. parse_parts parts (set_prop out name v))))"

definition parse_form :: "string \<Rightarrow> form outcome" where
  "parse_form raw = (if raw = [] then Done [] else parse_parts (split_char (CHR ''&'') raw) [])"

section \<open>JSON bodies\<close>

definition json_param_string :: "jsval \<Rightarrow> string option" where
  "json_param_string v =
     (case v of
        JUndef \<Rightarrow> None
      | JNull \<Rightarrow> None
      | JStr s \<Rightarrow> Some s
      | JNum n \<Rightarrow> Some (num_to_str n)
      | JBool b \<Rightarrow> Some (if b then ''true'' else ''false'')
      | _ \<Rightarrow> json_stringify v)"

definition add_param :: "string \<Rightarrow> jsval \<Rightarrow> form \<Rightarrow> form" where
  "add_param k v out = (case json_param_string v of None \<Rightarrow> out | Some s \<Rightarrow> set_prop out k s)"

definition stringify_json_object :: "jsval \<Rightarrow> form" where
  "stringify_json_object parsed = (case parsed of JObj m \<Rightarrow> fold (\<lambda>(k, v). add_param k v) m [] | _ \<Rightarrow> [])"

text \<open>\<open>endOfJsonString\<close>: how many characters behind an opening quote belong to the literal.\<close>

fun json_string_end :: "string \<Rightarrow> nat option" where
  "json_string_end [] = None"
| "json_string_end (c # s) =
     (if c = CHR 0x5C then
        (case s of
           [] \<Rightarrow> None
         | e # r \<Rightarrow>
             if e = CHR ''u'' then
               (case r of a # b # d # f # r' \<Rightarrow> map_option (\<lambda>n. n + 6) (json_string_end r') | _ \<Rightarrow> None)
             else map_option (\<lambda>n. n + 2) (json_string_end r))
      else if c = CHR 0x22 then Some 1
      else map_option Suc (json_string_end s))"

text \<open>\<open>endOfJsonContainer\<close> with its stack of expected brackets.\<close>

fun json_container_end :: "char list \<Rightarrow> string \<Rightarrow> nat option" where
  "json_container_end stack [] = None"
| "json_container_end stack (c # s) =
     (if c = CHR 0x22 then
        (case json_string_end s of
           None \<Rightarrow> None
         | Some n \<Rightarrow> map_option (\<lambda>k. k + Suc n) (json_container_end stack (drop n s)))
      else if c = CHR ''{'' then map_option Suc (json_container_end (CHR ''}'' # stack) s)
      else if c = CHR ''['' then map_option Suc (json_container_end (CHR '']'' # stack) s)
      else if c = CHR ''}'' \<or> c = CHR '']'' then
        (case stack of
           [] \<Rightarrow> None
         | x # xs \<Rightarrow> if x \<noteq> c then None else if xs = [] then Some 1 else map_option Suc (json_container_end xs s))
      else map_option Suc (json_container_end stack s))"

definition json_literal_end :: "string \<Rightarrow> nat option" where
  "json_literal_end s =
     (if starts_with s ''true'' then Some 4 else if starts_with s ''false'' then Some 5
      else if starts_with s ''null'' then Some 4 else number_length s)"

text \<open>\<open>sliceCompleteJsonValue\<close> at the start of a text: the value and the rest; \<open>Malformed\<close> is its \<open>null\<close>.\<close>

definition json_slice :: "string \<Rightarrow> nat option \<Rightarrow> (jsval \<times> string) outcome" where
  "json_slice s end_pos =
     (case end_pos of
        None \<Rightarrow> Malformed
      | Some n \<Rightarrow> obind (json_parse (take n s)) (\<lambda>v. Done (v, drop n s)))"

definition slice_complete_json_value :: "string \<Rightarrow> (jsval \<times> string) outcome" where
  "slice_complete_json_value s =
     (if starts_with s [CHR 0x22] then json_slice s (map_option Suc (json_string_end (tl s)))
      else if starts_with s ''{'' \<or> starts_with s ''['' then json_slice s (json_container_end [] s)
      else (case json_literal_end s of
              None \<Rightarrow> Malformed
            | Some n \<Rightarrow>
                let after = skip_json_ws (drop n s)
                in if after = [] \<or> hd after \<notin> set [CHR '','', CHR ''}'', CHR '']''] then Malformed
                   else json_slice s (Some n)))"

lemma slice_rest: "slice_complete_json_value s = Done (v, r) \<Longrightarrow> length r \<le> length s"
  by (auto simp: slice_complete_json_value_def json_slice_def obind_def Let_def split: if_splits option.splits outcome.splits)

text \<open>The loop of \<open>parseTruncatedJsonObject\<close>. A key is the value of a string literal.\<close>

function truncated_members :: "string \<Rightarrow> form \<Rightarrow> form outcome" where
  "truncated_members s out =
     (let t = skip_json_ws s
      in if t = [] \<or> hd t = CHR ''}'' then Done out
         else if hd t = CHR '','' then truncated_members (tl t) out
         else if hd t \<noteq> CHR 0x22 then Done out
         else (case json_string_end (tl t) of
                 None \<Rightarrow> Done out
               | Some n \<Rightarrow>
                   (case json_parse (take (Suc n) t) of
                      Done (JStr k) \<Rightarrow>
                        (let u = skip_json_ws (drop (Suc n) t)
                         in if \<not> starts_with u '':'' then Done out
                            else let w = skip_json_ws (tl u)
                                 in if w = [] then Done out
                                    else (case slice_complete_json_value w of
                                            Done (v, r) \<Rightarrow> truncated_members r (add_param k v out)
                                          | Malformed \<Rightarrow> Done out
                                          | Beyond \<Rightarrow> Beyond))
                    | Beyond \<Rightarrow> Beyond
                    | _ \<Rightarrow> Done out)))"
  by pat_completeness auto
termination
proof (relation "measure (\<lambda>(s, out). length s)", goal_cases)
  case (2 s out t)
  then have "0 < length t" by simp
  moreover have "length t \<le> length s" unfolding 2(1) by (rule length_dropWhile_le)
  ultimately have "length (tl t) < length s" by (cases t) simp_all
  then show ?case by simp
next
  case (3 s out t n v k u w p v' r)
  have "slice_complete_json_value w = Done (v', r)" using 3 by simp
  then have "length r \<le> length w" by (rule slice_rest)
  also have "length w \<le> length (tl u)" unfolding 3 by (rule length_dropWhile_le)
  also have "length (tl u) \<le> length u" by simp
  also have "length u \<le> length (drop (Suc n) t)" unfolding 3 by (rule length_dropWhile_le)
  also have "length (drop (Suc n) t) < length s"
  proof -
    have "0 < length t" using 3 by simp
    moreover have "length t \<le> length s" unfolding 3(1) by (rule length_dropWhile_le)
    ultimately show ?thesis by (cases t) simp_all
  qed
  finally show ?case by simp
qed auto

declare truncated_members.simps [simp del]

definition parse_truncated_json_object :: "string \<Rightarrow> form outcome" where
  "parse_truncated_json_object raw =
     (let s = skip_json_ws (trim_start raw)
      in if \<not> starts_with s ''{'' then Done [] else truncated_members (tl s) [])"

definition parse_json_params :: "string \<Rightarrow> form outcome" where
  "parse_json_params body =
     (if trim_str body = [] then Done []
      else (case json_parse body of
              Done v \<Rightarrow> Done (stringify_json_object v)
            | Malformed \<Rightarrow> parse_truncated_json_object body
            | Beyond \<Rightarrow> Beyond))"

section \<open>Merging\<close>

definition assign_form :: "jsobj \<Rightarrow> form \<Rightarrow> jsobj" where
  "assign_form params f = fold (\<lambda>(k, v) m. set_prop m k (JStr v)) f params"

definition assign_object :: "jsobj \<Rightarrow> jsobj \<Rightarrow> jsobj" where
  "assign_object params f = fold (\<lambda>(k, v) m. set_prop m k v) f params"

definition merge_params :: "string \<Rightarrow> string \<Rightarrow> (string, string) jsmap \<Rightarrow> jsobj option \<Rightarrow> json_parsing option \<Rightarrow>
    jsobj outcome" where
  "merge_params query body headers explicit jp =
     obind (parse_form (strip_query_prefix query)) (\<lambda>q.
       let params = assign_form [] q;
           media = content_media_type (case jm_get headers ''content-type'' of None \<Rightarrow> [] | Some t \<Rightarrow> t);
           with_explicit = (\<lambda>p. case explicit of None \<Rightarrow> p | Some ex \<Rightarrow> assign_object p ex)
       in if json_parsing_enabled jp \<and> media = ''application/json''
          then obind (parse_json_params body) (\<lambda>f. Done (with_explicit (assign_form params f)))
          else if media = ''application/x-www-form-urlencoded''
          then obind (parse_form body) (\<lambda>f. Done (with_explicit (assign_form params f)))
          else Done (with_explicit params))"

section \<open>Attributes\<close>

definition truncate_utf8 :: "string \<Rightarrow> nat \<Rightarrow> string outcome" where
  "truncate_utf8 v max_bytes =
     (if length (concat (map utf8_unit v)) \<le> max_bytes then Done v else text_of_points (take_bytes max_bytes v))"

definition with_inspected_body :: "request_attributes \<Rightarrow> nat \<Rightarrow> json_parsing option \<Rightarrow> request_attributes outcome" where
  "with_inspected_body ra max_bytes jp =
     obind (truncate_utf8 (req_body (http_attrs ra)) max_bytes) (\<lambda>body.
       obind (merge_params (req_query (http_attrs ra)) body (req_headers (http_attrs ra)) None
                (case jp of None \<Rightarrow> Some JsonDisabled | Some m \<Rightarrow> Some m)) (\<lambda>params.
         Done (ra\<lparr>http_attrs := (http_attrs ra)\<lparr>req_body := body, req_params := params\<rparr>\<rparr>)))"

definition or_empty :: "string option \<Rightarrow> string" where
  "or_empty v = (case v of None \<Rightarrow> [] | Some s \<Rightarrow> s)"

definition build_request_attributes :: "string \<Rightarrow> attribute_input \<Rightarrow> armor_error + request_attributes outcome" where
  "build_request_attributes object_text inp =
     (case canonicalize_ip (in_origin_ip inp) of
        Inl e \<Rightarrow> Inl e
      | Inr ip \<Rightarrow>
          let headers = normalize_headers object_text (case in_headers inp of None \<Rightarrow> [] | Some h \<Rightarrow> h);
              query = or_empty (in_query inp); body = or_empty (in_body inp);
              resolved = resolve_user_ip headers (in_user_ip_headers inp)
          in Inr (obind (merge_params query body headers (in_params inp) (in_json_parsing inp)) (\<lambda>params. Done \<lparr>
               origin_attrs = \<lparr>origin_ip = ip, user_ip = (case resolved of None \<Rightarrow> ip | Some u \<Rightarrow> u),
                 user_ip_resolved = (resolved \<noteq> None), region_code = or_empty (in_region_code inp),
                 asn = (case in_asn inp of None \<Rightarrow> 0 | Some n \<Rightarrow> n),
                 tls_ja3 = or_empty (in_ja3 inp), tls_ja4 = or_empty (in_ja4 inp)\<rparr>,
               http_attrs = \<lparr>req_headers = headers, req_method = upper_str (in_method inp), req_path = in_path inp,
                 req_query = query, req_scheme = lower_str (case in_scheme inp of None \<Rightarrow> ''http'' | Some s \<Rightarrow> s),
                 req_body = body, req_params = params\<rparr>,
               sni = or_empty (in_sni inp), waf_matches = (case in_waf inp of None \<Rightarrow> [] | Some w \<Rightarrow> w),
               adaptive_match = (in_adaptive inp = Some True)\<rparr>)))"

end
