(* ===== verification/Armor_Lexer.thy ===== *)
theory Armor_Lexer
  imports Ip_Address
begin

text \<open>
  The tokens of the rule language, \<open>tokenize\<close> and \<open>readString\<close> of
  \<open>src/src/services/compute/armor/expression.ts\<close>. The scanner runs over the rest of the source with the
  position it has reached; every token carries its span. Sources are ASCII text.
\<close>

section \<open>Tokens\<close>

datatype tok_kind =
    TIdent | TNumber | TString | TTrue | TFalse | TIn | TEq | TNe | TLe | TGe | TLt | TGt | TAnd | TOr
  | TNot | TPlus | TMinus | TDot | TComma | TColon | TLparen | TRparen | TLbrack | TRbrack | TLbrace
  | TRbrace | TEof

record token =
  tk_kind :: tok_kind
  tk_value :: string
  tk_start :: nat
  tk_end :: nat

definition mk_token :: "tok_kind \<Rightarrow> string \<Rightarrow> nat \<Rightarrow> nat \<Rightarrow> token" where
  "mk_token k v s e = \<lparr>tk_kind = k, tk_value = v, tk_start = s, tk_end = e\<rparr>"

lemma mk_token_simps [simp]:
  "tk_kind (mk_token k v s e) = k" "tk_value (mk_token k v s e) = v"
  "tk_start (mk_token k v s e) = s" "tk_end (mk_token k v s e) = e"
  by (simp_all add: mk_token_def)

abbreviation dquote :: char where "dquote \<equiv> CHR 0x22"
abbreviation squote :: char where "squote \<equiv> CHR 0x27"
abbreviation backslash :: char where "backslash \<equiv> CHR 0x5C"
abbreviation newline :: char where "newline \<equiv> CHR 0x0A"

section \<open>String literals\<close>

definition unescape :: "char \<Rightarrow> char" where
  "unescape c = (if c = CHR ''n'' then newline else if c = CHR ''t'' then CHR 0x09 else c)"

text \<open>The body of a literal up to its closing quote: the value and what follows the quote.\<close>

fun read_quoted :: "char \<Rightarrow> string \<Rightarrow> (string \<times> string) option" where
  "read_quoted q [] = None"
| "read_quoted q (c # s) =
     (if c = q then Some ([], s)
      else if c = backslash then
        (case s of
           [] \<Rightarrow> None
         | e # s' \<Rightarrow> map_option (\<lambda>(v, r). (unescape e # v, r)) (read_quoted q s'))
      else map_option (\<lambda>(v, r). (c # v, r)) (read_quoted q s))"

definition read_string :: "string \<Rightarrow> nat \<Rightarrow> armor_error + token \<times> string" where
  "read_string s i =
     (case read_quoted (hd s) (tl s) of
        None \<Rightarrow> Inl (ArmorError ''Unterminated string literal'')
      | Some (v, r) \<Rightarrow> Inr (mk_token TString v i (i + (length s - length r)), r))"

text \<open>Raw literals have no escapes.\<close>

definition read_raw :: "char \<Rightarrow> string \<Rightarrow> (string \<times> string) option" where
  "read_raw q s = (let v = takeWhile (\<lambda>c. c \<noteq> q) s in
     if length v = length s then None else Some (v, drop (Suc (length v)) s))"

section \<open>The scanner\<close>

text \<open>Operators and punctuation, two-character operators first.\<close>

fun read_operator :: "string \<Rightarrow> (tok_kind \<times> nat) option" where
  "read_operator [] = None"
| "read_operator (c # s) =
     (let next = (case s of [] \<Rightarrow> None | d # _ \<Rightarrow> Some d)
      in if c = CHR ''&'' \<and> next = Some (CHR ''&'') then Some (TAnd, 2)
         else if c = CHR ''|'' \<and> next = Some (CHR ''|'') then Some (TOr, 2)
         else if c = CHR ''='' \<and> next = Some (CHR ''='') then Some (TEq, 2)
         else if c = CHR ''!'' \<and> next = Some (CHR ''='') then Some (TNe, 2)
         else if c = CHR ''<'' \<and> next = Some (CHR ''='') then Some (TLe, 2)
         else if c = CHR ''>'' \<and> next = Some (CHR ''='') then Some (TGe, 2)
         else if c = CHR ''!'' then Some (TNot, 1)
         else if c = CHR ''<'' then Some (TLt, 1)
         else if c = CHR ''>'' then Some (TGt, 1)
         else if c = CHR ''+'' then Some (TPlus, 1)
         else if c = CHR ''-'' then Some (TMinus, 1)
         else if c = CHR ''.'' then Some (TDot, 1)
         else if c = CHR '','' then Some (TComma, 1)
         else if c = CHR '':'' then Some (TColon, 1)
         else if c = CHR ''('' then Some (TLparen, 1)
         else if c = CHR '')'' then Some (TRparen, 1)
         else if c = CHR ''['' then Some (TLbrack, 1)
         else if c = CHR '']'' then Some (TRbrack, 1)
         else if c = CHR ''{'' then Some (TLbrace, 1)
         else if c = CHR ''}'' then Some (TRbrace, 1)
         else None)"

definition word_kind :: "string \<Rightarrow> tok_kind" where
  "word_kind v = (if v = ''true'' then TTrue else if v = ''false'' then TFalse else if v = ''in'' then TIn else TIdent)"

definition is_word_start :: "char \<Rightarrow> bool" where
  "is_word_start c = (is_alpha c \<or> c = CHR ''_'')"

definition is_word_char :: "char \<Rightarrow> bool" where
  "is_word_char c = (is_alpha c \<or> is_digit c \<or> c = CHR ''_'')"

definition is_number_char :: "char \<Rightarrow> bool" where
  "is_number_char c = (is_digit c \<or> c = CHR ''.'')"

text \<open>One step of the loop: skip \<open>n\<close> characters, or emit a token and go on behind it.\<close>

datatype scan_step =
    Skip string
  | Emit token string
  | Fail armor_error

definition scan_one :: "nat \<Rightarrow> string \<Rightarrow> scan_step" where
  "scan_one i s =
     (let c = hd s; next = (case tl s of [] \<Rightarrow> None | d # _ \<Rightarrow> Some d)
      in if is_space c then Skip (tl s)
         else if starts_with s ''//'' then Skip (dropWhile (\<lambda>d. d \<noteq> newline) s)
         else if (c = CHR ''R'' \<or> c = CHR ''r'') \<and> (next = Some dquote \<or> next = Some squote) then
           (case read_raw (the next) (tl (tl s)) of
              None \<Rightarrow> Fail (ArmorError ''Unterminated raw string literal'')
            | Some (v, r) \<Rightarrow> Emit (mk_token TString v i (i + (length s - length r))) r)
         else if c = dquote \<or> c = squote then
           (case read_string s i of Inl e \<Rightarrow> Fail e | Inr (t, r) \<Rightarrow> Emit t r)
         else (case read_operator s of
                 Some (k, n) \<Rightarrow> Emit (mk_token k (take n s) i (i + n)) (drop n s)
               | None \<Rightarrow>
                   if is_digit c then
                     (let v = takeWhile is_number_char s
                      in Emit (mk_token TNumber v i (i + length v)) (drop (length v) s))
                   else if is_word_start c then
                     (let v = takeWhile is_word_char s
                      in Emit (mk_token (word_kind v) v i (i + length v)) (drop (length v) s))
                   else Fail (ArmorError (''Unexpected character '' @ [squote, c, squote] @ '' in expression''))))"

lemma read_quoted_suffix: "read_quoted q s = Some (v, r) \<Longrightarrow> \<exists>p. s = p @ r"
proof (induction q s arbitrary: v r rule: read_quoted.induct)
  case (2 q c s)
  then show ?case by (auto split: if_splits list.splits) (metis append_Cons)+
qed simp

lemma read_raw_suffix: "read_raw q s = Some (v, r) \<Longrightarrow> \<exists>p. s = p @ r"
  by (auto simp: read_raw_def Let_def split: if_splits) (metis append_take_drop_id)

lemma read_operator_length: "read_operator s = Some (k, n) \<Longrightarrow> 0 < n \<and> n \<le> length s \<and> k \<noteq> TEof"
  by (cases s; cases "tl s") (auto simp: Let_def split: if_splits)

text \<open>A step consumes a non-empty prefix; a token covers it and, unless it is a string, spells it.\<close>

definition advances :: "nat \<Rightarrow> string \<Rightarrow> scan_step \<Rightarrow> bool" where
  "advances i s st = (case st of
     Skip r \<Rightarrow> (\<exists>p. p \<noteq> [] \<and> s = p @ r)
   | Emit t r \<Rightarrow> (\<exists>p. p \<noteq> [] \<and> s = p @ r \<and> tk_start t = i \<and> tk_end t = i + length p \<and> tk_kind t \<noteq> TEof \<and>
       (tk_kind t \<noteq> TString \<longrightarrow> tk_value t = p))
   | Fail e \<Rightarrow> True)"

lemma advances_Skip: "p \<noteq> [] \<Longrightarrow> s = p @ r \<Longrightarrow> advances i s (Skip r)"
  by (auto simp: advances_def)

lemma advances_string: "p \<noteq> [] \<Longrightarrow> s = p @ r \<Longrightarrow> advances i s (Emit (mk_token TString v i (i + (length s - length r))) r)"
  by (auto simp: advances_def)

lemma advances_word:
  "k \<noteq> TEof \<Longrightarrow> 0 < n \<Longrightarrow> n \<le> length s \<Longrightarrow> advances i s (Emit (mk_token k (take n s) i (i + n)) (drop n s))"
  by (auto simp: advances_def intro!: exI [of _ "take n s"])

lemma advances_while:
  "k \<noteq> TEof \<Longrightarrow> P c \<Longrightarrow> s = c # s' \<Longrightarrow>
     advances i s (Emit (mk_token k (takeWhile P s) i (i + length (takeWhile P s))) (drop (length (takeWhile P s)) s))"
  by (auto simp: advances_def dropWhile_eq_drop [symmetric] intro!: exI [of _ "takeWhile P s"])

lemma advances_Fail [simp]: "advances i s (Fail e)"
  by (simp add: advances_def)

lemma scan_one_advances:
  assumes "s \<noteq> []"
  shows "advances i s (scan_one i s)"
proof -
  obtain c s' where s: "s = c # s'" using assms by (cases s) auto
  let ?next = "case s' of [] \<Rightarrow> None | d # _ \<Rightarrow> Some d"
  consider (space) "is_space c"
    | (comment) "\<not> is_space c" "starts_with s ''//''"
    | (raw) "\<not> is_space c" "\<not> starts_with s ''//''"
        "(c = CHR ''R'' \<or> c = CHR ''r'') \<and> (?next = Some dquote \<or> ?next = Some squote)"
    | (quoted) "\<not> is_space c" "\<not> starts_with s ''//''"
        "\<not> ((c = CHR ''R'' \<or> c = CHR ''r'') \<and> (?next = Some dquote \<or> ?next = Some squote))"
        "c = dquote \<or> c = squote"
    | (other) "\<not> is_space c" "\<not> starts_with s ''//''"
        "\<not> ((c = CHR ''R'' \<or> c = CHR ''r'') \<and> (?next = Some dquote \<or> ?next = Some squote))"
        "\<not> (c = dquote \<or> c = squote)"
    by blast
  then show ?thesis
  proof cases
    case space
    then show ?thesis using advances_Skip [of "[c]" s s'] by (simp add: scan_one_def s Let_def)
  next
    case comment
    then have "c \<noteq> newline" by (auto simp: s starts_with_conv)
    then have "takeWhile (\<lambda>d. d \<noteq> newline) s \<noteq> []" by (simp add: s)
    then have "advances i s (Skip (dropWhile (\<lambda>d. d \<noteq> newline) s))"
      by (rule advances_Skip) simp
    with comment show ?thesis by (simp add: scan_one_def s Let_def)
  next
    case raw
    have "advances i s (Emit (mk_token TString v i (i + (length s - length r))) r)"
      if rr: "read_raw q (tl s') = Some (v, r)" for q v r
    proof -
      obtain d s'' where d: "s' = d # s''" using raw(3) by (cases s') auto
      obtain p where "s'' = p @ r" using read_raw_suffix [OF rr] d by auto
      with d show ?thesis by (intro advances_string [where p = "c # d # p"]) (simp_all add: s)
    qed
    then show ?thesis
      unfolding scan_one_def s list.sel Let_def if_not_P [OF raw(1)] if_not_P [OF raw(2) [unfolded s]] if_P [OF raw(3)]
      by (auto simp: s split: option.splits)
  next
    case quoted
    have "advances i s (Emit (mk_token TString v i (i + (length s - length r))) r)"
      if rq: "read_quoted q s' = Some (v, r)" for q v r
    proof -
      obtain p where "s' = p @ r" using read_quoted_suffix [OF rq] by blast
      then show ?thesis by (intro advances_string [where p = "c # p"]) (simp_all add: s)
    qed
    then show ?thesis
      unfolding scan_one_def s list.sel Let_def if_not_P [OF quoted(1)] if_not_P [OF quoted(2) [unfolded s]]
        if_not_P [OF quoted(3)] if_P [OF quoted(4)] read_string_def
      by (auto simp: s split: option.splits)
  next
    case other
    have eq: "scan_one i s = (case read_operator s of
                 Some (k, n) \<Rightarrow> Emit (mk_token k (take n s) i (i + n)) (drop n s)
               | None \<Rightarrow>
                   if is_digit c then
                     Emit (mk_token TNumber (takeWhile is_number_char s) i (i + length (takeWhile is_number_char s)))
                       (drop (length (takeWhile is_number_char s)) s)
                   else if is_word_start c then
                     Emit (mk_token (word_kind (takeWhile is_word_char s)) (takeWhile is_word_char s) i
                        (i + length (takeWhile is_word_char s))) (drop (length (takeWhile is_word_char s)) s)
                   else Fail (ArmorError (''Unexpected character '' @ [squote, c, squote] @ '' in expression'')))"
      unfolding scan_one_def s list.sel Let_def if_not_P [OF other(1)] if_not_P [OF other(2) [unfolded s]]
        if_not_P [OF other(3)] if_not_P [OF other(4)] ..
    show ?thesis
    proof (cases "read_operator s")
      case (Some kn)
      then have "0 < snd kn \<and> snd kn \<le> length s \<and> fst kn \<noteq> TEof"
        using read_operator_length [of s "fst kn" "snd kn"] by simp
      then show ?thesis unfolding eq Some by (cases kn) (simp add: advances_word)
    next
      case None
      have "is_digit c \<Longrightarrow> is_number_char c" "is_word_start c \<Longrightarrow> is_word_char c"
        by (auto simp: is_word_start_def is_word_char_def is_number_char_def)
      moreover have "word_kind v \<noteq> TEof" for v by (simp add: word_kind_def)
      ultimately show ?thesis
        unfolding eq None option.case using advances_while s by simp
    qed
  qed
qed

lemma scan_one_Skip: "s \<noteq> [] \<Longrightarrow> scan_one i s = Skip r \<Longrightarrow> \<exists>p. p \<noteq> [] \<and> s = p @ r"
  using scan_one_advances [of s i] by (simp add: advances_def)

lemma scan_one_Emit: "s \<noteq> [] \<Longrightarrow> scan_one i s = Emit t r \<Longrightarrow>
    \<exists>p. p \<noteq> [] \<and> s = p @ r \<and> tk_start t = i \<and> tk_end t = i + length p \<and> tk_kind t \<noteq> TEof \<and>
        (tk_kind t \<noteq> TString \<longrightarrow> tk_value t = p)"
  using scan_one_advances [of s i] by (simp add: advances_def)

function scan :: "nat \<Rightarrow> string \<Rightarrow> armor_error + token list" where
  "scan i s =
     (if s = [] then Inr [mk_token TEof [] i i]
      else case scan_one i s of
             Skip r \<Rightarrow> scan (i + (length s - length r)) r
           | Emit t r \<Rightarrow>
               (case scan (i + (length s - length r)) r of Inl e \<Rightarrow> Inl e | Inr ts \<Rightarrow> Inr (t # ts))
           | Fail e \<Rightarrow> Inl e)"
  by pat_completeness auto
termination
proof (relation "measure (\<lambda>(i, s). length s)")
  fix i s r assume "s \<noteq> []" "scan_one i s = Skip r"
  then show "((i + (length s - length r), r), (i, s)) \<in> measure (\<lambda>(i, s). length s)"
    using scan_one_Skip [of s i r] by auto
next
  fix i s t r assume "s \<noteq> []" "scan_one i s = Emit t r"
  then show "((i + (length s - length r), r), (i, s)) \<in> measure (\<lambda>(i, s). length s)"
    using scan_one_Emit [of s i t r] by auto
qed simp

declare scan.simps [simp del]

definition tokenize :: "string \<Rightarrow> armor_error + token list" where
  "tokenize source = scan 0 source"

section \<open>Spans\<close>

definition token_fits :: "nat \<Rightarrow> string \<Rightarrow> token \<Rightarrow> bool" where
  "token_fits i s t \<longleftrightarrow> i \<le> tk_start t \<and> tk_start t < tk_end t \<and> tk_end t \<le> i + length s \<and> tk_kind t \<noteq> TEof \<and>
     (tk_kind t \<noteq> TString \<longrightarrow> tk_value t = substring s (tk_start t - i) (tk_end t - i))"

lemma token_fits_shift:
  assumes "token_fits (i + length p) r t"
  shows "token_fits i (p @ r) t"
  using assms by (auto simp: token_fits_def substring_def)

lemma scan_Skip: "s \<noteq> [] \<Longrightarrow> scan_one i s = Skip r \<Longrightarrow> s = p @ r \<Longrightarrow> scan i s = scan (i + length p) r"
  by (subst scan.simps) auto

lemma scan_Emit:
  "s \<noteq> [] \<Longrightarrow> scan_one i s = Emit t r \<Longrightarrow> s = p @ r \<Longrightarrow>
     scan i s = (case scan (i + length p) r of Inl e \<Rightarrow> Inl e | Inr ts \<Rightarrow> Inr (t # ts))"
  by (subst scan.simps) auto

lemma scan_spans:
  "scan i s = Inr ts \<Longrightarrow> \<exists>us. ts = us @ [mk_token TEof [] (i + length s) (i + length s)] \<and>
     (\<forall>t \<in> set us. token_fits i s t) \<and> sorted_wrt (\<lambda>a b. tk_end a \<le> tk_start b) us"
proof (induction i s arbitrary: ts rule: scan.induct)
  case (1 i s)
  show ?case
  proof (cases "s = []")
    case True
    with 1(3) show ?thesis by (subst (asm) scan.simps) auto
  next
    case False
    show ?thesis
    proof (cases "scan_one i s")
      case (Skip r)
      obtain p where p: "s = p @ r" using scan_one_Skip [OF False Skip] by blast
      have "scan (i + length p) r = Inr ts"
        using 1(3) scan_Skip [OF False Skip p] by simp
      with 1(1) [OF False Skip] p obtain us where
          "ts = us @ [mk_token TEof [] (i + length s) (i + length s)]"
          "\<forall>t \<in> set us. token_fits (i + length p) r t" "sorted_wrt (\<lambda>a b. tk_end a \<le> tk_start b) us"
        by (auto simp: add.assoc)
      with p show ?thesis using token_fits_shift by blast
    next
      case (Emit t r)
      obtain p where p: "p \<noteq> []" "s = p @ r" "tk_start t = i" "tk_end t = i + length p" "tk_kind t \<noteq> TEof"
          "tk_kind t \<noteq> TString \<longrightarrow> tk_value t = p"
        using scan_one_Emit [OF False Emit] by blast
      obtain ts' where ts': "scan (i + length p) r = Inr ts'" "ts = t # ts'"
        using 1(3) scan_Emit [OF False Emit p(2)] by (auto split: sum.splits)
      with 1(2) [OF False Emit] p(2) obtain us where us:
          "ts' = us @ [mk_token TEof [] (i + length s) (i + length s)]"
          "\<forall>u \<in> set us. token_fits (i + length p) r u" "sorted_wrt (\<lambda>a b. tk_end a \<le> tk_start b) us"
        by (auto simp: add.assoc)
      have "token_fits i s t" using p by (auto simp: token_fits_def substring_def)
      moreover have "\<forall>u \<in> set us. token_fits i s u" using us(2) p(2) token_fits_shift by blast
      moreover have "\<forall>u \<in> set us. tk_end t \<le> tk_start u" using us(2) p(4) by (auto simp: token_fits_def)
      ultimately show ?thesis using us ts'(2) by (intro exI [of _ "t # us"]) simp
    next
      case (Fail e)
      with 1(3) False show ?thesis by (subst (asm) scan.simps) simp
    qed
  qed
qed

section \<open>Properties\<close>

text \<open>C13: Tokens cover the source in order. The tokens of a source end with one end-of-input token at its
  length; the others lie inside the source, are non-empty, do not overlap and come in source order, and
  every token but a string literal spells exactly the characters of its span.\<close>

theorem tokenize_spans:
  assumes "tokenize source = Inr ts"
  shows "\<exists>us. ts = us @ [mk_token TEof [] (length source) (length source)] \<and>
     sorted_wrt (\<lambda>a b. tk_end a \<le> tk_start b) us \<and>
     (\<forall>t \<in> set us. tk_start t < tk_end t \<and> tk_end t \<le> length source \<and> tk_kind t \<noteq> TEof \<and>
        (tk_kind t \<noteq> TString \<longrightarrow> tk_value t = substring source (tk_start t) (tk_end t)))"
proof -
  obtain us where us: "ts = us @ [mk_token TEof [] (length source) (length source)]"
      "\<forall>t \<in> set us. token_fits 0 source t" "sorted_wrt (\<lambda>a b. tk_end a \<le> tk_start b) us"
    using scan_spans [of 0 source ts] assms by (auto simp: tokenize_def)
  then show ?thesis by (intro exI [of _ us]) (auto simp: token_fits_def)
qed

theorem tokenize_spans_witness:
  "\<exists>us. sorted_wrt (\<lambda>a b. tk_end a \<le> tk_start b) us \<and> length us = 3 \<and>
     tokenize ''int == 7'' = Inr (us @ [mk_token TEof [] 8 8])"
proof -
  let ?ts = "[mk_token TIdent ''int'' 0 3, mk_token TEq ''=='' 4 6, mk_token TNumber ''7'' 7 8, mk_token TEof [] 8 8]"
  have "tokenize ''int == 7'' = Inr ?ts" by code_simp
  from tokenize_spans [OF this] obtain us where
      "?ts = us @ [mk_token TEof [] 8 8]" "sorted_wrt (\<lambda>a b. tk_end a \<le> tk_start b) us" by auto
  with \<open>tokenize ''int == 7'' = Inr ?ts\<close> show ?thesis
    by (intro exI [of _ us]) (metis append1_eq_conv append_Cons append_Nil length_Cons list.size(3) numeral_3_eq_3)
qed

end
