(* ===== verification/Armor_Parser.thy ===== *)
theory Armor_Parser
  imports Armor_Lexer
begin

text \<open>
  The recursive-descent parser of \<open>src/src/services/compute/armor/expression.ts\<close> (class \<open>Parser\<close>). The
  only cycle of its methods runs through \<open>parseOr\<close>, so every other method is a function of the parser
  \<open>po\<close> used for nested expressions; \<open>parse_or\<close> ties the knot with fuel. \<open>None\<close> is "out of fuel", which
  \<open>parse_or_total\<close> excludes when the fuel exceeds the number of tokens.
\<close>

section \<open>Syntax trees\<close>

datatype lit_value = LitBool bool | LitNum rat | LitStr string

datatype unary_op = OpNot | OpNeg

datatype binary_op = OpOr | OpAnd | OpEq | OpNe | OpLt | OpGt | OpLe | OpGe | OpAdd

text \<open>The last two arguments of a node are its span.\<close>

datatype ast =
    Lit lit_value nat nat
  | Ident string nat nat
  | Member ast string nat nat
  | Index ast ast nat nat
  | Call ast "ast list" nat nat
  | Unary unary_op ast nat nat
  | Binary binary_op ast ast nat nat
  | ListLit "ast list" nat nat
  | MapLit "(ast \<times> ast) list" nat nat

fun ast_start :: "ast \<Rightarrow> nat" where
  "ast_start (Lit v s e) = s" | "ast_start (Ident n s e) = s" | "ast_start (Member a n s e) = s"
| "ast_start (Index a b s e) = s" | "ast_start (Call a bs s e) = s" | "ast_start (Unary op a s e) = s"
| "ast_start (Binary op a b s e) = s" | "ast_start (ListLit as s e) = s" | "ast_start (MapLit es s e) = s"

fun ast_end :: "ast \<Rightarrow> nat" where
  "ast_end (Lit v s e) = e" | "ast_end (Ident n s e) = e" | "ast_end (Member a n s e) = e"
| "ast_end (Index a b s e) = e" | "ast_end (Call a bs s e) = e" | "ast_end (Unary op a s e) = e"
| "ast_end (Binary op a b s e) = e" | "ast_end (ListLit as s e) = e" | "ast_end (MapLit es s e) = e"

fun with_span :: "ast \<Rightarrow> nat \<Rightarrow> nat \<Rightarrow> ast" where
  "with_span (Lit v _ _) s e = Lit v s e"
| "with_span (Ident n _ _) s e = Ident n s e"
| "with_span (Member a n _ _) s e = Member a n s e"
| "with_span (Index a b _ _) s e = Index a b s e"
| "with_span (Call a bs _ _) s e = Call a bs s e"
| "with_span (Unary op a _ _) s e = Unary op a s e"
| "with_span (Binary op a b _ _) s e = Binary op a b s e"
| "with_span (ListLit as _ _) s e = ListLit as s e"
| "with_span (MapLit es _ _) s e = MapLit es s e"

section \<open>Parsing steps\<close>

type_synonym 'a parse_result = "(armor_error + 'a \<times> token list) option"

definition pbind :: "'a parse_result \<Rightarrow> ('a \<Rightarrow> token list \<Rightarrow> 'b parse_result) \<Rightarrow> 'b parse_result" where
  "pbind r f = (case r of
     None \<Rightarrow> None
   | Some (Inl e) \<Rightarrow> Some (Inl e)
   | Some (Inr (a, ts)) \<Rightarrow> f a ts)"

definition peek :: "token list \<Rightarrow> token" where
  "peek ts = (case ts of [] \<Rightarrow> mk_token TEof [] 0 0 | t # _ \<Rightarrow> t)"

definition advance :: "token list \<Rightarrow> token list" where
  "advance ts = (case ts of [] \<Rightarrow> [] | t # r \<Rightarrow> if tk_kind t = TEof then ts else r)"

fun kind_name :: "tok_kind \<Rightarrow> string" where
  "kind_name TIdent = ''ident''" | "kind_name TNumber = ''number''" | "kind_name TString = ''string''"
| "kind_name TTrue = ''true''" | "kind_name TFalse = ''false''" | "kind_name TIn = ''in''"
| "kind_name TEq = ''eq''" | "kind_name TNe = ''ne''" | "kind_name TLe = ''le''" | "kind_name TGe = ''ge''"
| "kind_name TLt = ''lt''" | "kind_name TGt = ''gt''" | "kind_name TAnd = ''and''" | "kind_name TOr = ''or''"
| "kind_name TNot = ''not''" | "kind_name TPlus = ''plus''" | "kind_name TMinus = ''minus''"
| "kind_name TDot = ''dot''" | "kind_name TComma = ''comma''" | "kind_name TColon = ''colon''"
| "kind_name TLparen = ''lparen''" | "kind_name TRparen = ''rparen''" | "kind_name TLbrack = ''lbrack''"
| "kind_name TRbrack = ''rbrack''" | "kind_name TLbrace = ''lbrace''" | "kind_name TRbrace = ''rbrace''"
| "kind_name TEof = ''eof''"

definition unexpected :: "token \<Rightarrow> armor_error" where
  "unexpected t = ArmorError (''Unexpected token '' @ [squote] @ tk_value t @ [squote])"

definition expect_tok :: "tok_kind \<Rightarrow> token list \<Rightarrow> token parse_result" where
  "expect_tok k ts =
     (if tk_kind (peek ts) \<noteq> k
      then Some (Inl (ArmorError (''Expected '' @ kind_name k @ '' but found '' @ [squote] @ tk_value (peek ts) @ [squote])))
      else Some (Inr (peek ts, advance ts)))"

text \<open>A left-associative chain of one operator, \<open>parseOr\<close>, \<open>parseAnd\<close> and \<open>parseAdd\<close>.\<close>

fun binary_loop :: "nat \<Rightarrow> tok_kind \<Rightarrow> binary_op \<Rightarrow> (token list \<Rightarrow> ast parse_result) \<Rightarrow> ast \<Rightarrow> token list \<Rightarrow>
    ast parse_result" where
  "binary_loop 0 k op sub left ts = None"
| "binary_loop (Suc n) k op sub left ts =
     (if tk_kind (peek ts) = k
      then pbind (sub (advance ts))
             (\<lambda>right ts'. binary_loop n k op sub (Binary op left right (ast_start left) (ast_end right)) ts')
      else Some (Inr (left, ts)))"

definition left_assoc :: "nat \<Rightarrow> tok_kind \<Rightarrow> binary_op \<Rightarrow> (token list \<Rightarrow> ast parse_result) \<Rightarrow> token list \<Rightarrow>
    ast parse_result" where
  "left_assoc n k op sub ts = pbind (sub ts) (binary_loop n k op sub)"

text \<open>Comma-separated items after the first.\<close>

fun comma_loop :: "nat \<Rightarrow> (token list \<Rightarrow> 'a parse_result) \<Rightarrow> 'a list \<Rightarrow> token list \<Rightarrow> 'a list parse_result" where
  "comma_loop 0 item acc ts = None"
| "comma_loop (Suc n) item acc ts =
     (if tk_kind (peek ts) = TComma
      then pbind (item (advance ts)) (\<lambda>a ts'. comma_loop n item (acc @ [a]) ts')
      else Some (Inr (acc, ts)))"

definition parse_items :: "nat \<Rightarrow> (token list \<Rightarrow> 'a parse_result) \<Rightarrow> token list \<Rightarrow> 'a list parse_result" where
  "parse_items n item ts = pbind (item ts) (\<lambda>a ts'. comma_loop n item [a] ts')"

text \<open>The argument list and the end of its closing parenthesis.\<close>

definition parse_arg_list :: "nat \<Rightarrow> (token list \<Rightarrow> ast parse_result) \<Rightarrow> token list \<Rightarrow> (ast list \<times> nat) parse_result" where
  "parse_arg_list n po ts =
     pbind (expect_tok TLparen ts) (\<lambda>open_tok ts1.
       if tk_kind (peek ts1) = TRparen then Some (Inr (([], tk_end (peek ts1)), advance ts1))
       else pbind (parse_items n po ts1) (\<lambda>args ts2.
              pbind (expect_tok TRparen ts2) (\<lambda>close ts3. Some (Inr ((args, tk_end close), ts3)))))"

definition parse_list :: "nat \<Rightarrow> (token list \<Rightarrow> ast parse_result) \<Rightarrow> token list \<Rightarrow> ast parse_result" where
  "parse_list n po ts =
     pbind (expect_tok TLbrack ts) (\<lambda>open_tok ts1.
       pbind (if tk_kind (peek ts1) \<noteq> TRbrack then parse_items n po ts1 else Some (Inr ([], ts1))) (\<lambda>elements ts2.
         pbind (expect_tok TRbrack ts2) (\<lambda>close ts3.
           Some (Inr (ListLit elements (tk_start open_tok) (tk_end close), ts3)))))"

definition parse_map_entry :: "(token list \<Rightarrow> ast parse_result) \<Rightarrow> token list \<Rightarrow> (ast \<times> ast) parse_result" where
  "parse_map_entry po ts =
     (let t = peek ts
      in pbind (if tk_kind t = TIdent \<or> tk_kind t = TString
                then Some (Inr (Lit (LitStr (tk_value t)) (tk_start t) (tk_end t), advance ts))
                else po ts)
           (\<lambda>key ts1. pbind (expect_tok TColon ts1) (\<lambda>colon ts2. pbind (po ts2) (\<lambda>v ts3. Some (Inr ((key, v), ts3))))))"

definition parse_map :: "nat \<Rightarrow> (token list \<Rightarrow> ast parse_result) \<Rightarrow> token list \<Rightarrow> ast parse_result" where
  "parse_map n po ts =
     pbind (expect_tok TLbrace ts) (\<lambda>open_tok ts1.
       pbind (if tk_kind (peek ts1) \<noteq> TRbrace then parse_items n (parse_map_entry po) ts1 else Some (Inr ([], ts1)))
         (\<lambda>entries ts2.
           pbind (expect_tok TRbrace ts2) (\<lambda>close ts3.
             Some (Inr (MapLit entries (tk_start open_tok) (tk_end close), ts3)))))"

text \<open>
  \<open>Number.parseInt\<close> and \<open>Number.parseFloat\<close> on the text of a number token, digits and dots that start
  with a digit: the digits before the first dot, and those between it and a second one.
\<close>

definition number_value :: "string \<Rightarrow> rat" where
  "number_value v =
     (let whole = takeWhile is_digit v;
          frac = takeWhile is_digit (drop (Suc (length whole)) v)
      in of_nat (dec_value whole) + of_nat (dec_value frac) / 10 ^ length frac)"

definition parse_primary :: "nat \<Rightarrow> (token list \<Rightarrow> ast parse_result) \<Rightarrow> token list \<Rightarrow> ast parse_result" where
  "parse_primary n po ts =
     (let t = peek ts; lit = (\<lambda>v. Some (Inr (Lit v (tk_start t) (tk_end t), advance ts)))
      in case tk_kind t of
           TTrue \<Rightarrow> lit (LitBool True)
         | TFalse \<Rightarrow> lit (LitBool False)
         | TString \<Rightarrow> lit (LitStr (tk_value t))
         | TNumber \<Rightarrow> lit (LitNum (number_value (tk_value t)))
         | TIdent \<Rightarrow> Some (Inr (Ident (tk_value t) (tk_start t) (tk_end t), advance ts))
         | TLparen \<Rightarrow>
             pbind (po (advance ts)) (\<lambda>inner ts1.
               pbind (expect_tok TRparen ts1) (\<lambda>close ts2.
                 Some (Inr (with_span inner (tk_start t) (tk_end close), ts2))))
         | TLbrack \<Rightarrow> parse_list n po ts
         | TLbrace \<Rightarrow> parse_map n po ts
         | _ \<Rightarrow> Some (Inl (unexpected t)))"

fun postfix_loop :: "nat \<Rightarrow> (token list \<Rightarrow> ast parse_result) \<Rightarrow> ast \<Rightarrow> token list \<Rightarrow> ast parse_result" where
  "postfix_loop 0 po expr ts = None"
| "postfix_loop (Suc n) po expr ts =
     (if tk_kind (peek ts) = TDot then
        pbind (expect_tok TIdent (advance ts)) (\<lambda>name ts1.
          postfix_loop n po (Member expr (tk_value name) (ast_start expr) (tk_end name)) ts1)
      else if tk_kind (peek ts) = TLbrack then
        pbind (po (advance ts)) (\<lambda>key ts1.
          pbind (expect_tok TRbrack ts1) (\<lambda>close ts2.
            postfix_loop n po (Index expr key (ast_start expr) (tk_end close)) ts2))
      else if tk_kind (peek ts) = TLparen then
        pbind (parse_arg_list n po ts) (\<lambda>(args, e) ts1.
          postfix_loop n po (Call expr args (ast_start expr) e) ts1)
      else Some (Inr (expr, ts)))"

definition parse_postfix :: "nat \<Rightarrow> (token list \<Rightarrow> ast parse_result) \<Rightarrow> token list \<Rightarrow> ast parse_result" where
  "parse_postfix n po ts = pbind (parse_primary n po ts) (postfix_loop n po)"

fun parse_unary :: "nat \<Rightarrow> (token list \<Rightarrow> ast parse_result) \<Rightarrow> token list \<Rightarrow> ast parse_result" where
  "parse_unary 0 postfix ts = None"
| "parse_unary (Suc n) postfix ts =
     (if tk_kind (peek ts) = TNot then
        pbind (parse_unary n postfix (advance ts)) (\<lambda>arg ts1.
          Some (Inr (Unary OpNot arg (tk_start (peek ts)) (ast_end arg), ts1)))
      else if tk_kind (peek ts) = TMinus then
        pbind (parse_unary n postfix (advance ts)) (\<lambda>arg ts1.
          Some (Inr (Unary OpNeg arg (tk_start (peek ts)) (ast_end arg), ts1)))
      else postfix ts)"

definition parse_add :: "nat \<Rightarrow> (token list \<Rightarrow> ast parse_result) \<Rightarrow> token list \<Rightarrow> ast parse_result" where
  "parse_add n po = left_assoc n TPlus OpAdd (parse_unary (Suc n) (parse_postfix n po))"

fun comparison_op :: "tok_kind \<Rightarrow> binary_op option" where
  "comparison_op TEq = Some OpEq"
| "comparison_op TNe = Some OpNe"
| "comparison_op TLt = Some OpLt"
| "comparison_op TGt = Some OpGt"
| "comparison_op TLe = Some OpLe"
| "comparison_op TGe = Some OpGe"
| "comparison_op _ = None"

definition undeclared :: "string \<Rightarrow> string" where
  "undeclared name = ''undeclared reference to '' @ [squote] @ name @ [squote]"

definition parse_comparison :: "nat \<Rightarrow> (token list \<Rightarrow> ast parse_result) \<Rightarrow> token list \<Rightarrow> ast parse_result" where
  "parse_comparison n po ts =
     pbind (parse_add n po ts) (\<lambda>left ts1.
       if tk_kind (peek ts1) = TIn then Some (Inl (ArmorError (undeclared ''@in'')))
       else case comparison_op (tk_kind (peek ts1)) of
              None \<Rightarrow> Some (Inr (left, ts1))
            | Some op \<Rightarrow>
                pbind (parse_add n po (advance ts1)) (\<lambda>right ts2.
                  Some (Inr (Binary op left right (ast_start left) (ast_end right), ts2))))"

definition parse_and :: "nat \<Rightarrow> (token list \<Rightarrow> ast parse_result) \<Rightarrow> token list \<Rightarrow> ast parse_result" where
  "parse_and n po = left_assoc n TAnd OpAnd (parse_comparison n po)"

fun parse_or :: "nat \<Rightarrow> token list \<Rightarrow> ast parse_result" where
  "parse_or 0 ts = None"
| "parse_or (Suc n) ts = left_assoc n TOr OpOr (parse_and n (parse_or n)) ts"

definition parse_tokens :: "token list \<Rightarrow> (armor_error + ast) option" where
  "parse_tokens ts =
     (case parse_or (Suc (length ts)) ts of
        None \<Rightarrow> None
      | Some (Inl e) \<Rightarrow> Some (Inl e)
      | Some (Inr (a, ts')) \<Rightarrow>
          Some (if tk_kind (peek ts') \<noteq> TEof then Inl (unexpected (peek ts')) else Inr a))"

definition parse_expression_ast :: "string \<Rightarrow> armor_error + ast" where
  "parse_expression_ast source =
     (case tokenize source of
        Inl e \<Rightarrow> Inl e
      | Inr ts \<Rightarrow> the (parse_tokens ts))"

section \<open>Termination\<close>

text \<open>
  \<open>leaves n r\<close>: a step that has not run out of fuel, and whose rest, if it succeeds, has at most \<open>n\<close>
  tokens. A parser is \<open>productive N\<close> when on fewer than \<open>N\<close> tokens it ends and consumes one.
\<close>

named_theorems parse_total

definition leaves :: "nat \<Rightarrow> 'a parse_result \<Rightarrow> bool" where
  "leaves n r = (case r of None \<Rightarrow> False | Some (Inl e) \<Rightarrow> True | Some (Inr (a, ts)) \<Rightarrow> length ts \<le> n)"

definition productive :: "nat \<Rightarrow> (token list \<Rightarrow> 'a parse_result) \<Rightarrow> bool" where
  "productive N p = (\<forall>ts. length ts < N \<longrightarrow> p ts \<noteq> None \<and>
     (\<forall>a ts'. p ts = Some (Inr (a, ts')) \<longrightarrow> length ts' < length ts))"

lemma leaves_simps [simp]:
  "leaves n (Some (Inl e))" "leaves n (Some (Inr (a, ts))) \<longleftrightarrow> length ts \<le> n" "\<not> leaves n None"
  by (simp_all add: leaves_def)

lemma leaves_mono: "leaves k r \<Longrightarrow> k \<le> n \<Longrightarrow> leaves n r"
  by (auto simp: leaves_def split: option.splits sum.splits)

lemma leaves_bind:
  "leaves k r \<Longrightarrow> (\<And>a ts. length ts \<le> k \<Longrightarrow> leaves n (f a ts)) \<Longrightarrow> leaves n (pbind r f)"
  by (cases r; cases "the r") (auto simp: pbind_def)

lemma advance_length: "tk_kind (peek ts) \<noteq> TEof \<Longrightarrow> Suc (length (advance ts)) = length ts"
  by (cases ts) (auto simp: peek_def advance_def)

lemma expect_leaves: "k \<noteq> TEof \<Longrightarrow> length ts \<le> Suc n \<Longrightarrow> leaves n (expect_tok k ts)"
  using advance_length [of ts] by (auto simp: expect_tok_def)

lemma productiveD: "productive N p \<Longrightarrow> length ts < N \<Longrightarrow> length ts \<le> Suc k \<Longrightarrow> leaves k (p ts)"
  unfolding productive_def leaves_def by (fastforce split: option.splits sum.splits)

lemma productiveI:
  assumes "\<And>ts. length ts < N \<Longrightarrow> (if ts = [] then \<exists>e. p ts = Some (Inl e) else leaves (length ts - 1) (p ts))"
  shows "productive N p"
  unfolding productive_def
proof (intro allI impI)
  fix ts :: "token list" assume "length ts < N"
  from assms [OF this] show "p ts \<noteq> None \<and> (\<forall>a ts'. p ts = Some (Inr (a, ts')) \<longrightarrow> length ts' < length ts)"
    by (cases ts) (auto simp: leaves_def less_Suc_eq_le split: option.splits sum.splits if_splits)
qed

lemma productive_mono: "productive N p \<Longrightarrow> M \<le> N \<Longrightarrow> productive M p"
  by (simp add: productive_def)

lemma productive_Nil: "productive N p \<Longrightarrow> 0 < N \<Longrightarrow> \<exists>e. p [] = Some (Inl e)"
  unfolding productive_def by (metis less_nat_zero_code list.size(3) not_Some_eq old.sum.exhaust surj_pair)

lemma binary_loop_total:
  assumes "productive N sub" and "length ts < n" and "length ts \<le> N" and "k \<noteq> TEof"
  shows "leaves (length ts) (binary_loop n k op sub left ts)"
  using assms(2,3)
proof (induction n arbitrary: ts left)
  case (Suc n)
  show ?case
  proof (cases "tk_kind (peek ts) = k")
    case True
    then have len: "Suc (length (advance ts)) = length ts" using assms(4) advance_length by metis
    have "leaves (length ts - 2) (sub (advance ts))"
      using len Suc.prems by (intro productiveD [OF assms(1)]) linarith+
    moreover have "leaves (length ts) (binary_loop n k op sub l ts')" if "length ts' \<le> length ts - 2" for l ts'
      using that len Suc.prems by (intro leaves_mono [OF Suc.IH]) auto
    ultimately show ?thesis using True by (auto intro: leaves_bind)
  qed simp
qed simp

lemma left_assoc_total:
  assumes "productive N sub" and "N \<le> Suc n" and "0 < N" and "k \<noteq> TEof"
  shows "productive N (left_assoc n k op sub)"
proof (rule productiveI)
  fix ts :: "token list" assume ts: "length ts < N"
  show "if ts = [] then \<exists>e. left_assoc n k op sub ts = Some (Inl e) else leaves (length ts - 1) (left_assoc n k op sub ts)"
  proof (cases ts)
    case Nil
    with productive_Nil [OF assms(1,3)] show ?thesis by (auto simp: left_assoc_def pbind_def)
  next
    case (Cons t r)
    have "leaves (length ts - 1) (sub ts)" using Cons ts by (intro productiveD [OF assms(1)]) auto
    moreover have "leaves (length ts - 1) (binary_loop n k op sub a ts')" if "length ts' \<le> length ts - 1" for a ts'
      using that Cons ts assms
      by (intro leaves_mono [OF binary_loop_total [OF assms(1)]]) auto
    ultimately show ?thesis using Cons unfolding left_assoc_def by (auto intro: leaves_bind)
  qed
qed

lemma comma_loop_total:
  assumes "productive N item" and "length ts < n" and "length ts \<le> N"
  shows "leaves (length ts) (comma_loop n item acc ts)"
  using assms(2,3)
proof (induction n arbitrary: ts acc)
  case (Suc n)
  show ?case
  proof (cases "tk_kind (peek ts) = TComma")
    case True
    then have len: "Suc (length (advance ts)) = length ts" using advance_length [of ts] by simp
    have "leaves (length ts - 2) (item (advance ts))"
      using len Suc.prems by (intro productiveD [OF assms(1)]) linarith+
    moreover have "leaves (length ts) (comma_loop n item l ts')" if "length ts' \<le> length ts - 2" for l ts'
      using that len Suc.prems by (intro leaves_mono [OF Suc.IH]) auto
    ultimately show ?thesis using True by (auto intro: leaves_bind)
  qed simp
qed simp

lemma parse_items_total:
  assumes "productive N item" and "length ts < n" and "length ts < N"
  shows "leaves (length ts) (parse_items n item ts)"
  unfolding parse_items_def
  by (rule leaves_bind [OF productiveD [OF assms(1,3)], of "length ts"])
     (use assms in \<open>auto intro!: leaves_mono [OF comma_loop_total [OF assms(1)]]\<close>)

lemma expect_shorter: "k \<noteq> TEof \<Longrightarrow> length ts \<le> m \<Longrightarrow> leaves (m - 1) (expect_tok k ts)"
  by (cases ts) (auto simp: expect_tok_def peek_def advance_def)

lemma arg_list_total:
  assumes "productive n po" and "length ts \<le> n" and "ts \<noteq> []"
  shows "leaves (length ts - 1) (parse_arg_list n po ts)"
  unfolding parse_arg_list_def
proof (rule leaves_bind [OF expect_shorter [OF _ order_refl]])
  fix open_tok and ts1 :: "token list" assume ts1: "length ts1 \<le> length ts - 1"
  then have lt: "length ts1 < n" using assms(2,3) by (cases ts) auto
  have "leaves (length ts - 1) (pbind (parse_items n po ts1) (\<lambda>args ts2.
      pbind (expect_tok TRparen ts2) (\<lambda>close ts3. Some (Inr ((args, tk_end close), ts3)))))"
  proof (rule leaves_bind [OF parse_items_total [OF assms(1) lt lt]])
    fix args and ts2 :: "token list" assume "length ts2 \<le> length ts1"
    then show "leaves (length ts - 1) (pbind (expect_tok TRparen ts2) (\<lambda>close ts3. Some (Inr ((args, tk_end close), ts3))))"
      using ts1 by (intro leaves_bind [OF expect_shorter [of _ _ "length ts2"]]) auto
  qed
  moreover have "length (advance ts1) \<le> length ts1" by (cases ts1) (auto simp: advance_def)
  ultimately show "leaves (length ts - 1) (if tk_kind (peek ts1) = TRparen then Some (Inr (([], tk_end (peek ts1)), advance ts1))
       else pbind (parse_items n po ts1) (\<lambda>args ts2.
              pbind (expect_tok TRparen ts2) (\<lambda>close ts3. Some (Inr ((args, tk_end close), ts3)))))"
    using ts1 by auto
qed simp

text \<open>Lists and maps: an opening token, items up to a closing one.\<close>

lemma bracketed_total:
  assumes "productive n item" and "length ts \<le> n" and "ts \<noteq> []" and "k1 \<noteq> TEof" and "k2 \<noteq> TEof"
  shows "leaves (length ts - 1) (pbind (expect_tok k1 ts) (\<lambda>open_tok ts1.
       pbind (if tk_kind (peek ts1) \<noteq> k2 then parse_items n item ts1 else Some (Inr ([], ts1))) (\<lambda>xs ts2.
         pbind (expect_tok k2 ts2) (\<lambda>close ts3. Some (Inr (f xs open_tok close, ts3))))))"
proof (rule leaves_bind [OF expect_shorter [OF assms(4) order_refl]])
  fix open_tok and ts1 :: "token list" assume ts1: "length ts1 \<le> length ts - 1"
  then have lt: "length ts1 < n" using assms(2,3) by (cases ts) auto
  show "leaves (length ts - 1) (pbind (if tk_kind (peek ts1) \<noteq> k2 then parse_items n item ts1 else Some (Inr ([], ts1))) (\<lambda>xs ts2.
         pbind (expect_tok k2 ts2) (\<lambda>close ts3. Some (Inr (f xs open_tok close, ts3)))))"
  proof (rule leaves_bind)
    show "leaves (length ts1) (if tk_kind (peek ts1) \<noteq> k2 then parse_items n item ts1 else Some (Inr ([], ts1)))"
      using parse_items_total [OF assms(1) lt lt] by simp
  next
    fix xs and ts2 :: "token list" assume "length ts2 \<le> length ts1"
    then show "leaves (length ts - 1) (pbind (expect_tok k2 ts2) (\<lambda>close ts3. Some (Inr (f xs open_tok close, ts3))))"
      using ts1 by (intro leaves_bind [OF expect_shorter [OF assms(5), of _ "length ts2"]]) auto
  qed
qed

lemma map_entry_total:
  assumes "productive n po"
  shows "productive n (parse_map_entry po)"
proof (rule productiveI)
  fix ts :: "token list" assume ts: "length ts < n"
  show "if ts = [] then \<exists>e. parse_map_entry po ts = Some (Inl e) else leaves (length ts - 1) (parse_map_entry po ts)"
  proof (cases ts)
    case Nil
    with productive_Nil [OF assms] ts show ?thesis
      by (auto simp: parse_map_entry_def peek_def pbind_def Let_def)
  next
    case (Cons t r)
    have key: "leaves (length ts - 1) (if tk_kind (peek ts) = TIdent \<or> tk_kind (peek ts) = TString
                then Some (Inr (Lit (LitStr (tk_value (peek ts))) (tk_start (peek ts)) (tk_end (peek ts)), advance ts))
                else po ts)"
      using productiveD [OF assms ts, of "length ts - 1"] Cons by (auto simp: peek_def advance_def)
    have rest: "leaves (length ts - 1) (pbind (expect_tok TColon ts1) (\<lambda>colon ts2. pbind (po ts2) (\<lambda>v ts3. Some (Inr ((k, v), ts3)))))"
      if "length ts1 \<le> length ts - 1" for k ts1
    proof (rule leaves_bind [OF expect_shorter [of _ _ "length ts1"]])
      fix a and ts2 :: "token list" assume "length ts2 \<le> length ts1 - 1"
      then have "leaves (length ts2 - 1) (po ts2)" and "length ts2 - 1 \<le> length ts - 1"
        using that ts by (auto intro!: productiveD [OF assms])
      then show "leaves (length ts - 1) (pbind (po ts2) (\<lambda>v ts3. Some (Inr ((k, v), ts3))))"
        by (auto intro: leaves_bind)
    qed simp_all
    have ne: "ts \<noteq> []" using Cons by simp
    show ?thesis unfolding parse_map_entry_def Let_def if_not_P [OF ne]
      by (rule leaves_bind [OF key]) (rule rest)
  qed
qed

lemma primary_total:
  assumes "productive n po"
  shows "productive (Suc n) (parse_primary n po)"
proof (rule productiveI)
  fix ts :: "token list" assume ts: "length ts < Suc n"
  show "if ts = [] then \<exists>e. parse_primary n po ts = Some (Inl e) else leaves (length ts - 1) (parse_primary n po ts)"
  proof (cases ts)
    case Nil
    then show ?thesis by (simp add: parse_primary_def peek_def)
  next
    case (Cons t r)
    have len: "length ts \<le> n" and ne: "ts \<noteq> []" using ts Cons by auto
    have "leaves (length ts - 1) (parse_list n po ts)"
      unfolding parse_list_def by (rule bracketed_total [OF assms len ne]) simp_all
    moreover have "leaves (length ts - 1) (parse_map n po ts)"
      unfolding parse_map_def by (rule bracketed_total [OF map_entry_total [OF assms] len ne]) simp_all
    moreover have "leaves (length ts - 1) (pbind (po (advance ts)) (\<lambda>inner ts1.
               pbind (expect_tok TRparen ts1) (\<lambda>close ts2.
                 Some (Inr (with_span inner (tk_start t) (tk_end close), ts2)))))" if "tk_kind t = TLparen"
    proof (rule leaves_bind)
      show "leaves (length ts - 2) (po (advance ts))"
        using that Cons len by (intro productiveD [OF assms]) (auto simp: advance_def)
    next
      fix inner and ts1 :: "token list" assume "length ts1 \<le> length ts - 2"
      then show "leaves (length ts - 1) (pbind (expect_tok TRparen ts1) (\<lambda>close ts2.
                 Some (Inr (with_span inner (tk_start t) (tk_end close), ts2))))"
        by (intro leaves_bind [OF expect_shorter [of _ _ "length ts1"]]) auto
    qed
    ultimately show ?thesis
      using Cons unfolding parse_primary_def Let_def
      by (cases "tk_kind t") (simp_all add: peek_def advance_def)
  qed
qed

lemma postfix_loop_total:
  assumes "productive n po" and "length ts < k" and "length ts \<le> n" and "k \<le> n"
  shows "leaves (length ts) (postfix_loop k po expr ts)"
  using assms(2,3,4)
proof (induction k arbitrary: ts expr)
  case (Suc k)
  have go: "leaves (length ts) (postfix_loop k po e ts')" if "length ts' < length ts" for e ts'
    using that Suc.prems by (intro leaves_mono [OF Suc.IH]) auto
  have ne: "ts \<noteq> []" if "tk_kind (peek ts) \<noteq> TEof" using that by (auto simp: peek_def)
  consider (dot) "tk_kind (peek ts) = TDot" | (index) "tk_kind (peek ts) = TLbrack"
    | (call) "tk_kind (peek ts) = TLparen"
    | (other) "tk_kind (peek ts) \<noteq> TDot" "tk_kind (peek ts) \<noteq> TLbrack" "tk_kind (peek ts) \<noteq> TLparen" by blast
  then show ?case
  proof cases
    case dot
    then have len: "Suc (length (advance ts)) = length ts" using advance_length [of ts] by simp
    have "leaves (length ts) (pbind (expect_tok TIdent (advance ts)) (\<lambda>name ts1.
          postfix_loop k po (Member expr (tk_value name) (ast_start expr) (tk_end name)) ts1))"
    proof (rule leaves_bind [OF expect_shorter [of _ _ "length (advance ts)"]])
      fix name and ts1 :: "token list" assume "length ts1 \<le> length (advance ts) - 1"
      then show "leaves (length ts) (postfix_loop k po (Member expr (tk_value name) (ast_start expr) (tk_end name)) ts1)"
        using len by (intro go) linarith
    qed simp_all
    with dot show ?thesis by simp
  next
    case index
    then have len: "Suc (length (advance ts)) = length ts" using advance_length [of ts] by simp
    have "leaves (length ts) (pbind (po (advance ts)) (\<lambda>key ts1.
          pbind (expect_tok TRbrack ts1) (\<lambda>close ts2.
            postfix_loop k po (Index expr key (ast_start expr) (tk_end close)) ts2)))"
    proof (rule leaves_bind)
      show "leaves (length ts - 1) (po (advance ts))"
        using len Suc.prems by (intro productiveD [OF assms(1)]) linarith+
    next
      fix key and ts1 :: "token list" assume ts1: "length ts1 \<le> length ts - 1"
      show "leaves (length ts) (pbind (expect_tok TRbrack ts1) (\<lambda>close ts2.
            postfix_loop k po (Index expr key (ast_start expr) (tk_end close)) ts2))"
      proof (rule leaves_bind [OF expect_shorter [of _ _ "length ts1"]])
        fix close and ts2 :: "token list" assume "length ts2 \<le> length ts1 - 1"
        then show "leaves (length ts) (postfix_loop k po (Index expr key (ast_start expr) (tk_end close)) ts2)"
          using ts1 len by (intro go) linarith
      qed simp_all
    qed
    with index show ?thesis by simp
  next
    case call
    then have "ts \<noteq> []" using ne by simp
    have "leaves (length ts) (pbind (parse_arg_list k po ts) (\<lambda>(args, e) ts1.
          postfix_loop k po (Call expr args (ast_start expr) e) ts1))"
    proof (rule leaves_bind)
      show "leaves (length ts - 1) (parse_arg_list k po ts)"
        using Suc.prems \<open>ts \<noteq> []\<close> by (intro arg_list_total productive_mono [OF assms(1)]) auto
    next
      fix x :: "ast list \<times> nat" and ts1 :: "token list" assume "length ts1 \<le> length ts - 1"
      moreover have "0 < length ts" using \<open>ts \<noteq> []\<close> by simp
      ultimately have "length ts1 < length ts" by linarith
      then show "leaves (length ts) ((case x of (args, e) \<Rightarrow> \<lambda>ts1. postfix_loop k po (Call expr args (ast_start expr) e) ts1) ts1)"
        by (cases x) (simp add: go)
    qed
    with call show ?thesis by simp
  next
    case other
    then show ?thesis by simp
  qed
qed simp

lemma postfix_total:
  assumes "productive n po"
  shows "productive (Suc n) (parse_postfix n po)"
proof (rule productiveI)
  fix ts :: "token list" assume ts: "length ts < Suc n"
  show "if ts = [] then \<exists>e. parse_postfix n po ts = Some (Inl e) else leaves (length ts - 1) (parse_postfix n po ts)"
  proof (cases ts)
    case Nil
    then show ?thesis by (simp add: parse_postfix_def parse_primary_def peek_def pbind_def)
  next
    case (Cons t r)
    then have "leaves (length ts - 1) (parse_primary n po ts)"
      using productiveD [OF primary_total [OF assms] ts] by simp
    moreover have "leaves (length ts - 1) (postfix_loop n po e ts1)" if "length ts1 \<le> length ts - 1" for e ts1
      using that Cons ts by (intro leaves_mono [OF postfix_loop_total [OF assms]]) auto
    ultimately show ?thesis using Cons unfolding parse_postfix_def by (auto intro: leaves_bind)
  qed
qed

lemma unary_total:
  assumes "productive N p" and "0 < N"
  shows "length ts < k \<Longrightarrow> length ts < N \<Longrightarrow>
    (if ts = [] then \<exists>e. parse_unary k p ts = Some (Inl e) else leaves (length ts - 1) (parse_unary k p ts))"
proof (induction k arbitrary: ts)
  case (Suc k)
  show ?case
  proof (cases "tk_kind (peek ts) = TNot \<or> tk_kind (peek ts) = TMinus")
    case True
    then have len: "Suc (length (advance ts)) = length ts" and ne: "ts \<noteq> []"
      using advance_length [of ts] by (auto simp: peek_def)
    have "leaves (length ts - 1) (parse_unary k p (advance ts))"
    proof (cases "advance ts = []")
      case True
      then show ?thesis using Suc.IH [of "advance ts"] Suc.prems len by auto
    next
      case False
      then show ?thesis using Suc.IH [of "advance ts"] Suc.prems len by (auto intro: leaves_mono)
    qed
    then have "leaves (length ts - 1) (pbind (parse_unary k p (advance ts)) (\<lambda>arg ts1. Some (Inr (f arg, ts1))))" for f :: "ast \<Rightarrow> ast"
      by (rule leaves_bind) simp
    with True ne show ?thesis by auto
  next
    case False
    then show ?thesis
      using productiveD [OF assms(1) Suc.prems(2), of "length ts - 1"] productive_Nil [OF assms] by auto
  qed
qed simp

lemma parse_or_productive: "productive n (parse_or n)"
proof (induction n)
  case 0
  show ?case by (simp add: productive_def)
next
  case (Suc n)
  have "productive (Suc n) (parse_unary (Suc n) (parse_postfix n (parse_or n)))"
    by (intro productiveI unary_total [OF postfix_total [OF Suc]]) simp_all
  then have add: "productive (Suc n) (parse_add n (parse_or n))"
    unfolding parse_add_def by (intro left_assoc_total) simp_all
  have "productive (Suc n) (parse_comparison n (parse_or n))"
  proof (rule productiveI)
    fix ts :: "token list" assume ts: "length ts < Suc n"
    show "if ts = [] then \<exists>e. parse_comparison n (parse_or n) ts = Some (Inl e)
          else leaves (length ts - 1) (parse_comparison n (parse_or n) ts)"
    proof (cases ts)
      case Nil
      with productive_Nil [OF add] show ?thesis by (auto simp: parse_comparison_def pbind_def)
    next
      case (Cons t r)
      have first: "leaves (length ts - 1) (parse_add n (parse_or n) ts)"
        using Cons by (intro productiveD [OF add ts]) simp
      have rest: "leaves (length ts - 1)
          (if tk_kind (peek ts1) = TIn then Some (Inl (ArmorError (undeclared ''@in'')))
           else case comparison_op (tk_kind (peek ts1)) of
              None \<Rightarrow> Some (Inr (left, ts1))
            | Some op \<Rightarrow>
                pbind (parse_add n (parse_or n) (advance ts1)) (\<lambda>right ts2.
                  Some (Inr (Binary op left right (ast_start left) (ast_end right), ts2))))"
        if "length ts1 \<le> length ts - 1" for left ts1
      proof -
        have "length (advance ts1) \<le> length ts1" by (cases ts1) (auto simp: advance_def)
        then have "leaves (length ts - 1) (parse_add n (parse_or n) (advance ts1))"
          using that ts by (intro productiveD [OF add]) auto
        then show ?thesis using that by (auto intro: leaves_bind split: option.splits)
      qed
      have ne: "ts \<noteq> []" using Cons by simp
      show ?thesis
        unfolding parse_comparison_def if_not_P [OF ne] by (rule leaves_bind [OF first]) (rule rest)
    qed
  qed
  then have "productive (Suc n) (parse_and n (parse_or n))"
    unfolding parse_and_def by (intro left_assoc_total) simp_all
  then have "productive (Suc n) (left_assoc n TOr OpOr (parse_and n (parse_or n)))"
    by (intro left_assoc_total) simp_all
  then show ?case by (simp add: productive_def)
qed

section \<open>Expressions without positions\<close>

text \<open>Short forms for token lists and trees whose positions are all zero.\<close>

definition name_tok :: "string \<Rightarrow> token" where
  "name_tok v = mk_token TIdent v 0 0"

definition op_tok :: "tok_kind \<Rightarrow> token" where
  "op_tok k = mk_token k [] 0 0"

abbreviation id_node :: "string \<Rightarrow> ast" where
  "id_node v \<equiv> Ident v 0 0"

abbreviation bin :: "binary_op \<Rightarrow> ast \<Rightarrow> ast \<Rightarrow> ast" where
  "bin op l r \<equiv> Binary op l r 0 0"

lemmas parser_steps =
  parse_tokens_def left_assoc_def pbind_def peek_def advance_def expect_tok_def parse_and_def parse_comparison_def
  parse_add_def parse_postfix_def parse_primary_def name_tok_def op_tok_def Let_def

section \<open>Properties\<close>

text \<open>C14: The parser always answers. With more fuel than tokens the parser never runs out: it returns an
  error or a tree, and then it has consumed at least one token.\<close>

theorem parse_or_total:
  assumes "length ts < n"
  shows "(\<exists>e. parse_or n ts = Some (Inl e)) \<or>
         (\<exists>a rest. parse_or n ts = Some (Inr (a, rest)) \<and> length rest < length ts)"
  using parse_or_productive [of n] assms unfolding productive_def
  by (metis not_Some_eq old.prod.exhaust old.sum.exhaust)

theorem parse_or_total_witness:
  "\<exists>r. parse_or 3 [mk_token TNot ''!'' 0 1, mk_token TEof [] 1 1] = Some r"
  using parse_or_total [of "[mk_token TNot ''!'' 0 1, mk_token TEof [] 1 1]" 3] by auto


end
