(* ===== verification/Armor_Check.thy ===== *)
theory Armor_Check
  imports Armor_Parser
begin

text \<open>
  The checks a rule expression passes when it is written, and the questions the policy asks of its text:
  \<open>checkWriteTimeConstraints\<close>, \<open>validateExpression\<close>, \<open>expressionUsesBodyPhase\<close>,
  \<open>expressionUsesAddressGroup\<close>, \<open>validateSrcIpRanges\<close> and \<open>matchSrcIpRanges\<close> of
  \<open>src/src/services/compute/armor/expression.ts\<close>. The regular-expression engine is a library; it is the
  parameter \<open>re\<close>, which compiles a pattern to the message of an error or to a test of a string.
\<close>

section \<open>Names and limits\<close>

type_synonym regex_engine = "string \<Rightarrow> string + (string \<Rightarrow> bool)"

definition max_src_ip_ranges :: nat where "max_src_ip_ranges = 10"
definition max_subexpressions :: nat where "max_subexpressions = 5"
definition max_expression_chars :: nat where "max_expression_chars = 2048"
definition max_subexpression_chars :: nat where "max_subexpression_chars = 1024"
definition max_matches_per_expression :: nat where "max_matches_per_expression = 1"

definition comparison_ops :: "binary_op list" where
  "comparison_ops = [OpEq, OpNe, OpLt, OpGt, OpLe, OpGe]"

definition string_methods :: "string list" where
  "string_methods = [''contains'', ''startsWith'', ''endsWith'', ''matches'', ''lower'', ''upper'',
     ''base64Decode'', ''urlDecode'', ''urlDecodeUni'', ''utf8ToUnicode'']"

definition known_functions :: "string list" where
  "known_functions = [''inIpRange'', ''has'', ''int'', ''size'', ''evaluatePreconfiguredWaf'',
     ''evaluatePreconfiguredExpr'', ''evaluateAddressGroup'', ''evaluateOrganizationAddressGroup'',
     ''evaluateThreatIntelligence'', ''evaluateAdaptiveProtection'', ''evaluateAdaptiveProtectionAutoDeploy'']"

definition always_false_functions :: "string list" where
  "always_false_functions = [''evaluatePreconfiguredExpr'', ''evaluateOrganizationAddressGroup'',
     ''evaluateThreatIntelligence'']"

definition cel_macros :: "string list" where
  "cel_macros = [''exists'', ''exists_one'', ''all'', ''filter'', ''map'']"

definition origin_fields :: "string list" where
  "origin_fields = [''ip'', ''user_ip'', ''region_code'', ''asn'', ''tls_ja3_fingerprint'', ''tls_ja4_fingerprint'']"

definition request_fields :: "string list" where
  "request_fields = [''headers'', ''method'', ''path'', ''query'', ''scheme'', ''body'', ''params'']"

section \<open>Looking at nodes\<close>

fun children_of :: "ast \<Rightarrow> ast list" where
  "children_of (Member obj n s e) = [obj]"
| "children_of (Index obj key s e) = [obj, key]"
| "children_of (Call callee args s e) = callee # args"
| "children_of (Unary op arg s e) = [arg]"
| "children_of (Binary op l r s e) = [l, r]"
| "children_of (ListLit elements s e) = elements"
| "children_of (MapLit entries s e) = concat (map (\<lambda>(k, v). [k, v]) entries)"
| "children_of _ = []"

fun call_name :: "ast \<Rightarrow> string option" where
  "call_name (Call callee args s e) =
     (case callee of Ident n _ _ \<Rightarrow> Some n | Member obj n _ _ \<Rightarrow> Some n | _ \<Rightarrow> None)"
| "call_name _ = None"

fun string_literal_arg :: "ast \<Rightarrow> nat \<Rightarrow> string option" where
  "string_literal_arg (Call callee args s e) i =
     (if i < length args then (case args ! i of Lit (LitStr v) _ _ \<Rightarrow> Some v | _ \<Rightarrow> None) else None)"
| "string_literal_arg _ i = None"

fun is_ident :: "ast \<Rightarrow> string \<Rightarrow> bool" where
  "is_ident (Ident n s e) name = (n = name)"
| "is_ident _ name = False"

fun is_request_query :: "ast \<Rightarrow> bool" where
  "is_request_query (Member obj n s e) = (is_ident obj ''request'' \<and> n = ''query'')"
| "is_request_query _ = False"

fun request_field_name :: "ast \<Rightarrow> string option" where
  "request_field_name (Member obj n s e) = (if is_ident obj ''request'' then Some n else None)"
| "request_field_name (Index obj key s e) =
     (if is_ident obj ''request'' then (case key of Lit (LitStr v) _ _ \<Rightarrow> Some v | _ \<Rightarrow> None) else None)"
| "request_field_name _ = None"

lemma children_smaller: "c \<in> set (children_of a) \<Longrightarrow> size c < size a"
proof (cases a)
  case (Call callee args s e)
  assume "c \<in> set (children_of a)"
  then show ?thesis using Call size_list_estimation' [of c args "size c" size] by auto
next
  case (ListLit es s e)
  assume "c \<in> set (children_of a)"
  then show ?thesis using ListLit size_list_estimation' [of c es "size c" size] by auto
next
  case (MapLit es s e)
  assume "c \<in> set (children_of a)"
  then obtain k v where kv: "(k, v) \<in> set es" "c = k \<or> c = v" using MapLit by auto
  then have "size c \<le> size_prod size size (k, v)" by auto
  then have "size c \<le> size_list (size_prod size size) es"
    by (rule size_list_estimation' [OF kv(1)])
  then show ?thesis using MapLit by simp
qed auto

section \<open>Phases and address groups\<close>

definition body_functions :: "string list" where
  "body_functions = [''evaluatePreconfiguredWaf'', ''evaluatePreconfiguredExpr'']"

text \<open>What \<open>astUsesBodyPhase\<close> asks of a single node.\<close>

definition body_node :: "ast \<Rightarrow> bool" where
  "body_node a = (request_field_name a = Some ''body'' \<or> request_field_name a = Some ''params''
     \<or> (\<exists>f \<in> set body_functions. call_name a = Some f))"

function ast_uses_body_phase :: "ast \<Rightarrow> bool" where
  "ast_uses_body_phase a = (body_node a \<or> list_ex ast_uses_body_phase (children_of a))"
  by pat_completeness auto
termination by (relation "measure size") (auto dest: children_smaller)

function ast_uses_address_group :: "ast \<Rightarrow> bool" where
  "ast_uses_address_group a =
     (call_name a = Some ''evaluateAddressGroup'' \<or> list_ex ast_uses_address_group (children_of a))"
  by pat_completeness auto
termination by (relation "measure size") (auto dest: children_smaller)

declare ast_uses_body_phase.simps [simp del] ast_uses_address_group.simps [simp del]

text \<open>
  When the text does not parse, the code searches it with a regular expression. \<open>search_word\<close> tries a
  matcher at every position that starts a word (\<open>\b\<close> before a letter).
\<close>

fun search_word :: "(string \<Rightarrow> bool) \<Rightarrow> bool \<Rightarrow> string \<Rightarrow> bool" where
  "search_word p in_word [] = False"
| "search_word p in_word (c # s) = ((\<not> in_word \<and> p (c # s)) \<or> search_word p (is_word_char c) s)"

definition at_word_end :: "string \<Rightarrow> bool" where
  "at_word_end s = (s = [] \<or> \<not> is_word_char (hd s))"

abbreviation skip_space :: "string \<Rightarrow> string" where
  "skip_space \<equiv> dropWhile is_space"

definition is_quote :: "char \<Rightarrow> bool" where
  "is_quote c = (c = dquote \<or> c = squote)"

text \<open>The two alternatives behind the word \<open>request\<close>: a dot and the name, or the quoted name in brackets.\<close>

definition dotted_body :: "string \<Rightarrow> bool" where
  "dotted_body s = (starts_with s ''.'' \<and> (let r = skip_space (tl s)
     in \<exists>n \<in> set [''body'', ''params'']. starts_with r n \<and> at_word_end (drop (length n) r)))"

definition bracketed_body :: "string \<Rightarrow> bool" where
  "bracketed_body s = (starts_with s ''['' \<and> (let r = skip_space (tl s)
     in r \<noteq> [] \<and> is_quote (hd r) \<and> (\<exists>n \<in> set [''body'', ''params'']. starts_with (tl r) n \<and>
       (let q = drop (length n) (tl r) in q \<noteq> [] \<and> is_quote (hd q) \<and> starts_with (skip_space (tl q)) '']''))))"

definition body_reference :: "string \<Rightarrow> bool" where
  "body_reference s = (starts_with s ''request'' \<and>
     (let r = skip_space (drop (length ''request'') s) in dotted_body r \<or> bracketed_body r))"

definition call_of :: "string \<Rightarrow> string \<Rightarrow> bool" where
  "call_of name s = (starts_with s name \<and> starts_with (skip_space (drop (length name) s)) ''('')"

definition expression_uses_body_phase :: "string \<Rightarrow> bool" where
  "expression_uses_body_phase expression =
     (case parse_expression_ast expression of
        Inr a \<Rightarrow> ast_uses_body_phase a
      | Inl e \<Rightarrow> search_word body_reference False expression
          \<or> search_word (\<lambda>s. call_of ''evaluatePreconfiguredWaf'' s \<or> call_of ''evaluatePreconfiguredExpr'' s)
              False expression)"

definition expression_uses_address_group :: "string \<Rightarrow> bool" where
  "expression_uses_address_group expression =
     (case parse_expression_ast expression of
        Inr a \<Rightarrow> ast_uses_address_group a
      | Inl e \<Rightarrow> search_word (call_of ''evaluateAddressGroup'') False expression)"

section \<open>Regular expressions\<close>

text \<open>The loop of \<open>hasCapturingGroup\<close>; the flag is \<open>inClass\<close>.\<close>

fun capturing_from :: "bool \<Rightarrow> string \<Rightarrow> bool" where
  "capturing_from in_class [] = False"
| "capturing_from in_class (c # s) =
     (if c = backslash then (case s of [] \<Rightarrow> False | _ # s' \<Rightarrow> capturing_from in_class s')
      else if in_class then capturing_from (c \<noteq> CHR '']'') s
      else if c = CHR ''['' then capturing_from True s
      else if c = CHR ''('' then
        (if starts_with s ''?P<'' \<or> starts_with s ''?<'' then True
         else if starts_with s ''?'' then capturing_from False s
         else True)
      else capturing_from False s)"

definition has_capturing_group :: "string \<Rightarrow> bool" where
  "has_capturing_group pattern = capturing_from False pattern"

definition assert_regex_allowed :: "regex_engine \<Rightarrow> string \<Rightarrow> armor_error + unit" where
  "assert_regex_allowed re pattern =
     (if has_capturing_group pattern
      then Inl (ArmorError ''regular expression capture groups are not allowed; use (?:...) instead'')
      else case re pattern of Inl msg \<Rightarrow> Inl (ArmorError msg) | Inr test \<Rightarrow> Inr ())"

section \<open>Write-time constraints\<close>

text \<open>The variables of \<open>checkWriteTimeConstraints\<close>: the spans counted so far and the calls of \<open>matches\<close>.\<close>

type_synonym walk_state = "(nat \<times> nat) list \<times> nat"

definition undeclared_error :: "string \<Rightarrow> armor_error" where
  "undeclared_error name = ArmorError (undeclared name)"

definition query_is_string :: armor_error where
  "query_is_string = ArmorError ''request.query is a string''"

definition check_call :: "regex_engine \<Rightarrow> ast \<Rightarrow> ast \<Rightarrow> walk_state \<Rightarrow> armor_error + walk_state" where
  "check_call re node callee st =
     (let name = call_name node; spans = fst st @ [(ast_start node, ast_end node)];
          literal = (if name = Some ''matches'' then string_literal_arg node 0 else None);
          matches = (if name = Some ''matches'' then Suc (snd st) else snd st)
      in case (case literal of None \<Rightarrow> Inr () | Some pattern \<Rightarrow> assert_regex_allowed re pattern) of
           Inl e \<Rightarrow> Inl e
         | Inr _ \<Rightarrow>
             if name = Some ''query_params'' then Inl (undeclared_error ''query_params'')
             else if name \<noteq> None \<and> the name \<in> set cel_macros then Inl (undeclared_error (the name))
             else (case callee of
                     Ident n _ _ \<Rightarrow> if n \<notin> set known_functions then Inl (undeclared_error n) else Inr (spans, matches)
                   | Member obj n _ _ \<Rightarrow>
                       if n \<notin> set string_methods \<and> n \<notin> set cel_macros then Inl (undeclared_error n)
                       else Inr (spans, matches)
                   | _ \<Rightarrow> Inr (spans, matches)))"

text \<open>What \<open>walk\<close> does at a node before it goes to the children.\<close>

fun check_node :: "regex_engine \<Rightarrow> ast \<Rightarrow> walk_state \<Rightarrow> armor_error + walk_state" where
  "check_node re (Binary op l r s e) st =
     Inr (if op \<in> set comparison_ops then (fst st @ [(s, e)], snd st) else st)"
| "check_node re (Call callee args s e) st = check_call re (Call callee args s e) callee st"
| "check_node re (Ident n s e) st = (if n = ''query_params'' then Inl (undeclared_error ''query_params'') else Inr st)"
| "check_node re (Member obj n s e) st =
     (if is_request_query obj \<and> n \<notin> set string_methods then Inl query_is_string
      else if is_ident obj ''origin'' \<and> n \<notin> set origin_fields then Inl (undeclared_error n)
      else if is_ident obj ''request'' \<and> n \<notin> set request_fields then Inl (undeclared_error n)
      else Inr st)"
| "check_node re (Index obj key s e) st = (if is_request_query obj then Inl query_is_string else Inr st)"
| "check_node re _ st = Inr st"

text \<open>The nodes in the order of the walk.\<close>

function subexprs :: "ast \<Rightarrow> ast list" where
  "subexprs a = a # concat (map subexprs (children_of a))"
  by pat_completeness auto
termination by (relation "measure size") (auto dest: children_smaller)

declare subexprs.simps [simp del]

lemma subexprs_simps [simp]:
  "subexprs (Lit v s e) = [Lit v s e]"
  "subexprs (Ident n s e) = [Ident n s e]"
  "subexprs (Member a n s e) = Member a n s e # subexprs a"
  "subexprs (Index a b s e) = Index a b s e # subexprs a @ subexprs b"
  "subexprs (Call a bs s e) = Call a bs s e # subexprs a @ concat (map subexprs bs)"
  "subexprs (Unary u a s e) = Unary u a s e # subexprs a"
  "subexprs (Binary op a b s e) = Binary op a b s e # subexprs a @ subexprs b"
  "subexprs (ListLit bs s e) = ListLit bs s e # concat (map subexprs bs)"
  by (subst subexprs.simps, simp)+

abbreviation forest_size :: "ast list \<Rightarrow> nat" where
  "forest_size as \<equiv> length (concat (map subexprs as))"

lemma subexprs_length: "length (subexprs a) = Suc (forest_size (children_of a))"
  by (subst subexprs.simps) simp

function walk :: "regex_engine \<Rightarrow> ast \<Rightarrow> walk_state \<Rightarrow> armor_error + walk_state"
  and walk_children :: "regex_engine \<Rightarrow> ast list \<Rightarrow> walk_state \<Rightarrow> armor_error + walk_state" where
  "walk re a st = (case check_node re a st of Inl e \<Rightarrow> Inl e | Inr st' \<Rightarrow> walk_children re (children_of a) st')"
| "walk_children re [] st = Inr st"
| "walk_children re (a # as) st = (case walk re a st of Inl e \<Rightarrow> Inl e | Inr st' \<Rightarrow> walk_children re as st')"
  by pat_completeness auto
termination
  by (relation "measure (\<lambda>x. case x of Inl (re, a, st) \<Rightarrow> 2 * length (subexprs a)
        | Inr (re, as, st) \<Rightarrow> 2 * forest_size as + 1)")
     (auto simp: subexprs_length)

declare walk.simps [simp del] walk_children.simps [simp del]

definition check_write_time_constraints :: "regex_engine \<Rightarrow> ast \<Rightarrow> armor_error + unit" where
  "check_write_time_constraints re a =
     (case walk re a ([], 0) of
        Inl e \<Rightarrow> Inl e
      | Inr (spans, matches) \<Rightarrow>
          if length spans > max_subexpressions
          then Inl (ArmorError (''Expression count of '' @ nat_to_dec (length spans) @ '' exceeded maximum of ''
                 @ nat_to_dec max_subexpressions))
          else if matches > max_matches_per_expression
          then Inl (ArmorError ''only one matches() call is allowed per expression'')
          else if \<exists>(s, e) \<in> set spans. e - s > max_subexpression_chars
          then Inl (ArmorError (''Subexpression exceeds maximum of '' @ nat_to_dec max_subexpression_chars @ '' characters''))
          else Inr ())"

definition validate_expression :: "regex_engine \<Rightarrow> string \<Rightarrow> armor_error + unit" where
  "validate_expression re expression =
     (if length expression > max_expression_chars
      then Inl (ArmorError (''Expression exceeds maximum of '' @ nat_to_dec max_expression_chars @ '' characters''))
      else case parse_expression_ast expression of
             Inl e \<Rightarrow> Inl e
           | Inr a \<Rightarrow> check_write_time_constraints re a)"

section \<open>Source address ranges\<close>

definition validate_src_ip_ranges :: "string list \<Rightarrow> armor_error + unit" where
  "validate_src_ip_ranges ranges =
     (if length ranges > max_src_ip_ranges
      then Inl (ArmorError (''srcIpRanges exceeds maximum of '' @ nat_to_dec max_src_ip_ranges))
      else case find (\<lambda>r. r \<noteq> ''*'' \<and> \<not> is_valid_cidr r) ranges of
             Some r \<Rightarrow> Inl (ArmorError (''Invalid srcIpRange: '' @ r))
           | None \<Rightarrow> Inr ())"

fun match_src_ip_ranges :: "string \<Rightarrow> string list \<Rightarrow> bool" where
  "match_src_ip_ranges ip [] = False"
| "match_src_ip_ranges ip (r # ranges) =
     (if r = ''*'' then True else if ip_in_cidr ip r then True else match_src_ip_ranges ip ranges)"

section \<open>The walk as one pass over the nodes\<close>

fun run_checks :: "regex_engine \<Rightarrow> ast list \<Rightarrow> walk_state \<Rightarrow> armor_error + walk_state" where
  "run_checks re [] st = Inr st"
| "run_checks re (a # as) st = (case check_node re a st of Inl e \<Rightarrow> Inl e | Inr st' \<Rightarrow> run_checks re as st')"

lemma run_checks_append:
  "run_checks re (as @ bs) st = (case run_checks re as st of Inl e \<Rightarrow> Inl e | Inr st' \<Rightarrow> run_checks re bs st')"
  by (induction as arbitrary: st) (auto split: sum.splits)

lemma walk_run_checks:
  "walk re a st = run_checks re (subexprs a) st"
  "walk_children re as st = run_checks re (concat (map subexprs as)) st"
proof (induction re a st and re as st rule: walk_walk_children.induct)
  case (1 re a st)
  then show ?case by (subst walk.simps, subst subexprs.simps) (simp split: sum.splits)
next
  case (2 re st)
  then show ?case by (simp add: walk_children.simps)
next
  case (3 re a as st)
  then show ?case by (subst walk_children.simps) (simp add: run_checks_append split: sum.splits)
qed

text \<open>Which nodes count, and which the constraints permit, without the order of the code.\<close>

fun counted :: "ast \<Rightarrow> bool" where
  "counted (Binary op l r s e) = (op \<noteq> OpOr \<and> op \<noteq> OpAnd \<and> op \<noteq> OpAdd)"
| "counted (Call callee args s e) = True"
| "counted _ = False"

definition is_matches :: "ast \<Rightarrow> bool" where
  "is_matches a = (call_name a = Some ''matches'')"

definition regex_permitted :: "regex_engine \<Rightarrow> string \<Rightarrow> bool" where
  "regex_permitted re p = (\<not> has_capturing_group p \<and> \<not> isl (re p))"

fun permitted :: "regex_engine \<Rightarrow> ast \<Rightarrow> bool" where
  "permitted re (Call callee args s e) =
     ((case callee of Ident n _ _ \<Rightarrow> n \<in> set known_functions | Member obj n _ _ \<Rightarrow> n \<in> set string_methods | _ \<Rightarrow> True) \<and>
      (is_matches (Call callee args s e) \<longrightarrow>
         (\<forall>p \<in> set_option (string_literal_arg (Call callee args s e) 0). regex_permitted re p)))"
| "permitted re (Ident n s e) = (n \<noteq> ''query_params'')"
| "permitted re (Member obj n s e) =
     ((is_request_query obj \<longrightarrow> n \<in> set string_methods) \<and> (is_ident obj ''origin'' \<longrightarrow> n \<in> set origin_fields) \<and>
      (is_ident obj ''request'' \<longrightarrow> n \<in> set request_fields))"
| "permitted re (Index obj key s e) = (\<not> is_request_query obj)"
| "permitted re _ = True"

definition count_node :: "ast \<Rightarrow> walk_state \<Rightarrow> walk_state" where
  "count_node a st = (if counted a then fst st @ [(ast_start a, ast_end a)] else fst st,
     if is_matches a then Suc (snd st) else snd st)"

lemma assert_regex_allowed_iff: "assert_regex_allowed re p = Inr () \<longleftrightarrow> regex_permitted re p"
  by (auto simp: assert_regex_allowed_def regex_permitted_def split: sum.splits)

lemma known_not_macro:
  "n \<in> set known_functions \<Longrightarrow> n \<notin> set cel_macros \<and> n \<noteq> ''query_params'' \<and> n \<noteq> ''matches''"
  by (auto simp: known_functions_def cel_macros_def)

lemma method_not_macro: "n \<in> set string_methods \<Longrightarrow> n \<notin> set cel_macros \<and> n \<noteq> ''query_params''"
  by (auto simp: string_methods_def cel_macros_def)

lemma check_call_iff:
  "check_call re (Call callee args s e) callee st = Inr st' \<longleftrightarrow>
     permitted re (Call callee args s e) \<and> st' = count_node (Call callee args s e) st"
proof -
  define pat where "pat = (if is_matches (Call callee args s e) then string_literal_arg (Call callee args s e) 0 else None)"
  have pat_ok: "(case pat of None \<Rightarrow> Inr () | Some p \<Rightarrow> assert_regex_allowed re p) = Inr () \<longleftrightarrow>
      (is_matches (Call callee args s e) \<longrightarrow> (\<forall>p \<in> set_option (string_literal_arg (Call callee args s e) 0). regex_permitted re p))"
    unfolding pat_def by (simp add: assert_regex_allowed_iff split: option.splits)
  have "check_call re (Call callee args s e) callee st = Inr st' \<longleftrightarrow>
      (case pat of None \<Rightarrow> Inr () | Some p \<Rightarrow> assert_regex_allowed re p) = Inr () \<and>
      (case callee of Ident n _ _ \<Rightarrow> n \<in> set known_functions | Member obj n _ _ \<Rightarrow> n \<in> set string_methods | _ \<Rightarrow> True) \<and>
      st' = count_node (Call callee args s e) st"
    unfolding check_call_def Let_def pat_def is_matches_def
    by (cases callee)
       (auto simp: count_node_def is_matches_def dest: known_not_macro method_not_macro split: sum.splits if_splits)
  with pat_ok show ?thesis by (auto simp del: string_literal_arg.simps call_name.simps)
qed

lemma check_node_iff: "check_node re a st = Inr st' \<longleftrightarrow> permitted re a \<and> st' = count_node a st"
proof (cases a)
  case (Call callee args s e)
  then show ?thesis by (simp only: check_node.simps check_call_iff)
next
  case (Binary op l r s e)
  then show ?thesis by (cases op) (auto simp: count_node_def is_matches_def comparison_ops_def)
qed (auto simp: count_node_def is_matches_def)

lemma run_checks_iff:
  "run_checks re as st = Inr st' \<longleftrightarrow> (\<forall>a \<in> set as. permitted re a) \<and>
     fst st' = fst st @ map (\<lambda>a. (ast_start a, ast_end a)) (filter counted as) \<and>
     snd st' = snd st + length (filter is_matches as)"
proof (induction as arbitrary: st)
  case (Cons a as)
  show ?case
  proof (cases "permitted re a")
    case True
    then have "check_node re a st = Inr (count_node a st)" by (simp add: check_node_iff)
    then show ?thesis using True by (auto simp: Cons.IH) (auto simp: count_node_def)
  next
    case False
    then have "\<exists>e. check_node re a st = Inl e" by (cases "check_node re a st") (auto simp: check_node_iff)
    then show ?thesis using False by auto
  qed
qed (auto simp: prod_eq_iff)

text \<open>The two questions about phases search the same nodes.\<close>

lemma body_phase_subexprs: "ast_uses_body_phase a \<longleftrightarrow> (\<exists>b \<in> set (subexprs a). body_node b)"
  by (induction a rule: ast_uses_body_phase.induct)
     (subst ast_uses_body_phase.simps, subst subexprs.simps, auto simp: list_ex_iff)

lemma address_group_subexprs:
  "ast_uses_address_group a \<longleftrightarrow> (\<exists>b \<in> set (subexprs a). call_name b = Some ''evaluateAddressGroup'')"
  by (induction a rule: ast_uses_address_group.induct)
     (subst ast_uses_address_group.simps, subst subexprs.simps, auto simp: list_ex_iff)

section \<open>Properties\<close>

text \<open>C16: What \<open>validateExpression\<close> accepts. An expression is accepted exactly when it has at most 2048 characters,
  parses, every node is permitted (known functions and string methods only, no \<open>query_params\<close>, only the
  attributes of \<open>origin\<close> and \<open>request\<close>, literal patterns that compile and capture nothing), at most five of
  its nodes are comparisons or calls, at most one calls \<open>matches\<close>, and none of the counted ones is longer
  than 1024 characters.\<close>

theorem validate_expression_accepts:
  "validate_expression re expression = Inr () \<longleftrightarrow>
     length expression \<le> 2048 \<and>
     (\<exists>a. parse_expression_ast expression = Inr a \<and>
        (\<forall>b \<in> set (subexprs a). permitted re b) \<and>
        length (filter counted (subexprs a)) \<le> 5 \<and>
        length (filter is_matches (subexprs a)) \<le> 1 \<and>
        (\<forall>b \<in> set (filter counted (subexprs a)). ast_end b - ast_start b \<le> 1024))"
proof -
  have *: "check_write_time_constraints re a = Inr () \<longleftrightarrow>
      (\<forall>b \<in> set (subexprs a). permitted re b) \<and> length (filter counted (subexprs a)) \<le> 5 \<and>
      length (filter is_matches (subexprs a)) \<le> 1 \<and>
      (\<forall>b \<in> set (filter counted (subexprs a)). ast_end b - ast_start b \<le> 1024)" (is "?l \<longleftrightarrow> ?r") for a
  proof (cases "walk re a ([], 0)")
    case (Inl e)
    then have "\<not> (\<forall>b \<in> set (subexprs a). permitted re b)"
      using run_checks_iff [of re "subexprs a" "([], 0)" "(map (\<lambda>a. (ast_start a, ast_end a)) (filter counted (subexprs a)), length (filter is_matches (subexprs a)))"]
      by (auto simp: walk_run_checks)
    then show ?thesis using Inl by (auto simp: check_write_time_constraints_def)
  next
    case (Inr st)
    then have "(\<forall>b \<in> set (subexprs a). permitted re b)"
      and "fst st = map (\<lambda>a. (ast_start a, ast_end a)) (filter counted (subexprs a))"
      and "snd st = length (filter is_matches (subexprs a))"
      by (simp_all add: walk_run_checks run_checks_iff)
    then show ?thesis
      using Inr by (cases st) (auto simp: check_write_time_constraints_def max_subexpressions_def
        max_matches_per_expression_def max_subexpression_chars_def not_less)
  qed
  show ?thesis
    by (auto simp: validate_expression_def max_expression_chars_def * split: sum.splits)
qed

theorem validate_expression_accepts_witness:
  "validate_expression (\<lambda>p. Inr (\<lambda>s. True)) ''x||y'' = Inr ()"
proof -
  have "tokenize ''x||y'' = Inr [mk_token TIdent ''x'' 0 1, mk_token TOr ''||'' 1 3, mk_token TIdent ''y'' 3 4, mk_token TEof [] 4 4]"
    by code_simp
  then have "parse_expression_ast ''x||y'' = Inr (Binary OpOr (Ident ''x'' 0 1) (Ident ''y'' 3 4) 0 4)"
    by (simp add: parse_expression_ast_def parser_steps)
  then show ?thesis
    unfolding validate_expression_accepts by (auto simp: is_matches_def)
qed

end
