(* ===== verification/Armor_Eval.thy ===== *)
theory Armor_Eval
  imports Armor_Check Armor_Types Js_Text
begin

text \<open>
  The evaluator of rule expressions, \<open>evalAst\<close> and the functions it calls in
  \<open>src/src/services/compute/armor/expression.ts\<close>. A value that is an object carries the path by which the
  environment reaches it, or no path when the expression itself built it, so that \<open>===\<close> on objects is
  equality of references. An evaluation error is a value; \<open>BeyondModel\<close> marks the texts outside the 8-bit
  (for case and white space: outside the ASCII) range, and \<open>__proto__\<close> as the key of a map literal.
\<close>

section \<open>Values and errors\<close>

type_synonym object_ref = "string list option"

datatype evalue =
    VBool bool
  | VNum rat
  | VStr string
  | VUndef
  | VNull
  | VList object_ref "evalue list"
  | VMap object_ref "(string \<times> evalue) list"

text \<open>\<open>EvalError\<close>: an \<open>EvalRuntimeError\<close>; \<open>NativeError\<close>: an error the language throws (a \<open>TypeError\<close>).\<close>

datatype eval_error = EvalError string | NativeError | BeyondModel

type_synonym 'a eval = "eval_error + 'a"

definition ebind :: "'a eval \<Rightarrow> ('a \<Rightarrow> 'b eval) \<Rightarrow> 'b eval" where
  "ebind r f = (case r of Inl e \<Rightarrow> Inl e | Inr v \<Rightarrow> f v)"

lemma ebind_simps [simp]: "ebind (Inl e) f = Inl e" "ebind (Inr v) f = f v"
  by (simp_all add: ebind_def)

abbreviation fail :: "string \<Rightarrow> 'a eval" where
  "fail msg \<equiv> Inl (EvalError msg)"

fun of_outcome :: "string outcome \<Rightarrow> evalue eval" where
  "of_outcome (Done s) = Inr (VStr s)"
| "of_outcome Malformed = Inl NativeError"
| "of_outcome Beyond = Inl BeyondModel"

text \<open>A text whose case or white space the model knows.\<close>

definition ascii_only :: "string \<Rightarrow> string eval" where
  "ascii_only s = (if ascii_text s then Inr s else Inl BeyondModel)"

fun type_of :: "evalue \<Rightarrow> string" where
  "type_of (VBool b) = ''boolean''"
| "type_of (VNum n) = ''number''"
| "type_of (VStr s) = ''string''"
| "type_of VUndef = ''undefined''"
| "type_of _ = ''object''"

text \<open>\<open>Object.is(a, b) || a === b\<close>.\<close>

fun same_value :: "evalue \<Rightarrow> evalue \<Rightarrow> bool" where
  "same_value (VBool a) (VBool b) = (a = b)"
| "same_value (VNum a) (VNum b) = (a = b)"
| "same_value (VStr a) (VStr b) = (a = b)"
| "same_value VUndef VUndef = True"
| "same_value VNull VNull = True"
| "same_value (VList p xs) (VList q ys) = (p \<noteq> None \<and> p = q)"
| "same_value (VMap p xs) (VMap q ys) = (p \<noteq> None \<and> p = q)"
| "same_value _ _ = False"

text \<open>
  \<open>String(value)\<close>. An object with a property \<open>toString\<close> of its own, which is never a function here, has no
  primitive value.
\<close>

fun to_text :: "evalue \<Rightarrow> string eval"
  and list_texts :: "evalue list \<Rightarrow> string list eval" where
  "to_text (VBool b) = Inr (if b then ''true'' else ''false'')"
| "to_text (VNum n) = Inr (num_to_str n)"
| "to_text (VStr s) = Inr s"
| "to_text VUndef = Inr ''undefined''"
| "to_text VNull = Inr ''null''"
| "to_text (VList p xs) = ebind (list_texts xs) (\<lambda>ts. Inr (join_str '','' ts))"
| "to_text (VMap p m) = (if jm_has m ''toString'' then Inl NativeError else Inr ''[object Object]'')"
| "list_texts [] = Inr []"
| "list_texts (x # xs) =
     ebind (case x of VUndef \<Rightarrow> Inr [] | VNull \<Rightarrow> Inr [] | _ \<Rightarrow> to_text x)
       (\<lambda>t. ebind (list_texts xs) (\<lambda>ts. Inr (t # ts)))"

definition as_bool :: "evalue \<Rightarrow> bool eval" where
  "as_bool v = (case v of VBool b \<Rightarrow> Inr b | _ \<Rightarrow> fail ''expected boolean'')"

definition as_string :: "evalue \<Rightarrow> string eval" where
  "as_string v = (case v of VStr s \<Rightarrow> Inr s | _ \<Rightarrow> fail ''expected string'')"

definition is_integer :: "rat \<Rightarrow> bool" where
  "is_integer n = (of_int \<lfloor>n\<rfloor> = n)"

text \<open>\<open>/^-?\d+$/\<close>.\<close>

definition integer_text :: "string \<Rightarrow> bool" where
  "integer_text s =
     (let d = (if s \<noteq> [] \<and> hd s = CHR ''-'' then tl s else s) in d \<noteq> [] \<and> list_all is_digit d)"

definition to_int :: "evalue \<Rightarrow> rat eval" where
  "to_int v =
     (case v of
        VNum n \<Rightarrow> if is_integer n then Inr n else fail ''int() requires an integer string''
      | VStr s \<Rightarrow> if integer_text s then Inr (of_int (the (parse_int s))) else fail ''int() requires an integer string''
      | _ \<Rightarrow> fail ''int() requires an integer string'')"

definition size_of :: "evalue \<Rightarrow> rat eval" where
  "size_of v =
     (case v of
        VStr s \<Rightarrow> Inr (of_nat (length s))
      | VList p xs \<Rightarrow> Inr (of_nat (length xs))
      | VMap p m \<Rightarrow> Inr (of_nat (length m))
      | _ \<Rightarrow> fail ''size() requires a string, list, or map'')"

section \<open>Member access\<close>

text \<open>The position a key denotes in a list of \<open>n\<close> elements.\<close>

definition list_position :: "nat \<Rightarrow> evalue \<Rightarrow> nat option eval" where
  "list_position n key =
     ebind (case key of
              VNum k \<Rightarrow> Inr (if is_integer k then Some \<lfloor>k\<rfloor> else None)
            | _ \<Rightarrow> ebind (to_text key) (\<lambda>t. ebind (ascii_only t) (\<lambda>t. Inr (parse_int t))))
       (\<lambda>i. Inr (case i of None \<Rightarrow> None | Some k \<Rightarrow> if k < 0 \<or> k \<ge> int n then None else Some (nat k)))"

definition no_such_key :: "string \<Rightarrow> string" where
  "no_such_key k = ''no such key: '' @ [squote] @ k @ [squote]"

definition lookup_key :: "evalue \<Rightarrow> evalue \<Rightarrow> evalue eval" where
  "lookup_key object key =
     (case object of
        VList p xs \<Rightarrow>
          ebind (list_position (length xs) key) (\<lambda>i.
            case i of
              None \<Rightarrow> ebind (to_text key) (\<lambda>t. fail (no_such_key t))
            | Some i \<Rightarrow> Inr (xs ! i))
      | VMap p m \<Rightarrow>
          ebind (to_text key) (\<lambda>name. case jm_get m name of None \<Rightarrow> fail (no_such_key name) | Some v \<Rightarrow> Inr v)
      | _ \<Rightarrow> fail (''cannot index '' @ [squote] @ type_of object @ [squote]))"

definition has_key :: "evalue \<Rightarrow> evalue \<Rightarrow> bool eval" where
  "has_key object key =
     (case object of
        VList p xs \<Rightarrow> ebind (list_position (length xs) key) (\<lambda>i. Inr (i \<noteq> None))
      | VMap p m \<Rightarrow> ebind (to_text key) (\<lambda>name. Inr (jm_has m name))
      | _ \<Rightarrow> Inr False)"

section \<open>The environment\<close>

text \<open>The values of a request, each object under its path. Dates do not occur in parameters.\<close>

fun env_value :: "string list \<Rightarrow> jsval \<Rightarrow> evalue"
  and env_items :: "string list \<Rightarrow> nat \<Rightarrow> jsval list \<Rightarrow> evalue list"
  and env_fields :: "string list \<Rightarrow> (string \<times> jsval) list \<Rightarrow> (string \<times> evalue) list" where
  "env_value p JUndef = VUndef"
| "env_value p JNull = VNull"
| "env_value p (JBool b) = VBool b"
| "env_value p (JNum n) = VNum n"
| "env_value p (JStr s) = VStr s"
| "env_value p (JDate d) = VMap (Some p) []"
| "env_value p (JArr vs) = VList (Some p) (env_items p 0 vs)"
| "env_value p (JObj m) = VMap (Some p) (env_fields p m)"
| "env_items p i [] = []"
| "env_items p i (v # vs) = env_value (p @ [nat_to_dec i]) v # env_items p (Suc i) vs"
| "env_fields p [] = []"
| "env_fields p ((k, v) # m) = (k, env_value (p @ [k]) v) # env_fields p m"

definition origin_env :: "origin_attributes \<Rightarrow> evalue" where
  "origin_env og = VMap (Some [''origin''])
     [(''ip'', VStr (origin_ip og)), (''user_ip'', VStr (user_ip og)), (''region_code'', VStr (region_code og)),
      (''asn'', VNum (asn og)), (''tls_ja3_fingerprint'', VStr (tls_ja3 og)), (''tls_ja4_fingerprint'', VStr (tls_ja4 og))]"

definition request_env :: "http_attributes \<Rightarrow> evalue" where
  "request_env rq = VMap (Some [''request''])
     [(''headers'', VMap (Some [''request'', ''headers'']) (map (\<lambda>(k, v). (k, VStr v)) (req_headers rq))),
      (''method'', VStr (req_method rq)), (''path'', VStr (req_path rq)), (''query'', VStr (req_query rq)),
      (''scheme'', VStr (req_scheme rq)), (''body'', VStr (req_body rq)),
      (''params'', VMap (Some [''request'', ''params'']) (env_fields [''request'', ''params''] (req_params rq)))]"

definition to_env :: "request_attributes \<Rightarrow> (string, evalue) jsmap" where
  "to_env ra = [(''origin'', origin_env (origin_attrs ra)), (''request'', request_env (http_attrs ra))]"

text \<open>What an evaluation reads: the attributes, the regular-expression engine and \<open>lookupAddressGroup\<close> (when
  the option is absent, the function that finds no group).\<close>

record eval_context =
  ctx_attrs :: request_attributes
  ctx_regex :: regex_engine
  ctx_groups :: "string \<Rightarrow> string list option"

section \<open>Functions of the language\<close>

text \<open>
  A call receives the results of its arguments in order. Evaluation has no side effect, so a result the code
  does not ask for does not matter; \<open>run_args\<close> is the loop that evaluates all of them.
\<close>

fun run_args :: "evalue eval list \<Rightarrow> unit eval" where
  "run_args [] = Inr ()"
| "run_args (r # rs) = ebind r (\<lambda>_. run_args rs)"

definition required_arg :: "evalue eval list \<Rightarrow> nat \<Rightarrow> evalue eval" where
  "required_arg rs i = (if i < length rs then rs ! i else fail ''missing function argument'')"

definition string_arg :: "evalue eval list \<Rightarrow> nat \<Rightarrow> string eval" where
  "string_arg rs i = ebind (required_arg rs i) as_string"

fun string_list_of :: "evalue \<Rightarrow> string list option" where
  "string_list_of (VList p xs) =
     (if list_all (\<lambda>x. type_of x = ''string'') xs then Some (map (\<lambda>x. case x of VStr s \<Rightarrow> s) xs) else None)"
| "string_list_of _ = None"

fun as_string_list :: "evalue \<Rightarrow> string list option eval" where
  "as_string_list (VStr s) =
     ebind (ascii_only s) (\<lambda>s. Inr (Some (filter (\<lambda>t. t \<noteq> []) (map trim_str (split_char (CHR '','') s)))))"
| "as_string_list v = Inr (string_list_of v)"

text \<open>\<open>evaluatePreconfiguredWaf\<close>: the rule set, and the options sensitivity, opt-out and opt-in.\<close>

definition waf_option_keys :: "string list" where
  "waf_option_keys = [''sensitivity'', ''opt_out_rule_ids'', ''opt_in_rule_ids'']"

text \<open>The three options as the code reads them; \<open>None\<close> is its early \<open>return false\<close>.\<close>

definition waf_sensitivity :: "(string, evalue) jsmap \<Rightarrow> nat option" where
  "waf_sensitivity m =
     (case jm_get m ''sensitivity'' of
        None \<Rightarrow> Some 4
      | Some (VNum n) \<Rightarrow> if is_integer n \<and> 0 \<le> n \<and> n \<le> 4 then Some (nat \<lfloor>n\<rfloor>) else None
      | Some _ \<Rightarrow> None)"

definition waf_ids :: "(string, evalue) jsmap \<Rightarrow> string \<Rightarrow> string list option option" where
  "waf_ids m key =
     (case jm_get m key of
        None \<Rightarrow> Some None
      | Some v \<Rightarrow> map_option Some (string_list_of v))"

definition waf_matches_with :: "waf_match list \<Rightarrow> nat \<Rightarrow> string list option \<Rightarrow> string list option \<Rightarrow> bool" where
  "waf_matches_with ms sensitivity opt_out opt_in =
     (if opt_out \<noteq> None \<and> opt_in \<noteq> None then False
      else if sensitivity = 0 then
        (case opt_in of None \<Rightarrow> False | Some ids \<Rightarrow> list_ex (\<lambda>w. signature_id w \<in> set ids) ms)
      else if opt_in \<noteq> None then False
      else list_ex (\<lambda>w. signature_id w \<notin> set (case opt_out of None \<Rightarrow> [] | Some ids \<Rightarrow> ids)) ms)"

definition waf_with_options :: "waf_match list \<Rightarrow> evalue \<Rightarrow> bool" where
  "waf_with_options ms opts =
     (case opts of
        VMap p m \<Rightarrow>
          if \<not> list_all (\<lambda>k. k \<in> set waf_option_keys) (jm_keys m) then False
          else (case (waf_sensitivity m, waf_ids m ''opt_out_rule_ids'', waf_ids m ''opt_in_rule_ids'') of
                  (Some sens, Some out, Some inn) \<Rightarrow> waf_matches_with ms sens out inn
                | _ \<Rightarrow> False)
      | _ \<Rightarrow> False)"

definition eval_preconfigured_waf :: "request_attributes \<Rightarrow> evalue eval list \<Rightarrow> bool eval" where
  "eval_preconfigured_waf ra rs =
     (if length rs < 1 \<or> length rs > 2 then ebind (run_args rs) (\<lambda>_. Inr False)
      else ebind (string_arg rs 0) (\<lambda>name.
             let ms = filter (\<lambda>w. rule_set w = name) (waf_matches ra)
             in if length rs = 2 then ebind (rs ! 1) (\<lambda>opts. Inr (waf_with_options ms opts))
                else Inr (waf_matches_with ms 4 None None)))"

text \<open>\<open>resolveEvaluateIp\<close>: an address, or the name of a header that starts with one.\<close>

definition resolve_evaluate_ip :: "request_attributes \<Rightarrow> evalue \<Rightarrow> string option eval" where
  "resolve_evaluate_ip ra source =
     (case source of
        VStr s \<Rightarrow>
          if s = [] then Inr None
          else ebind (ascii_only s) (\<lambda>s.
                 if is_valid_ip s then Inr (Some s)
                 else (case jm_get (req_headers (http_attrs ra)) (lower_str s) of
                         None \<Rightarrow> Inr None
                       | Some h \<Rightarrow> ebind (ascii_only h) (\<lambda>h. Inr (parse_first_valid_ip h))))
      | _ \<Rightarrow> Inr None)"

definition eval_address_group :: "eval_context \<Rightarrow> evalue eval list \<Rightarrow> bool eval" where
  "eval_address_group c rs =
     (if length rs < 2 \<or> length rs > 3
      then fail (''Function '' @ [squote] @ ''evaluateAddressGroup'' @ [squote] @
             '' declared with 2 or 3 args, called with '' @ nat_to_dec (length rs))
      else ebind (required_arg rs 0) (\<lambda>group. ebind (required_arg rs 1) (\<lambda>source.
        case group of
          VStr name \<Rightarrow>
            if name = [] then Inr False
            else ebind (resolve_evaluate_ip (ctx_attrs c) source) (\<lambda>ip.
              case ip of
                None \<Rightarrow> Inr False
              | Some ip \<Rightarrow>
                  (case ctx_groups c name of
                     None \<Rightarrow> Inr False
                   | Some items \<Rightarrow>
                       if items = [] then Inr False
                       else if \<not> list_ex (ip_in_cidr ip) items then Inr False
                       else if length rs < 3 then Inr True
                       else ebind (required_arg rs 2) (\<lambda>v. ebind (as_string_list v) (\<lambda>ex.
                              case ex of
                                None \<Rightarrow> Inr False
                              | Some exclusions \<Rightarrow> Inr (\<not> list_ex (ip_in_cidr ip) exclusions)))))
        | _ \<Rightarrow> Inr False)))"

definition eval_matches :: "regex_engine \<Rightarrow> string \<Rightarrow> string \<Rightarrow> bool eval" where
  "eval_matches re target pattern =
     (if has_capturing_group pattern then fail ''regular expression capture groups are not allowed''
      else case re pattern of Inl msg \<Rightarrow> fail msg | Inr test \<Rightarrow> Inr (test target))"

definition map_eval :: "('a \<Rightarrow> evalue) \<Rightarrow> 'a eval \<Rightarrow> evalue eval" where
  "map_eval f r = ebind r (\<lambda>v. Inr (f v))"

text \<open>The \<open>switch\<close> over the methods of a string.\<close>

definition eval_method :: "eval_context \<Rightarrow> string \<Rightarrow> string \<Rightarrow> evalue eval list \<Rightarrow> evalue eval" where
  "eval_method c name target rs =
     (if name = ''contains'' then map_eval (\<lambda>p. VBool (includes_str target p)) (string_arg rs 0)
      else if name = ''startsWith'' then map_eval (\<lambda>p. VBool (starts_with target p)) (string_arg rs 0)
      else if name = ''endsWith'' then map_eval (\<lambda>p. VBool (ends_with target p)) (string_arg rs 0)
      else if name = ''matches'' then ebind (string_arg rs 0) (\<lambda>p. map_eval VBool (eval_matches (ctx_regex c) target p))
      else if name = ''lower'' then map_eval (\<lambda>s. VStr (lower_str s)) (ascii_only target)
      else if name = ''upper'' then map_eval (\<lambda>s. VStr (upper_str s)) (ascii_only target)
      else if name = ''base64Decode'' then Inr (VStr (base64_decode target))
      else if name = ''urlDecode'' then of_outcome (url_decode target)
      else if name = ''urlDecodeUni'' then of_outcome (url_decode_uni target)
      else if name = ''utf8ToUnicode'' then Inr (VStr (utf8_to_unicode target))
      else fail (undeclared name))"

text \<open>
  \<open>evalCall\<close> on the results of its parts: \<open>target\<close> is the object of a member callee, \<open>has_arg\<close> what
  \<open>evalHas\<close> answers for the first argument.
\<close>

definition eval_call :: "eval_context \<Rightarrow> string option \<Rightarrow> evalue eval option \<Rightarrow> evalue eval list \<Rightarrow>
    bool eval option \<Rightarrow> evalue eval" where
  "eval_call c name target rs has_arg =
     (if name = Some ''has'' then
        (case has_arg of None \<Rightarrow> fail ''has() requires an argument'' | Some r \<Rightarrow> map_eval VBool r)
      else if name = Some ''evaluateAddressGroup'' then map_eval VBool (eval_address_group c rs)
      else if name = Some ''evaluatePreconfiguredWaf'' then map_eval VBool (eval_preconfigured_waf (ctx_attrs c) rs)
      else if name = Some ''evaluateAdaptiveProtection'' \<or> name = Some ''evaluateAdaptiveProtectionAutoDeploy'' then
        ebind (run_args rs) (\<lambda>_.
          let expected = (if name = Some ''evaluateAdaptiveProtection'' then 1 else 0)
          in Inr (VBool (if length rs \<noteq> expected then False else adaptive_match (ctx_attrs c))))
      else if name \<noteq> None \<and> the name \<in> set always_false_functions then
        ebind (run_args rs) (\<lambda>_. Inr (VBool False))
      else if name = Some ''inIpRange'' then
        ebind (string_arg rs 0) (\<lambda>ip. ebind (string_arg rs 1) (\<lambda>cidr.
          ebind (ascii_only ip) (\<lambda>ip. ebind (ascii_only cidr) (\<lambda>cidr. Inr (VBool (ip_in_cidr ip cidr))))))
      else if name = Some ''int'' then ebind (required_arg rs 0) (\<lambda>v. map_eval VNum (to_int v))
      else if name = Some ''size'' then ebind (required_arg rs 0) (\<lambda>v. map_eval VNum (size_of v))
      else (case target of
              None \<Rightarrow> fail (undeclared (case name of None \<Rightarrow> ''call'' | Some n \<Rightarrow> n))
            | Some r \<Rightarrow> ebind r (\<lambda>v. ebind (as_string v) (\<lambda>s. eval_method c (the name) s rs))))"

section \<open>Expressions\<close>

fun lit_evalue :: "lit_value \<Rightarrow> evalue" where
  "lit_evalue (LitBool b) = VBool b"
| "lit_evalue (LitNum n) = VNum n"
| "lit_evalue (LitStr s) = VStr s"

fun run_list :: "evalue eval list \<Rightarrow> evalue list eval" where
  "run_list [] = Inr []"
| "run_list (r # rs) = ebind r (\<lambda>v. ebind (run_list rs) (\<lambda>vs. Inr (v # vs)))"

text \<open>\<open>out[String(key)] = value\<close>; assigning to \<open>__proto__\<close> does not make a key.\<close>

fun run_entries :: "(evalue eval \<times> evalue eval) list \<Rightarrow> (string, evalue) jsmap \<Rightarrow> (string, evalue) jsmap eval" where
  "run_entries [] out = Inr out"
| "run_entries ((k, v) # es) out =
     ebind k (\<lambda>kv. ebind (to_text kv) (\<lambda>name. ebind v (\<lambda>w.
       if name = ''__proto__'' then Inl BeyondModel else run_entries es (jm_set out name w))))"

definition eval_compare :: "binary_op \<Rightarrow> evalue \<Rightarrow> evalue \<Rightarrow> evalue eval" where
  "eval_compare op l r =
     (if op = OpAdd then ebind (as_string l) (\<lambda>a. ebind (as_string r) (\<lambda>b. Inr (VStr (a @ b))))
      else if op = OpEq then Inr (VBool (same_value l r))
      else if op = OpNe then Inr (VBool (\<not> same_value l r))
      else case (l, r) of
             (VNum a, VNum b) \<Rightarrow>
               (case op of
                  OpLt \<Rightarrow> Inr (VBool (a < b)) | OpGt \<Rightarrow> Inr (VBool (a > b))
                | OpLe \<Rightarrow> Inr (VBool (a \<le> b)) | OpGe \<Rightarrow> Inr (VBool (a \<ge> b))
                | _ \<Rightarrow> fail ''unsupported operator'')
           | _ \<Rightarrow> fail (''operator '' @ (case op of OpLt \<Rightarrow> ''<'' | OpGt \<Rightarrow> ''>'' | OpLe \<Rightarrow> ''<='' | _ \<Rightarrow> ''>='')
                    @ '' requires numbers''))"

definition eval_binary :: "binary_op \<Rightarrow> evalue eval \<Rightarrow> evalue eval \<Rightarrow> evalue eval" where
  "eval_binary op l r =
     (if op = OpAnd then
        ebind l (\<lambda>v. ebind (as_bool v) (\<lambda>b. if \<not> b then Inr (VBool False) else ebind r (\<lambda>w. map_eval VBool (as_bool w))))
      else if op = OpOr then
        ebind l (\<lambda>v. ebind (as_bool v) (\<lambda>b. if b then Inr (VBool True) else ebind r (\<lambda>w. map_eval VBool (as_bool w))))
      else ebind l (\<lambda>v. ebind r (eval_compare op v)))"

definition eval_unary :: "unary_op \<Rightarrow> evalue \<Rightarrow> evalue eval" where
  "eval_unary op v =
     (case op of
        OpNot \<Rightarrow> map_eval (\<lambda>b. VBool (\<not> b)) (as_bool v)
      | OpNeg \<Rightarrow> (case v of VNum n \<Rightarrow> Inr (VNum (- n)) | _ \<Rightarrow> fail ''unary minus requires a number''))"

lemma size_in_list: "x \<in> set xs \<Longrightarrow> 2 * size x < Suc (Suc (2 * size_list size xs + n))"
  using size_list_estimation' [of x xs "size x" size] by simp

lemma size_in_entries:
  assumes "(a, b) \<in> set es"
  shows "2 * size a < Suc (Suc (2 * size_list (size_prod size size) es))"
    and "2 * size b < Suc (Suc (2 * size_list (size_prod size size) es))"
  using size_list_estimation' [OF assms, of "size a" "size_prod size size"]
    size_list_estimation' [OF assms, of "size b" "size_prod size size"] by simp_all

function eval_ast :: "eval_context \<Rightarrow> ast \<Rightarrow> evalue eval"
  and eval_has :: "eval_context \<Rightarrow> ast \<Rightarrow> bool eval" where
  "eval_ast c (Lit v s e) = Inr (lit_evalue v)"
| "eval_ast c (Ident n s e) =
     (case jm_get (to_env (ctx_attrs c)) n of None \<Rightarrow> fail (undeclared n) | Some v \<Rightarrow> Inr v)"
| "eval_ast c (Member obj n s e) = ebind (eval_ast c obj) (\<lambda>v. lookup_key v (VStr n))"
| "eval_ast c (Index obj key s e) = ebind (eval_ast c obj) (\<lambda>v. ebind (eval_ast c key) (lookup_key v))"
| "eval_ast c (Call callee args s e) =
     eval_call c (call_name (Call callee args s e))
       (case callee of Member obj n _ _ \<Rightarrow> Some (eval_ast c obj) | _ \<Rightarrow> None)
       (map (eval_ast c) args)
       (case args of [] \<Rightarrow> None | a # _ \<Rightarrow> Some (eval_has c a))"
| "eval_ast c (Unary op a s e) = ebind (eval_ast c a) (eval_unary op)"
| "eval_ast c (Binary op l r s e) = eval_binary op (eval_ast c l) (eval_ast c r)"
| "eval_ast c (ListLit es s e) = ebind (run_list (map (eval_ast c) es)) (\<lambda>vs. Inr (VList None vs))"
| "eval_ast c (MapLit es s e) =
     ebind (run_entries (map (\<lambda>en. (eval_ast c (fst en), eval_ast c (snd en))) es) []) (\<lambda>m. Inr (VMap None m))"
| "eval_has c a =
     (case a of
        Index obj key _ _ \<Rightarrow> ebind (eval_ast c obj) (\<lambda>v. ebind (eval_ast c key) (has_key v))
      | Member obj n _ _ \<Rightarrow> ebind (eval_ast c obj) (\<lambda>v. has_key v (VStr n))
      | _ \<Rightarrow>
          (case eval_ast c a of
             Inr v \<Rightarrow> Inr True
           | Inl (EvalError msg) \<Rightarrow> Inr False
           | Inl e \<Rightarrow> Inl e))"
  by pat_completeness auto
termination
  by (relation "measure (\<lambda>x. case x of Inl (c, a) \<Rightarrow> 2 * size a | Inr (c, a) \<Rightarrow> 2 * size a + 1)")
     (auto dest: size_in_list size_in_list [where n = 0, simplified] size_in_entries)

declare eval_has.simps [simp del]

text \<open>\<open>evaluateExpression\<close>; \<open>None\<close> stands for an evaluation outside the model, and \<open>native_message\<close> for the text of
  the engine's \<open>TypeError\<close>.\<close>

definition evaluate_expression :: "eval_context \<Rightarrow> string \<Rightarrow> string \<Rightarrow> expression_evaluation option" where
  "evaluate_expression c native_message expression =
     (case parse_expression_ast expression of
        Inl (ArmorError msg) \<Rightarrow> Some (EvaluationFailed msg)
      | Inr a \<Rightarrow>
          (case eval_ast c a of
             Inr (VBool b) \<Rightarrow> Some (Evaluated b)
           | Inr v \<Rightarrow> Some (EvaluationFailed ''expression did not evaluate to a boolean'')
           | Inl (EvalError msg) \<Rightarrow> Some (EvaluationFailed msg)
           | Inl NativeError \<Rightarrow> Some (EvaluationFailed native_message)
           | Inl BeyondModel \<Rightarrow> None))"

section \<open>A sample request\<close>

text \<open>A GET request with a body and no headers, for the concrete instances of the properties.\<close>

definition sample_attributes :: "string \<Rightarrow> request_attributes" where
  "sample_attributes body = \<lparr>
     origin_attrs = \<lparr>origin_ip = ''10.0.0.1'', user_ip = ''10.0.0.1'', user_ip_resolved = False, region_code = ''US'',
       asn = 7, tls_ja3 = [], tls_ja4 = []\<rparr>,
     http_attrs = \<lparr>req_headers = [], req_method = ''GET'', req_path = ''/a'', req_query = [], req_scheme = ''http'',
       req_body = body, req_params = []\<rparr>,
     sni = [], waf_matches = [], adaptive_match = False\<rparr>"

definition sample_context :: "string \<Rightarrow> eval_context" where
  "sample_context body = \<lparr>ctx_attrs = sample_attributes body, ctx_regex = (\<lambda>p. Inr (\<lambda>s. True)), ctx_groups = (\<lambda>n. None)\<rparr>"

end
