(* ===== verification/Armor_Types_Sound.thy ===== *)
theory Armor_Types_Sound
  imports Armor_Eval
begin

text \<open>
  A type discipline for rule expressions. The code has no types of its own; the rules below are those a rule
  author follows, and \<open>typed_evaluation\<close> shows that an expression that follows them can fail only for what
  the request contains (a missing header, a text that is no integer) or for a pattern.
\<close>

section \<open>Types\<close>

datatype rule_type = TyBool | TyNum | TyStr

fun value_type :: "evalue \<Rightarrow> rule_type \<Rightarrow> bool" where
  "value_type (VBool b) t = (t = TyBool)"
| "value_type (VNum n) t = (t = TyNum)"
| "value_type (VStr s) t = (t = TyStr)"
| "value_type _ t = False"

lemma value_type_conv:
  "value_type v TyBool \<longleftrightarrow> (\<exists>b. v = VBool b)" "value_type v TyNum \<longleftrightarrow> (\<exists>n. v = VNum n)"
  "value_type v TyStr \<longleftrightarrow> (\<exists>s. v = VStr s)"
  by (cases v; simp)+

text \<open>The attributes of a request, and the headers by a literal name.\<close>

inductive attr_type :: "ast \<Rightarrow> rule_type \<Rightarrow> bool" where
  origin_text: "n \<in> set origin_fields \<Longrightarrow> n \<noteq> ''asn'' \<Longrightarrow>
    attr_type (Member (Ident ''origin'' s1 e1) n s e) TyStr"
| origin_asn: "attr_type (Member (Ident ''origin'' s1 e1) ''asn'' s e) TyNum"
| request_text: "n \<in> set [''method'', ''path'', ''query'', ''scheme'', ''body''] \<Longrightarrow>
    attr_type (Member (Ident ''request'' s1 e1) n s e) TyStr"
| header: "attr_type (Index (Member (Ident ''request'' s1 e1) ''headers'' s2 e2) (Lit (LitStr k) s3 e3) s e) TyStr"

abbreviation fun_call :: "string \<Rightarrow> ast list \<Rightarrow> nat \<Rightarrow> nat \<Rightarrow> nat \<Rightarrow> nat \<Rightarrow> ast" where
  "fun_call f as s1 e1 s e \<equiv> Call (Ident f s1 e1) as s e"

abbreviation method_call :: "ast \<Rightarrow> string \<Rightarrow> ast list \<Rightarrow> nat \<Rightarrow> nat \<Rightarrow> nat \<Rightarrow> nat \<Rightarrow> ast" where
  "method_call obj m as s1 e1 s e \<equiv> Call (Member obj m s1 e1) as s e"

inductive typed :: "ast \<Rightarrow> rule_type \<Rightarrow> bool" where
  lit_bool: "typed (Lit (LitBool b) s e) TyBool"
| lit_num: "typed (Lit (LitNum n) s e) TyNum"
| lit_str: "typed (Lit (LitStr v) s e) TyStr"
| attribute: "attr_type a t \<Longrightarrow> typed a t"
| negation: "typed a TyBool \<Longrightarrow> typed (Unary OpNot a s e) TyBool"
| minus: "typed a TyNum \<Longrightarrow> typed (Unary OpNeg a s e) TyNum"
| connective: "op \<in> set [OpAnd, OpOr] \<Longrightarrow> typed a TyBool \<Longrightarrow> typed b TyBool \<Longrightarrow> typed (Binary op a b s e) TyBool"
| equality: "op \<in> set [OpEq, OpNe] \<Longrightarrow> typed a t \<Longrightarrow> typed b t' \<Longrightarrow> typed (Binary op a b s e) TyBool"
| order: "op \<in> set [OpLt, OpGt, OpLe, OpGe] \<Longrightarrow> typed a TyNum \<Longrightarrow> typed b TyNum \<Longrightarrow> typed (Binary op a b s e) TyBool"
| append: "typed a TyStr \<Longrightarrow> typed b TyStr \<Longrightarrow> typed (Binary OpAdd a b s e) TyStr"
| has_attr: "attr_type a t \<Longrightarrow> typed (fun_call ''has'' [a] s1 e1 s e) TyBool"
| in_range: "typed a TyStr \<Longrightarrow> typed b TyStr \<Longrightarrow> typed (fun_call ''inIpRange'' [a, b] s1 e1 s e) TyBool"
| int_of: "typed a TyStr \<Longrightarrow> typed (fun_call ''int'' [a] s1 e1 s e) TyNum"
| length_of: "typed a TyStr \<Longrightarrow> typed (fun_call ''size'' [a] s1 e1 s e) TyNum"
| test: "m \<in> set [''contains'', ''startsWith'', ''endsWith'', ''matches''] \<Longrightarrow> typed a TyStr \<Longrightarrow> typed b TyStr \<Longrightarrow>
    typed (method_call a m [b] s1 e1 s e) TyBool"
| transform: "m \<in> set [''lower'', ''upper'', ''base64Decode'', ''urlDecode'', ''urlDecodeUni'', ''utf8ToUnicode''] \<Longrightarrow>
    typed a TyStr \<Longrightarrow> typed (method_call a m [] s1 e1 s e) TyStr"

section \<open>What can go wrong\<close>

text \<open>The failures the data of a request can cause, and those of a pattern.\<close>

definition data_error :: "regex_engine \<Rightarrow> eval_error \<Rightarrow> bool" where
  "data_error re err =
     (err = BeyondModel \<or> (\<exists>k. err = EvalError (no_such_key k)) \<or>
      err = EvalError ''int() requires an integer string'' \<or>
      err = EvalError ''regular expression capture groups are not allowed'' \<or>
      (\<exists>p msg. re p = Inl msg \<and> err = EvalError msg))"

definition delivers :: "eval_context \<Rightarrow> rule_type \<Rightarrow> evalue eval \<Rightarrow> bool" where
  "delivers c t r = (case r of Inr v \<Rightarrow> value_type v t | Inl err \<Rightarrow> data_error (ctx_regex c) err)"

named_theorems deliver \<open>how results deliver a value of a type\<close>

lemma delivers_simps [simp]:
  "delivers c t (Inr v) \<longleftrightarrow> value_type v t" "delivers c t (Inl err) \<longleftrightarrow> data_error (ctx_regex c) err"
  by (simp_all add: delivers_def)

lemma data_errors [simp]:
  "data_error re BeyondModel" "data_error re (EvalError (no_such_key k))"
  "data_error re (EvalError ''int() requires an integer string'')"
  "data_error re (EvalError ''regular expression capture groups are not allowed'')"
  "re p = Inl msg \<Longrightarrow> data_error re (EvalError msg)"
  by (auto simp: data_error_def)

lemma delivers_bind:
  assumes "delivers c t r" and "\<And>v. value_type v t \<Longrightarrow> delivers c t' (f v)"
  shows "delivers c t' (ebind r f)"
  using assms by (cases r) auto

lemma delivers_cases:
  assumes "delivers c t r"
  obtains v where "r = Inr v" "value_type v t" | err where "r = Inl err" "data_error (ctx_regex c) err"
  using assms by (cases r) auto

lemma as_simps [simp]:
  "as_string (VStr s) = Inr s" "as_bool (VBool b) = Inr b"
  by (simp_all add: as_string_def as_bool_def)

lemma map_eval_simps [simp]: "map_eval f (Inr v) = Inr (f v)" "map_eval f (Inl e) = Inl e"
  by (simp_all add: map_eval_def)

lemma delivers_ascii: "(\<And>s. delivers c t (f s)) \<Longrightarrow> delivers c t (ebind (ascii_only s) f)"
  by (simp add: ascii_only_def)

lemma map_eval_ebind: "map_eval f r = ebind r (\<lambda>v. Inr (f v))"
  by (simp add: map_eval_def)

lemma oappend_malformed: "r \<noteq> Malformed \<Longrightarrow> oappend p r \<noteq> Malformed"
  by (cases r) (simp_all add: oappend_def)

lemma decode_percent_not_malformed: "decode_percent u s \<noteq> Malformed"
proof (induction s arbitrary: u rule: length_induct)
  case (1 s)
  show ?case
  proof (cases s)
    case (Cons c r)
    have IH: "decode_percent u t \<noteq> Malformed" if "length t < length s" for t u using 1 that by blast
    have rest: "length (snd (percent_bytes (c # r))) < length s" if "fst (percent_bytes (c # r)) \<noteq> []"
      using that percent_bytes_length [OF surjective_pairing, of "c # r"] Cons
      by (cases "fst (percent_bytes (c # r))") auto
    have "decode_percent u r \<noteq> Malformed" "decode_percent u (drop 6 (c # r)) \<noteq> Malformed"
        "decode_percent u (drop 3 (c # r)) \<noteq> Malformed"
      using Cons by (auto intro!: IH)
    moreover have "decode_percent u (snd (percent_bytes (c # r))) \<noteq> Malformed" if "fst (percent_bytes (c # r)) \<noteq> []"
      by (rule IH [OF rest [OF that]])
    moreover have "text_of_points ps \<noteq> Malformed" for ps by (simp add: text_of_points_def)
    moreover have "obind x f \<noteq> Malformed" if "x \<noteq> Malformed" "\<And>v. f v \<noteq> Malformed" for x :: "string outcome" and f :: "string \<Rightarrow> string outcome"
      using that by (cases x) auto
    ultimately show ?thesis
      unfolding Cons decode_percent.simps(2)
      by (auto simp: oappend_malformed simp del: drop_Cons_numeral take_Cons_numeral split: outcome.split)
  qed (simp add: decode_percent.simps)
qed

lemma delivers_outcome: "r \<noteq> Malformed \<Longrightarrow> delivers c TyStr (of_outcome r)"
  by (cases r) simp_all

section \<open>Attributes\<close>

lemma attr_origin:
  "eval_ast c (Ident ''origin'' s e) = Inr (origin_env (origin_attrs (ctx_attrs c)))"
  "eval_ast c (Ident ''request'' s e) = Inr (request_env (http_attrs (ctx_attrs c)))"
  by (simp_all add: to_env_def)

lemma map_of_headers: "map_of (map (\<lambda>(k, v). (k, VStr v)) m) k = map_option VStr (map_of m k)"
  by (induction m) auto

lemma attr_delivers: "attr_type a t \<Longrightarrow> delivers c t (eval_ast c a)"
proof (induction rule: attr_type.induct)
  case (origin_text n s1 e1 s e)
  then show ?case unfolding eval_ast.simps(3) attr_origin
    by (auto simp: lookup_key_def origin_env_def origin_fields_def)
next
  case (origin_asn s1 e1 s e)
  show ?case unfolding eval_ast.simps(3) attr_origin by (simp add: lookup_key_def origin_env_def)
next
  case (request_text n s1 e1 s e)
  then show ?case unfolding eval_ast.simps(3) attr_origin by (auto simp: lookup_key_def request_env_def)
next
  case (header s1 e1 s2 e2 k s3 e3 s e)
  show ?case unfolding eval_ast.simps(3,4) attr_origin
    by (simp add: lookup_key_def request_env_def map_of_headers split: option.splits)
qed

lemma attr_has: "attr_type a t \<Longrightarrow> \<exists>b. eval_has c a = Inr b"
proof (induction rule: attr_type.induct)
  case (header s1 e1 s2 e2 k s3 e3 s e)
  show ?case unfolding eval_has.simps ast.case eval_ast.simps(3) attr_origin
    by (simp add: lookup_key_def has_key_def request_env_def)
qed (unfold eval_has.simps ast.case attr_origin, simp_all add: has_key_def request_env_def origin_env_def)

section \<open>Soundness\<close>

lemma delivers_compare:
  "op \<in> set [OpLt, OpGt, OpLe, OpGe] \<Longrightarrow> value_type v TyNum \<Longrightarrow> value_type w TyNum \<Longrightarrow>
     delivers c TyBool (eval_compare op v w)"
  by (auto simp: eval_compare_def value_type_conv)

lemma eval_method_rows:
  "eval_method c ''contains'' t rs = map_eval (\<lambda>p. VBool (includes_str t p)) (string_arg rs 0)"
  "eval_method c ''startsWith'' t rs = map_eval (\<lambda>p. VBool (starts_with t p)) (string_arg rs 0)"
  "eval_method c ''endsWith'' t rs = map_eval (\<lambda>p. VBool (ends_with t p)) (string_arg rs 0)"
  "eval_method c ''matches'' t rs = ebind (string_arg rs 0) (\<lambda>p. map_eval VBool (eval_matches (ctx_regex c) t p))"
  "eval_method c ''lower'' t rs = map_eval (\<lambda>s. VStr (lower_str s)) (ascii_only t)"
  "eval_method c ''upper'' t rs = map_eval (\<lambda>s. VStr (upper_str s)) (ascii_only t)"
  "eval_method c ''base64Decode'' t rs = Inr (VStr (base64_decode t))"
  "eval_method c ''urlDecode'' t rs = of_outcome (url_decode t)"
  "eval_method c ''urlDecodeUni'' t rs = of_outcome (url_decode_uni t)"
  "eval_method c ''utf8ToUnicode'' t rs = Inr (VStr (utf8_to_unicode t))"
  by (simp_all add: eval_method_def)

lemma delivers_matches: "delivers c TyBool (map_eval VBool (eval_matches (ctx_regex c) t p))"
  by (auto simp: eval_matches_def split: sum.split)

lemma delivers_method:
  assumes "delivers c TyStr r" and "m \<in> set [''contains'', ''startsWith'', ''endsWith'', ''matches'']"
  shows "delivers c TyBool (eval_method c m t [r])"
proof -
  have arg: "delivers c TyBool (ebind (string_arg [r] 0) f)" if "\<And>p. delivers c TyBool (f p)" for f
    using assms(1) that by (auto simp: string_arg_def required_arg_def value_type_conv elim!: delivers_cases)
  from assms(2) have "m = ''contains'' \<or> m = ''startsWith'' \<or> m = ''endsWith'' \<or> m = ''matches''" by simp
  then show ?thesis
    by (elim disjE; hypsubst) (unfold eval_method_rows map_eval_ebind [of _ "string_arg [r] 0"], auto intro!: arg delivers_matches)
qed

lemma delivers_transform:
  assumes "m \<in> set [''lower'', ''upper'', ''base64Decode'', ''urlDecode'', ''urlDecodeUni'', ''utf8ToUnicode'']"
  shows "delivers c TyStr (eval_method c m t [])"
proof -
  from assms have "m = ''lower'' \<or> m = ''upper'' \<or> m = ''base64Decode'' \<or> m = ''urlDecode'' \<or> m = ''urlDecodeUni''
      \<or> m = ''utf8ToUnicode''" by simp
  then show ?thesis
    by (elim disjE; hypsubst)
       (unfold eval_method_rows, auto simp: ascii_only_def intro!: delivers_outcome decode_percent_not_malformed)
qed

lemma methods_not_functions: "\<forall>m \<in> set string_methods. m \<notin> set known_functions"
  by (simp add: string_methods_def known_functions_def)

lemma method_not_function:
  assumes "m \<in> set string_methods"
  shows "eval_call c (Some m) (Some r) rs h = ebind r (\<lambda>v. ebind (as_string v) (\<lambda>s. eval_method c m s rs))"
proof -
  have "m \<notin> set known_functions" using assms methods_not_functions by blast
  then have ne: "m \<noteq> ''has''" "m \<noteq> ''evaluateAddressGroup''" "m \<noteq> ''evaluatePreconfiguredWaf''"
      "m \<noteq> ''evaluateAdaptiveProtection''" "m \<noteq> ''evaluateAdaptiveProtectionAutoDeploy''"
      "m \<noteq> ''inIpRange''" "m \<noteq> ''int''" "m \<noteq> ''size''" "m \<notin> set always_false_functions"
    by (auto simp: known_functions_def always_false_functions_def)
  show ?thesis
    unfolding eval_call_def option.inject option.sel option.case by (simp only: ne if_False simp_thms)
qed

lemma function_calls:
  "eval_call c (Some ''inIpRange'') tg rs h = ebind (string_arg rs 0) (\<lambda>ip. ebind (string_arg rs 1) (\<lambda>cidr.
     ebind (ascii_only ip) (\<lambda>ip. ebind (ascii_only cidr) (\<lambda>cidr. Inr (VBool (ip_in_cidr ip cidr))))))"
  "eval_call c (Some ''int'') tg rs h = ebind (required_arg rs 0) (\<lambda>v. map_eval VNum (to_int v))"
  "eval_call c (Some ''size'') tg rs h = ebind (required_arg rs 0) (\<lambda>v. map_eval VNum (size_of v))"
  "eval_call c (Some ''has'') tg rs (Some r) = map_eval VBool r"
  by (simp_all add: eval_call_def always_false_functions_def)

lemma delivers_one_arg:
  assumes "delivers c TyStr r" and "\<And>s. delivers c t (f (VStr s))"
  shows "delivers c t (ebind (required_arg [r] 0) f)"
  using assms by (auto simp: required_arg_def value_type_conv elim!: delivers_cases)

lemma typed_delivers: "typed a t \<Longrightarrow> delivers c t (eval_ast c a)"
proof (induction rule: typed.induct)
  case (attribute a t)
  then show ?case by (rule attr_delivers)
next
  case (negation a s e)
  show ?case unfolding eval_ast.simps
    by (rule delivers_bind [OF negation.IH]) (auto simp: eval_unary_def value_type_conv)
next
  case (minus a s e)
  show ?case unfolding eval_ast.simps
    by (rule delivers_bind [OF minus.IH]) (auto simp: eval_unary_def value_type_conv)
next
  case (connective op a b s e)
  have rest: "delivers c TyBool (ebind (eval_ast c b) (\<lambda>w. map_eval VBool (as_bool w)))"
    by (rule delivers_bind [OF connective.IH(2)]) (auto simp: value_type_conv)
  have "delivers c TyBool (ebind (eval_ast c a) (\<lambda>v. ebind (as_bool v) (\<lambda>x. if x = k then Inr (VBool k)
      else ebind (eval_ast c b) (\<lambda>w. map_eval VBool (as_bool w)))))" for k
    by (rule delivers_bind [OF connective.IH(1)]) (use rest in \<open>auto simp: value_type_conv\<close>)
  from this [of True] this [of False] show ?case
    using connective.hyps(1) unfolding eval_ast.simps eval_binary_def by auto
next
  case (equality op a t b t' s e)
  show ?case
    using equality.hyps(1) unfolding eval_ast.simps eval_binary_def
    by (auto simp: eval_compare_def intro!: delivers_bind [OF equality.IH(1)] delivers_bind [OF equality.IH(2)])
next
  case (order op a b s e)
  show ?case
    using order.hyps(1) unfolding eval_ast.simps eval_binary_def
    by (auto intro!: delivers_bind [OF order.IH(1)] delivers_bind [OF order.IH(2)] delivers_compare)
next
  case (append a b s e)
  show ?case
    unfolding eval_ast.simps eval_binary_def
    by (auto simp: eval_compare_def value_type_conv intro!: delivers_bind [OF append.IH(1)] delivers_bind [OF append.IH(2)])
next
  case (has_attr a t s1 e1 s e)
  then obtain b where "eval_has c a = Inr b" using attr_has by blast
  then show ?case by (simp add: function_calls)
next
  case (in_range a b s1 e1 s e)
  show ?case
    using in_range.IH
    by (auto simp: function_calls string_arg_def required_arg_def value_type_conv intro!: delivers_ascii elim!: delivers_cases)
next
  case (int_of a s1 e1 s e)
  have "delivers c TyNum (ebind (required_arg [eval_ast c a] 0) (\<lambda>v. map_eval VNum (to_int v)))"
    by (rule delivers_one_arg [OF int_of.IH]) (simp add: to_int_def)
  then show ?case by (simp add: function_calls)
next
  case (length_of a s1 e1 s e)
  have "delivers c TyNum (ebind (required_arg [eval_ast c a] 0) (\<lambda>v. map_eval VNum (size_of v)))"
    by (rule delivers_one_arg [OF length_of.IH]) (simp add: size_of_def)
  then show ?case by (simp add: function_calls)
next
  case (test m a b s1 e1 s e)
  then have m: "m \<in> set string_methods" by (auto simp: string_methods_def)
  show ?case
    using test.IH(1) delivers_method [OF test.IH(2) test.hyps(1)]
    by (auto simp: method_not_function [OF m] value_type_conv intro!: delivers_bind)
next
  case (transform m a s1 e1 s e)
  then have m: "m \<in> set string_methods" by (auto simp: string_methods_def)
  show ?case
    using transform.IH delivers_transform [OF transform.hyps(1)]
    by (auto simp: method_not_function [OF m] value_type_conv intro!: delivers_bind)
qed simp_all

section \<open>One type per expression\<close>

inductive_cases attr_memberE: "attr_type (Member a n s e) t"
inductive_cases attr_indexE: "attr_type (Index a b s e) t"
inductive_simps attr_other [simp]:
  "attr_type (Lit v s e) t" "attr_type (Unary op a s e) t" "attr_type (Binary op a b s e) t" "attr_type (Call a as s e) t"

inductive_simps typed_lit: "typed (Lit v s e) t"
inductive_simps typed_unary: "typed (Unary op a s e) t"
inductive_simps typed_binary: "typed (Binary op a b s e) t"

lemma attr_type_unique: "attr_type a t \<Longrightarrow> attr_type a t' \<Longrightarrow> t = t'"
  by (cases rule: attr_type.cases, assumption) (auto elim: attr_memberE attr_indexE)

text \<open>An ordering comparison of texts has no type.\<close>

lemma no_text_order:
  "op \<in> set [OpLt, OpGt, OpLe, OpGe] \<Longrightarrow> \<not> typed (Binary op (Lit (LitStr v) s1 e1) b s e) t"
  by (auto simp: typed_binary typed_lit)

section \<open>Properties\<close>

text \<open>C17: Type soundness. A rule expression that parses to a tree of type Boolean evaluates to true or false, or
  fails because of the request or a pattern (a header that is missing, a text that is no integer, a pattern
  that does not compile or captures a group); it never fails with a type error, an undeclared name, a
  missing argument or an exception of the language.\<close>

theorem typed_evaluation:
  assumes "parse_expression_ast expression = Inr a" and "typed a TyBool"
  shows "case evaluate_expression c native_message expression of
           None \<Rightarrow> eval_ast c a = Inl BeyondModel
         | Some (Evaluated b) \<Rightarrow> eval_ast c a = Inr (VBool b)
         | Some (EvaluationFailed msg) \<Rightarrow> eval_ast c a = Inl (EvalError msg) \<and> data_error (ctx_regex c) (EvalError msg)"
  using typed_delivers [OF assms(2), of c]
proof (cases rule: delivers_cases)
  case (1 v)
  then show ?thesis using assms(1) by (auto simp: evaluate_expression_def value_type_conv)
next
  case (2 err)
  then show ?thesis
    using assms(1) by (cases err) (auto simp: evaluate_expression_def data_error_def)
qed

theorem typed_evaluation_witness:
  "evaluate_expression (sample_context []) [] ''origin.asn<9'' = Some (Evaluated True)"
proof -
  let ?a = "Binary OpLt (Member (Ident ''origin'' 0 6) ''asn'' 0 10) (Lit (LitNum 9) 11 12) 0 12"
  have "tokenize ''origin.asn<9'' = Inr [mk_token TIdent ''origin'' 0 6, mk_token TDot ''.'' 6 7,
      mk_token TIdent ''asn'' 7 10, mk_token TLt ''<'' 10 11, mk_token TNumber ''9'' 11 12, mk_token TEof [] 12 12]"
    by code_simp
  moreover have "number_value ''9'' = 9" by code_simp
  ultimately have p: "parse_expression_ast ''origin.asn<9'' = Inr ?a"
    by (simp add: parse_expression_ast_def parser_steps)
  have "typed ?a TyBool"
    by (rule typed.order [OF _ typed.attribute [OF attr_type.origin_asn] typed.lit_num]) simp
  from typed_evaluation [OF p this, of "sample_context []" "[]"]
  have "case evaluate_expression (sample_context []) [] ''origin.asn<9'' of
      Some (Evaluated b) \<Rightarrow> eval_ast (sample_context []) ?a = Inr (VBool b) | _ \<Rightarrow> eval_ast (sample_context []) ?a \<noteq> Inr (VBool True)"
    by (auto split: option.splits expression_evaluation.splits)
  moreover have "eval_ast (sample_context []) ?a = Inr (VBool True)"
    by (simp add: to_env_def origin_env_def sample_context_def sample_attributes_def lookup_key_def eval_binary_def eval_compare_def)
  ultimately show ?thesis by (auto split: option.splits expression_evaluation.splits)
qed

end
