(* ===== verification/Armor_Phases.thy ===== *)
theory Armor_Phases
  imports Armor_Types_Sound
begin

text \<open>
  What the body of a request can change. A policy inspects the body only for rules whose expression
  \<open>expressionUsesBodyPhase\<close> reports; the other rules are evaluated on the request as it came. The first
  property shows that this is sound for expressions that name the attributes of \<open>request\<close> directly, the
  second that it is not for a computed key.
\<close>

section \<open>Requests that differ in the body\<close>

definition agree_outside_body :: "request_attributes \<Rightarrow> request_attributes \<Rightarrow> bool" where
  "agree_outside_body ra rb =
     (\<exists>b p. rb = ra\<lparr>http_attrs := (http_attrs ra)\<lparr>req_body := b, req_params := p\<rparr>\<rparr>)"

fun string_lit :: "ast \<Rightarrow> bool" where
  "string_lit (Lit (LitStr v) s e) = True"
| "string_lit _ = False"

lemma string_lit_conv: "string_lit key \<longleftrightarrow> (\<exists>v s e. key = Lit (LitStr v) s e)"
  by (cases key rule: string_lit.cases) simp_all

text \<open>\<open>request\<close> occurs only as \<open>request.name\<close> or \<open>request['name']\<close>.\<close>

function direct :: "ast \<Rightarrow> bool" where
  "direct (Lit v s e) = True"
| "direct (Ident n s e) = (n \<noteq> ''request'')"
| "direct (Member obj n s e) = (is_ident obj ''request'' \<or> direct obj)"
| "direct (Index obj key s e) =
     ((is_ident obj ''request'' \<and> string_lit key) \<or> (direct obj \<and> direct key))"
| "direct (Call callee args s e) =
     ((case callee of Member obj n _ _ \<Rightarrow> direct obj | _ \<Rightarrow> True) \<and> list_all direct args)"
| "direct (Unary op a s e) = direct a"
| "direct (Binary op l r s e) = (direct l \<and> direct r)"
| "direct (ListLit es s e) = list_all direct es"
| "direct (MapLit es s e) = list_all (\<lambda>en. direct (fst en) \<and> direct (snd en)) es"
  by pat_completeness auto
termination
  by (relation "measure size")
     (auto dest: size_in_list size_in_list [where n = 0, simplified] size_in_entries)

definition with_attrs :: "eval_context \<Rightarrow> request_attributes \<Rightarrow> eval_context" where
  "with_attrs c ra = c\<lparr>ctx_attrs := ra\<rparr>"

lemma with_attrs_simps [simp]:
  "ctx_attrs (with_attrs c ra) = ra" "ctx_regex (with_attrs c ra) = ctx_regex c" "ctx_groups (with_attrs c ra) = ctx_groups c"
  by (simp_all add: with_attrs_def)

lemma agree_parts:
  assumes "agree_outside_body ra rb"
  shows "origin_attrs rb = origin_attrs ra" and "waf_matches rb = waf_matches ra"
    and "adaptive_match rb = adaptive_match ra" and "req_headers (http_attrs rb) = req_headers (http_attrs ra)"
    and "req_method (http_attrs rb) = req_method (http_attrs ra)" and "req_path (http_attrs rb) = req_path (http_attrs ra)"
    and "req_query (http_attrs rb) = req_query (http_attrs ra)" and "req_scheme (http_attrs rb) = req_scheme (http_attrs ra)"
  using assms by (auto simp: agree_outside_body_def)

lemma ident_agrees:
  "agree_outside_body ra rb \<Longrightarrow> n \<noteq> ''request'' \<Longrightarrow> jm_get (to_env rb) n = jm_get (to_env ra) n"
  by (simp add: to_env_def agree_parts)

lemma request_fields_agree:
  assumes "agree_outside_body ra rb" and "n \<noteq> ''body''" and "n \<noteq> ''params''"
  shows "lookup_key (request_env (http_attrs rb)) (VStr n) = lookup_key (request_env (http_attrs ra)) (VStr n)"
  using assms(2,3) unfolding lookup_key_def request_env_def agree_parts [OF assms(1)] by simp

lemma request_has_agree:
  "has_key (request_env (http_attrs rb)) (VStr n) = has_key (request_env (http_attrs ra)) (VStr n)"
  by (simp add: has_key_def request_env_def jm_has_def)

lemma request_ident: "is_ident a ''request'' \<Longrightarrow> \<exists>s e. a = Ident ''request'' s e"
  by (cases a) auto

lemma entry_children:
  assumes "en \<in> set es"
  shows "fst en \<in> set (children_of (MapLit es s e))" and "snd en \<in> set (children_of (MapLit es s e))"
proof -
  have "set [fst en, snd en] \<subseteq> set (children_of (MapLit es s e))"
    using assms by (induction es) (auto split: prod.splits)
  then show "fst en \<in> set (children_of (MapLit es s e))" "snd en \<in> set (children_of (MapLit es s e))" by simp_all
qed

lemma body_child: "\<not> ast_uses_body_phase a \<Longrightarrow> b \<in> set (children_of a) \<Longrightarrow> \<not> ast_uses_body_phase b"
  by (subst (asm) ast_uses_body_phase.simps) (auto simp: list_ex_iff)

lemma body_field: "\<not> ast_uses_body_phase a \<Longrightarrow> request_field_name a \<noteq> Some ''body'' \<and> request_field_name a \<noteq> Some ''params''"
  by (subst (asm) ast_uses_body_phase.simps) (simp add: body_node_def)

lemma eval_call_agrees:
  assumes "agree_outside_body ra rb"
  shows "eval_call (with_attrs c rb) name tg rs h = eval_call (with_attrs c ra) name tg rs h"
proof -
  have "eval_method (with_attrs c rb) m t rs = eval_method (with_attrs c ra) m t rs" for m t
    by (simp only: eval_method_def with_attrs_simps)
  moreover have "eval_address_group (with_attrs c rb) rs = eval_address_group (with_attrs c ra) rs"
    by (simp only: eval_address_group_def resolve_evaluate_ip_def with_attrs_simps agree_parts [OF assms])
  moreover have "eval_preconfigured_waf rb rs = eval_preconfigured_waf ra rs"
    by (simp only: eval_preconfigured_waf_def agree_parts [OF assms])
  ultimately show ?thesis
    by (simp only: eval_call_def with_attrs_simps agree_parts [OF assms])
qed

fun is_access :: "ast \<Rightarrow> bool" where
  "is_access (Member obj n s e) = True"
| "is_access (Index obj key s e) = True"
| "is_access _ = False"

lemma has_other: "\<not> is_access a \<Longrightarrow> eval_ast c a = eval_ast c' a \<Longrightarrow> eval_has c a = eval_has c' a"
  by (cases a) (simp_all only: is_access.simps eval_has.simps ast.case not_True_eq_False)

lemma direct_agrees:
  assumes "agree_outside_body ra rb"
  shows "direct a \<Longrightarrow> \<not> ast_uses_body_phase a \<Longrightarrow>
    eval_ast (with_attrs c rb) a = eval_ast (with_attrs c ra) a \<and> eval_has (with_attrs c rb) a = eval_has (with_attrs c ra) a"
proof (induction a rule: direct.induct)
  case (1 v s e)
  show ?case by (auto intro: has_other)
next
  case (2 n s e)
  then have "eval_ast (with_attrs c rb) (Ident n s e) = eval_ast (with_attrs c ra) (Ident n s e)"
    by (simp add: ident_agrees [OF assms])
  then show ?case by (auto intro: has_other simp del: eval_ast.simps)
next
  case (3 obj n s e)
  show ?case
  proof (cases "is_ident obj ''request''")
    case True
    then obtain s1 e1 where obj: "obj = Ident ''request'' s1 e1" using request_ident by blast
    then have "n \<noteq> ''body''" "n \<noteq> ''params''" using body_field [OF 3(3)] by simp_all
    then show ?thesis
      unfolding eval_has.simps ast.case eval_ast.simps(3) obj attr_origin with_attrs_simps ebind_simps
      using request_fields_agree [OF assms] request_has_agree [of rb n ra] by simp
  next
    case False
    then have "direct obj" using 3(2) by simp
    moreover have "\<not> ast_uses_body_phase obj" by (rule body_child [OF 3(3)]) simp
    ultimately show ?thesis using 3(1) False by (simp add: eval_has.simps)
  qed
next
  case (4 obj key s e)
  show ?case
  proof (cases "is_ident obj ''request'' \<and> string_lit key")
    case True
    then obtain s1 e1 v s2 e2 where obj: "obj = Ident ''request'' s1 e1" "key = Lit (LitStr v) s2 e2"
      using request_ident string_lit_conv by blast
    then have "v \<noteq> ''body''" "v \<noteq> ''params''" using body_field [OF 4(4)] by simp_all
    then show ?thesis
      unfolding eval_has.simps ast.case eval_ast.simps(1,4) obj attr_origin with_attrs_simps ebind_simps lit_evalue.simps
      using request_fields_agree [OF assms] request_has_agree [of rb v ra] by simp
  next
    case False
    then have "direct obj" "direct key" using 4(3) by auto
    moreover have "\<not> ast_uses_body_phase obj" "\<not> ast_uses_body_phase key"
      by (rule body_child [OF 4(4)], simp)+
    ultimately show ?thesis using 4(1,2) by (simp add: eval_has.simps)
  qed
next
  case (5 callee args s e)
  have args: "eval_ast (with_attrs c rb) a = eval_ast (with_attrs c ra) a \<and> eval_has (with_attrs c rb) a = eval_has (with_attrs c ra) a"
    if "a \<in> set args" for a
    using 5(2) [OF that] 5(3) that body_child [OF 5(4), of a] by (simp add: list_all_iff)
  have target: "(case callee of Member obj n _ _ \<Rightarrow> Some (eval_ast (with_attrs c rb) obj) | _ \<Rightarrow> None)
      = (case callee of Member obj n _ _ \<Rightarrow> Some (eval_ast (with_attrs c ra) obj) | _ \<Rightarrow> None)"
  proof (cases callee)
    case (Member obj n s1 e1)
    have "\<not> ast_uses_body_phase callee" by (rule body_child [OF 5(4)]) simp
    then have "\<not> ast_uses_body_phase obj" by (rule body_child) (simp add: Member)
    then show ?thesis using 5(1) [OF Member] 5(3) Member by simp
  qed simp_all
  have "map (eval_ast (with_attrs c rb)) args = map (eval_ast (with_attrs c ra)) args" using args by simp
  moreover have "(case args of [] \<Rightarrow> None | a # _ \<Rightarrow> Some (eval_has (with_attrs c rb) a))
      = (case args of [] \<Rightarrow> None | a # _ \<Rightarrow> Some (eval_has (with_attrs c ra) a))"
    using args by (cases args) simp_all
  ultimately have "eval_ast (with_attrs c rb) (Call callee args s e) = eval_ast (with_attrs c ra) (Call callee args s e)"
    unfolding eval_ast.simps(5) target by (simp only: eval_call_agrees [OF assms])
  then show ?case by (auto intro: has_other simp del: eval_ast.simps)
next
  case (6 op a s e)
  have "\<not> ast_uses_body_phase a" by (rule body_child [OF 6(3)]) simp
  then show ?case using 6(1,2) by (auto intro: has_other)
next
  case (7 op l r s e)
  have "\<not> ast_uses_body_phase l" "\<not> ast_uses_body_phase r" by (rule body_child [OF 7(4)], simp)+
  then show ?case using 7(1-3) by (auto intro: has_other)
next
  case (8 es s e)
  have "map (eval_ast (with_attrs c rb)) es = map (eval_ast (with_attrs c ra)) es"
    using 8(1,2) body_child [OF 8(3)] by (simp add: list_all_iff)
  then have "eval_ast (with_attrs c rb) (ListLit es s e) = eval_ast (with_attrs c ra) (ListLit es s e)"
    by (simp only: eval_ast.simps)
  then show ?case by (auto intro: has_other simp del: eval_ast.simps)
next
  case (9 es s e)
  have "eval_ast (with_attrs c rb) (fst en) = eval_ast (with_attrs c ra) (fst en) \<and>
      eval_ast (with_attrs c rb) (snd en) = eval_ast (with_attrs c ra) (snd en)" if "en \<in> set es" for en
  proof -
    note child = entry_children [OF that, of s e]
    have "\<not> ast_uses_body_phase (fst en)" "\<not> ast_uses_body_phase (snd en)"
      using body_child [OF 9(4) child(1)] body_child [OF 9(4) child(2)] by simp_all
    moreover have "direct (fst en)" "direct (snd en)" using 9(3) that by (auto simp: list_all_iff)
    ultimately show ?thesis using 9(1) [OF that] 9(2) [OF that] by blast
  qed
  then have "map (\<lambda>en. (eval_ast (with_attrs c rb) (fst en), eval_ast (with_attrs c rb) (snd en))) es
      = map (\<lambda>en. (eval_ast (with_attrs c ra) (fst en), eval_ast (with_attrs c ra) (snd en))) es" by simp
  then have "eval_ast (with_attrs c rb) (MapLit es s e) = eval_ast (with_attrs c ra) (MapLit es s e)"
    by (simp only: eval_ast.simps)
  then show ?case by (auto intro: has_other simp del: eval_ast.simps)
qed

lemma direct_evaluation:
  assumes "parse_expression_ast expression = Inr a" and "direct a" and "\<not> expression_uses_body_phase expression"
    and "agree_outside_body ra rb"
  shows "evaluate_expression (with_attrs c rb) m expression = evaluate_expression (with_attrs c ra) m expression"
proof -
  have "\<not> ast_uses_body_phase a" using assms(1,3) by (simp add: expression_uses_body_phase_def)
  then have "eval_ast (with_attrs c rb) a = eval_ast (with_attrs c ra) a"
    using direct_agrees [OF assms(4,2)] by blast
  then show ?thesis using assms(1) by (simp add: evaluate_expression_def)
qed

section \<open>Properties\<close>

text \<open>C18: Rules of the header phase do not see the body. An expression that names the attributes of \<open>request\<close>
  directly and that \<open>expressionUsesBodyPhase\<close> does not report evaluates to the same result on two requests
  that differ only in their body and their parameters.\<close>

theorem header_phase_ignores_body:
  assumes "parse_expression_ast expression = Inr a" and "direct a" and "\<not> expression_uses_body_phase expression"
    and "agree_outside_body ra rb"
  shows "evaluate_expression (with_attrs c rb) m expression = evaluate_expression (with_attrs c ra) m expression"
  using assms by (rule direct_evaluation)

lemma sample_agree: "agree_outside_body (sample_attributes b) (sample_attributes b')"
  unfolding agree_outside_body_def sample_attributes_def
  by (rule exI [of _ b'], rule exI [of _ "[]"]) simp

theorem header_phase_ignores_body_witness:
  "evaluate_expression (with_attrs (sample_context []) (sample_attributes ''x'')) [] ''has(request.path)''
     = evaluate_expression (with_attrs (sample_context []) (sample_attributes [])) [] ''has(request.path)''"
proof (rule header_phase_ignores_body [OF _ _ _ sample_agree])
  let ?a = "Call (Ident ''has'' 0 3) [Member (Ident ''request'' 4 11) ''path'' 4 16] 0 17"
  have "tokenize ''has(request.path)'' = Inr [mk_token TIdent ''has'' 0 3, mk_token TLparen ''('' 3 4,
      mk_token TIdent ''request'' 4 11, mk_token TDot ''.'' 11 12, mk_token TIdent ''path'' 12 16,
      mk_token TRparen '')'' 16 17, mk_token TEof [] 17 17]"
    by code_simp
  then show p: "parse_expression_ast ''has(request.path)'' = Inr ?a"
    by (simp add: parse_expression_ast_def parser_steps parse_arg_list_def parse_items_def)
  show "direct ?a" by simp
  show "\<not> expression_uses_body_phase ''has(request.path)''"
    unfolding expression_uses_body_phase_def p sum.case
    by (simp add: body_phase_subexprs body_node_def body_functions_def)
qed

definition computed_key_source :: string where
  "computed_key_source = ''request['' @ [squote] @ ''bo'' @ [squote] @ ''+'' @ [squote] @ ''dy'' @ [squote] @ '']=='' @
     [squote] @ ''x'' @ [squote]"

definition computed_key_ast :: ast where
  "computed_key_ast = Binary OpEq
     (Index (Ident ''request'' 0 7) (Binary OpAdd (Lit (LitStr ''bo'') 8 12) (Lit (LitStr ''dy'') 13 17) 8 17) 0 18)
     (Lit (LitStr ''x'') 20 23) 0 23"

lemma computed_key_parses: "parse_expression_ast computed_key_source = Inr computed_key_ast"
proof -
  have "tokenize computed_key_source = Inr [mk_token TIdent ''request'' 0 7, mk_token TLbrack ''['' 7 8,
      mk_token TString ''bo'' 8 12, mk_token TPlus ''+'' 12 13, mk_token TString ''dy'' 13 17,
      mk_token TRbrack '']'' 17 18, mk_token TEq ''=='' 18 20, mk_token TString ''x'' 20 23, mk_token TEof [] 23 23]"
    by code_simp
  then show ?thesis by (simp add: parse_expression_ast_def parser_steps computed_key_ast_def)
qed

text \<open>A computed key hides the body. The expression \<open>request['bo'+'dy']=='x'\<close> passes the checks of
  \<open>validateExpression\<close> and is not reported by \<open>expressionUsesBodyPhase\<close>, yet its value depends on the body,
  so it is decided in the header phase on the body before the inspection limit.\<close>

theorem computed_key_hides_body:
  "validate_expression (\<lambda>p. Inr (\<lambda>s. True)) computed_key_source = Inr ()
   \<and> \<not> expression_uses_body_phase computed_key_source
   \<and> evaluate_expression (sample_context b) m computed_key_source = Some (Evaluated (b = ''x''))"
proof (intro conjI)
  show "\<not> expression_uses_body_phase computed_key_source"
    unfolding expression_uses_body_phase_def computed_key_parses sum.case
    by (simp add: computed_key_ast_def body_phase_subexprs body_node_def)
  have "walk re computed_key_ast ([], 0) = Inr ([(0, 23)], 0)" for re
    unfolding walk_run_checks computed_key_ast_def by (simp add: comparison_ops_def)
  then have "check_write_time_constraints (\<lambda>p. Inr (\<lambda>s. True)) computed_key_ast = Inr ()"
    by (simp add: check_write_time_constraints_def max_subexpressions_def max_matches_per_expression_def max_subexpression_chars_def)
  moreover have "length computed_key_source \<le> max_expression_chars"
    by (simp add: computed_key_source_def max_expression_chars_def)
  ultimately show "validate_expression (\<lambda>p. Inr (\<lambda>s. True)) computed_key_source = Inr ()"
    by (simp add: validate_expression_def computed_key_parses)
  have "eval_ast (sample_context b) computed_key_ast = Inr (VBool (b = ''x''))"
    by (simp add: computed_key_ast_def to_env_def request_env_def sample_context_def sample_attributes_def lookup_key_def
      eval_binary_def eval_compare_def)
  then show "evaluate_expression (sample_context b) m computed_key_source = Some (Evaluated (b = ''x''))"
    by (simp add: evaluate_expression_def computed_key_parses)
qed

end
