(* ===== verification/Armor_Rate_Limit.thy ===== *)
theory Armor_Rate_Limit
  imports Armor_Types Ip_Address Js_Text
begin

text \<open>
  The rate limiter of the request filter, \<open>src/src/services/compute/armor/rate-limit.ts\<close>: its three
  module-level maps are the fields of \<open>rate_store\<close>. The injected clock is a function of the number of times it
  has been read. A bucket key is the list of the code points of the text the code builds, since cutting a key
  at 128 bytes can end it with the replacement character. Windows have a positive length
  (\<open>validateRateLimitOptions\<close> refuses others).
\<close>

section \<open>Configuration\<close>

definition valid_interval_sec :: "rat list" where
  "valid_interval_sec = [10, 30, 60, 120, 180, 240, 300, 600, 900, 1200, 1800, 2700, 3600]"

definition valid_ban_duration_sec :: "rat list" where
  "valid_ban_duration_sec = [60, 120, 180, 240, 300, 600, 900, 1200, 1800, 2700, 3600]"

definition valid_key_types :: "string list" where
  "valid_key_types = [''ALL'', ''IP'', ''XFF_IP'', ''USER_IP'', ''HTTP_HEADER'', ''HTTP_COOKIE'', ''HTTP_PATH'', ''SNI'',
     ''REGION_CODE'', ''TLS_JA3_FINGERPRINT'', ''TLS_JA4_FINGERPRINT'']"

definition repeatable_key_types :: "string list" where
  "repeatable_key_types = [''HTTP_HEADER'', ''HTTP_COOKIE'']"

definition max_enforce_on_key_configs :: nat where "max_enforce_on_key_configs = 3"
definition rate_limit_key_value_max_bytes :: nat where "rate_limit_key_value_max_bytes = 128"

abbreviation armor_fail :: "string \<Rightarrow> armor_error + unit" where
  "armor_fail msg \<equiv> Inl (ArmorError msg)"

definition check_then :: "armor_error + unit \<Rightarrow> armor_error + unit \<Rightarrow> armor_error + unit" where
  "check_then r k = (case r of Inl e \<Rightarrow> Inl e | Inr _ \<Rightarrow> k)"

definition assert_rate_limit_action_transition :: "string \<Rightarrow> string \<Rightarrow> armor_error + unit" where
  "assert_rate_limit_action_transition frm to =
     (if frm = ''rate_based_ban'' \<and> to = ''throttle''
      then armor_fail ''Cannot change a rate_based_ban rule to throttle; delete and recreate the rule'' else Inr ())"

definition whole_between :: "rat \<Rightarrow> rat \<Rightarrow> bool" where
  "whole_between c hi = (of_int \<lfloor>c\<rfloor> = c \<and> 1 \<le> c \<and> c \<le> hi)"

definition is_valid_interval :: "rat \<Rightarrow> bool" where
  "is_valid_interval v = (v \<in> set valid_interval_sec)"

definition is_valid_ban_duration :: "rat \<Rightarrow> bool" where
  "is_valid_ban_duration v = (v \<in> set valid_ban_duration_sec)"

definition validate_key_type :: "string \<Rightarrow> armor_error + unit" where
  "validate_key_type t =
     (if t \<notin> set valid_key_types then armor_fail (''Invalid enforceOnKeyType: '' @ t) else Inr ())"

definition named_key :: "string \<Rightarrow> string option \<Rightarrow> armor_error + unit" where
  "named_key t name =
     (if (t = ''HTTP_HEADER'' \<or> t = ''HTTP_COOKIE'') \<and> (name = None \<or> name = Some [])
      then armor_fail (t @ '' requires enforceOnKeyName'') else Inr ())"

text \<open>The loop over the key configurations, with the set \<open>seen\<close>.\<close>

fun validate_configs :: "enforce_on_key_config list \<Rightarrow> string list \<Rightarrow> armor_error + unit" where
  "validate_configs [] seen = Inr ()"
| "validate_configs (k # ks) seen =
     (let t = (case enforce_on_key_type k of None \<Rightarrow> [] | Some t \<Rightarrow> t)
      in check_then (validate_key_type t)
           (if t \<notin> set repeatable_key_types \<and> t \<in> set seen
            then armor_fail (''enforceOnKeyType '' @ t @ '' may only appear once'')
            else check_then (named_key t (enforce_on_key_config_name k)) (validate_configs ks (t # seen))))"

definition validate_keys :: "rate_limit_options \<Rightarrow> armor_error + unit" where
  "validate_keys opts =
     (case enforce_on_key_configs opts of
        Some (k # ks) \<Rightarrow>
          if enforce_on_key opts \<noteq> None \<and> enforce_on_key opts \<noteq> Some []
          then armor_fail ''enforceOnKey must be empty when enforceOnKeyConfigs is set''
          else if length (k # ks) > max_enforce_on_key_configs
          then armor_fail (''A maximum of '' @ nat_to_dec max_enforce_on_key_configs @ '' enforceOnKeyConfigs are allowed'')
          else validate_configs (k # ks) []
      | _ \<Rightarrow>
          (case enforce_on_key opts of
             None \<Rightarrow> Inr ()
           | Some t \<Rightarrow> if t = [] then Inr () else check_then (validate_key_type t) (named_key t (enforce_on_key_name opts))))"

definition validate_ban :: "rate_limit_options \<Rightarrow> armor_error + unit" where
  "validate_ban opts =
     (case ban_duration_sec opts of
        None \<Rightarrow> armor_fail ''banDurationSec is required for rate_based_ban''
      | Some d \<Rightarrow>
          if \<not> is_valid_ban_duration d then armor_fail (''Invalid banDurationSec: '' @ num_to_str d)
          else (case ban_threshold opts of
                  None \<Rightarrow> Inr ()
                | Some ban \<Rightarrow>
                    (case (threshold_count ban, interval_sec ban) of
                       (Some cnt, Some i) \<Rightarrow>
                         if \<not> whole_between cnt 10000 then armor_fail ''banThreshold.count must be between 1 and 10000''
                         else if \<not> is_valid_interval i
                         then armor_fail (''Invalid banThreshold.intervalSec: '' @ num_to_str i)
                         else Inr ()
                     | _ \<Rightarrow> armor_fail ''banThreshold.count and intervalSec are required'')))"

definition validate_rate_limit_options :: "string \<Rightarrow> rate_limit_options \<Rightarrow> armor_error + unit" where
  "validate_rate_limit_options action opts =
     (case rate_limit_threshold opts of
        None \<Rightarrow> armor_fail ''rateLimitThreshold.count and intervalSec are required''
      | Some th \<Rightarrow>
          (case (threshold_count th, interval_sec th) of
             (Some cnt, Some i) \<Rightarrow>
               let max_count = (if action = ''rate_based_ban'' then 10000 else 1000000 :: rat)
               in if \<not> whole_between cnt max_count
                  then armor_fail (''rateLimitThreshold.count must be between 1 and '' @ num_to_str max_count)
                  else if \<not> is_valid_interval i then armor_fail (''Invalid intervalSec: '' @ num_to_str i)
                  else check_then (validate_keys opts)
                         (if action = ''rate_based_ban'' then validate_ban opts else Inr ())
           | _ \<Rightarrow> armor_fail ''rateLimitThreshold.count and intervalSec are required''))"

section \<open>Keys\<close>

type_synonym bucket_key = "nat list"

abbreviation units :: "string \<Rightarrow> bucket_key" where
  "units s \<equiv> map unit_of s"

definition truncate_key :: "string \<Rightarrow> bucket_key" where
  "truncate_key s =
     (if length (concat (map utf8_unit s)) \<le> rate_limit_key_value_max_bytes then units s
      else take_bytes rate_limit_key_value_max_bytes s)"

text \<open>The loop of \<open>cookieValue\<close> over the parts of the header.\<close>

fun find_cookie :: "string \<Rightarrow> string list \<Rightarrow> string option" where
  "find_cookie name [] = None"
| "find_cookie name (part # parts) =
     (let t = trim_str part;
          key = (case index_of t (CHR ''='') of None \<Rightarrow> t | Some i \<Rightarrow> take i t);
          val = (case index_of t (CHR ''='') of None \<Rightarrow> [] | Some i \<Rightarrow> drop (Suc i) t)
      in if key = name then Some val else find_cookie name parts)"

definition cookie_value :: "string option \<Rightarrow> string \<Rightarrow> string option" where
  "cookie_value header name =
     (case header of None \<Rightarrow> None | Some h \<Rightarrow> if h = [] then None else find_cookie name (split_char (CHR '';'') h))"

definition ip_key :: "request_attributes \<Rightarrow> bucket_key" where
  "ip_key ra = units (''IP:'' @ origin_ip (origin_attrs ra))"

definition component_key :: "string \<Rightarrow> string option \<Rightarrow> request_attributes \<Rightarrow> bucket_key" where
  "component_key t name ra =
     (let headers = req_headers (http_attrs ra); og = origin_attrs ra
      in if t = ''ALL'' then units ''ALL''
         else if t = ''IP'' then ip_key ra
         else if t = ''USER_IP'' then
           (if \<not> user_ip_resolved og then ip_key ra else units ''USER_IP:'' @ truncate_key (user_ip og))
         else if t = ''XFF_IP'' then
           (case (case jm_get headers ''x-forwarded-for'' of None \<Rightarrow> None | Some h \<Rightarrow> parse_first_valid_ip h) of
              None \<Rightarrow> ip_key ra
            | Some hop \<Rightarrow> units ''XFF_IP:'' @ truncate_key hop)
         else if t = ''HTTP_HEADER'' then
           (case name of
              None \<Rightarrow> units ''ALL''
            | Some n \<Rightarrow>
                if n = [] then units ''ALL''
                else (case jm_get headers (lower_str n) of
                        None \<Rightarrow> units ''ALL''
                      | Some v \<Rightarrow> units (''HTTP_HEADER:'' @ lower_str n @ ''='') @ truncate_key v))
         else if t = ''HTTP_COOKIE'' then
           (case name of
              None \<Rightarrow> units ''ALL''
            | Some n \<Rightarrow>
                if n = [] then units ''ALL''
                else (case cookie_value (jm_get headers ''cookie'') n of
                        None \<Rightarrow> units ''ALL''
                      | Some v \<Rightarrow> units (''HTTP_COOKIE:'' @ n @ ''='') @ truncate_key v))
         else if t = ''HTTP_PATH'' then units ''HTTP_PATH:'' @ truncate_key (req_path (http_attrs ra))
         else if t = ''SNI'' then (if sni ra = [] then units ''ALL'' else units ''SNI:'' @ truncate_key (sni ra))
         else if t = ''REGION_CODE'' then units ''REGION_CODE:'' @ truncate_key (region_code og)
         else if t = ''TLS_JA3_FINGERPRINT'' then
           (if tls_ja3 og = [] then units ''ALL'' else units ''JA3:'' @ truncate_key (tls_ja3 og))
         else if t = ''TLS_JA4_FINGERPRINT'' then
           (if tls_ja4 og = [] then units ''ALL'' else units ''JA4:'' @ truncate_key (tls_ja4 og))
         else units ''ALL'')"

fun join_keys :: "bucket_key list \<Rightarrow> bucket_key" where
  "join_keys [] = []"
| "join_keys [k] = k"
| "join_keys (k # ks) = k @ units ''|'' @ join_keys ks"

definition build_client_key :: "rate_limit_options \<Rightarrow> request_attributes \<Rightarrow> bucket_key" where
  "build_client_key opts ra =
     (case enforce_on_key_configs opts of
        Some (k # ks) \<Rightarrow>
          join_keys (map (\<lambda>cfg. component_key (case enforce_on_key_type cfg of None \<Rightarrow> ''ALL'' | Some t \<Rightarrow> t)
            (enforce_on_key_config_name cfg) ra) (k # ks))
      | _ \<Rightarrow> component_key (case enforce_on_key opts of None \<Rightarrow> ''ALL'' | Some t \<Rightarrow> t) (enforce_on_key_name opts) ra)"

section \<open>Counters\<close>

record window_count =
  window_id :: int
  win_count :: nat

record rate_store =
  rl_clock :: "nat \<Rightarrow> int"
  rl_reads :: nat
  rate_windows :: "(bucket_key, window_count) jsmap"
  ban_windows :: "(bucket_key, window_count) jsmap"
  bans :: "(bucket_key, rat) jsmap"

definition set_rate_limit_clock :: "(nat \<Rightarrow> int) \<Rightarrow> rate_store \<Rightarrow> rate_store" where
  "set_rate_limit_clock clock st = st\<lparr>rl_clock := clock, rl_reads := 0\<rparr>"

definition reset_rate_limit_store :: "(nat \<Rightarrow> int) \<Rightarrow> rate_store \<Rightarrow> rate_store" where
  "reset_rate_limit_store wall_clock st =
     \<lparr>rl_clock = wall_clock, rl_reads = 0, rate_windows = [], ban_windows = [], bans = []\<rparr>"

definition next_count :: "(bucket_key, window_count) jsmap \<Rightarrow> bucket_key \<Rightarrow> int \<Rightarrow> nat" where
  "next_count m key wid =
     (case jm_get m key of
        None \<Rightarrow> 1
      | Some en \<Rightarrow> if window_id en \<noteq> wid then 1 else win_count en + 1)"

definition bump :: "(bucket_key, window_count) jsmap \<Rightarrow> bucket_key \<Rightarrow> int \<Rightarrow> (bucket_key, window_count) jsmap" where
  "bump m key wid =
     (case jm_get m key of
        None \<Rightarrow> jm_set m key \<lparr>window_id = wid, win_count = 1\<rparr>
      | Some en \<Rightarrow>
          if window_id en \<noteq> wid then jm_set m key \<lparr>window_id = wid, win_count = 1\<rparr>
          else jm_set m key (en\<lparr>win_count := win_count en + 1\<rparr>))"

definition window_of :: "int \<Rightarrow> rat \<Rightarrow> int" where
  "window_of now interval = \<lfloor>of_int now / (interval * 1000)\<rfloor>"

section \<open>Limiting\<close>

datatype limit_mode = Commit | Preview

record limit_request =
  lr_policy :: string
  lr_priority :: rat
  lr_action :: string
  lr_options :: rate_limit_options
  lr_attrs :: request_attributes
  lr_mode :: limit_mode

definition exceed_of :: "rate_limit_options \<Rightarrow> string" where
  "exceed_of opts = (case exceed_action opts of None \<Rightarrow> ''deny(429)'' | Some a \<Rightarrow> a)"

definition conform_of :: "rate_limit_options \<Rightarrow> string" where
  "conform_of opts = (case conform_action opts of None \<Rightarrow> ''allow'' | Some a \<Rightarrow> a)"

definition interval_of :: "rate_limit_options \<Rightarrow> rat" where
  "interval_of opts = (case rate_limit_threshold opts of None \<Rightarrow> 60
     | Some th \<Rightarrow> (case interval_sec th of None \<Rightarrow> 60 | Some i \<Rightarrow> i))"

definition limit_of :: "rate_limit_options \<Rightarrow> rat" where
  "limit_of opts = (case rate_limit_threshold opts of None \<Rightarrow> 1
     | Some th \<Rightarrow> (case threshold_count th of None \<Rightarrow> 1 | Some n \<Rightarrow> n))"

definition bucket_of :: "limit_request \<Rightarrow> bucket_key" where
  "bucket_of rq = units (lr_policy rq @ [CHR 0x00] @ num_to_str (lr_priority rq) @ [CHR 0x00])
     @ build_client_key (lr_options rq) (lr_attrs rq)"

definition ban_bucket :: "bucket_key \<Rightarrow> bucket_key" where
  "ban_bucket k = units (''banThresh'' @ [CHR 0x00]) @ k"

text \<open>The ban threshold, when both of its parts are set.\<close>

definition ban_limits :: "rate_limit_options \<Rightarrow> (rat \<times> rat) option" where
  "ban_limits opts = (case ban_threshold opts of None \<Rightarrow> None
     | Some th \<Rightarrow> (case (threshold_count th, interval_sec th) of (Some n, Some i) \<Rightarrow> Some (n, i) | _ \<Rightarrow> None))"

definition would_ban :: "rate_store \<Rightarrow> limit_request \<Rightarrow> int \<Rightarrow> nat \<Rightarrow> bool" where
  "would_ban st rq now next =
     (if lr_action rq \<noteq> ''rate_based_ban'' then False
      else case ban_limits (lr_options rq) of
             Some (n, i) \<Rightarrow> of_nat (next_count (ban_windows st) (ban_bucket (bucket_of rq)) (window_of now i)) > n
           | None \<Rightarrow> of_nat next > limit_of (lr_options rq))"

definition apply_rate_limit :: "rate_store \<Rightarrow> limit_request \<Rightarrow> string \<times> rate_store" where
  "apply_rate_limit st rq =
     (let opts = lr_options rq; now = rl_clock st (rl_reads st); st0 = st\<lparr>rl_reads := Suc (rl_reads st)\<rparr>;
          key = bucket_of rq; ban_until = (case jm_get (bans st) key of None \<Rightarrow> 0 | Some t \<Rightarrow> t)
      in if ban_until > of_int now then (exceed_of opts, st0)
         else
           let wid = window_of now (interval_of opts);
               next = next_count (rate_windows st) key wid;
               ban = would_ban st rq now next;
               st1 = st0\<lparr>rate_windows := bump (rate_windows st) key wid\<rparr>;
               st2 = (if lr_action rq = ''rate_based_ban'' then
                        (case ban_limits opts of
                           Some (n, i) \<Rightarrow> st1\<lparr>ban_windows := bump (ban_windows st) (ban_bucket key) (window_of now i)\<rparr>
                         | None \<Rightarrow> st1)
                      else st1);
               st3 = (if lr_mode rq = Commit \<and> ban then
                        st2\<lparr>bans := jm_set (bans st) key
                              (of_int now + (case ban_duration_sec opts of None \<Rightarrow> 60 | Some d \<Rightarrow> d) * 1000)\<rparr>
                      else st2)
           in (if ban \<or> of_nat next > limit_of opts then exceed_of opts else conform_of opts, st3))"

text \<open>A sequence of requests, with their answers and the times at which they were decided.\<close>

fun run_requests :: "rate_store \<Rightarrow> limit_request list \<Rightarrow> (limit_request \<times> int \<times> string) list" where
  "run_requests st [] = []"
| "run_requests st (rq # rqs) =
     (case apply_rate_limit st rq of (answer, st') \<Rightarrow> (rq, rl_clock st (rl_reads st), answer) # run_requests st' rqs)"

section \<open>What one request changes\<close>

named_theorems limiter \<open>the parts of the store after a request\<close>

lemma jm_get_bump [limiter]:
  "jm_get (bump m key wid) key' =
     (if key' = key then Some \<lparr>window_id = wid, win_count = next_count m key wid\<rparr> else jm_get m key')"
  by (auto simp: bump_def next_count_def split: option.splits)

definition banned_until :: "rate_store \<Rightarrow> bucket_key \<Rightarrow> rat" where
  "banned_until st key = (case jm_get (bans st) key of None \<Rightarrow> 0 | Some t \<Rightarrow> t)"

abbreviation store_now :: "rate_store \<Rightarrow> int" where
  "store_now st \<equiv> rl_clock st (rl_reads st)"

lemma apply_clock [limiter]:
  "rl_clock (snd (apply_rate_limit st rq)) = rl_clock st"
  "rl_reads (snd (apply_rate_limit st rq)) = Suc (rl_reads st)"
  by (auto simp: apply_rate_limit_def Let_def split: option.split)

lemma apply_banned [limiter]:
  assumes "banned_until st (bucket_of rq) > of_int (store_now st)"
  shows "fst (apply_rate_limit st rq) = exceed_of (lr_options rq)"
    and "rate_windows (snd (apply_rate_limit st rq)) = rate_windows st"
    and "bans (snd (apply_rate_limit st rq)) = bans st"
  using assms unfolding banned_until_def by (simp_all add: apply_rate_limit_def Let_def)

lemma apply_open [limiter]:
  assumes "\<not> banned_until st (bucket_of rq) > of_int (store_now st)"
  defines "wid \<equiv> window_of (store_now st) (interval_of (lr_options rq))"
  defines "next \<equiv> next_count (rate_windows st) (bucket_of rq) wid"
  shows "fst (apply_rate_limit st rq) =
      (if would_ban st rq (store_now st) next \<or> of_nat next > limit_of (lr_options rq)
       then exceed_of (lr_options rq) else conform_of (lr_options rq))"
    and "rate_windows (snd (apply_rate_limit st rq)) = bump (rate_windows st) (bucket_of rq) wid"
    and "bans (snd (apply_rate_limit st rq)) =
      (if lr_mode rq = Commit \<and> would_ban st rq (store_now st) next
       then jm_set (bans st) (bucket_of rq)
              (of_int (store_now st) + (case ban_duration_sec (lr_options rq) of None \<Rightarrow> 60 | Some d \<Rightarrow> d) * 1000)
       else bans st)"
  using assms(1) unfolding banned_until_def wid_def next_def
  by (auto simp: apply_rate_limit_def Let_def split: option.split)

text \<open>A request leaves the counter and the ban of every other bucket alone.\<close>

lemma apply_other [limiter]:
  assumes "bucket_of rq \<noteq> k"
  shows "jm_get (rate_windows (snd (apply_rate_limit st rq))) k = jm_get (rate_windows st) k"
    and "jm_get (bans (snd (apply_rate_limit st rq))) k = jm_get (bans st) k"
  using assms
  by (cases "banned_until st (bucket_of rq) > of_int (store_now st)"; simp add: limiter)+

lemma run_requests_Cons:
  "run_requests st (rq # rqs) =
     (rq, store_now st, fst (apply_rate_limit st rq)) # run_requests (snd (apply_rate_limit st rq)) rqs"
  by (simp split: prod.split)

lemma run_times:
  assumes "mono (rl_clock st)" and "(rq, t, a) \<in> set (run_requests st rqs)"
  shows "store_now st \<le> t"
  using assms
proof (induction rqs arbitrary: st)
  case (Cons r rqs)
  let ?st = "snd (apply_rate_limit st r)"
  have "store_now st \<le> store_now ?st"
    unfolding apply_clock by (rule monoD [OF Cons.prems(1)]) simp
  moreover have "mono (rl_clock ?st)" using Cons.prems(1) by (simp add: apply_clock)
  ultimately show ?case
    using Cons.IH [of ?st] Cons.prems(2) unfolding run_requests_Cons by auto
qed simp

lemma window_of_mono: "0 < i \<Longrightarrow> t \<le> t' \<Longrightarrow> window_of t i \<le> window_of t' i"
  by (simp add: window_of_def floor_mono divide_right_mono)

section \<open>The bound of a window\<close>

definition used :: "rate_store \<Rightarrow> bucket_key \<Rightarrow> int \<Rightarrow> nat" where
  "used st k w = (case jm_get (rate_windows st) k of None \<Rightarrow> 0 | Some en \<Rightarrow> if window_id en = w then win_count en else 0)"

text \<open>The requests of a bucket that were let through in a window.\<close>

definition admitted :: "bucket_key \<Rightarrow> rat \<Rightarrow> int \<Rightarrow> (limit_request \<times> int \<times> string) list \<Rightarrow> nat" where
  "admitted k i w trace = length (filter (\<lambda>(rq, t, a). bucket_of rq = k \<and> window_of t i = w \<and> a \<noteq> exceed_of (lr_options rq)) trace)"

lemma next_count_used: "next_count (rate_windows st) k w = Suc (used st k w)"
  by (auto simp: next_count_def used_def split: option.split)

lemma admitted_past:
  assumes "mono (rl_clock st)" and "0 < i" and "w < window_of (store_now st) i"
  shows "admitted k i w (run_requests st rqs) = 0"
proof -
  have "window_of t i \<noteq> w" if "(rq, t, a) \<in> set (run_requests st rqs)" for rq t a
    using window_of_mono [OF assms(2) run_times [OF assms(1) that]] assms(3) by simp
  then show ?thesis by (auto simp: admitted_def filter_empty_conv)
qed

lemma used_after:
  assumes "jm_get (rate_windows st') k = Some \<lparr>window_id = w', win_count = n\<rparr>"
  shows "used st' k w = (if w' = w then n else 0)"
  using assms by (simp add: used_def)

lemma admitted_bound:
  assumes "mono (rl_clock st)" and "0 < i"
    and "\<forall>rq \<in> set rqs. bucket_of rq = k \<longrightarrow> interval_of (lr_options rq) = i \<and> limit_of (lr_options rq) = n"
    and "\<forall>en. jm_get (rate_windows st) k = Some en \<longrightarrow> window_id en \<le> window_of (store_now st) i"
  shows "of_nat (admitted k i w (run_requests st rqs)) \<le> max 0 (n - of_nat (used st k w))"
  using assms(1,3,4)
proof (induction rqs arbitrary: st)
  case (Cons rq rqs)
  let ?st = "snd (apply_rate_limit st rq)" and ?a = "fst (apply_rate_limit st rq)"
  let ?now = "window_of (store_now st) i"
  have mono: "mono (rl_clock ?st)" using Cons.prems(1) by (simp add: apply_clock)
  have later: "?now \<le> window_of (store_now ?st) i"
    unfolding apply_clock by (rule window_of_mono [OF assms(2) monoD [OF Cons.prems(1)]]) simp
  have head: "admitted k i w (run_requests st (rq # rqs)) =
      (if bucket_of rq = k \<and> ?now = w \<and> ?a \<noteq> exceed_of (lr_options rq) then 1 else 0) + admitted k i w (run_requests ?st rqs)"
    unfolding run_requests_Cons admitted_def by simp
  have IH: "of_nat (admitted k i w (run_requests ?st rqs)) \<le> max 0 (n - of_nat (used ?st k w))"
    if "\<forall>en. jm_get (rate_windows ?st) k = Some en \<longrightarrow> window_id en \<le> ?now"
    using Cons.IH [OF mono] Cons.prems(2) that later by fastforce
  show ?case
  proof (cases "bucket_of rq = k \<and> \<not> banned_until st k > of_int (store_now st)")
    case False
    have same: "jm_get (rate_windows ?st) k = jm_get (rate_windows st) k"
      using False by (cases "bucket_of rq = k") (auto simp: limiter)
    have "\<not> (bucket_of rq = k \<and> ?now = w \<and> ?a \<noteq> exceed_of (lr_options rq))"
      using False by (auto simp: apply_banned)
    then have "admitted k i w (run_requests st (rq # rqs)) = admitted k i w (run_requests ?st rqs)"
      unfolding head by simp
    then show ?thesis using IH Cons.prems(3) by (simp add: same used_def)
  next
    case True
    then have open_k: "\<not> banned_until st (bucket_of rq) > of_int (store_now st)" and k: "bucket_of rq = k" by auto
    have opts: "interval_of (lr_options rq) = i" "limit_of (lr_options rq) = n" using Cons.prems(2) k by auto
    have entry: "jm_get (rate_windows ?st) k = Some \<lparr>window_id = ?now, win_count = Suc (used st k ?now)\<rparr>"
      by (simp add: apply_open(2) [OF open_k] opts k jm_get_bump next_count_used)
    have rest: "of_nat (admitted k i w (run_requests ?st rqs)) \<le> max 0 (n - of_nat (used ?st k w))"
      by (rule IH) (simp add: entry)
    consider "?now = w" | "w < ?now" | "?now < w" by linarith
    then show ?thesis
    proof cases
      case 1
      have "of_nat (Suc (used st k w)) \<le> n" if "?a \<noteq> exceed_of (lr_options rq)"
        using that 1 unfolding apply_open(1) [OF open_k] opts k next_count_used by (auto split: if_splits)
      then show ?thesis
        using rest 1 used_after [OF entry, of w] k unfolding head by (cases "?a = exceed_of (lr_options rq)") auto
    next
      case 2
      then have "w < window_of (store_now ?st) i" using later by simp
      from admitted_past [OF mono assms(2) this] show ?thesis using 2 unfolding head by simp
    next
      case 3
      then have "used st k w = 0" using Cons.prems(3) by (auto simp: used_def split: option.split)
      then show ?thesis using rest 3 used_after [OF entry, of w] unfolding head by simp
    qed
  qed
qed (simp add: admitted_def)

section \<open>Bans\<close>

lemma ban_holds:
  assumes "mono (rl_clock st)" and "jm_get (bans st) k = Some u"
    and "(rq, t, a) \<in> set (run_requests st rqs)" and "bucket_of rq = k" and "of_int t < u"
  shows "a = exceed_of (lr_options rq)"
  using assms(1-3)
proof (induction rqs arbitrary: st)
  case (Cons r rqs)
  let ?st = "snd (apply_rate_limit st r)"
  have mono: "mono (rl_clock ?st)" using Cons.prems(1) by (simp add: apply_clock)
  have until: "banned_until st k = u" using Cons.prems(2) by (simp add: banned_until_def)
  show ?case
  proof (cases "(rq, t, a) = (r, store_now st, fst (apply_rate_limit st r))")
    case True
    then show ?thesis using assms(4,5) until by (simp add: apply_banned)
  next
    case False
    then have later: "(rq, t, a) \<in> set (run_requests ?st rqs)" using Cons.prems(3) unfolding run_requests_Cons by auto
    have "jm_get (bans ?st) k = Some u"
    proof (cases "bucket_of r = k")
      case True
      have "store_now st \<le> store_now ?st" unfolding apply_clock by (rule monoD [OF Cons.prems(1)]) simp
      then have "of_int (store_now st) < u"
        using run_times [OF mono later] assms(5) by (simp add: order_le_less_trans [OF _ assms(5)])
      then show ?thesis using True until Cons.prems(2) by (simp add: apply_banned)
    qed (simp add: apply_other Cons.prems(2))
    then show ?thesis by (rule Cons.IH [OF mono _ later])
  qed
qed simp

section \<open>Validated options\<close>

lemma validated_options:
  assumes "validate_rate_limit_options action opts = Inr ()"
  shows "1 \<le> limit_of opts" and "0 < interval_of opts"
proof -
  obtain th n i where "rate_limit_threshold opts = Some th" "threshold_count th = Some n" "interval_sec th = Some i"
      and n: "whole_between n (if action = ''rate_based_ban'' then 10000 else 1000000)" and i: "is_valid_interval i"
    using assms by (auto simp: validate_rate_limit_options_def Let_def split: option.splits if_splits)
  then have "limit_of opts = n" "interval_of opts = i" by (simp_all add: limit_of_def interval_of_def)
  moreover have "1 \<le> n" using n by (simp add: whole_between_def)
  moreover have "0 < i" using i by (auto simp: is_valid_interval_def valid_interval_sec_def)
  ultimately show "1 \<le> limit_of opts" "0 < interval_of opts" by simp_all
qed

section \<open>Properties\<close>

text \<open>C19: A throttled bucket lets at most its limit through in a window. After a reset, with a clock that does not run
  backwards, whatever requests of other buckets come in between: among the requests of one bucket whose rule
  has valid options, those decided in one window that were not answered with the exceed action are at most
  \<open>rateLimitThreshold.count\<close>.\<close>

theorem window_admits_at_most_limit:
  assumes "mono clock" and "validate_rate_limit_options action opts = Inr ()"
    and "\<forall>rq \<in> set rqs. bucket_of rq = k \<longrightarrow> lr_options rq = opts"
  shows "of_nat (length (filter (\<lambda>(rq, t, a). bucket_of rq = k \<and> window_of t (interval_of opts) = w \<and> a \<noteq> exceed_of opts)
           (run_requests (reset_rate_limit_store clock st) rqs))) \<le> limit_of opts"
proof -
  let ?st = "reset_rate_limit_store clock st"
  have in_run: "rq \<in> set rqs" if "(rq, t, a) \<in> set (run_requests st' rqs)" for rq t a st'
    using that by (induction rqs arbitrary: st') (auto split: prod.splits)
  have "of_nat (admitted k (interval_of opts) w (run_requests ?st rqs)) \<le> max 0 (limit_of opts - of_nat (used ?st k w))"
    using assms(1,3) validated_options(2) [OF assms(2)]
    by (intro admitted_bound) (auto simp: reset_rate_limit_store_def)
  moreover have "filter (\<lambda>(rq, t, a). bucket_of rq = k \<and> window_of t (interval_of opts) = w \<and> a \<noteq> exceed_of opts) (run_requests ?st rqs)
      = filter (\<lambda>(rq, t, a). bucket_of rq = k \<and> window_of t (interval_of opts) = w \<and> a \<noteq> exceed_of (lr_options rq)) (run_requests ?st rqs)"
    using assms(3) in_run by (auto intro!: filter_cong)
  ultimately show ?thesis
    using validated_options(1) [OF assms(2)] by (simp add: admitted_def used_def reset_rate_limit_store_def)
qed

definition sample_options :: rate_limit_options where
  "sample_options = \<lparr>rate_limit_threshold = Some \<lparr>threshold_count = Some 1, interval_sec = Some 60\<rparr>,
     ban_threshold = None, ban_duration_sec = Some 60, conform_action = None, exceed_action = None,
     enforce_on_key = None, enforce_on_key_name = None, enforce_on_key_configs = None, exceed_redirect = None\<rparr>"

definition sample_request :: "request_attributes \<Rightarrow> limit_request" where
  "sample_request ra = \<lparr>lr_policy = ''p'', lr_priority = 0, lr_action = ''rate_based_ban'', lr_options = sample_options,
     lr_attrs = ra, lr_mode = Commit\<rparr>"

theorem window_admits_at_most_limit_witness:
  "\<forall>ra st w. length (filter (\<lambda>(rq, t, a). bucket_of rq = bucket_of (sample_request ra) \<and> window_of t 60 = w \<and> a \<noteq> ''deny(429)'')
      (run_requests (reset_rate_limit_store (\<lambda>n. 0) st) [sample_request ra, sample_request ra])) \<le> 1"
proof (intro allI)
  fix ra st w
  have opts: "validate_rate_limit_options ''rate_based_ban'' sample_options = Inr ()"
    by (simp add: sample_options_def validate_rate_limit_options_def whole_between_def is_valid_interval_def
      valid_interval_sec_def check_then_def validate_keys_def validate_ban_def is_valid_ban_duration_def valid_ban_duration_sec_def)
  have "interval_of sample_options = 60" "limit_of sample_options = 1" "exceed_of sample_options = ''deny(429)''"
    by (simp_all add: sample_options_def interval_of_def limit_of_def exceed_of_def)
  then show "length (filter (\<lambda>(rq, t, a). bucket_of rq = bucket_of (sample_request ra) \<and> window_of t 60 = w \<and> a \<noteq> ''deny(429)'')
      (run_requests (reset_rate_limit_store (\<lambda>n. 0) st) [sample_request ra, sample_request ra])) \<le> 1"
    using window_admits_at_most_limit [OF _ opts, of "\<lambda>n. 0" "[sample_request ra, sample_request ra]" "bucket_of (sample_request ra)" w st]
    by (simp add: sample_request_def mono_def)
qed

text \<open>C20: A ban holds for its duration. When a committed request of a \<open>rate_based_ban\<close> rule exceeds its threshold,
  every later request of the same bucket decided less than \<open>banDurationSec\<close> after it is answered with the
  exceed action of its rule, whatever requests come in between.\<close>

theorem ban_lasts_its_duration:
  assumes "mono (rl_clock st)" and "\<not> banned_until st (bucket_of rq) > of_int (store_now st)"
    and "lr_mode rq = Commit" and "ban_duration_sec (lr_options rq) = Some d"
    and "would_ban st rq (store_now st) (next_count (rate_windows st) (bucket_of rq)
           (window_of (store_now st) (interval_of (lr_options rq))))"
    and "(rq', t, a) \<in> set (run_requests (snd (apply_rate_limit st rq)) rqs)" and "bucket_of rq' = bucket_of rq"
    and "of_int t < of_int (store_now st) + d * 1000"
  shows "fst (apply_rate_limit st rq) = exceed_of (lr_options rq) \<and> a = exceed_of (lr_options rq')"
proof
  show "fst (apply_rate_limit st rq) = exceed_of (lr_options rq)"
    using assms(5) by (simp add: apply_open(1) [OF assms(2)])
  show "a = exceed_of (lr_options rq')"
    by (rule ban_holds [OF _ _ assms(6-8)])
       (use assms(1,3-5) in \<open>simp_all add: apply_clock apply_open(3) [OF assms(2)]\<close>)
qed

theorem ban_lasts_its_duration_witness:
  "\<forall>ra st. map (\<lambda>(rq, t, a). a)
      (run_requests (reset_rate_limit_store (\<lambda>n. int n * 1000) st) [sample_request ra, sample_request ra, sample_request ra])
    = [''allow'', ''deny(429)'', ''deny(429)'']"
proof (intro allI)
  fix ra st
  let ?rq = "sample_request ra" and ?st0 = "reset_rate_limit_store (\<lambda>n. int n * 1000) st"
  let ?st1 = "snd (apply_rate_limit ?st0 ?rq)" and ?k = "bucket_of (sample_request ra)"
  have vals: "interval_of sample_options = 60" "limit_of sample_options = 1" "exceed_of sample_options = ''deny(429)''"
      "conform_of sample_options = ''allow''" "ban_limits sample_options = None" "ban_duration_sec sample_options = Some 60"
    by (simp_all add: sample_options_def interval_of_def limit_of_def exceed_of_def conform_of_def ban_limits_def)
  have rq: "lr_options ?rq = sample_options" "lr_action ?rq = ''rate_based_ban''" "lr_mode ?rq = Commit"
    by (simp_all add: sample_request_def)
  have open0: "\<not> banned_until ?st0 ?k > of_int (store_now ?st0)"
    by (simp add: banned_until_def reset_rate_limit_store_def)
  have first: "fst (apply_rate_limit ?st0 ?rq) = ''allow''" "bans ?st1 = []"
      "rate_windows ?st1 = [(?k, \<lparr>window_id = 0, win_count = 1\<rparr>)]" "rl_clock ?st1 = (\<lambda>n. int n * 1000)" "rl_reads ?st1 = 1"
    unfolding apply_open [OF open0] apply_clock rq vals would_ban_def
    by (simp_all add: reset_rate_limit_store_def next_count_def bump_def window_of_def)
  have open1: "\<not> banned_until ?st1 ?k > of_int (store_now ?st1)"
    by (simp add: banned_until_def first)
  have ban: "would_ban ?st1 ?rq (store_now ?st1) (next_count (rate_windows ?st1) ?k (window_of (store_now ?st1) (interval_of (lr_options ?rq))))"
    unfolding rq vals would_ban_def by (simp add: first next_count_def window_of_def floor_eq_iff)
  have "mono (\<lambda>n. int n * 1000)" by (simp add: mono_def)
  then have mono: "mono (rl_clock ?st1)" by (simp add: first)
  let ?st2 = "snd (apply_rate_limit ?st1 ?rq)"
  have later: "of_int (store_now ?st2) < of_int (store_now ?st1) + (60 :: rat) * 1000"
    by (simp add: apply_clock reset_rate_limit_store_def)
  have "(?rq, store_now ?st2, fst (apply_rate_limit ?st2 ?rq)) \<in> set (run_requests ?st2 [?rq])"
    unfolding run_requests_Cons by simp
  from ban_lasts_its_duration [OF mono open1 rq(3) _ ban this refl later]
  have "fst (apply_rate_limit ?st1 ?rq) = ''deny(429)''" "fst (apply_rate_limit ?st2 ?rq) = ''deny(429)''"
    by (simp_all add: rq vals)
  then show "map (\<lambda>(rq, t, a). a) (run_requests ?st0 [?rq, ?rq, ?rq]) = [''allow'', ''deny(429)'', ''deny(429)'']"
    unfolding run_requests_Cons using first(1) by simp
qed

section \<open>Colliding keys\<close>

text \<open>
  Key components are joined with \<open>|\<close> but not escaped, so two requests with different header values can share
  a bucket.
\<close>

definition two_header_options :: rate_limit_options where
  "two_header_options = sample_options\<lparr>enforce_on_key_configs := Some
     [\<lparr>enforce_on_key_type = Some ''HTTP_HEADER'', enforce_on_key_config_name = Some ''a''\<rparr>,
      \<lparr>enforce_on_key_type = Some ''HTTP_HEADER'', enforce_on_key_config_name = Some ''b''\<rparr>]\<rparr>"

definition with_headers :: "request_attributes \<Rightarrow> string \<Rightarrow> string \<Rightarrow> request_attributes" where
  "with_headers ra va vb = ra\<lparr>http_attrs := (http_attrs ra)\<lparr>req_headers := [(''a'', va), (''b'', vb)]\<rparr>\<rparr>"

lemma client_keys_collide:
  "build_client_key two_header_options (with_headers ra ''1|HTTP_HEADER:b=2'' ''3'')
     = build_client_key two_header_options (with_headers ra ''1'' ''2|HTTP_HEADER:b=3'')"
  by (simp add: build_client_key_def two_header_options_def component_key_def with_headers_def truncate_key_def
    rate_limit_key_value_max_bytes_def utf8_unit_def lower_char_def less_eq_char_def)

end
