(* ===== verification/Armor_Policy.thy ===== *)
theory Armor_Policy
  imports Armor_Request Armor_Phases Armor_Rate_Limit
begin

text \<open>
  Evaluating a security policy, \<open>src/src/services/compute/armor/evaluate.ts\<close>: rules in the order of their
  priority, the inspection of the body before the first rule of the body phase, preview rules, rate limits.
  The rate-limit store is threaded through; \<open>None\<close> is an evaluation outside the model.
\<close>

section \<open>Rules\<close>

definition rule_expression :: "policy_rule \<Rightarrow> string option" where
  "rule_expression rl =
     (case rule_match rl of None \<Rightarrow> None
      | Some mt \<Rightarrow> (case match_expr mt of None \<Rightarrow> None
          | Some ex \<Rightarrow> (case expression_text ex of None \<Rightarrow> None | Some t \<Rightarrow> if t = [] then None else Some t)))"

definition rule_versioned :: "policy_rule \<Rightarrow> string option" where
  "rule_versioned rl = (case rule_match rl of None \<Rightarrow> None | Some mt \<Rightarrow> versioned_expr mt)"

definition rule_ranges :: "policy_rule \<Rightarrow> string list" where
  "rule_ranges rl =
     (case rule_match rl of None \<Rightarrow> []
      | Some mt \<Rightarrow> (case match_config mt of None \<Rightarrow> []
          | Some cf \<Rightarrow> (case src_ip_ranges cf of None \<Rightarrow> [] | Some rs \<Rightarrow> rs)))"

definition is_body_phase_rule :: "policy_rule \<Rightarrow> bool" where
  "is_body_phase_rule rl =
     (case rule_expression rl of None \<Rightarrow> False | Some ex \<Rightarrow> expression_uses_body_phase ex)"

text \<open>What an evaluation is given besides the attributes.\<close>

record eval_options =
  opt_regex :: regex_engine
  opt_groups :: "string \<Rightarrow> string list option"
  opt_native_message :: string

definition context_for :: "eval_options \<Rightarrow> request_attributes \<Rightarrow> eval_context" where
  "context_for op ra = \<lparr>ctx_attrs = ra, ctx_regex = opt_regex op, ctx_groups = opt_groups op\<rparr>"

definition rule_matches :: "eval_options \<Rightarrow> policy_rule \<Rightarrow> request_attributes \<Rightarrow> bool option" where
  "rule_matches op rl ra =
     (if rule_versioned rl = Some ''SRC_IPS_V1''
      then Some (match_src_ip_ranges (origin_ip (origin_attrs ra)) (rule_ranges rl))
      else (case rule_expression rl of
              None \<Rightarrow> Some False
            | Some ex \<Rightarrow>
                (case evaluate_expression (context_for op ra) (opt_native_message op) ex of
                   None \<Rightarrow> None
                 | Some (EvaluationFailed msg) \<Rightarrow> Some False
                 | Some (Evaluated b) \<Rightarrow> Some b)))"

section \<open>Actions\<close>

definition is_redirect_action :: "string \<Rightarrow> bool" where
  "is_redirect_action a = (a = ''redirect'' \<or> starts_with a ''redirect('')"

definition outcome_of :: "string \<Rightarrow> string" where
  "outcome_of a =
     (if a = ''allow'' then ''ALLOW''
      else if a = ''redirect'' \<or> starts_with a ''redirect('' then ''REDIRECT'' else ''DENY'')"

definition is_preview :: "policy_rule \<Rightarrow> bool" where
  "is_preview rl = (rule_preview rl = Some True)"

definition limit_request_for :: "string \<Rightarrow> policy_rule \<Rightarrow> rate_limit_options \<Rightarrow> request_attributes \<Rightarrow> limit_request" where
  "limit_request_for name rl opts ra = \<lparr>lr_policy = name, lr_priority = priority rl, lr_action = rule_action rl,
     lr_options = opts, lr_attrs = ra, lr_mode = (if is_preview rl then Preview else Commit)\<rparr>"

definition resolve_action :: "rate_store \<Rightarrow> policy_rule \<Rightarrow> request_attributes \<Rightarrow> string \<Rightarrow> bool \<Rightarrow> string \<times> rate_store" where
  "resolve_action st rl ra name body_phase =
     (let limited = (if rule_action rl = ''throttle'' \<or> rule_action rl = ''rate_based_ban'' then
                       (if rule_header_action rl \<noteq> None then (''allow'', st)
                        else (case rate_limit_opts rl of
                                None \<Rightarrow> (rule_action rl, st)
                              | Some opts \<Rightarrow> apply_rate_limit st (limit_request_for name rl opts ra)))
                     else (rule_action rl, st))
      in if body_phase \<and> is_redirect_action (fst limited) then (''deny(403)'', snd limited) else limited)"

definition to_matched_rule :: "policy_rule \<Rightarrow> string \<Rightarrow> string \<Rightarrow> matched_rule" where
  "to_matched_rule rl action name =
     \<lparr>matched_name = (if name = [] then None else Some name), matched_priority = priority rl, matched_action = action,
      matched_outcome = outcome_of action\<rparr>"

definition inspection_limit_bytes :: "security_policy \<Rightarrow> nat" where
  "inspection_limit_bytes p = request_body_inspection_bytes
     (case advanced_opts p of None \<Rightarrow> Size8KB
      | Some ad \<Rightarrow> (case inspection_size ad of None \<Rightarrow> Size8KB | Some sz \<Rightarrow> sz))"

definition policy_json_parsing :: "security_policy \<Rightarrow> json_parsing option" where
  "policy_json_parsing p = (case advanced_opts p of None \<Rightarrow> None | Some ad \<Rightarrow> json_parsing_mode ad)"

definition policy_text_name :: "security_policy \<Rightarrow> string" where
  "policy_text_name p = or_empty (policy_name p)"

definition finish :: "matched_rule option \<Rightarrow> matched_rule option \<Rightarrow> evaluation_result" where
  "finish enf prev = \<lparr>enforced = enf, previewed = prev\<rparr>"

section \<open>The walk over the rules\<close>

text \<open>The attributes a rule is evaluated on: \<open>current\<close> after the inspection, which happens once.\<close>

definition inspect_once :: "security_policy \<Rightarrow> request_attributes \<Rightarrow> policy_rule \<Rightarrow> request_attributes \<times> bool \<Rightarrow>
    (request_attributes \<times> bool) option" where
  "inspect_once p ra rl cur =
     (if is_body_phase_rule rl \<and> \<not> snd cur then
        (case with_inspected_body ra (inspection_limit_bytes p) (policy_json_parsing p) of
           Done r \<Rightarrow> Some (r, True)
         | _ \<Rightarrow> None)
      else Some cur)"

text \<open>The loop of \<open>evaluate\<close>: its variables \<open>current\<close> with \<open>bodyInspected\<close>, and \<open>preview\<close>.\<close>

fun walk_rules :: "eval_options \<Rightarrow> security_policy \<Rightarrow> request_attributes \<Rightarrow> policy_rule list \<Rightarrow>
    request_attributes \<times> bool \<Rightarrow> matched_rule option \<Rightarrow> rate_store \<Rightarrow> (evaluation_result \<times> rate_store) option" where
  "walk_rules op p ra [] cur prev st = Some (finish None prev, st)"
| "walk_rules op p ra (rl # rls) cur prev st =
     (case inspect_once p ra rl cur of
        None \<Rightarrow> None
      | Some cur' \<Rightarrow>
          (case rule_matches op rl (fst cur') of
             None \<Rightarrow> None
           | Some False \<Rightarrow> walk_rules op p ra rls cur' prev st
           | Some True \<Rightarrow>
               (case resolve_action st rl (fst cur') (policy_text_name p) (is_body_phase_rule rl) of (action, st') \<Rightarrow>
                  let rec = to_matched_rule rl action (policy_text_name p)
                  in if is_preview rl
                     then walk_rules op p ra rls cur' (case prev of None \<Rightarrow> Some rec | Some r \<Rightarrow> Some r) st'
                     else Some (finish (Some rec) prev, st'))))"

definition sorted_rules :: "security_policy \<Rightarrow> policy_rule list" where
  "sorted_rules p = sort_key priority (case policy_rules p of None \<Rightarrow> [] | Some rs \<Rightarrow> rs)"

definition evaluate_policy :: "eval_options \<Rightarrow> security_policy \<Rightarrow> request_attributes \<Rightarrow> rate_store \<Rightarrow>
    (evaluation_result \<times> rate_store) option" where
  "evaluate_policy op p ra st = walk_rules op p ra (sorted_rules p) (ra, False) None st"

section \<open>Inspected attributes\<close>

definition inspected :: "security_policy \<Rightarrow> request_attributes \<Rightarrow> request_attributes" where
  "inspected p ra =
     (case with_inspected_body ra (inspection_limit_bytes p) (policy_json_parsing p) of Done r \<Rightarrow> r | _ \<Rightarrow> ra)"

abbreviation utf8_length :: "string \<Rightarrow> nat" where
  "utf8_length s \<equiv> length (concat (map utf8_unit s))"

lemma obind_Done: "obind r f = Done v \<longleftrightarrow> (\<exists>x. r = Done x \<and> f x = Done v)"
  by (cases r) simp_all

lemma text_of_points_Done: "text_of_points ps = Done s \<Longrightarrow> ps = map unit_of s"
  by (auto simp: text_of_points_def list_all_iff comp_def map_idI split: if_splits)

lemma utf8_unit_length: "0 < length (utf8_unit c)"
  by (simp add: utf8_unit_def Let_def)

lemma take_bytes_length: "take_bytes n s = map unit_of t \<Longrightarrow> utf8_length t \<le> n"
proof (induction n s arbitrary: t rule: take_bytes.induct)
  case (2 n c s)
  show ?case
  proof (cases t)
    case (Cons d r)
    have "unit_of d \<noteq> 65533" using unit_of_bound [of d] by linarith
    then have len: "n \<noteq> 0" "length (utf8_unit c) \<le> n" and d: "unit_of c = unit_of d"
        and r: "take_bytes (n - length (utf8_unit c)) s = map unit_of r"
      using 2(2) Cons by (auto split: if_splits)
    from d have "c = d" by (metis char_of_char)
    then show ?thesis using 2(1) [OF len r] len Cons by simp
  qed simp
qed simp

lemma truncate_utf8_length: "truncate_utf8 v n = Done s \<Longrightarrow> utf8_length s \<le> n"
  by (auto simp: truncate_utf8_def split: if_splits dest: text_of_points_Done take_bytes_length)

lemma truncate_utf8_short: "utf8_length v \<le> n \<Longrightarrow> truncate_utf8 v n = Done v"
  by (simp add: truncate_utf8_def)

lemma inspection_agrees:
  assumes "with_inspected_body ra n jp = Done rb"
  shows "agree_outside_body ra rb"
  using assms by (auto simp: with_inspected_body_def obind_Done agree_outside_body_def)

lemma inspected_agrees: "agree_outside_body ra (inspected p ra)"
proof -
  have "agree_outside_body ra ra" unfolding agree_outside_body_def
    by (rule exI [of _ "req_body (http_attrs ra)"], rule exI [of _ "req_params (http_attrs ra)"]) simp
  then show ?thesis by (auto simp: inspected_def intro: inspection_agrees split: outcome.split)
qed

section \<open>The walk, declaratively\<close>

text \<open>Each rule with the attributes it sees; \<open>b\<close> says that the body has been inspected.\<close>

fun rule_views :: "security_policy \<Rightarrow> request_attributes \<Rightarrow> bool \<Rightarrow> policy_rule list \<Rightarrow> (policy_rule \<times> request_attributes) list" where
  "rule_views p ra b [] = []"
| "rule_views p ra b (rl # rls) =
     (let b' = (b \<or> is_body_phase_rule rl)
      in (rl, if b' then inspected p ra else ra) # rule_views p ra b' rls)"

definition matching_rules :: "eval_options \<Rightarrow> (policy_rule \<times> request_attributes) list \<Rightarrow> policy_rule list" where
  "matching_rules op vs = map fst (filter (\<lambda>(rl, a). rule_matches op rl a = Some True) vs)"

lemma matching_simps [simp]:
  "matching_rules op [] = []"
  "matching_rules op ((rl, a) # vs) = (if rule_matches op rl a = Some True then rl # matching_rules op vs else matching_rules op vs)"
  by (simp_all add: matching_rules_def)

definition state_of :: "security_policy \<Rightarrow> request_attributes \<Rightarrow> bool \<Rightarrow> request_attributes \<times> bool" where
  "state_of p ra b = (if b then inspected p ra else ra, b)"

lemma inspect_once_state:
  "inspect_once p ra rl (state_of p ra b) = Some cur \<Longrightarrow> cur = state_of p ra (b \<or> is_body_phase_rule rl)"
  by (auto simp: inspect_once_def state_of_def inspected_def split: if_splits outcome.splits)

definition priority_of_first :: "policy_rule list \<Rightarrow> rat option" where
  "priority_of_first rls = (case rls of [] \<Rightarrow> None | rl # _ \<Rightarrow> Some (priority rl))"

lemma walk_rules_spec:
  assumes "walk_rules op p ra rls (state_of p ra b) prev st = Some (res, st')"
  shows "map_option matched_priority (enforced res) =
      map_option priority (find (\<lambda>rl. \<not> is_preview rl) (matching_rules op (rule_views p ra b rls)))
    \<and> map_option matched_priority (previewed res) =
      (case prev of Some r \<Rightarrow> Some (matched_priority r)
       | None \<Rightarrow> priority_of_first (takeWhile is_preview (matching_rules op (rule_views p ra b rls))))"
  using assms
proof (induction rls arbitrary: b prev st)
  case Nil
  then show ?case by (auto simp: finish_def priority_of_first_def split: option.split)
next
  case (Cons rl rls)
  let ?b = "b \<or> is_body_phase_rule rl"
  obtain cur where "inspect_once p ra rl (state_of p ra b) = Some cur" using Cons.prems by (auto split: option.splits)
  moreover from this have cur: "cur = state_of p ra ?b" by (rule inspect_once_state)
  ultimately have step: "inspect_once p ra rl (state_of p ra b) = Some (state_of p ra ?b)" by simp
  have view: "fst (state_of p ra ?b) = (if ?b then inspected p ra else ra)" by (simp add: state_of_def)
  obtain hit where hit: "rule_matches op rl (fst (state_of p ra ?b)) = Some hit"
    using Cons.prems step by (auto split: option.splits)
  have ms: "matching_rules op (rule_views p ra b (rl # rls)) =
      (if hit then rl # matching_rules op (rule_views p ra ?b rls) else matching_rules op (rule_views p ra ?b rls))"
    using hit by (cases hit) (simp_all add: view Let_def)
  show ?case
  proof (cases hit)
    case False
    then have "walk_rules op p ra rls (state_of p ra ?b) prev st = Some (res, st')"
      using Cons.prems step hit by simp
    from Cons.IH [OF this] show ?thesis unfolding ms using False by simp
  next
    case True
    obtain action st1 where act: "resolve_action st rl (fst (state_of p ra ?b)) (policy_text_name p) (is_body_phase_rule rl) = (action, st1)"
      by fastforce
    let ?rec = "to_matched_rule rl action (policy_text_name p)"
    have pr: "matched_priority ?rec = priority rl" by (simp add: to_matched_rule_def)
    show ?thesis
    proof (cases "is_preview rl")
      case prv: True
      then have "walk_rules op p ra rls (state_of p ra ?b) (case prev of None \<Rightarrow> Some ?rec | Some r \<Rightarrow> Some r) st1 = Some (res, st')"
        using Cons.prems step hit True act by (simp add: Let_def)
      from Cons.IH [OF this] show ?thesis
        unfolding ms using True prv by (cases prev) (simp_all add: pr priority_of_first_def)
    next
      case prv: False
      then have "res = finish (Some ?rec) prev"
        using Cons.prems step hit True act by (simp add: Let_def)
      then show ?thesis
        unfolding ms using True prv by (cases prev) (simp_all add: pr finish_def priority_of_first_def)
    qed
  qed
qed

section \<open>Rules of the header phase\<close>

text \<open>A rule that names the attributes of \<open>request\<close> directly, if its expression parses.\<close>

definition direct_rule :: "policy_rule \<Rightarrow> bool" where
  "direct_rule rl =
     (case rule_expression rl of None \<Rightarrow> True
      | Some ex \<Rightarrow> (case parse_expression_ast ex of Inl e \<Rightarrow> True | Inr a \<Rightarrow> direct a))"

definition phase_view :: "security_policy \<Rightarrow> request_attributes \<Rightarrow> policy_rule \<Rightarrow> request_attributes" where
  "phase_view p ra rl = (if is_body_phase_rule rl then inspected p ra else ra)"

lemma context_for_with: "context_for op rb = with_attrs (context_for op ra) rb"
  by (simp add: context_for_def with_attrs_def)

lemma header_rule_agrees:
  assumes "\<not> is_body_phase_rule rl" and "direct_rule rl" and "agree_outside_body ra rb"
  shows "rule_matches op rl rb = rule_matches op rl ra"
proof (cases "rule_versioned rl = Some ''SRC_IPS_V1''")
  case True
  then show ?thesis by (simp add: rule_matches_def agree_parts [OF assms(3)])
next
  case False
  show ?thesis
  proof (cases "rule_expression rl")
    case None
    then show ?thesis using False by (simp add: rule_matches_def)
  next
    case (Some ex)
    have "evaluate_expression (context_for op rb) m ex = evaluate_expression (context_for op ra) m ex" for m
    proof (cases "parse_expression_ast ex")
      case (Inl e)
      then show ?thesis by (cases e) (simp add: evaluate_expression_def)
    next
      case (Inr a)
      have "direct a" "\<not> expression_uses_body_phase ex"
        using assms(1,2) Some Inr by (simp_all add: direct_rule_def is_body_phase_rule_def)
      from direct_evaluation [OF Inr this assms(3), of "context_for op ra" m] show ?thesis
        by (simp add: with_attrs_def context_for_def)
    qed
    then show ?thesis using False Some by (simp add: rule_matches_def)
  qed
qed

lemma matching_views:
  assumes "\<forall>rl \<in> set rls. \<not> is_body_phase_rule rl \<longrightarrow> direct_rule rl"
  shows "matching_rules op (rule_views p ra b rls) = filter (\<lambda>rl. rule_matches op rl (phase_view p ra rl) = Some True) rls"
  using assms
proof (induction rls arbitrary: b)
  case (Cons rl rls)
  have "rule_matches op rl (if b \<or> is_body_phase_rule rl then inspected p ra else ra) = rule_matches op rl (phase_view p ra rl)"
    using Cons.prems header_rule_agrees [OF _ _ inspected_agrees] by (auto simp: phase_view_def)
  then show ?case using Cons by (simp add: Let_def)
qed simp

section \<open>A sample policy\<close>

definition sample_rule :: "rat \<Rightarrow> string \<Rightarrow> bool \<Rightarrow> string \<Rightarrow> policy_rule" where
  "sample_rule n action prev rng = \<lparr>priority = n, rule_action = action, rule_preview = Some prev, rule_description = None,
     rule_match = Some \<lparr>versioned_expr = Some ''SRC_IPS_V1'', match_config = Some \<lparr>src_ip_ranges = Some [rng]\<rparr>, match_expr = None\<rparr>,
     rate_limit_opts = None, rule_header_action = None, rule_redirect = None\<rparr>"

definition sample_policy :: security_policy where
  "sample_policy = \<lparr>policy_name = None,
     policy_rules = Some [sample_rule 9 ''allow'' False ''*'', sample_rule 1 ''deny(403)'' True ''*'', sample_rule 5 ''deny(404)'' False ''*''],
     advanced_opts = None\<rparr>"

definition sample_eval_options :: eval_options where
  "sample_eval_options = \<lparr>opt_regex = (\<lambda>p. Inr (\<lambda>s. True)), opt_groups = (\<lambda>n. None), opt_native_message = []\<rparr>"

lemma sample_sorted:
  "sorted_rules sample_policy =
     [sample_rule 1 ''deny(403)'' True ''*'', sample_rule 5 ''deny(404)'' False ''*'', sample_rule 9 ''allow'' False ''*'']"
  by (simp add: sorted_rules_def sample_policy_def sample_rule_def)

lemma sample_rule_simps:
  "rule_matches op (sample_rule n a prev ''*'') ra = Some True" "is_preview (sample_rule n a prev rng) = prev"
  "is_body_phase_rule (sample_rule n a prev rng) = False" "priority (sample_rule n a prev rng) = n"
  "direct_rule (sample_rule n a prev rng)"
  by (simp_all add: rule_matches_def sample_rule_def rule_versioned_def rule_ranges_def is_preview_def is_body_phase_rule_def
    rule_expression_def direct_rule_def)

lemma sample_evaluates: "\<exists>res. evaluate_policy op sample_policy ra st = Some (res, st)"
  unfolding evaluate_policy_def sample_sorted
  by (simp add: inspect_once_def sample_rule_simps resolve_action_def Let_def split_beta)
     (simp add: sample_rule_def)

section \<open>Properties\<close>

text \<open>C21: The first matching rule decides. An evaluation enforces the matching rule of least priority that is not a
  preview rule, and reports as preview the first matching preview rule before it (of all rules, when none is
  enforced), where each rule sees the request as it came until the first body-phase rule and the inspected
  request from there on.\<close>

theorem policy_first_match:
  assumes "evaluate_policy op p ra st = Some (res, st')"
  shows "map_option matched_priority (enforced res) =
      map_option priority (find (\<lambda>rl. \<not> is_preview rl) (matching_rules op (rule_views p ra False (sorted_rules p))))
    \<and> map_option matched_priority (previewed res) =
      priority_of_first (takeWhile is_preview (matching_rules op (rule_views p ra False (sorted_rules p))))
    \<and> sorted (map priority (sorted_rules p))"
proof -
  have "walk_rules op p ra (sorted_rules p) (state_of p ra False) None st = Some (res, st')"
    using assms by (simp add: evaluate_policy_def state_of_def)
  from walk_rules_spec [OF this] show ?thesis by (simp add: sorted_rules_def)
qed

theorem policy_first_match_witness:
  "\<forall>st. \<exists>res. evaluate_policy sample_eval_options sample_policy (sample_attributes []) (reset_rate_limit_store (\<lambda>n. 0) st) =
      Some (res, reset_rate_limit_store (\<lambda>n. 0) st)
    \<and> map_option matched_priority (enforced res) = Some 5 \<and> map_option matched_priority (previewed res) = Some 1"
proof
  fix st
  obtain res where ev: "evaluate_policy sample_eval_options sample_policy (sample_attributes []) (reset_rate_limit_store (\<lambda>n. 0) st)
      = Some (res, reset_rate_limit_store (\<lambda>n. 0) st)"
    using sample_evaluates by blast
  from policy_first_match [OF ev] show "\<exists>res. evaluate_policy sample_eval_options sample_policy (sample_attributes []) (reset_rate_limit_store (\<lambda>n. 0) st) =
      Some (res, reset_rate_limit_store (\<lambda>n. 0) st) \<and> map_option matched_priority (enforced res) = Some 5 \<and> map_option matched_priority (previewed res) = Some 1"
    using ev by (simp add: sample_sorted Let_def sample_rule_simps priority_of_first_def)
qed

text \<open>C22: The order of phases does not matter to header rules. When every rule outside the body phase names the
  attributes of \<open>request\<close> directly, the enforced rule is the one of least priority that matches, each header
  rule on the request as it came and each body-phase rule on the inspected request: truncating the body for one
  rule never changes another rule of the header phase.\<close>

theorem phases_are_independent:
  assumes "evaluate_policy op p ra st = Some (res, st')"
    and "\<forall>rl \<in> set (sorted_rules p). \<not> is_body_phase_rule rl \<longrightarrow> direct_rule rl"
  shows "map_option matched_priority (enforced res) =
      map_option priority (find (\<lambda>rl. \<not> is_preview rl \<and> rule_matches op rl (phase_view p ra rl) = Some True) (sorted_rules p))"
proof -
  have "walk_rules op p ra (sorted_rules p) (state_of p ra False) None st = Some (res, st')"
    using assms(1) by (simp add: evaluate_policy_def state_of_def)
  moreover have "find P (filter Q xs) = find (\<lambda>x. P x \<and> Q x) xs" for P Q and xs :: "policy_rule list"
    by (induction xs) auto
  ultimately show ?thesis using walk_rules_spec matching_views [OF assms(2)] by simp
qed

theorem phases_are_independent_witness:
  "\<forall>st. \<exists>res. evaluate_policy sample_eval_options sample_policy (sample_attributes []) (reset_rate_limit_store (\<lambda>n. 0) st) =
      Some (res, reset_rate_limit_store (\<lambda>n. 0) st) \<and> map_option matched_priority (enforced res) = Some 5"
proof
  fix st
  obtain res where ev: "evaluate_policy sample_eval_options sample_policy (sample_attributes []) (reset_rate_limit_store (\<lambda>n. 0) st)
      = Some (res, reset_rate_limit_store (\<lambda>n. 0) st)"
    using sample_evaluates by blast
  have "\<forall>rl \<in> set (sorted_rules sample_policy). \<not> is_body_phase_rule rl \<longrightarrow> direct_rule rl"
    by (simp add: sample_sorted sample_rule_simps)
  from phases_are_independent [OF ev this] show "\<exists>res. evaluate_policy sample_eval_options sample_policy (sample_attributes []) (reset_rate_limit_store (\<lambda>n. 0) st) =
      Some (res, reset_rate_limit_store (\<lambda>n. 0) st) \<and> map_option matched_priority (enforced res) = Some 5"
    using ev by (simp add: sample_sorted sample_rule_simps)
qed



end
