(* ===== verification/Crc32c.thy ===== *)
theory Crc32c
  imports Js_Text "HOL-Library.Word"
begin

unbundle bit_operations_syntax

text \<open>
  The CRC32C checksum of \<open>src/src/shared/utils/crc32c.ts\<close>, with its table of 256 words. \<open>>>>\<close> is
  \<open>drop_bit\<close> on 32-bit words; the signed intermediate values of the code have the same bits.
\<close>

section \<open>The table\<close>

definition castagnoli :: "32 word" where
  "castagnoli = 0x82f63b78"

text \<open>One pass of the inner loop of the initialisation.\<close>

definition crc_bit :: "32 word \<Rightarrow> 32 word" where
  "crc_bit crc = (if crc AND 1 \<noteq> 0 then drop_bit 1 crc XOR castagnoli else drop_bit 1 crc)"

definition table_entry :: "nat \<Rightarrow> 32 word" where
  "table_entry i = (crc_bit ^^ 8) (word_of_nat i)"

definition crc32c_table :: "32 word list" where
  "crc32c_table = map table_entry [0..<256]"

section \<open>The checksum\<close>

text \<open>One pass of the loop over the bytes.\<close>

definition crc_byte :: "32 word \<Rightarrow> 8 word \<Rightarrow> 32 word" where
  "crc_byte crc b = drop_bit 8 crc XOR crc32c_table ! unat ((crc XOR ucast b) AND 0xff)"

definition crc32c :: "8 word list \<Rightarrow> 32 word" where
  "crc32c data = foldl crc_byte 0xffffffff data XOR 0xffffffff"

definition crc32c_string :: "8 word list \<Rightarrow> string" where
  "crc32c_string data = nat_to_dec (unat (crc32c data))"

text \<open>The four bytes of the value, most significant first, in base64 with padding.\<close>

definition base64_char :: "nat \<Rightarrow> char" where
  "base64_char n = ''ABCDEFGHIJKLMNOPQRSTUVWXYZabcdefghijklmnopqrstuvwxyz0123456789+/'' ! n"

definition big_endian :: "32 word \<Rightarrow> nat list" where
  "big_endian w = map (\<lambda>i. unat (drop_bit (8 * (3 - i)) w AND 0xff)) [0..<4]"

definition base64_text :: "nat list \<Rightarrow> string" where
  "base64_text bs =
     (let s = map base64_char (base64_sextets bs)
      in if length s mod 4 = 0 then s else s @ replicate (4 - length s mod 4) (CHR ''=''))"

definition crc32c_base64 :: "8 word list \<Rightarrow> string" where
  "crc32c_base64 data = base64_text (big_endian (crc32c data))"

section \<open>The bitwise reference\<close>

text \<open>The reflected algorithm without a table: each byte enters the low bits, then eight steps.\<close>

definition crc_reference_byte :: "32 word \<Rightarrow> 8 word \<Rightarrow> 32 word" where
  "crc_reference_byte crc b = (crc_bit ^^ 8) (crc XOR ucast b)"

definition crc_reference :: "8 word list \<Rightarrow> 32 word" where
  "crc_reference data = NOT (foldl crc_reference_byte (NOT 0) data)"

lemma crc_bit_eq: "crc_bit x = drop_bit 1 x XOR (if bit x 0 then castagnoli else 0)"
  by (simp add: crc_bit_def and_one_eq bit_0 odd_iff_mod_2_eq_one)

lemma crc_bit_xor: "crc_bit (x XOR y) = crc_bit x XOR crc_bit y"
  unfolding crc_bit_eq by (simp add: bit_xor_iff drop_bit_xor xor.left_commute xor.assoc xor.commute)

lemma crc_bits_xor: "(crc_bit ^^ n) (x XOR y) = (crc_bit ^^ n) x XOR (crc_bit ^^ n) y"
  by (induction n) (simp_all add: crc_bit_xor)

text \<open>A word whose low bits are zero is only shifted.\<close>

lemma crc_bits_shift: "(\<And>i. i < n \<Longrightarrow> \<not> bit x i) \<Longrightarrow> (crc_bit ^^ n) x = drop_bit n x"
proof (induction n)
  case (Suc n)
  then have IH: "(crc_bit ^^ n) x = drop_bit n x" by simp
  have "\<not> bit x n" using Suc.prems [of n] by simp
  then have "crc_bit (drop_bit n x) = drop_bit (Suc n) x"
    by (simp add: crc_bit_eq bit_drop_bit_eq drop_bit_drop_bit)
  with IH show ?case by simp
qed simp

lemma crc_bits_split: "(crc_bit ^^ 8) x = drop_bit 8 x XOR (crc_bit ^^ 8) (x AND 0xff)"
proof -
  have ff: "(0xff :: 32 word) = mask 8" by (simp add: mask_eq_exp_minus_1)
  have "x = (x AND NOT (mask 8)) XOR (x AND mask 8)"
    by (rule bit_eqI) (auto simp: bit_xor_iff bit_and_iff bit_not_iff)
  then have "(crc_bit ^^ 8) x = (crc_bit ^^ 8) (x AND NOT (mask 8)) XOR (crc_bit ^^ 8) (x AND mask 8)"
    using crc_bits_xor by metis
  moreover have "(crc_bit ^^ 8) (x AND NOT (mask 8)) = drop_bit 8 (x AND NOT (mask 8))"
    by (rule crc_bits_shift) (simp add: bit_and_iff bit_not_iff bit_mask_iff)
  moreover have "drop_bit 8 (x AND NOT (mask 8)) = drop_bit 8 x"
    using bit_imp_le_length [of x] by (intro bit_eqI) (fastforce simp: bit_drop_bit_eq bit_and_iff bit_not_iff bit_mask_iff)
  ultimately show ?thesis by (simp only: ff)
qed

lemma crc_byte_reference: "crc_byte crc b = crc_reference_byte crc b"
proof -
  let ?i = "(crc XOR ucast b) AND 0xff"
  have "unat ?i < 256" by (rule order_le_less_trans [OF word_and_le1 [THEN word_le_nat_alt [THEN iffD1]]]) simp
  then have "crc32c_table ! unat ?i = (crc_bit ^^ 8) ?i"
    by (simp add: crc32c_table_def table_entry_def)
  moreover have "drop_bit 8 (crc XOR ucast b) = drop_bit 8 crc"
    by (rule bit_eqI) (auto simp: bit_drop_bit_eq bit_xor_iff bit_ucast_iff dest: bit_imp_le_length)
  ultimately show ?thesis
    unfolding crc_byte_def crc_reference_byte_def by (subst crc_bits_split) simp
qed

text \<open>C24: The table-driven checksum is the bitwise one. For every byte sequence \<open>crc32c\<close> with its table of 256
  entries computes the reflected CRC with the Castagnoli polynomial, bit by bit.\<close>

theorem crc32c_is_bitwise:
  "crc32c data = crc_reference data"
proof -
  have "crc_byte = crc_reference_byte" by (intro ext) (rule crc_byte_reference)
  moreover have ones: "(0xffffffff :: 32 word) = - 1" "(NOT 0 :: 32 word) = - 1" by simp_all
  moreover have "a XOR - 1 = NOT a" for a :: "32 word" by (rule bit_eqI) (simp add: bit_xor_iff bit_not_iff)
  ultimately show ?thesis
    unfolding crc32c_def crc_reference_def ones by (simp only:)
qed

end
