(* ===== verification/Port_Allocator.thy ===== *)
theory Port_Allocator
  imports Js_Prelude
begin

text \<open>
  The allocator of \<open>src/src/shared/utils/port-allocator.ts\<close>. The probe of a port, which opens a connection, is
  the parameter \<open>listening\<close>; \<open>bind\<close> is the caller's function, a sum of the error it throws and its result.
  First one allocation on its own, then any number of them interleaved at the \<open>await\<close> of the probe.
\<close>

section \<open>One allocation\<close>

record allocator =
  range_start :: int
  range_end :: int
  allocated_ports :: "int list"

definition new_allocator :: "int \<Rightarrow> int \<Rightarrow> allocator" where
  "new_allocator lo hi = \<lparr>range_start = lo, range_end = hi, allocated_ports = []\<rparr>"

definition release_port :: "int \<Rightarrow> allocator \<Rightarrow> allocator" where
  "release_port port al = al\<lparr>allocated_ports := removeAll port (allocated_ports al)\<rparr>"

text \<open>\<open>claim\<close> up to the probe, and after it.\<close>

definition claim_begin :: "int \<Rightarrow> allocator \<Rightarrow> bool \<times> allocator" where
  "claim_begin port al =
     (if port < range_start al \<or> port > range_end al then (False, al)
      else if port \<in> set (allocated_ports al) then (False, al)
      else (True, al\<lparr>allocated_ports := port # allocated_ports al\<rparr>))"

definition claim_end :: "bool \<Rightarrow> int \<Rightarrow> allocator \<Rightarrow> bool \<times> allocator" where
  "claim_end busy port al = (if busy then (False, release_port port al) else (True, al))"

definition claim :: "(int \<Rightarrow> bool) \<Rightarrow> int \<Rightarrow> allocator \<Rightarrow> bool \<times> allocator" where
  "claim listening port al =
     (case claim_begin port al of (False, al') \<Rightarrow> (False, al') | (True, al') \<Rightarrow> claim_end (listening port) port al')"

fun scan_ports :: "(int \<Rightarrow> bool) \<Rightarrow> int list \<Rightarrow> allocator \<Rightarrow> int option \<times> allocator" where
  "scan_ports listening [] al = (None, al)"
| "scan_ports listening (port # ports) al =
     (case claim listening port al of
        (True, al') \<Rightarrow> (Some port, al')
      | (False, al') \<Rightarrow> scan_ports listening ports al')"

text \<open>The ports \<open>allocate\<close> tries, in order.\<close>

definition candidates :: "int option \<Rightarrow> allocator \<Rightarrow> int list" where
  "candidates preferred al = (case preferred of None \<Rightarrow> [] | Some p \<Rightarrow> [p]) @ [range_start al..range_end al]"

definition allocate :: "(int \<Rightarrow> bool) \<Rightarrow> int option \<Rightarrow> allocator \<Rightarrow> int option \<times> allocator" where
  "allocate listening preferred al = scan_ports listening (candidates preferred al) al"

definition in_range :: "int \<Rightarrow> allocator \<Rightarrow> bool" where
  "in_range port al = (range_start al \<le> port \<and> port \<le> range_end al)"

definition usable :: "(int \<Rightarrow> bool) \<Rightarrow> allocator \<Rightarrow> int \<Rightarrow> bool" where
  "usable listening al port = (in_range port al \<and> port \<notin> set (allocated_ports al) \<and> \<not> listening port)"

lemma release_simps [simp]:
  "range_start (release_port p al) = range_start al" "range_end (release_port p al) = range_end al"
  "set (allocated_ports (release_port p al)) = set (allocated_ports al) - {p}"
  by (simp_all add: release_port_def)

lemma claim_usable:
  "claim listening port al =
     (usable listening al port,
      if usable listening al port then al\<lparr>allocated_ports := port # allocated_ports al\<rparr> else al)"
proof -
  have "removeAll port (allocated_ports al) = allocated_ports al" if "port \<notin> set (allocated_ports al)"
    using that by (rule removeAll_id)
  then show ?thesis
    by (auto simp: claim_def claim_begin_def claim_end_def usable_def in_range_def release_port_def)
qed

text \<open>An allocation takes the first usable candidate.\<close>

lemma scan_ports_find:
  "scan_ports listening ports al =
     (case find (usable listening al) ports of
        None \<Rightarrow> (None, al)
      | Some p \<Rightarrow> (Some p, al\<lparr>allocated_ports := p # allocated_ports al\<rparr>))"
  by (induction ports) (simp_all add: claim_usable)

lemma allocate_find:
  "allocate listening preferred al =
     (case find (usable listening al) (candidates preferred al) of
        None \<Rightarrow> (None, al)
      | Some p \<Rightarrow> (Some p, al\<lparr>allocated_ports := p # allocated_ports al\<rparr>))"
  by (simp add: allocate_def scan_ports_find)

lemma find_usable: "find (usable listening al) ports = Some p \<Longrightarrow> p \<in> set ports \<and> usable listening al p"
  by (auto simp: find_Some_iff)

definition free_ports :: "allocator \<Rightarrow> int list" where
  "free_ports al = filter (\<lambda>p. p \<notin> set (allocated_ports al)) [range_start al..range_end al]"

lemma free_ports_shrink:
  assumes "in_range p al" and "p \<notin> set (allocated_ports al)"
  shows "length (free_ports (al\<lparr>allocated_ports := p # allocated_ports al\<rparr>)) < length (free_ports al)"
proof -
  have "free_ports (al\<lparr>allocated_ports := p # allocated_ports al\<rparr>) = filter (\<lambda>q. q \<noteq> p) (free_ports al)"
    by (auto simp: free_ports_def intro!: filter_cong)
  moreover have "p \<in> set (free_ports al)" using assms by (auto simp: free_ports_def in_range_def)
  ultimately show ?thesis using length_filter_less [of p "free_ports al" "\<lambda>q. q \<noteq> p"] by simp
qed

section \<open>Allocating until a bind succeeds\<close>

text \<open>The loop of \<open>allocateBound\<close>: \<open>refused\<close> are the ports whose bind failed, with the errors reported to
  \<open>onBindFailure\<close>; they stay claimed.\<close>

function bound_loop :: "(int \<Rightarrow> bool) \<Rightarrow> (int \<Rightarrow> 'e + 'b) \<Rightarrow> int option \<Rightarrow> allocator \<Rightarrow> (int \<times> 'e) list \<Rightarrow>
    (int \<times> 'b) option \<times> (int \<times> 'e) list \<times> allocator" where
  "bound_loop listening bind preferred al refused =
     (case allocate listening preferred al of
        (None, al') \<Rightarrow> (None, refused, al')
      | (Some port, al') \<Rightarrow>
          (case bind port of
             Inr b \<Rightarrow> (Some (port, b), refused, al')
           | Inl e \<Rightarrow> bound_loop listening bind preferred al' (refused @ [(port, e)])))"
  by pat_completeness auto
termination
  by (relation "measure (\<lambda>(l, b, p, al, r). length (free_ports al))")
     (auto simp: allocate_find usable_def dest!: find_usable intro!: free_ports_shrink split: option.splits)

declare bound_loop.simps [simp del]

definition allocate_bound :: "(int \<Rightarrow> bool) \<Rightarrow> (int \<Rightarrow> 'e + 'b) \<Rightarrow> int option \<Rightarrow> allocator \<Rightarrow>
    (int \<times> 'b) option \<times> (int \<times> 'e) list \<times> allocator" where
  "allocate_bound listening bind preferred al =
     (case bound_loop listening bind preferred al [] of
        (result, refused, al') \<Rightarrow> (result, refused, fold (\<lambda>(p, e) al. release_port p al) refused al'))"

lemma fold_release:
  "range_start (fold (\<lambda>(p, e) al. release_port p al) rs al) = range_start al"
  "range_end (fold (\<lambda>(p, e) al. release_port p al) rs al) = range_end al"
  "set (allocated_ports (fold (\<lambda>(p, e) al. release_port p al) rs al)) = set (allocated_ports al) - fst ` set rs"
  by (induction rs arbitrary: al) auto

text \<open>What the loop has done so far: it started from \<open>al0\<close> and tried the ports \<open>refused\<close>.\<close>

definition tried :: "(int \<Rightarrow> bool) \<Rightarrow> (int \<Rightarrow> 'e + 'b) \<Rightarrow> allocator \<Rightarrow> allocator \<Rightarrow> (int \<times> 'e) list \<Rightarrow> bool" where
  "tried listening bind al0 al refused =
     (range_start al = range_start al0 \<and> range_end al = range_end al0 \<and>
      set (allocated_ports al) = set (allocated_ports al0) \<union> fst ` set refused \<and>
      (\<forall>(p, e) \<in> set refused. usable listening al0 p \<and> bind p = Inl e))"

lemma bound_loop_result:
  assumes "tried listening bind al0 al refused"
  shows "case bound_loop listening bind preferred al refused of
      (None, refused', al') \<Rightarrow> tried listening bind al0 al' refused' \<and>
        (\<forall>p. usable listening al0 p \<longrightarrow> p \<in> fst ` set refused')
    | (Some (port, b), refused', al') \<Rightarrow> usable listening al0 port \<and> bind port = Inr b \<and>
        (\<exists>al1. tried listening bind al0 al1 refused' \<and> port \<notin> set (allocated_ports al1) \<and>
           al' = al1\<lparr>allocated_ports := port # allocated_ports al1\<rparr>) \<and>
        (preferred = None \<longrightarrow> (\<forall>p < port. usable listening al0 p \<longrightarrow> p \<in> fst ` set refused'))"
  using assms
proof (induction listening bind preferred al refused rule: bound_loop.induct)
  case (1 listening bind preferred al refused)
  have usable_al: "usable listening al p \<longleftrightarrow> usable listening al0 p \<and> p \<notin> fst ` set refused" for p
    using 1(2) by (auto simp: tried_def usable_def in_range_def)
  show ?case
  proof (cases "find (usable listening al) (candidates preferred al)")
    case None
    then have "\<not> usable listening al p" for p
      by (auto simp: find_None_iff candidates_def usable_def in_range_def)
    then show ?thesis
      using None 1(2) usable_al by (subst bound_loop.simps) (auto simp: allocate_find)
  next
    case (Some port)
    then have port: "usable listening al port" using find_usable by blast
    let ?al = "al\<lparr>allocated_ports := port # allocated_ports al\<rparr>"
    have alloc: "allocate listening preferred al = (Some port, ?al)" using Some by (simp add: allocate_find)
    show ?thesis
    proof (cases "bind port")
      case (Inl e)
      have "tried listening bind al0 ?al (refused @ [(port, e)])"
        using 1(2) port usable_al Inl by (auto simp: tried_def)
      from 1(1) [OF alloc [symmetric] refl Inl this] show ?thesis
        using alloc Inl by (subst bound_loop.simps) simp
    next
      case (Inr b)
      have "p \<in> fst ` set refused" if "preferred = None" "p < port" "usable listening al0 p" for p
      proof (rule ccontr)
        assume "p \<notin> fst ` set refused"
        then have p: "usable listening al p" using that usable_al by simp
        from Some that(1) obtain i where i: "i < length [range_start al..range_end al]" "[range_start al..range_end al] ! i = port"
            "\<forall>j<i. \<not> usable listening al ([range_start al..range_end al] ! j)"
          by (auto simp: find_Some_iff candidates_def)
        then have "port = range_start al + int i" by (simp add: nth_upto)
        moreover have "range_start al \<le> p" using p by (simp add: usable_def in_range_def)
        ultimately have "nat (p - range_start al) < i" "[range_start al..range_end al] ! nat (p - range_start al) = p"
          using that(2) i(1) by (auto simp: nth_upto)
        with i(3) p show False by metis
      qed
      moreover have "\<exists>al1. tried listening bind al0 al1 refused \<and> port \<notin> set (allocated_ports al1) \<and>
          ?al = al1\<lparr>allocated_ports := port # allocated_ports al1\<rparr>"
        using 1(2) port by (intro exI [of _ al]) (simp add: usable_def)
      ultimately show ?thesis
        using alloc Inr port usable_al by (subst bound_loop.simps) auto
    qed
  qed
qed

text \<open>What \<open>allocateBound\<close> returns: a usable port that binds, claimed in addition to those before (the lowest such
  port when none is preferred), or nothing when no usable port binds; the refused ports are given back.\<close>

lemma allocate_bound_result:
  "case allocate_bound listening bind preferred al of
      (None, refused, al') \<Rightarrow> set (allocated_ports al') = set (allocated_ports al) \<and>
        (\<forall>p. usable listening al p \<longrightarrow> (\<exists>e. bind p = Inl e))
    | (Some (port, b), refused, al') \<Rightarrow> usable listening al port \<and> bind port = Inr b \<and>
        set (allocated_ports al') = insert port (set (allocated_ports al)) \<and>
        (preferred = None \<longrightarrow> (\<forall>p < port. usable listening al p \<longrightarrow> (\<exists>e. bind p = Inl e)))"
proof -
  have start: "tried listening bind al al []" by (simp add: tried_def)
  have given_back: "set (allocated_ports al1) - fst ` set refused = set (allocated_ports al)"
      and errors: "\<forall>p \<in> fst ` set refused. \<exists>e. bind p = Inl e"
    if "tried listening bind al al1 refused" for al1 refused
    using that by (auto simp: tried_def usable_def)
  obtain result refused al' where loop: "bound_loop listening bind preferred al [] = (result, refused, al')"
    by (metis prod.exhaust)
  show ?thesis
  proof (cases result)
    case None
    then have al1: "tried listening bind al al' refused" and all: "\<forall>p. usable listening al p \<longrightarrow> p \<in> fst ` set refused"
      using bound_loop_result [OF start, of preferred] by (auto simp: loop)
    have "\<forall>p. usable listening al p \<longrightarrow> (\<exists>e. bind p = Inl e)" using all errors [OF al1] by blast
    then show ?thesis using None given_back [OF al1] by (simp add: allocate_bound_def loop fold_release)
  next
    case (Some pb)
    obtain port b where pb: "pb = (port, b)" by fastforce
    obtain al1 where al1: "tried listening bind al al1 refused" "port \<notin> set (allocated_ports al1)"
        "al' = al1\<lparr>allocated_ports := port # allocated_ports al1\<rparr>"
        and port: "usable listening al port" "bind port = Inr b"
        and least: "preferred = None \<longrightarrow> (\<forall>p < port. usable listening al p \<longrightarrow> p \<in> fst ` set refused)"
      using bound_loop_result [OF start, of preferred] by (auto simp: loop Some pb)
    have "port \<notin> fst ` set refused" using al1(1,2) by (auto simp: tried_def)
    then have "set (allocated_ports (fold (\<lambda>(p, e) al. release_port p al) refused al')) = insert port (set (allocated_ports al))"
      using given_back [OF al1(1)] by (auto simp: fold_release al1(3))
    moreover have "preferred = None \<longrightarrow> (\<forall>p < port. usable listening al p \<longrightarrow> (\<exists>e. bind p = Inl e))"
      using least errors [OF al1(1)] by blast
    ultimately show ?thesis using port by (simp add: allocate_bound_def loop Some pb)
  qed
qed

section \<open>Interleaved allocations\<close>

text \<open>
  Callers share one allocator. The code of a caller runs without interruption between two \<open>await\<close>s, so its steps
  are: skip a port that cannot be claimed, claim a port and wait for the probe, give it back or keep it, release
  it later. The probe may answer anything.
\<close>

datatype caller =
    Idle
  | Scanning "int list"
  | Probing int "int list"
  | Holding int
  | Exhausted

record pool =
  pool_allocator :: allocator
  callers :: "nat \<Rightarrow> caller"

definition set_caller :: "nat \<Rightarrow> caller \<Rightarrow> allocator \<Rightarrow> pool \<Rightarrow> pool" where
  "set_caller c st al s = s\<lparr>pool_allocator := al, callers := (callers s)(c := st)\<rparr>"

inductive pool_step :: "pool \<Rightarrow> pool \<Rightarrow> bool" where
  start: "callers s c = Idle \<Longrightarrow>
    pool_step s (set_caller c (Scanning (candidates preferred (pool_allocator s))) (pool_allocator s) s)"
| skip: "callers s c = Scanning (p # ps) \<Longrightarrow> claim_begin p (pool_allocator s) = (False, al) \<Longrightarrow>
    pool_step s (set_caller c (Scanning ps) al s)"
| take_port: "callers s c = Scanning (p # ps) \<Longrightarrow> claim_begin p (pool_allocator s) = (True, al) \<Longrightarrow>
    pool_step s (set_caller c (Probing p ps) al s)"
| busy: "callers s c = Probing p ps \<Longrightarrow> claim_end True p (pool_allocator s) = (kept, al) \<Longrightarrow>
    pool_step s (set_caller c (Scanning ps) al s)"
| keep: "callers s c = Probing p ps \<Longrightarrow> claim_end False p (pool_allocator s) = (kept, al) \<Longrightarrow>
    pool_step s (set_caller c (Holding p) al s)"
| exhausted: "callers s c = Scanning [] \<Longrightarrow> pool_step s (set_caller c Exhausted (pool_allocator s) s)"
| give_back: "callers s c = Holding p \<Longrightarrow> pool_step s (set_caller c Idle (release_port p (pool_allocator s)) s)"

definition new_pool :: "int \<Rightarrow> int \<Rightarrow> pool" where
  "new_pool lo hi = \<lparr>pool_allocator = new_allocator lo hi, callers = (\<lambda>c. Idle)\<rparr>"

text \<open>The port a caller has claimed, probed or not.\<close>

fun claimed_port :: "caller \<Rightarrow> int option" where
  "claimed_port (Probing p ps) = Some p"
| "claimed_port (Holding p) = Some p"
| "claimed_port _ = None"

definition pool_inv :: "int \<Rightarrow> int \<Rightarrow> pool \<Rightarrow> bool" where
  "pool_inv lo hi s =
     (range_start (pool_allocator s) = lo \<and> range_end (pool_allocator s) = hi \<and>
      (\<forall>c p. claimed_port (callers s c) = Some p \<longrightarrow> p \<in> set (allocated_ports (pool_allocator s)) \<and> lo \<le> p \<and> p \<le> hi) \<and>
      (\<forall>c d p. claimed_port (callers s c) = Some p \<longrightarrow> claimed_port (callers s d) = Some p \<longrightarrow> c = d))"

lemma set_caller_simps [simp]:
  "pool_allocator (set_caller c st al s) = al" "callers (set_caller c st al s) = (callers s)(c := st)"
  by (simp_all add: set_caller_def)

lemma pool_step_inv: "pool_step s s' \<Longrightarrow> pool_inv lo hi s \<Longrightarrow> pool_inv lo hi s'"
proof (induction rule: pool_step.induct)
  case (take_port s c p ps al)
  then show ?case by (auto simp: pool_inv_def claim_begin_def split: if_splits)
next
  case (busy s c p ps kept al)
  then have c: "claimed_port (callers s c) = Some p" by simp
  show ?case using busy c unfolding pool_inv_def claim_end_def by (auto split: if_splits)
next
  case (keep s c p ps kept al)
  then have c: "claimed_port (callers s c) = Some p" by simp
  from c keep.prems have "p \<in> set (allocated_ports (pool_allocator s)) \<and> lo \<le> p \<and> p \<le> hi"
    unfolding pool_inv_def by blast
  then show ?case using keep unfolding pool_inv_def claim_end_def by (auto split: if_splits)
next
  case (give_back s c p)
  then have c: "claimed_port (callers s c) = Some p" by simp
  show ?case using give_back c unfolding pool_inv_def by (auto split: if_splits)
qed (auto simp: pool_inv_def claim_begin_def split: if_splits)

lemma pool_run_inv: "pool_step\<^sup>*\<^sup>* (new_pool lo hi) s \<Longrightarrow> pool_inv lo hi s"
proof (induction rule: rtranclp_induct)
  case base
  show ?case by (simp add: pool_inv_def new_pool_def new_allocator_def)
next
  case (step y z)
  then show ?case by (blast intro: pool_step_inv)
qed

section \<open>Properties\<close>

text \<open>C25: A port has one holder. However the allocations of any number of callers interleave, no two callers hold the
  same port, and a held port lies in the range and stays marked as allocated until it is released.\<close>

theorem ports_have_one_holder:
  assumes "pool_step\<^sup>*\<^sup>* (new_pool lo hi) s" and "callers s c = Holding p"
  shows "lo \<le> p \<and> p \<le> hi \<and> p \<in> set (allocated_ports (pool_allocator s)) \<and> (\<forall>d. callers s d = Holding p \<longrightarrow> d = c)"
proof -
  have "claimed_port (callers s c) = Some p" using assms(2) by simp
  moreover have "claimed_port (callers s d) = Some p" if "callers s d = Holding p" for d using that by simp
  ultimately show ?thesis using pool_run_inv [OF assms(1)] unfolding pool_inv_def by blast
qed

theorem ports_have_one_holder_witness:
  "\<exists>s. pool_step\<^sup>*\<^sup>* (new_pool 5 6) s \<and> callers s 0 = Holding 5 \<and> callers s 1 \<noteq> Holding 5"
proof -
  let ?s0 = "new_pool 5 6"
  let ?s1 = "set_caller 0 (Scanning (candidates None (pool_allocator ?s0))) (pool_allocator ?s0) ?s0"
  have s1: "callers ?s1 0 = Scanning (5 # [6])" by (simp add: new_pool_def new_allocator_def candidates_def upto.simps)
  let ?al = "\<lparr>range_start = 5, range_end = 6, allocated_ports = [5]\<rparr>"
  have cb: "claim_begin 5 (pool_allocator ?s1) = (True, ?al)" by (simp add: claim_begin_def new_pool_def new_allocator_def)
  let ?s2 = "set_caller 0 (Probing 5 [6]) ?al ?s1" and ?s3 = "set_caller 0 (Holding 5) ?al (set_caller 0 (Probing 5 [6]) ?al ?s1)"
  have "pool_step ?s0 ?s1" by (rule pool_step.start) (simp add: new_pool_def)
  moreover have "pool_step ?s1 ?s2" by (rule pool_step.take_port [OF s1 cb])
  moreover have "pool_step ?s2 ?s3" by (rule pool_step.keep [of _ _ _ "[6]" True]) (simp_all add: claim_end_def)
  ultimately have run: "pool_step\<^sup>*\<^sup>* ?s0 ?s3" by (meson rtranclp.rtrancl_into_rtrancl rtranclp.rtrancl_refl)
  have "callers ?s3 0 = Holding 5" by simp
  from ports_have_one_holder [OF run this] have "callers ?s3 1 \<noteq> Holding 5" by (metis zero_neq_one)
  with run \<open>callers ?s3 0 = Holding 5\<close> show ?thesis by blast
qed

end
