(* ===== verification/Resource_Mutex.thy ===== *)
theory Resource_Mutex
  imports Js_Prelude
begin

text \<open>
  The mutex of \<open>src/src/shared/utils/resource-mutex.ts\<close>. A call of \<open>runExclusively\<close> chains its operation on the
  tail of its key; the event loop then starts the operation once the promise before it has settled, settles the
  call's own promise when the operation ends, and runs the \<open>finally\<close> of the call after that. These are the four
  steps of the model; between them the steps of other calls may come in any order.
\<close>

section \<open>State and steps\<close>

text \<open>\<open>Settled\<close> says whether the operation resolved or rejected.\<close>

datatype call_phase = Queued | Active | Settled bool

text \<open>A call stands for the promise \<open>current\<close> it puts into the map; it is named by its place in the order of calls.\<close>

record mutex_call =
  mc_key :: string
  mc_previous :: "nat option"
  mc_phase :: call_phase
  mc_returned :: bool

record mutex =
  mx_tails :: "(string, nat) jsmap"
  mx_calls :: "mutex_call list"

definition new_mutex :: mutex where
  "new_mutex = \<lparr>mx_tails = [], mx_calls = []\<rparr>"

definition settled :: "mutex \<Rightarrow> nat \<Rightarrow> bool" where
  "settled m i = (case mc_phase (mx_calls m ! i) of Settled _ \<Rightarrow> True | _ \<Rightarrow> False)"

definition set_phase :: "nat \<Rightarrow> call_phase \<Rightarrow> mutex \<Rightarrow> mutex" where
  "set_phase i ph m = m\<lparr>mx_calls := (mx_calls m)[i := (mx_calls m ! i)\<lparr>mc_phase := ph\<rparr>]\<rparr>"

text \<open>\<open>get(key) ?? Promise.resolve()\<close>, the chaining, and \<open>set(key, current)\<close>.\<close>

definition run_exclusively :: "string \<Rightarrow> mutex \<Rightarrow> mutex" where
  "run_exclusively key m =
     (let current = length (mx_calls m)
      in \<lparr>mx_tails = jm_set (mx_tails m) key current,
          mx_calls = mx_calls m @
            [\<lparr>mc_key = key, mc_previous = jm_get (mx_tails m) key, mc_phase = Queued, mc_returned = False\<rparr>]\<rparr>)"

text \<open>\<open>previous.then(operation, operation)\<close>: the operation starts whichever way the promise before it settled.\<close>

definition may_start :: "mutex \<Rightarrow> nat \<Rightarrow> bool" where
  "may_start m i \<longleftrightarrow> i < length (mx_calls m) \<and> mc_phase (mx_calls m ! i) = Queued \<and>
     (case mc_previous (mx_calls m ! i) of None \<Rightarrow> True | Some p \<Rightarrow> settled m p)"

definition start_operation :: "nat \<Rightarrow> mutex \<Rightarrow> mutex option" where
  "start_operation i m = (if may_start m i then Some (set_phase i Active m) else None)"

definition end_operation :: "nat \<Rightarrow> bool \<Rightarrow> mutex \<Rightarrow> mutex option" where
  "end_operation i resolved m =
     (if i < length (mx_calls m) \<and> mc_phase (mx_calls m ! i) = Active then Some (set_phase i (Settled resolved) m) else None)"

text \<open>The \<open>finally\<close>: the key is forgotten if this call is still its tail.\<close>

definition return_call :: "nat \<Rightarrow> mutex \<Rightarrow> mutex option" where
  "return_call i m =
     (if i < length (mx_calls m) \<and> settled m i \<and> \<not> mc_returned (mx_calls m ! i)
      then
        let key = mc_key (mx_calls m ! i);
            m' = m\<lparr>mx_calls := (mx_calls m)[i := (mx_calls m ! i)\<lparr>mc_returned := True\<rparr>]\<rparr>
        in Some (if jm_get (mx_tails m) key = Some i then m'\<lparr>mx_tails := jm_delete (mx_tails m) key\<rparr> else m')
      else None)"

definition tracked_key_count :: "mutex \<Rightarrow> nat" where
  "tracked_key_count m = length (mx_tails m)"

inductive mutex_step :: "mutex \<Rightarrow> mutex \<Rightarrow> bool" where
  call: "mutex_step m (run_exclusively key m)"
| start: "start_operation i m = Some m' \<Longrightarrow> mutex_step m m'"
| stop: "end_operation i resolved m = Some m' \<Longrightarrow> mutex_step m m'"
| return: "return_call i m = Some m' \<Longrightarrow> mutex_step m m'"

inductive mutex_run :: "mutex \<Rightarrow> bool" where
  new: "mutex_run new_mutex"
| step: "mutex_run m \<Longrightarrow> mutex_step m m' \<Longrightarrow> mutex_run m'"

section \<open>The queue of a key\<close>

definition same_key :: "mutex \<Rightarrow> nat \<Rightarrow> nat \<Rightarrow> bool" where
  "same_key m i j \<longleftrightarrow> mc_key (mx_calls m ! i) = mc_key (mx_calls m ! j)"

text \<open>
  A call that has started has no unsettled call of its key before it; a queued call waits for the last call of
  its key before it, or for none when those are all settled; the map holds the last call of a key, and has no
  entry for a key whose calls are all settled, nor for one whose last call has returned.
\<close>

definition queue_ok :: "mutex \<Rightarrow> nat \<Rightarrow> bool" where
  "queue_ok m j \<longleftrightarrow>
     (mc_phase (mx_calls m ! j) \<noteq> Queued \<longrightarrow> (\<forall>i < j. same_key m i j \<longrightarrow> settled m i)) \<and>
     (case mc_previous (mx_calls m ! j) of
        None \<Rightarrow> \<forall>i < j. same_key m i j \<longrightarrow> settled m i
      | Some p \<Rightarrow> p < j \<and> same_key m p j \<and> (\<forall>i. p < i \<longrightarrow> i < j \<longrightarrow> \<not> same_key m i j)) \<and>
     (mc_returned (mx_calls m ! j) \<longrightarrow> settled m j)"

definition tail_ok :: "mutex \<Rightarrow> string \<Rightarrow> bool" where
  "tail_ok m key \<longleftrightarrow>
     (case jm_get (mx_tails m) key of
        None \<Rightarrow> \<forall>i < length (mx_calls m). mc_key (mx_calls m ! i) = key \<longrightarrow> settled m i
      | Some p \<Rightarrow> p < length (mx_calls m) \<and> mc_key (mx_calls m ! p) = key \<and> \<not> mc_returned (mx_calls m ! p) \<and>
          (\<forall>i < length (mx_calls m). p < i \<longrightarrow> mc_key (mx_calls m ! i) \<noteq> key))"

definition mutex_ok :: "mutex \<Rightarrow> bool" where
  "mutex_ok m \<longleftrightarrow> distinct (jm_keys (mx_tails m)) \<and> (\<forall>key. tail_ok m key) \<and> (\<forall>j < length (mx_calls m). queue_ok m j)"

section \<open>Every step keeps the queues\<close>

lemma set_phase_simps [simp]:
  "length (mx_calls (set_phase i ph m)) = length (mx_calls m)" "mx_tails (set_phase i ph m) = mx_tails m"
  "i < length (mx_calls m) \<Longrightarrow> mx_calls (set_phase i ph m) ! j = (if j = i then (mx_calls m ! i)\<lparr>mc_phase := ph\<rparr> else mx_calls m ! j)"
  by (simp_all add: set_phase_def nth_list_update)

lemma settled_set_phase:
  "i < length (mx_calls m) \<Longrightarrow>
   settled (set_phase i ph m) j = (if j = i then (\<exists>b. ph = Settled b) else settled m j)"
  by (auto simp: settled_def split: call_phase.splits)

lemma settled_started: "settled m i \<Longrightarrow> mc_phase (mx_calls m ! i) \<noteq> Queued"
  by (auto simp: settled_def)

lemma queue_okI:
  assumes "mc_phase (mx_calls m ! j) \<noteq> Queued \<Longrightarrow> \<forall>i < j. same_key m i j \<longrightarrow> settled m i"
    and "mc_previous (mx_calls m ! j) = None \<Longrightarrow> \<forall>i < j. same_key m i j \<longrightarrow> settled m i"
    and "\<And>p. mc_previous (mx_calls m ! j) = Some p \<Longrightarrow> p < j \<and> same_key m p j \<and> (\<forall>i. p < i \<longrightarrow> i < j \<longrightarrow> \<not> same_key m i j)"
    and "mc_returned (mx_calls m ! j) \<Longrightarrow> settled m j"
  shows "queue_ok m j"
  using assms by (auto simp: queue_ok_def split: option.splits)

text \<open>A call that may start has only settled calls of its key before it.\<close>

lemma may_start_clear:
  assumes "mutex_ok m" and "may_start m i" and "k < i" and "same_key m k i"
  shows "settled m k"
proof -
  have i: "i < length (mx_calls m)" "queue_ok m i" using assms(1,2) by (auto simp: mutex_ok_def may_start_def)
  show ?thesis
  proof (cases "mc_previous (mx_calls m ! i)")
    case None
    then show ?thesis using i(2) assms(3,4) by (simp add: queue_ok_def)
  next
    case (Some p)
    then have p: "settled m p" "p < i" "same_key m p i" "\<forall>k. p < k \<longrightarrow> k < i \<longrightarrow> \<not> same_key m k i"
      using i(2) assms(2) by (simp_all add: queue_ok_def may_start_def)
    have "queue_ok m p" using assms(1) i(1) p(2) by (simp add: mutex_ok_def)
    then have "\<forall>k < p. same_key m k p \<longrightarrow> settled m k" using settled_started [OF p(1)] by (simp add: queue_ok_def)
    moreover have "same_key m k p" using assms(4) p(3) by (simp add: same_key_def)
    ultimately show ?thesis using p(1,4) assms(3,4) by (metis linorder_neqE_nat)
  qed
qed

lemma mutex_ok_call:
  assumes "mutex_ok m"
  shows "mutex_ok (run_exclusively key m)"
proof -
  let ?m = "run_exclusively key m" let ?n = "length (mx_calls m)"
  have len: "length (mx_calls ?m) = Suc ?n" and old: "\<And>i. i < ?n \<Longrightarrow> mx_calls ?m ! i = mx_calls m ! i"
    and new: "mx_calls ?m ! ?n = \<lparr>mc_key = key, mc_previous = jm_get (mx_tails m) key, mc_phase = Queued, mc_returned = False\<rparr>"
    and tails: "mx_tails ?m = jm_set (mx_tails m) key ?n"
    by (simp_all add: run_exclusively_def Let_def nth_append)
  have st: "settled ?m i = settled m i" if "i < ?n" for i using old [OF that] by (simp add: settled_def)
  have sk: "same_key ?m i j = same_key m i j" if "i < ?n" "j < ?n" for i j using old that by (simp add: same_key_def)
  have tl: "\<And>k. tail_ok m k" and q: "\<And>j. j < ?n \<Longrightarrow> queue_ok m j" and d: "distinct (jm_keys (mx_tails m))"
    using assms by (auto simp: mutex_ok_def)
  have "queue_ok ?m j" if "j < Suc ?n" for j
  proof (cases "j = ?n")
    case True
    have nk: "same_key ?m i ?n \<longleftrightarrow> mc_key (mx_calls m ! i) = key" if "i < ?n" for i using old [OF that] new by (simp add: same_key_def)
    show ?thesis unfolding True
      by (rule queue_okI) (use tl [of key] new nk st in \<open>auto simp: tail_ok_def split: option.splits\<close>)
  next
    case False
    then have j: "j < ?n" using that by simp
    show ?thesis using q [OF j] old [OF j] st sk j unfolding queue_ok_def by (auto split: option.splits)
  qed
  moreover have "tail_ok ?m k" for k
  proof (cases "k = key")
    case True
    then show ?thesis using new by (simp add: tail_ok_def tails jm_get_set len)
  next
    case False
    then show ?thesis using tl [of k] new old st
      by (auto simp: tail_ok_def tails jm_get_set len less_Suc_eq split: option.splits)
  qed
  ultimately show ?thesis using d by (simp add: mutex_ok_def len tails distinct_jm_set)
qed

lemma mutex_ok_phase:
  assumes "mutex_ok m" and "i < length (mx_calls m)" and "\<not> settled m i" and "ph \<noteq> Queued"
    and "\<And>k. k < i \<Longrightarrow> same_key m k i \<Longrightarrow> settled m k"
  shows "mutex_ok (set_phase i ph m)"
proof -
  let ?m = "set_phase i ph m"
  have grows: "settled m j \<Longrightarrow> settled ?m j" for j using settled_set_phase [OF assms(2)] assms(3) by auto
  have sk: "same_key ?m a b = same_key m a b" for a b using assms(2) by (simp add: same_key_def)
  have calls: "mx_calls ?m ! j = (if j = i then (mx_calls m ! i)\<lparr>mc_phase := ph\<rparr> else mx_calls m ! j)" for j
    using assms(2) by simp
  have clear: "\<forall>k < i. same_key m k i \<longrightarrow> settled m k" using assms(5) by blast
  have "queue_ok ?m j" if "j < length (mx_calls m)" for j
  proof -
    have q: "queue_ok m j" using assms(1) that by (simp add: mutex_ok_def)
    show ?thesis
    proof (cases "j = i")
      case True
      have "\<not> mc_returned (mx_calls m ! i)" using q assms(3) True by (simp add: queue_ok_def)
      then show ?thesis using q clear grows unfolding True queue_ok_def calls sk by (auto split: option.splits)
    next
      case False
      then show ?thesis using q grows unfolding queue_ok_def calls sk by (simp split: option.split_asm option.split)
    qed
  qed
  moreover have "tail_ok ?m k" for k
  proof -
    have "tail_ok m k" using assms(1) by (simp add: mutex_ok_def)
    then show ?thesis using grows assms(2) unfolding tail_ok_def by (auto split: option.splits)
  qed
  ultimately show ?thesis using assms(1) by (simp add: mutex_ok_def)
qed

lemma mutex_ok_return:
  assumes "mutex_ok m" and "return_call i m = Some m'"
  shows "mutex_ok m'"
proof -
  let ?key = "mc_key (mx_calls m ! i)" let ?calls = "(mx_calls m)[i := (mx_calls m ! i)\<lparr>mc_returned := True\<rparr>]"
  have i: "i < length (mx_calls m)" "settled m i" using assms(2) by (auto simp: return_call_def split: if_splits)
  have m': "mx_calls m' = ?calls" "mx_tails m' = (if jm_get (mx_tails m) ?key = Some i then jm_delete (mx_tails m) ?key else mx_tails m)"
    using assms(2) by (auto simp: return_call_def Let_def split: if_splits)
  have calls: "mx_calls m' ! j = (if j = i then (mx_calls m ! i)\<lparr>mc_returned := True\<rparr> else mx_calls m ! j)" for j
    using i(1) by (simp add: m' nth_list_update)
  have len: "length (mx_calls m') = length (mx_calls m)" by (simp add: m')
  have st: "settled m' j = settled m j" for j by (simp add: settled_def calls)
  have sk: "same_key m' a b = same_key m a b" for a b by (simp add: same_key_def calls)
  have "queue_ok m' j" if "j < length (mx_calls m)" for j
  proof -
    have "queue_ok m j" using assms(1) that by (simp add: mutex_ok_def)
    then show ?thesis using i(2) unfolding queue_ok_def st sk calls by (auto split: option.splits)
  qed
  moreover have "tail_ok m' k" for k
  proof -
    have t: "tail_ok m k" and q: "queue_ok m i" using assms(1) i(1) by (auto simp: mutex_ok_def)
    show ?thesis
    proof (cases "jm_get (mx_tails m) ?key = Some i \<and> k = ?key")
      case True
      then have "\<forall>j < length (mx_calls m). mc_key (mx_calls m ! j) = k \<longrightarrow> settled m j"
        using t q i settled_started [OF i(2)] unfolding tail_ok_def queue_ok_def same_key_def
        by (simp, metis linorder_neqE_nat)
      moreover have "jm_get (mx_tails m') k = None" using True by (simp add: m' jm_get_delete)
      ultimately show ?thesis unfolding tail_ok_def len st by (simp add: calls)
    next
      case False
      then have "jm_get (mx_tails m') k = jm_get (mx_tails m) k" by (auto simp: m' jm_get_delete)
      then show ?thesis using t False unfolding tail_ok_def len st calls by (auto split: option.splits)
    qed
  qed
  moreover have "distinct (jm_keys (mx_tails m'))" using assms(1) by (simp add: mutex_ok_def m' distinct_jm_delete)
  ultimately show ?thesis by (simp add: mutex_ok_def len)
qed

lemma mutex_ok_step: "mutex_step m m' \<Longrightarrow> mutex_ok m \<Longrightarrow> mutex_ok m'"
proof (induction rule: mutex_step.induct)
  case (start i m m')
  then have i: "may_start m i" "m' = set_phase i Active m" by (auto simp: start_operation_def split: if_splits)
  then show ?case
    using may_start_clear [OF start(2) i(1)] by (auto simp: may_start_def settled_def intro!: mutex_ok_phase start(2))
next
  case (stop i r m m')
  then have i: "i < length (mx_calls m)" "mc_phase (mx_calls m ! i) = Active" "m' = set_phase i (Settled r) m"
    by (auto simp: end_operation_def split: if_splits)
  moreover have "queue_ok m i" using stop(2) i(1) by (simp add: mutex_ok_def)
  ultimately show ?case by (auto simp: settled_def queue_ok_def intro!: mutex_ok_phase stop(2))
qed (blast intro: mutex_ok_call mutex_ok_return)+

lemma mutex_run_ok: "mutex_run m \<Longrightarrow> mutex_ok m"
  by (induction rule: mutex_run.induct) (simp add: mutex_ok_def tail_ok_def new_mutex_def, rule mutex_ok_step)

section \<open>What callers rely on\<close>

text \<open>C39: Operations of one key never overlap and start in the order of their calls: when one has started, every
  earlier call of its key has settled, whether it resolved or rejected. In particular no two of a key are active.\<close>

theorem mutex_serializes:
  assumes "mutex_run m" and "i < j" and "j < length (mx_calls m)" and "mc_key (mx_calls m ! i) = mc_key (mx_calls m ! j)"
    and "mc_phase (mx_calls m ! j) \<noteq> Queued"
  shows "settled m i \<and> mc_phase (mx_calls m ! i) \<noteq> Active"
proof -
  have "queue_ok m j" using mutex_run_ok [OF assms(1)] assms(3) by (simp add: mutex_ok_def)
  then have "settled m i" using assms(2,4,5) by (simp add: queue_ok_def same_key_def)
  then show ?thesis by (auto simp: settled_def)
qed

text \<open>C40: No call waits in vain: as long as a call is queued, an operation of its key, of this call or an earlier one,
  is active or may start now. A failed operation blocks nothing.\<close>

theorem mutex_never_wedged:
  assumes "mutex_run m" and "j < length (mx_calls m)" and "mc_phase (mx_calls m ! j) = Queued"
  shows "\<exists>i \<le> j. mc_key (mx_calls m ! i) = mc_key (mx_calls m ! j) \<and>
    (mc_phase (mx_calls m ! i) = Active \<or> start_operation i m \<noteq> None)"
  using assms(2,3)
proof (induction j rule: less_induct)
  case (less j)
  show ?case
  proof (cases "may_start m j")
    case True
    then show ?thesis by (auto simp: start_operation_def)
  next
    case False
    then obtain p where p: "mc_previous (mx_calls m ! j) = Some p" "\<not> settled m p"
      using less.prems by (auto simp: may_start_def split: option.splits)
    have "queue_ok m j" using mutex_run_ok [OF assms(1)] less.prems(1) by (simp add: mutex_ok_def)
    then have key: "p < j" "mc_key (mx_calls m ! p) = mc_key (mx_calls m ! j)" using p(1) by (simp_all add: queue_ok_def same_key_def)
    show ?thesis
    proof (cases "mc_phase (mx_calls m ! p) = Queued")
      case True
      with less.IH [OF key(1)] less.prems(1) key show ?thesis by (metis less_imp_le order_trans order.strict_trans)
    next
      case False
      then have "mc_phase (mx_calls m ! p) = Active" using p(2) by (auto simp: settled_def split: call_phase.splits)
      then show ?thesis using key by (metis less_imp_le)
    qed
  qed
qed

text \<open>The map does not grow beyond the work in flight: every key in it has a call that has not returned, so there
  are at most as many keys as such calls, and none once every call has returned.\<close>

theorem mutex_map_drains:
  assumes "mutex_run m"
  shows "tracked_key_count m \<le> length (filter (\<lambda>c. \<not> mc_returned c) (mx_calls m))"
proof -
  have ok: "mutex_ok m" using assms by (rule mutex_run_ok)
  have "k \<in> mc_key ` set (filter (\<lambda>c. \<not> mc_returned c) (mx_calls m))" if k: "k \<in> set (jm_keys (mx_tails m))" for k
  proof -
    obtain p where "jm_get (mx_tails m) k = Some p" using k by (metis jm_has_get option.exhaust jm_has_def)
    moreover have "tail_ok m k" using ok by (simp add: mutex_ok_def)
    ultimately have "p < length (mx_calls m)" "mc_key (mx_calls m ! p) = k" "\<not> mc_returned (mx_calls m ! p)"
      by (simp_all add: tail_ok_def)
    then show ?thesis by (auto intro!: image_eqI [of _ _ "mx_calls m ! p"])
  qed
  then have "card (set (jm_keys (mx_tails m))) \<le> card (mc_key ` set (filter (\<lambda>c. \<not> mc_returned c) (mx_calls m)))"
    by (intro card_mono) auto
  also have "\<dots> \<le> length (filter (\<lambda>c. \<not> mc_returned c) (mx_calls m))"
    by (rule order_trans [OF card_image_le card_length]) simp
  finally show ?thesis using ok distinct_card [of "jm_keys (mx_tails m)"] by (simp add: mutex_ok_def tracked_key_count_def)
qed

text \<open>Two calls of one key: the second waits for the first, which fails, and then starts.\<close>

definition demo_waiting :: mutex where
  "demo_waiting = set_phase 0 Active (run_exclusively ''k'' (run_exclusively ''k'' new_mutex))"

definition demo_second :: mutex where
  "demo_second = set_phase 1 Active (set_phase 0 (Settled False) demo_waiting)"

lemma demo_mutex_runs: "mutex_run demo_waiting" "mutex_run demo_second"
proof -
  note called = mutex_run.step [OF mutex_run.step [OF mutex_run.new mutex_step.call] mutex_step.call]
  have "start_operation 0 (run_exclusively ''k'' (run_exclusively ''k'' new_mutex)) = Some demo_waiting" by code_simp
  from mutex_run.step [OF called mutex_step.start [OF this]] show w: "mutex_run demo_waiting" .
  have "end_operation 0 False demo_waiting = Some (set_phase 0 (Settled False) demo_waiting)" by code_simp
  note ended = mutex_run.step [OF w mutex_step.stop [OF this]]
  have "start_operation 1 (set_phase 0 (Settled False) demo_waiting) = Some demo_second" by code_simp
  from mutex_run.step [OF ended mutex_step.start [OF this]] show "mutex_run demo_second" .
qed

lemma demo_mutex_calls:
  "map mc_key (mx_calls demo_waiting) = [''k'', ''k'']" "map mc_phase (mx_calls demo_waiting) = [Active, Queued]"
  "map mc_key (mx_calls demo_second) = [''k'', ''k'']" "map mc_phase (mx_calls demo_second) = [Settled False, Active]"
  by code_simp+

lemma mutex_serializes_witness: "settled demo_second 0"
  using mutex_serializes [OF demo_mutex_runs(2), of 0 1] demo_mutex_calls(3,4) by (auto simp: map_eq_Cons_conv)

lemma mutex_never_wedged_witness:
  "\<exists>i \<le> 1. mc_phase (mx_calls demo_waiting ! i) = Active \<or> start_operation i demo_waiting \<noteq> None"
  using mutex_never_wedged [OF demo_mutex_runs(1), of 1] demo_mutex_calls(1,2) by (auto simp: map_eq_Cons_conv)

lemma mutex_map_drains_witness: "tracked_key_count demo_second \<le> 2"
  using mutex_map_drains [OF demo_mutex_runs(2)] length_filter_le [of _ "mx_calls demo_second"] demo_mutex_calls(3)
  by (metis (no_types, lifting) One_nat_def Suc_1 length_Cons length_map list.size(3) order_trans)

end
