(* ===== verification/Task_Dispatch.thy ===== *)
theory Task_Dispatch
  imports Durations
begin

text \<open>
  The dispatching of Cloud Tasks: the token bucket of a queue (\<open>src/src/services/tasks/token-bucket.ts\<close>) and the
  life of a task under \<open>dispatchTask\<close>, \<open>tick\<close>, \<open>runTask\<close>, \<open>deleteTask\<close> and the purge of a queue (\<open>dispatch-engine.ts\<close>, \<open>task-service.ts\<close>). A dispatch awaits
  the HTTP target, so it is two steps between which others run. Tasks are kept by name.
\<close>

section \<open>The token bucket\<close>

record bucket_config =
  max_tokens :: rat
  refill_rate :: rat
  max_concurrent :: nat

record token_bucket =
  tokens :: rat
  concurrent :: nat
  config :: bucket_config

definition new_bucket :: "bucket_config \<Rightarrow> token_bucket" where
  "new_bucket cfg = \<lparr>tokens = max_tokens cfg, concurrent = 0, config = cfg\<rparr>"

definition acquire :: "token_bucket \<Rightarrow> bool \<times> token_bucket" where
  "acquire b =
     (if tokens b \<le> 0 \<or> concurrent b \<ge> max_concurrent (config b) then (False, b)
      else (True, b\<lparr>tokens := tokens b - 1, concurrent := concurrent b + 1\<rparr>))"

definition release_slot :: "token_bucket \<Rightarrow> token_bucket" where
  "release_slot b = (if concurrent b > 0 then b\<lparr>concurrent := concurrent b - 1\<rparr> else b)"

definition refill :: "token_bucket \<Rightarrow> token_bucket" where
  "refill b = b\<lparr>tokens := min (tokens b + refill_rate (config b)) (max_tokens (config b))\<rparr>"

definition update_config :: "bucket_config \<Rightarrow> token_bucket \<Rightarrow> token_bucket" where
  "update_config cfg b =
     (let b' = b\<lparr>config := cfg\<rparr>
      in if tokens b' > max_tokens cfg then b'\<lparr>tokens := max_tokens cfg\<rparr> else b')"

definition get_bucket_stats :: "token_bucket \<Rightarrow> rat \<times> nat \<times> bucket_config" where
  "get_bucket_stats b = (tokens b, concurrent b, config b)"

text \<open>A sequence of operations and the number of successful \<open>acquire\<close>s in it.\<close>

datatype bucket_op = Acquire | Release | Refill

fun run_bucket :: "token_bucket \<Rightarrow> bucket_op list \<Rightarrow> nat \<times> token_bucket" where
  "run_bucket b [] = (0, b)"
| "run_bucket b (Acquire # ops) =
     (case acquire b of (ok, b') \<Rightarrow> (case run_bucket b' ops of (n, b'') \<Rightarrow> (if ok then Suc n else n, b'')))"
| "run_bucket b (Release # ops) = run_bucket (release_slot b) ops"
| "run_bucket b (Refill # ops) = run_bucket (refill b) ops"

definition refills :: "bucket_op list \<Rightarrow> nat" where
  "refills ops = length (filter (\<lambda>x. x = Refill) ops)"

definition bucket_ok :: "token_bucket \<Rightarrow> bool" where
  "bucket_ok b = (- 1 < tokens b \<and> tokens b \<le> max_tokens (config b) \<and> concurrent b \<le> max_concurrent (config b)
     \<and> 0 \<le> refill_rate (config b) \<and> 0 \<le> max_tokens (config b))"

lemma bucket_ok_steps:
  "bucket_ok b \<Longrightarrow> bucket_ok (snd (acquire b))" "bucket_ok b \<Longrightarrow> bucket_ok (release_slot b)"
  "bucket_ok b \<Longrightarrow> bucket_ok (refill b)"
  by (auto simp: bucket_ok_def acquire_def release_slot_def refill_def)

lemma config_steps [simp]:
  "config (snd (acquire b)) = config b" "config (release_slot b) = config b" "config (refill b) = config b"
  by (auto simp: acquire_def release_slot_def refill_def)

lemma run_bucket_account:
  assumes "bucket_ok b" and "run_bucket b ops = (n, b')"
  shows "bucket_ok b' \<and> config b' = config b \<and> of_nat n + tokens b' \<le> tokens b + of_nat (refills ops) * refill_rate (config b)"
  using assms
proof (induction b ops arbitrary: n b' rule: run_bucket.induct)
  case (2 b ops)
  obtain ok b1 where acq: "acquire b = (ok, b1)" by fastforce
  obtain m b2 where run: "run_bucket b1 ops = (m, b2)" by fastforce
  have ok1: "bucket_ok b1" "config b1 = config b" using bucket_ok_steps(1) [OF 2(2)] config_steps(1) [of b] acq by simp_all
  have "tokens b1 + (if ok then 1 else 0) = tokens b" using acq by (auto simp: acquire_def split: if_splits)
  then show ?case
    using 2(1) [OF acq [symmetric] ok1(1) run] 2(3) acq run ok1(2) by (auto simp: refills_def split: if_splits)
next
  case (3 b ops)
  have "tokens (release_slot b) = tokens b" by (simp add: release_slot_def)
  then show ?case using 3(1) [OF bucket_ok_steps(2) [OF 3(2)]] 3(3) by (simp add: refills_def)
next
  case (4 b ops)
  have "tokens (refill b) \<le> tokens b + refill_rate (config b)" by (simp add: refill_def)
  then show ?case using 4(1) [OF bucket_ok_steps(3) [OF 4(2)]] 4(3) by (simp add: refills_def algebra_simps)
qed (simp add: refills_def)

section \<open>Backoff\<close>

definition compute_backoff_seconds :: "nat \<Rightarrow> rat \<Rightarrow> rat \<Rightarrow> nat \<Rightarrow> rat" where
  "compute_backoff_seconds attempt min_backoff max_backoff max_doublings =
     min (min_backoff * 2 ^ min attempt max_doublings) max_backoff"

lemma backoff_grows:
  assumes "0 \<le> lo" and "m \<le> n"
  shows "compute_backoff_seconds m lo hi d \<le> compute_backoff_seconds n lo hi d"
proof -
  have "(2 :: rat) ^ min m d \<le> 2 ^ min n d" using assms(2) by (intro power_increasing) auto
  then have "lo * 2 ^ min m d \<le> lo * 2 ^ min n d" by (rule mult_left_mono [OF _ assms(1)])
  then show ?thesis by (auto simp: compute_backoff_seconds_def min_def)
qed

lemma backoff_bounds: "lo \<le> hi \<Longrightarrow> 0 \<le> lo \<Longrightarrow> lo \<le> compute_backoff_seconds n lo hi d \<and> compute_backoff_seconds n lo hi d \<le> hi"
  by (simp add: compute_backoff_seconds_def mult_le_cancel_left1)

section \<open>Tasks\<close>

datatype task_status = Pending | Dispatching | Failed | Tombstone

record task =
  task_name :: string
  http_request :: "string option"
  schedule_time :: string
  dispatch_count :: nat
  response_count :: nat
  first_attempt :: "string option"
  last_attempt :: "string option"
  task_state :: task_status
  tombstone_expiry :: "string option"

record retry_config =
  max_attempts :: int
  min_backoff_sec :: rat
  max_backoff_sec :: rat
  max_doublings :: nat

text \<open>What \<open>dispatchTask\<close> writes before the request.\<close>

definition begin_dispatch :: "task \<Rightarrow> task \<Rightarrow> task" where
  "begin_dispatch snapshot t = t\<lparr>task_state := Dispatching, dispatch_count := dispatch_count snapshot + 1\<rparr>"

definition record_attempt :: "task \<Rightarrow> string \<Rightarrow> task \<Rightarrow> task" where
  "record_attempt snapshot attempt t =
     (let t' = t\<lparr>response_count := response_count snapshot + 1, last_attempt := Some attempt\<rparr>
      in if first_attempt snapshot = None then t'\<lparr>first_attempt := Some attempt\<rparr> else t')"

text \<open>
  What it writes after it: \<open>success\<close>, the serialised attempt, the retention of a completed task in seconds and
  the time. An unlimited number of attempts is -1.
\<close>

definition finish_dispatch :: "retry_config \<Rightarrow> rat \<Rightarrow> bool \<Rightarrow> string \<Rightarrow> int \<Rightarrow> task \<Rightarrow> task \<Rightarrow> task" where
  "finish_dispatch cfg tombstone_ttl success attempt now snapshot t =
     (let t' = record_attempt snapshot attempt t
      in if success
         then t'\<lparr>task_state := Tombstone, tombstone_expiry := Some (iso_string \<lfloor>of_int now + tombstone_ttl * 1000\<rfloor>)\<rparr>
         else if max_attempts cfg \<noteq> - 1 \<and> int (dispatch_count snapshot) + 1 \<ge> max_attempts cfg
         then t'\<lparr>task_state := Failed\<rparr>
         else t'\<lparr>task_state := Pending,
                schedule_time := iso_string \<lfloor>of_int now + compute_backoff_seconds (dispatch_count snapshot)
                  (min_backoff_sec cfg) (max_backoff_sec cfg) (max_doublings cfg) * 1000\<rfloor>\<rparr>)"

definition delete_task :: "string \<Rightarrow> task \<Rightarrow> task" where
  "delete_task expiry t = t\<lparr>task_state := Tombstone, tombstone_expiry := Some expiry\<rparr>"

section \<open>The life of the tasks of a queue\<close>

text \<open>The stored tasks, and the dispatches that wait for their target with the record they were given.\<close>

record queue_state =
  stored :: "string \<Rightarrow> task option"
  in_flight :: "task list"

definition put_task :: "string \<Rightarrow> (task \<Rightarrow> task) \<Rightarrow> queue_state \<Rightarrow> queue_state" where
  "put_task n f s = s\<lparr>stored := (stored s)(n := map_option f (stored s n))\<rparr>"

inductive queue_step :: "retry_config \<Rightarrow> queue_state \<Rightarrow> queue_state \<Rightarrow> bool" for cfg where
  create: "stored s (task_name t) = None \<Longrightarrow> task_state t = Pending \<Longrightarrow> dispatch_count t = 0 \<Longrightarrow>
    queue_step cfg s (s\<lparr>stored := (stored s)(task_name t := Some t)\<rparr>)"
| dispatch: "stored s n = Some t \<Longrightarrow> task_state t \<noteq> Tombstone \<Longrightarrow> http_request t \<noteq> None \<Longrightarrow>
    queue_step cfg s ((put_task n (begin_dispatch t) s)\<lparr>in_flight := t # in_flight s\<rparr>)"
| answered: "t \<in> set (in_flight s) \<Longrightarrow>
    queue_step cfg s ((put_task (task_name t) (finish_dispatch cfg ttl ok attempt now t) s)\<lparr>in_flight := remove1 t (in_flight s)\<rparr>)"
| delete: "stored s n = Some t \<Longrightarrow> task_state t \<noteq> Tombstone \<Longrightarrow> queue_step cfg s (put_task n (delete_task expiry) s)"
| purge: "queue_step cfg s (s\<lparr>stored := (\<lambda>n. None)\<rparr>)"
| cleanup: "queue_step cfg s (s\<lparr>stored := (\<lambda>n. case stored s n of None \<Rightarrow> None
    | Some t \<Rightarrow> if task_state t = Tombstone \<and> expired t then None else Some t)\<rparr>)"

definition empty_queue :: queue_state where
  "empty_queue = \<lparr>stored = (\<lambda>n. None), in_flight = []\<rparr>"

text \<open>
  A deletion does not survive a dispatch that is under way: when the target answers with an error, the task that
  was deleted is pending again. \<open>deleteTask\<close> marks the record, and \<open>dispatchTask\<close> then writes its own status
  over the mark without looking at it.
\<close>

lemma deleted_task_returns:
  fixes t :: task
  assumes "max_attempts cfg = - 1" and "http_request t \<noteq> None" and "task_state t = Pending" and "dispatch_count t = 0"
  shows "\<exists>deleted later. (queue_step cfg)\<^sup>*\<^sup>* empty_queue deleted \<and> queue_step cfg deleted later \<and>
    (\<exists>d. stored deleted (task_name t) = Some d \<and> task_state d = Tombstone) \<and>
    (\<exists>p. stored later (task_name t) = Some p \<and> task_state p = Pending)"
proof -
  let ?n = "task_name t" and ?s0 = empty_queue
  let ?s1 = "?s0\<lparr>stored := (stored ?s0)(?n := Some t)\<rparr>"
  let ?s2 = "(put_task ?n (begin_dispatch t) ?s1)\<lparr>in_flight := t # in_flight ?s1\<rparr>"
  let ?s3 = "put_task ?n (delete_task []) ?s2"
  let ?s4 = "(put_task ?n (finish_dispatch cfg 0 False [] 0 t) ?s3)\<lparr>in_flight := remove1 t (in_flight ?s3)\<rparr>"
  have "queue_step cfg ?s0 ?s1" by (rule queue_step.create) (simp_all add: empty_queue_def assms)
  moreover have "queue_step cfg ?s1 ?s2" by (rule queue_step.dispatch) (simp_all add: assms)
  moreover have "queue_step cfg ?s2 ?s3"
    by (rule queue_step.delete [of _ _ "begin_dispatch t t"]) (simp_all add: put_task_def begin_dispatch_def)
  ultimately have "(queue_step cfg)\<^sup>*\<^sup>* ?s0 ?s3" by (meson rtranclp.rtrancl_into_rtrancl rtranclp.rtrancl_refl)
  moreover have "queue_step cfg ?s3 ?s4" by (rule queue_step.answered) (simp add: put_task_def)
  moreover have "stored ?s3 ?n = Some (delete_task [] (begin_dispatch t t))" by (simp add: put_task_def)
  moreover have "stored ?s4 ?n = Some (finish_dispatch cfg 0 False [] 0 t (delete_task [] (begin_dispatch t t)))"
    by (simp add: put_task_def)
  ultimately show ?thesis
    by (intro exI [of _ ?s3] exI [of _ ?s4])
       (simp add: delete_task_def finish_dispatch_def record_attempt_def Let_def assms(1))
qed

section \<open>Properties\<close>



end
