(* ===== verification/Spec2Isabelle.thy ===== *)
theory Spec2Isabelle
  imports Pubsub_Push Armor_Policy Crc32c Port_Allocator Resource_Mutex Task_Dispatch
begin

text \<open>
  Kinglet is a local emulator of cloud services, written in TypeScript. Two of its parts carry most of
  the logic the rest relies on, and they are modelled here as they are written: the storage layer under
  \<open>src/src/core/storage\<close>, on which every service keeps its resources, and the request filter under
  \<open>src/src/services/compute/armor\<close>, which decides for every request of a load balancer whether it passes.
  Beside them stand Pub/Sub, a service built on the storage layer, with its resources, messages and push
  delivery, the shared checksum, port allocator and resource mutex, and the dispatch of Cloud Tasks.

  The parts and how they interact. A service talks to a resource repository; the repository turns names and
  prefixes into queries to the storage manager; the manager forwards them to a provider, keeps statistics and
  events and its view of the cache; the in-memory provider keeps the tables, with a least-recently-used cache
  in front. Pub/Sub keeps its topics, subscriptions, snapshots and schemas each in a resource repository, and its
  messages and their deliveries in two tables of the manager; its services look a resource up, check it and
  call the repositories, and its delivery engine posts due deliveries to the endpoints of push subscriptions. The
  request filter gets a plain description of a request, builds the attributes rules can see,
  walks the rules of a policy by priority, evaluates the expression of each, and applies rate limits.

  The theories, from the bottom up:

    \<^item> \<open>Js_Prelude\<close>, \<open>Js_Value\<close>: ordered maps with the insertion order of JavaScript, strings, decimal text;
      values, \<open>===\<close>, \<open>String(_)\<close>, \<open>JSON.stringify\<close>, dates, object spread.
    \<^item> \<open>Cache_Contract\<close>: the locale that says what the provider expects of a cache; it is interpreted on
      \<open>lru_get\<close>, \<open>lru_set\<close> and the other operations in \<open>Lru_Cache\<close>.
    \<^item> \<open>Lru_Cache\<close> (\<open>core/storage/cache/lru-cache.ts\<close>): entries with expiry, eviction by count and by
      estimated memory, cleanup, statistics.
    \<^item> \<open>Memory_Provider\<close> (\<open>core/storage/providers/memory.ts\<close>): tables, records, queries with filters, sorting
      and pages, bulk operations, transactions.
    \<^item> \<open>Storage_Manager\<close> (\<open>core/storage/manager.ts\<close>): every operation of the manager, with its cache accesses,
      events and statistics.
    \<^item> \<open>Resource_Repository\<close> (\<open>core/storage/resource-repository.ts\<close>, \<open>shared/utils/pagination.ts\<close>).
    \<^item> \<open>Storage_Rows\<close>: how the code above the manager uses it: a sequence of fallible calls, loops of calls,
      what each call does to the rows of its table and that it leaves the other tables alone, and the locale
      of a step that refines an operation on an abstract state.
    \<^item> \<open>Js_Json_Print\<close>: \<open>JSON.stringify\<close> on text and its inverse; \<open>Iso_Time\<close>: \<open>toISOString\<close>, whose text order is
      the order of the times.
    \<^item> \<open>Js_Json_Roundtrip\<close>: \<open>JSON.parse\<close> inverts \<open>JSON.stringify\<close> on the values it can produce; \<open>Durations\<close>
      (\<open>shared/utils/duration.ts\<close>).
    \<^item> \<open>Pubsub_Messages\<close> (\<open>services/pubsub/message-repository.ts\<close>): publishing with one delivery per
      subscription, pulling, acknowledging, deadlines, the queries of the delivery engine, clean-up, seeking.
    \<^item> \<open>Pubsub_Log\<close>: the abstract log of messages and deliveries, and that each method of the repository refines
      its operation on the log; \<open>Pubsub_Guarantees\<close>: what follows for a subscriber.
    \<^item> \<open>Pubsub_Masks\<close> (\<open>getNestedValue\<close>, \<open>setNestedValue\<close> and \<open>applyNestedSubUpdate\<close> of
      \<open>subscription-service.ts\<close>): paths into JSON columns as lenses, with the locale of their laws.
    \<^item> \<open>Pubsub_Resources\<close> (\<open>topic-service.ts\<close>, \<open>snapshot-service.ts\<close>, \<open>schema-service.ts\<close>, their repositories and
      \<open>types.ts\<close>), \<open>Pubsub_Subscriptions\<close> (\<open>subscription-service.ts\<close>, \<open>subscription-repository.ts\<close>): every method.
    \<^item> \<open>Pubsub_World\<close>: the abstract state, a map from names to records per resource and the log of messages, what
      it means that a store represents it, and a calculus of what each call does to it;
      \<open>Pubsub_Service_Facts\<close>, \<open>Pubsub_Promises\<close>: what the services promise on that state.
    \<^item> \<open>Pubsub_Delivery\<close> (\<open>delivery-engine.ts\<close>): the tick of the engine; \<open>Pubsub_Push\<close>: the contract of a batch of
      push deliveries, the backoff, and what a tick does.
    \<^item> \<open>Ip_Address\<close> (\<open>armor/request.ts\<close>): addresses, canonical form, block membership; IPv4 values are 32-bit
      words, IPv6 values unbounded integers as the code has them.
    \<^item> \<open>Js_Text\<close>, \<open>Js_Json\<close>: UTF-8, \<open>atob\<close>, percent decoding, \<open>decodeURIComponent\<close>, \<open>JSON.parse\<close>.
    \<^item> \<open>Armor_Types\<close> (\<open>armor/types.ts\<close>), \<open>Armor_Request\<close> (\<open>armor/request.ts\<close>): the data, and the attributes of a
      request with forms, JSON bodies and the inspection of a truncated body.
    \<^item> \<open>Armor_Lexer\<close>, \<open>Armor_Parser\<close>, \<open>Armor_Check\<close>, \<open>Armor_Eval\<close> (\<open>armor/expression.ts\<close>): tokens, the
      recursive-descent parser, the write-time checks, the evaluator.
    \<^item> \<open>Armor_Types_Sound\<close>, \<open>Armor_Phases\<close>: a type discipline for expressions, and what the body of a request
      can change.
    \<^item> \<open>Armor_Rate_Limit\<close> (\<open>armor/rate-limit.ts\<close>), \<open>Armor_Policy\<close> (\<open>armor/evaluate.ts\<close>).
    \<^item> \<open>Crc32c\<close> (\<open>shared/utils/crc32c.ts\<close>): the table, the loop over the bytes on 32-bit words, and the decimal
      and base64 forms.
    \<^item> \<open>Port_Allocator\<close> (\<open>shared/utils/port-allocator.ts\<close>): claims split at the \<open>await\<close> of the probe, so that
      several callers interleave; whether a port is listening is a parameter.
    \<^item> \<open>Resource_Mutex\<close> (\<open>shared/utils/resource-mutex.ts\<close>): the calls of \<open>runExclusively\<close> as interleaved steps of
      the event loop.
    \<^item> \<open>Task_Dispatch\<close> (\<open>services/tasks/token-bucket.ts\<close>, and of \<open>dispatch-engine.ts\<close> and \<open>task-service.ts\<close>
      the steps that change one task): the token bucket, the backoff, and the records a dispatch writes.

  State and errors. A class is a record of its fields and each method a function from the record to a result
  and the record; module-level maps are records too. The clock, generated identifiers and durations are
  arguments. A thrown error is the left side of a sum. An evaluation error is a value of its own type, which
  keeps the errors the code catches apart from those of the language.

  What the lemmas show. For the storage layer: the cache never changes what the provider returns; the manager
  returns what the plain provider returns; the repository is a map from names to records and its pages cover
  the listing; the cache keeps its bounds and evicts the least recently used entry. For the filter: printing
  and parsing of addresses, membership in blocks as equality of prefixes; tokens cover the source; the parser
  ends, with the right precedence; the checks accept exactly a declarative set of expressions; well-typed
  expressions never fail with a type error; rules of the header phase do not see the body; a window lets at
  most its limit through and a ban lasts; the enforced rule is the first match by priority.
  For Pub/Sub: what is published can be pulled from every subscription it was addressed to, what was pulled is
  reserved until its deadline, what was acknowledged is not delivered again; a publication reaches exactly the
  attached subscriptions of its topic; a detached or deleted subscription gets nothing; an update mask changes
  what it names, and through a nested path also a column that it may not name; a push delivery is acknowledged,
  tried again with a growing backoff, or dead-lettered, except that a zero minimum backoff stops the engine after
  1024 attempts.
  For the rest: the table-driven checksum is the bitwise one; under any interleaving no two callers hold the
  same port, operations of one resource never overlap and none waits in vain; a bucket lets no more requests out than its rate and its burst allow; what becomes of a task that
  is deleted while its request is under way.

  Bounds. The parser recurses with a fuel of one more than the number of tokens, and \<open>parse_or_total\<close> shows
  that this is enough; out of fuel is \<open>None\<close>, never a result. The scanner, the decoders, \<open>JSON.parse\<close> and the
  evaluator terminate by measures on the text or the tree; no other fuel is used.

  Domain. Numbers are exact rationals; those of the code are doubles, so texts with more significant digits
  than a double keeps are outside. Strings have 8-bit code units. A decoder that produces another character
  answers \<open>Beyond\<close>; the language's case and white space functions are known on ASCII. The engine for regular
  expressions (RE2) and the lookup of address groups are parameters. So are the identifiers that
  \<open>randomUUID\<close> gives and the order of \<open>localeCompare\<close>, of which the lemmas on Pub/Sub assume that it orders
  ISO timestamps as their characters do. What the Zod schemas of Pub/Sub accept of a request body, and the data
  they return, is the parameter \<open>validation\<close>, and what the endpoints of push subscriptions answer is a parameter
  of the tick. A value the services would convert in a way the model does not follow (a path of a mask
  through an array or an inherited name, a number that is not whole, a text that is not iterable as a list) ends in
  the error \<open>OutsideModel\<close>, which no theorem takes for an answer of the code. \<open>__proto__\<close> as the key of a map literal,
  and \<open>constructor\<close> and \<open>__proto__\<close> as configured header names, are outside.

  Not modelled: the gateway, discovery documents and gRPC, which translate between HTTP and handlers; the
  SQLite provider and the configuration of storage; the resource services (AlloyDB, Cloud SQL, Compute
  resources and the listener, KMS, Memorystore, network security, Scheduler, Secret Manager, Cloud
  Storage, Workflows), most of whose code validates and maps resources; of Pub/Sub the
  handlers, the gRPC service and the timer of the delivery engine; of Cloud Tasks the repositories, the
  queue service, the polling loop and the handlers; the Postgres data plane; logging;
  scripts, terraform fixtures and tests.
\<close>

end
